(* ===== verification/Prelude.thy ===== *)
theory Prelude
  imports Main "HOL-Library.Sublist"
begin

text \<open>
  Shared vocabulary of the development: Rust strings as byte lists, the \<^verbatim>\<open>str\<close> methods the
  program calls, and the generic lemmas about them that several components use.

  A Rust \<^verbatim>\<open>String\<close> is a sequence of UTF-8 bytes, and so is the HOL type \<open>string\<close> (a \<open>char\<close>
  is one byte); lengths, offsets and slices are byte counts in both.  \<^verbatim>\<open>trim\<close> and
  \<^verbatim>\<open>char::is_whitespace\<close> recognise the UTF-8 encodings of the 25 characters with the Unicode
  property White_Space.  \<^verbatim>\<open>to_lowercase\<close> is modelled on ASCII letters: it is exact on ASCII
  strings and leaves other bytes as they are.
\<close>

named_theorems text_simps \<open>rewrite rules for the string operations\<close>

type_synonym str = string

subsection \<open>Prefixes and suffixes\<close>

fun starts_with :: "str \<Rightarrow> str \<Rightarrow> bool" where
  "starts_with s [] = True"
| "starts_with [] (c # p) = False"
| "starts_with (d # s) (c # p) = (d = c \<and> starts_with s p)"

definition ends_with :: "str \<Rightarrow> str \<Rightarrow> bool" where
  "ends_with s p = starts_with (rev s) (rev p)"

definition strip_prefix :: "str \<Rightarrow> str \<Rightarrow> str option" where
  "strip_prefix s p = (if starts_with s p then Some (drop (length p) s) else None)"

definition strip_suffix :: "str \<Rightarrow> str \<Rightarrow> str option" where
  "strip_suffix s p =
     (if ends_with s p then Some (take (length s - length p) s) else None)"

lemma starts_with_iff_prefix: "starts_with s p = prefix p s"
  by (induction s p rule: starts_with.induct) auto

lemma starts_with_append [simp]: "starts_with (p @ s) p"
  by (simp add: starts_with_iff_prefix)

lemma starts_with_refl [simp]: "starts_with s s"
  by (simp add: starts_with_iff_prefix)

lemma starts_withD: "starts_with s p \<Longrightarrow> \<exists>r. s = p @ r"
  by (auto simp: starts_with_iff_prefix prefix_def)

lemma ends_with_iff_suffix: "ends_with s p = suffix p s"
  by (simp add: ends_with_def starts_with_iff_prefix suffix_to_prefix)

lemma strip_prefix_Some: "strip_prefix s p = Some r \<longleftrightarrow> s = p @ r"
  by (auto simp: strip_prefix_def starts_with_iff_prefix prefix_def)

lemma strip_prefix_None: "strip_prefix s p = None \<longleftrightarrow> \<not> starts_with s p"
  by (simp add: strip_prefix_def)

lemma strip_suffix_Some: "strip_suffix s p = Some r \<longleftrightarrow> s = r @ p"
  by (auto simp: strip_suffix_def ends_with_iff_suffix suffix_def)

subsection \<open>Searching, splitting, joining, replacing\<close>

text \<open>\<^verbatim>\<open>str::find\<close>: the offset of the first occurrence.\<close>

fun find_sub :: "str \<Rightarrow> str \<Rightarrow> nat option" where
  "find_sub [] p = (if p = [] then Some 0 else None)"
| "find_sub (c # s) p =
     (if starts_with (c # s) p then Some 0 else map_option Suc (find_sub s p))"

definition contains :: "str \<Rightarrow> str \<Rightarrow> bool" where
  "contains s p = (find_sub s p \<noteq> None)"

definition contains_char :: "str \<Rightarrow> char \<Rightarrow> bool" where
  "contains_char s c = (c \<in> set s)"

text \<open>\<^verbatim>\<open>str::split\<close> on any of a set of separator characters.\<close>

fun split_on :: "char list \<Rightarrow> str \<Rightarrow> str list" where
  "split_on seps [] = [[]]"
| "split_on seps (c # s) =
     (if c \<in> set seps then [] # split_on seps s
      else (case split_on seps s of [] \<Rightarrow> [[c]] | w # ws \<Rightarrow> (c # w) # ws))"

text \<open>\<^verbatim>\<open>str::split_once\<close>.\<close>

definition split_once :: "str \<Rightarrow> str \<Rightarrow> (str \<times> str) option" where
  "split_once s p =
     map_option (\<lambda>i. (take i s, drop (i + length p) s)) (find_sub s p)"

fun join :: "str \<Rightarrow> str list \<Rightarrow> str" where
  "join sep [] = []"
| "join sep [w] = w"
| "join sep (w # ws) = w @ sep @ join sep ws"

abbreviation join_words :: "str list \<Rightarrow> str" where
  "join_words \<equiv> join '' ''"

text \<open>\<^verbatim>\<open>str::replace\<close> with a non-empty pattern: left to right, without overlaps.\<close>

function replace :: "str \<Rightarrow> str \<Rightarrow> str \<Rightarrow> str" where
  "replace [] p r = []"
| "replace (c # s) p r =
     (if p \<noteq> [] \<and> starts_with (c # s) p then r @ replace (drop (length p) (c # s)) p r
      else c # replace s p r)"
  by pat_completeness auto
termination
  by (relation "measure (\<lambda>(s, p, r). length s)") (auto simp: Suc_le_eq)

lemma find_sub_Some_split:
  "find_sub s p = Some i \<Longrightarrow> i + length p \<le> length s \<and> s = take i s @ p @ drop (i + length p) s"
proof (induction s arbitrary: i)
  case Nil
  then show ?case by (simp split: if_splits)
next
  case (Cons c s)
  show ?case
  proof (cases "starts_with (c # s) p")
    case True
    with Cons.prems have "i = 0" by simp
    moreover obtain r where "c # s = p @ r" using starts_withD [OF True] by blast
    ultimately show ?thesis by simp
  next
    case False
    with Cons.prems obtain j where "find_sub s p = Some j" and "i = Suc j" by auto
    with Cons.IH [of j] show ?thesis by simp
  qed
qed

lemma find_sub_prefix: "starts_with s p \<Longrightarrow> find_sub s p = Some 0"
  by (cases s; cases p) auto

lemma contains_iff: "contains s p \<longleftrightarrow> (\<exists>a b. s = a @ p @ b)"
proof
  assume "contains s p"
  then obtain i where "find_sub s p = Some i" by (auto simp: contains_def)
  then show "\<exists>a b. s = a @ p @ b" using find_sub_Some_split by blast
next
  assume "\<exists>a b. s = a @ p @ b"
  then obtain a b where s: "s = a @ p @ b" by blast
  have "find_sub (a @ p @ b) p \<noteq> None"
  proof (induction a)
    case Nil
    show ?case using find_sub_prefix [of "p @ b" p] by simp
  next
    case (Cons x a)
    then show ?case by auto
  qed
  with s show "contains s p" by (simp add: contains_def)
qed

lemma split_on_nonempty [simp]: "split_on seps s \<noteq> []"
  by (induction s) (auto split: list.splits)

lemma split_on_no_sep: "w \<in> set (split_on seps s) \<Longrightarrow> set w \<inter> set seps = {}"
proof (induction s arbitrary: w)
  case Nil
  then show ?case by simp
next
  case (Cons c s)
  obtain v vs where v: "split_on seps s = v # vs" by (cases "split_on seps s") auto
  have free: "set u \<inter> set seps = {}" if "u \<in> set (v # vs)" for u
    using Cons.IH [of u] v that by simp
  show ?case
  proof (cases "c \<in> set seps")
    case True
    with Cons.prems v have "w = [] \<or> w \<in> set (v # vs)" by auto
    then show ?thesis using free by auto
  next
    case False
    with Cons.prems v have "w = c # v \<or> w \<in> set (v # vs)" by auto
    then show ?thesis using False free [of v] free [of w] by auto
  qed
qed

lemma split_once_Some: "split_once s p = Some (a, b) \<Longrightarrow> s = a @ p @ b"
  using find_sub_Some_split by (auto simp: split_once_def)


lemma length_join_ge: "w \<in> set ws \<Longrightarrow> length w \<le> length (join sep ws)"
  by (induction sep ws rule: join.induct) auto

lemma join_split_on: "join [c] (split_on [c] s) = s"
proof (induction s)
  case Nil
  then show ?case by simp
next
  case (Cons d s)
  obtain v vs where v: "split_on [c] s = v # vs" by (cases "split_on [c] s") auto
  with Cons show ?case by (cases vs) auto
qed

lemma split_on_append_sep:
  "c \<in> set seps \<Longrightarrow> set w \<inter> set seps = {} \<Longrightarrow> split_on seps (w @ c # s) = w # split_on seps s"
  by (induction w) auto

lemma split_on_plain: "set w \<inter> set seps = {} \<Longrightarrow> split_on seps w = [w]"
  by (induction w) auto

lemma split_on_join:
  "ws \<noteq> [] \<Longrightarrow> (\<And>w. w \<in> set ws \<Longrightarrow> c \<notin> set w) \<Longrightarrow> split_on [c] (join [c] ws) = ws"
proof (induction ws)
  case Nil
  then show ?case by simp
next
  case (Cons w ws)
  have w: "set w \<inter> set [c] = {}" using Cons.prems by simp
  show ?case
  proof (cases ws)
    case Nil
    with split_on_plain [OF w] show ?thesis by simp
  next
    case (Cons v vs)
    then have "split_on [c] (join [c] ws) = ws" using Cons.IH Cons.prems by simp
    with Cons split_on_append_sep [OF _ w, of c] show ?thesis by simp
  qed
qed

lemma set_join: "set (join [c] ws) \<subseteq> insert c (\<Union>w\<in>set ws. set w)"
  by (induction "[c]" ws rule: join.induct) auto

lemma set_split_on: "w \<in> set (split_on seps s) \<Longrightarrow> set w \<subseteq> set s"
proof (induction s arbitrary: w)
  case Nil
  then show ?case by simp
next
  case (Cons d s)
  obtain v vs where v: "split_on seps s = v # vs" by (cases "split_on seps s") auto
  with Cons.IH [of v] Cons.IH [of w] Cons.prems show ?case by (auto split: if_splits)
qed

subsection \<open>Characters\<close>

definition upper_letters :: str where
  "upper_letters = ''ABCDEFGHIJKLMNOPQRSTUVWXYZ''"

definition lower_letters :: str where
  "lower_letters = ''abcdefghijklmnopqrstuvwxyz''"

definition digit_letters :: str where
  "digit_letters = ''0123456789''"

definition is_ascii_digit :: "char \<Rightarrow> bool" where
  "is_ascii_digit c = (c \<in> set digit_letters)"

definition is_ascii_alphabetic :: "char \<Rightarrow> bool" where
  "is_ascii_alphabetic c = (c \<in> set upper_letters \<or> c \<in> set lower_letters)"

definition is_ascii_alphanumeric :: "char \<Rightarrow> bool" where
  "is_ascii_alphanumeric c = (is_ascii_alphabetic c \<or> is_ascii_digit c)"

definition to_ascii_lower :: "char \<Rightarrow> char" where
  "to_ascii_lower c =
     (case map_of (zip upper_letters lower_letters) c of Some d \<Rightarrow> d | None \<Rightarrow> c)"

definition to_lowercase :: "str \<Rightarrow> str" where
  "to_lowercase s = map to_ascii_lower s"

lemma letters_length: "length upper_letters = length lower_letters"
  by (simp add: upper_letters_def lower_letters_def)

lemma letters_disjoint: "set lower_letters \<inter> set upper_letters = {}"
  by (simp add: upper_letters_def lower_letters_def)

lemma to_ascii_lower_not_upper: "c \<notin> set upper_letters \<Longrightarrow> to_ascii_lower c = c"
  using map_of_zip_is_None [OF letters_length, of c] by (simp add: to_ascii_lower_def)

lemma to_ascii_lower_range: "to_ascii_lower c \<notin> set upper_letters"
proof (cases "map_of (zip upper_letters lower_letters) c")
  case None
  then have "c \<notin> set upper_letters" using map_of_zip_is_None [OF letters_length] by metis
  then show ?thesis by (simp add: to_ascii_lower_not_upper)
next
  case (Some d)
  then have "d \<in> set lower_letters" by (blast dest: map_of_SomeD set_zip_rightD)
  then have "d \<notin> set upper_letters" using letters_disjoint by blast
  then show ?thesis using Some by (simp add: to_ascii_lower_def)
qed

lemma to_ascii_lower_idem [simp]: "to_ascii_lower (to_ascii_lower c) = to_ascii_lower c"
  by (rule to_ascii_lower_not_upper) (rule to_ascii_lower_range)

lemma to_lowercase_idem [simp]: "to_lowercase (to_lowercase s) = to_lowercase s"
  by (simp add: to_lowercase_def)

lemma to_lowercase_append [text_simps]:
  "to_lowercase (s @ t) = to_lowercase s @ to_lowercase t"
  by (simp add: to_lowercase_def)

subsection \<open>Trimming\<close>

fun trim_start_by :: "(char \<Rightarrow> bool) \<Rightarrow> str \<Rightarrow> str" where
  "trim_start_by P [] = []"
| "trim_start_by P (c # s) = (if P c then trim_start_by P s else c # s)"

definition trim_end_by :: "(char \<Rightarrow> bool) \<Rightarrow> str \<Rightarrow> str" where
  "trim_end_by P s = rev (trim_start_by P (rev s))"

abbreviation trim_end_char :: "char \<Rightarrow> str \<Rightarrow> str" where
  "trim_end_char c \<equiv> trim_end_by (\<lambda>d. d = c)"

lemma trim_start_by_dropWhile: "trim_start_by P s = dropWhile P s"
  by (induction s) auto

lemma trim_end_by_idem [simp]: "trim_end_by P (trim_end_by P s) = trim_end_by P s"
  by (simp add: trim_end_by_def trim_start_by_dropWhile)

lemma trim_end_by_last: "trim_end_by P s = [] \<or> \<not> P (last (trim_end_by P s))"
  using hd_dropWhile [of P "rev s"]
  by (auto simp: trim_end_by_def trim_start_by_dropWhile last_rev)

text \<open>
  The UTF-8 encodings of the Unicode White_Space characters: U+0009..U+000D, U+0020, U+0085,
  U+00A0, U+1680, U+2000..U+200A, U+2028, U+2029, U+202F, U+205F, U+3000.
\<close>

definition ws_encodings :: "str list" where
  "ws_encodings =
    [[CHR 0x09], [CHR 0x0A], [CHR 0x0B], [CHR 0x0C], [CHR 0x0D], [CHR 0x20],
     [CHR 0xC2, CHR 0x85], [CHR 0xC2, CHR 0xA0], [CHR 0xE1, CHR 0x9A, CHR 0x80],
     [CHR 0xE2, CHR 0x80, CHR 0x80], [CHR 0xE2, CHR 0x80, CHR 0x81],
     [CHR 0xE2, CHR 0x80, CHR 0x82], [CHR 0xE2, CHR 0x80, CHR 0x83],
     [CHR 0xE2, CHR 0x80, CHR 0x84], [CHR 0xE2, CHR 0x80, CHR 0x85],
     [CHR 0xE2, CHR 0x80, CHR 0x86], [CHR 0xE2, CHR 0x80, CHR 0x87],
     [CHR 0xE2, CHR 0x80, CHR 0x88], [CHR 0xE2, CHR 0x80, CHR 0x89],
     [CHR 0xE2, CHR 0x80, CHR 0x8A], [CHR 0xE2, CHR 0x80, CHR 0xA8],
     [CHR 0xE2, CHR 0x80, CHR 0xA9], [CHR 0xE2, CHR 0x80, CHR 0xAF],
     [CHR 0xE2, CHR 0x81, CHR 0x9F], [CHR 0xE3, CHR 0x80, CHR 0x80]]"

definition ws_prefix :: "str list \<Rightarrow> str \<Rightarrow> nat" where
  "ws_prefix encs s =
     (case find (starts_with s) encs of None \<Rightarrow> 0 | Some w \<Rightarrow> length w)"

fun trim_ws :: "nat \<Rightarrow> str list \<Rightarrow> str \<Rightarrow> str" where
  "trim_ws 0 encs s = s"
| "trim_ws (Suc n) encs s =
     (let k = ws_prefix encs s in if k = 0 then s else trim_ws n encs (drop k s))"

text \<open>Every step removes at least one byte, so \<open>length s\<close> rounds are enough.\<close>

definition trim_start :: "str \<Rightarrow> str" where
  "trim_start s = trim_ws (length s) ws_encodings s"

definition trim_end :: "str \<Rightarrow> str" where
  "trim_end s = rev (trim_ws (length s) (map rev ws_encodings) (rev s))"

definition trim :: "str \<Rightarrow> str" where
  "trim s = trim_end (trim_start s)"

lemma trim_ws_suffix: "suffix (trim_ws n encs s) s"
proof (induction n arbitrary: s)
  case 0
  then show ?case by simp
next
  case (Suc n)
  then show ?case
    by (auto simp: Let_def) (metis suffix_drop suffix_order.trans)
qed

lemma trim_ws_done:
  "length s \<le> n \<Longrightarrow> ws_prefix encs (trim_ws n encs s) = 0 \<or> trim_ws n encs s = []"
proof (induction n arbitrary: s)
  case 0
  then show ?case by simp
next
  case (Suc n)
  then show ?case by (auto simp: Let_def)
qed

subsection \<open>Characters of a UTF-8 string\<close>

text \<open>
  \<^verbatim>\<open>str::chars\<close>: a character is the slice of its bytes, whose number the lead byte gives.
\<close>

definition utf8_len :: "char \<Rightarrow> nat" where
  "utf8_len c =
     (let n = (of_char c :: nat)
      in if n < 192 then 1 else if n < 224 then 2 else if n < 240 then 3 else 4)"

lemma utf8_len_pos [simp]: "0 < utf8_len c"
  by (simp add: utf8_len_def Let_def)

function chars :: "str \<Rightarrow> str list" where
  "chars [] = []"
| "chars (c # s) = take (utf8_len c) (c # s) # chars (drop (utf8_len c) (c # s))"
  by pat_completeness auto
termination
  by (relation "measure length") (auto simp: diff_less_Suc)

lemma concat_chars [simp]: "concat (chars s) = s"
  by (induction s rule: chars.induct) auto

definition is_whitespace :: "str \<Rightarrow> bool" where
  "is_whitespace ch = (ch \<in> set ws_encodings)"

text \<open>\<^verbatim>\<open>str::is_char_boundary\<close>: the ends, and every byte that is not a continuation byte.\<close>

definition is_char_boundary :: "str \<Rightarrow> nat \<Rightarrow> bool" where
  "is_char_boundary s i =
     (i = 0 \<or> i = length s \<or>
      (i < length s \<and> (let n = (of_char (s ! i) :: nat) in n < 128 \<or> 192 \<le> n)))"

subsection \<open>Lists related element by element\<close>

lemma list_all2_left: "list_all2 P xs ys \<Longrightarrow> x \<in> set xs \<Longrightarrow> \<exists>y\<in>set ys. P x y"
  by (induction rule: list_all2_induct) auto

lemma list_all2_right: "list_all2 P xs ys \<Longrightarrow> y \<in> set ys \<Longrightarrow> \<exists>x\<in>set xs. P x y"
  by (induction rule: list_all2_induct) auto

lemma set_map_filter: "set (List.map_filter f xs) = {y. \<exists>x\<in>set xs. f x = Some y}"
  by (induction xs) (auto simp: map_filter_simps split: option.splits)

subsection \<open>Options\<close>

definition then_some :: "bool \<Rightarrow> 'a \<Rightarrow> 'a option" where
  "then_some b x = (if b then Some x else None)"

definition or_else :: "'a option \<Rightarrow> 'a option \<Rightarrow> 'a option" where
  "or_else a b = (case a of None \<Rightarrow> b | Some _ \<Rightarrow> a)"

definition filter_option :: "('a \<Rightarrow> bool) \<Rightarrow> 'a option \<Rightarrow> 'a option" where
  "filter_option P a = (case a of Some x \<Rightarrow> if P x then Some x else None | None \<Rightarrow> None)"

definition is_some_and :: "('a \<Rightarrow> bool) \<Rightarrow> 'a option \<Rightarrow> bool" where
  "is_some_and P a = (case a of Some x \<Rightarrow> P x | None \<Rightarrow> False)"

definition nth_opt :: "'a list \<Rightarrow> nat \<Rightarrow> 'a option" where
  "nth_opt xs i = (if i < length xs then Some (xs ! i) else None)"

definition first_opt :: "'a list \<Rightarrow> 'a option" where
  "first_opt xs = (case xs of [] \<Rightarrow> None | x # _ \<Rightarrow> Some x)"

definition last_opt :: "'a list \<Rightarrow> 'a option" where
  "last_opt xs = (if xs = [] then None else Some (last xs))"

lemma nth_opt_Some: "nth_opt xs i = Some x \<longleftrightarrow> i < length xs \<and> xs ! i = x"
  by (auto simp: nth_opt_def)

lemma is_some_and_iff: "is_some_and P a \<longleftrightarrow> (\<exists>x. a = Some x \<and> P x)"
  by (auto simp: is_some_and_def split: option.splits)

text \<open>A \<^verbatim>\<open>HashSet\<close> of strings in its (unspecified) iteration order; insertion keeps it distinct.\<close>

definition set_insert :: "'a \<Rightarrow> 'a list \<Rightarrow> 'a list" where
  "set_insert x xs = (if x \<in> set xs then xs else x # xs)"

lemma set_set_insert [simp]: "set (set_insert x xs) = insert x (set xs)"
  by (auto simp: set_insert_def)

lemma distinct_set_insert [simp]: "distinct (set_insert x xs) = distinct xs"
  by (auto simp: set_insert_def)

subsection \<open>Invariants of step relations\<close>

text \<open>
  The interface of a state machine with an invariant: it holds at the start and every step keeps
  it.  A client then has it in every state that any sequence of steps reaches.
\<close>

locale invariant_of =
  fixes start :: 's and step :: "'s \<Rightarrow> 's \<Rightarrow> bool" and inv :: "'s \<Rightarrow> bool"
  assumes inv_start: "inv start"
    and inv_step: "inv s \<Longrightarrow> step s s' \<Longrightarrow> inv s'"
begin

lemma inv_from: "step\<^sup>*\<^sup>* s s' \<Longrightarrow> inv s \<Longrightarrow> inv s'"
  by (induction rule: rtranclp_induct) (auto intro: inv_step)

lemma inv_reachable: "step\<^sup>*\<^sup>* start s \<Longrightarrow> inv s"
  using inv_from inv_start by blast

end

end
