(* ===== verification/Externals.thy ===== *)
theory Externals
  imports Prelude
begin

text \<open>
  What the program calls and does not contain: the tree-sitter bash parser, the \<^verbatim>\<open>glob\<close>,
  \<^verbatim>\<open>url\<close> and \<^verbatim>\<open>serde_json\<close> crates and the file system.  They are the fields of the record \<open>world\<close>, an argument
  of every definition that uses one of them; nothing is assumed about them here.  The theory also
  fixes the data these libraries exchange with the program: syntax trees and the work-list loop
  over them that the permission code writes again and again, parsed URLs, Unix paths, JSON values.
\<close>

subsection \<open>Syntax trees\<close>

text \<open>
  A tree-sitter node: its kind, whether it is a named node, its byte range in the source, the
  field it fills in its parent and its children (named and anonymous) in source order.
\<close>

datatype node =
  Node (kind: str) (is_named: bool) (start_byte: nat) (end_byte: nat)
    (in_field: "str option") (children: "node list")

record tree =
  root_node :: node
  has_error :: bool

fun node_count :: "node \<Rightarrow> nat" where
  "node_count (Node k nm s e f cs) = Suc (sum_list (map node_count cs))"

definition child_count :: "node \<Rightarrow> nat" where
  "child_count n = length (children n)"

definition child :: "node \<Rightarrow> nat \<Rightarrow> node option" where
  "child n i = nth_opt (children n) i"

definition named_children :: "node \<Rightarrow> node list" where
  "named_children n = filter is_named (children n)"

definition named_child :: "node \<Rightarrow> nat \<Rightarrow> node option" where
  "named_child n i = nth_opt (named_children n) i"

definition child_by_field_name :: "node \<Rightarrow> str \<Rightarrow> node option" where
  "child_by_field_name n f = find (\<lambda>c. in_field c = Some f) (children n)"

definition utf8_text :: "node \<Rightarrow> str \<Rightarrow> str" where
  "utf8_text n src = take (end_byte n - start_byte n) (drop (start_byte n) src)"

text \<open>
  A position is the list of child indices from the root, innermost first; \<open>node_at\<close> finds the
  node again, so that parents and siblings are available as they are in tree-sitter.
\<close>

type_synonym pos = "nat list"

fun node_at :: "node \<Rightarrow> pos \<Rightarrow> node option" where
  "node_at root [] = Some root"
| "node_at root (i # p) = Option.bind (node_at root p) (\<lambda>n. child n i)"

definition children_at :: "pos \<times> node \<Rightarrow> (pos \<times> node) list" where
  "children_at pn = map (\<lambda>(i, c). (i # fst pn, c)) (List.enumerate 0 (children (snd pn)))"

text \<open>
  The loop \<open>while let Some(node) = stack.pop()\<close> of the program, as the list of nodes in the order
  in which they are popped (the head of the list is the top of the stack).  \<open>descend\<close> tells
  whether the children of a node are pushed; \<open>in_order\<close> whether they are pushed in reverse, so
  that the first child is popped first, or as they are, so that the last one is.
\<close>

function walk_stack :: "(node \<Rightarrow> bool) \<Rightarrow> bool \<Rightarrow> (pos \<times> node) list \<Rightarrow> (pos \<times> node) list" where
  "walk_stack descend in_order [] = []"
| "walk_stack descend in_order (pn # stack) =
     pn # walk_stack descend in_order
       ((if descend (snd pn)
         then (if in_order then children_at pn else rev (children_at pn))
         else []) @ stack)"
  by pat_completeness auto

lemma node_count_children: "node_count n = Suc (sum_list (map node_count (children n)))"
  by (cases n) simp

lemma map_snd_children_at [simp]: "map snd (children_at pn) = children (snd pn)"
proof -
  have "map snd (children_at pn) = map snd (List.enumerate 0 (children (snd pn)))"
    by (simp add: children_at_def case_prod_unfold comp_def)
  then show ?thesis by simp
qed

lemma node_count_children_at:
  "sum_list (map (node_count \<circ> snd) (children_at pn)) = sum_list (map node_count (children (snd pn)))"
  by (simp flip: map_snd_children_at)

termination walk_stack
proof (relation "measure (\<lambda>(d, b, st). sum_list (map (node_count \<circ> snd) st))")
  fix d b and pn :: "pos \<times> node" and st
  have "sum_list (map (node_count \<circ> snd) (children_at pn)) < node_count (snd pn)"
    unfolding node_count_children_at by (subst node_count_children) (rule lessI)
  moreover have "sum_list (map (node_count \<circ> snd) (rev (children_at pn)))
      = sum_list (map (node_count \<circ> snd) (children_at pn))"
    by (metis rev_map sum_list_rev)
  ultimately show "((d, b, (if d (snd pn)
         then (if b then children_at pn else rev (children_at pn)) else []) @ st), d, b, pn # st)
      \<in> measure (\<lambda>(d, b, st). sum_list (map (node_count \<circ> snd) st))"
    by simp
qed simp

definition walk_from :: "(node \<Rightarrow> bool) \<Rightarrow> bool \<Rightarrow> node \<Rightarrow> (pos \<times> node) list" where
  "walk_from descend in_order root = walk_stack descend in_order [([], root)]"

text \<open>The common case: every node, the last child of a node before the others.\<close>

definition walk :: "node \<Rightarrow> node list" where
  "walk root = map snd (walk_from (\<lambda>_. True) False root)"

text \<open>What the loop visits, independently of the order.\<close>

fun subnodes :: "node \<Rightarrow> node list" where
  "subnodes (Node k nm s e f cs) = Node k nm s e f cs # concat (map subnodes cs)"

lemma set_subnodes: "set (subnodes n) = insert n (\<Union>c\<in>set (children n). set (subnodes c))"
  by (cases n) simp

lemma walk_stack_all_Cons:
  "walk_stack (\<lambda>_. True) b (pn # st) =
     pn # walk_stack (\<lambda>_. True) b ((if b then children_at pn else rev (children_at pn)) @ st)"
  by simp

lemma snd_children_at [simp]: "snd ` set (children_at pn) = set (children (snd pn))"
  by (metis map_snd_children_at set_map)

lemma set_walk_stack_all:
  "snd ` set (walk_stack (\<lambda>_. True) b st) = (\<Union>n\<in>snd ` set st. set (subnodes n))"
proof (induction "sum_list (map (node_count \<circ> snd) st)" arbitrary: st rule: less_induct)
  case less
  show ?case
  proof (cases st)
    case Nil
    then show ?thesis by simp
  next
    case (Cons pn st')
    let ?kids = "if b then children_at pn else rev (children_at pn)"
    have "sum_list (map (node_count \<circ> snd) ?kids) = sum_list (map node_count (children (snd pn)))"
      by (simp add: node_count_children_at rev_map [symmetric] sum_list_rev)
    also have "\<dots> < node_count (snd pn)"
      by (subst node_count_children) (rule lessI)
    finally have "sum_list (map (node_count \<circ> snd) (?kids @ st')) < sum_list (map (node_count \<circ> snd) st)"
      unfolding Cons by (simp only: map_append sum_list_append list.map sum_list.Cons comp_apply add_less_cancel_right)
    from less.hyps [OF this]
    have "snd ` set (walk_stack (\<lambda>_. True) b (?kids @ st'))
        = (\<Union>n\<in>snd ` set (?kids @ st'). set (subnodes n))" .
    moreover have "snd ` set (?kids @ st') = set (children (snd pn)) \<union> snd ` set st'"
      by (simp add: image_Un)
    ultimately show ?thesis
      unfolding Cons walk_stack_all_Cons
      by (simp only: list.set image_insert UN_Un UN_insert set_subnodes [of "snd pn"] Un_insert_left)
        auto
  qed
qed

lemma set_walk [simp]: "set (walk root) = set (subnodes root)"
proof -
  have "set (walk root) = snd ` set (walk_stack (\<lambda>_. True) False [([], root)])"
    unfolding walk_def walk_from_def by (simp only: set_map)
  then show ?thesis unfolding set_walk_stack_all by simp
qed

lemma subnodes_self [simp]: "n \<in> set (subnodes n)"
  by (cases n) simp

lemma subnodes_child: "c \<in> set (children n) \<Longrightarrow> set (subnodes c) \<subseteq> set (subnodes n)"
  by (cases n) auto

subsection \<open>Globs, URLs\<close>

record match_options =
  case_sensitive :: bool
  require_literal_separator :: bool
  require_literal_leading_dot :: bool

text \<open>A compiled \<^verbatim>\<open>glob::Pattern\<close>, by what \<^verbatim>\<open>matches_with\<close> answers.\<close>

type_synonym glob = "match_options \<Rightarrow> str \<Rightarrow> bool"

record url =
  host_str :: "str option"
  url_path :: str

subsection \<open>Unix paths\<close>

datatype component = CurDir | ParentDir | Normal str

text \<open>A path by its \<^verbatim>\<open>components()\<close>, after the root if it is absolute.\<close>

record path =
  absolute :: bool
  comps :: "component list"

definition component_of :: "str \<Rightarrow> component" where
  "component_of w = (if w = ''.'' then CurDir else if w = ''..'' then ParentDir else Normal w)"

text \<open>\<^verbatim>\<open>components()\<close> drops empty and \<open>.\<close> segments, except a \<open>.\<close> that opens a relative path.\<close>

definition path_of :: "str \<Rightarrow> path" where
  "path_of s =
     (let a = starts_with s ''/''; ws = split_on ''/'' s;
          keep = filter (\<lambda>w. w \<noteq> [] \<and> w \<noteq> ''.'') ws
      in \<lparr>absolute = a,
          comps = (if \<not> a \<and> hd ws = ''.'' then [CurDir] else []) @ map component_of keep\<rparr>)"

fun component_str :: "component \<Rightarrow> str" where
  "component_str CurDir = ''.''"
| "component_str ParentDir = ''..''"
| "component_str (Normal w) = w"

definition path_str :: "path \<Rightarrow> str" where
  "path_str p = (if absolute p then ''/'' else []) @ join ''/'' (map component_str (comps p))"

text \<open>\<^verbatim>\<open>Path::join\<close> on the text of the paths.\<close>

definition join_str :: "str \<Rightarrow> str \<Rightarrow> str" where
  "join_str base p =
     (if starts_with p ''/'' then p
      else if base = [] \<or> ends_with base ''/'' then base @ p
      else base @ ''/'' @ p)"

definition path_join :: "path \<Rightarrow> path \<Rightarrow> path" where
  "path_join base p =
     (if absolute p then p else base\<lparr>comps := comps base @ filter (\<lambda>c. c \<noteq> CurDir) (comps p)\<rparr>)"

definition parent :: "path \<Rightarrow> path option" where
  "parent p = (if comps p = [] then None else Some (p\<lparr>comps := butlast (comps p)\<rparr>))"

definition file_name :: "path \<Rightarrow> component option" where
  "file_name p =
     (case last_opt (comps p) of Some (Normal w) \<Rightarrow> Some (Normal w) | _ \<Rightarrow> None)"

subsection \<open>JSON values\<close>

datatype json =
  JNull | JBool bool | JInt int | JFloat str | JStr str | JArr "json list"
  | JObj "(str \<times> json) list"

fun json_get :: "json \<Rightarrow> str \<Rightarrow> json option" where
  "json_get (JObj kvs) k = map_of kvs k"
| "json_get _ k = None"

fun as_bool :: "json \<Rightarrow> bool option" where
  "as_bool (JBool b) = Some b"
| "as_bool _ = None"

fun as_str :: "json \<Rightarrow> str option" where
  "as_str (JStr s) = Some s"
| "as_str _ = None"

subsection \<open>The world\<close>

record world =
  parse_shell :: "str \<Rightarrow> tree option"
  glob_new :: "str \<Rightarrow> glob option"
  url_parse :: "str \<Rightarrow> url option"
  canonicalize :: "path \<Rightarrow> path option"
  link_status :: "path \<Rightarrow> bool option"
  read_link :: "path \<Rightarrow> path option"
  json_parse :: "str \<Rightarrow> json option"
  json_print :: "json \<Rightarrow> str"

text \<open>\<^verbatim>\<open>try_parse_shell\<close> hands the source to the parser and returns what it returns.\<close>

definition try_parse_shell :: "world \<Rightarrow> str \<Rightarrow> tree option" where
  "try_parse_shell w src = parse_shell w src"

subsection \<open>An example world\<close>

text \<open>
  A concrete world on which the theorems about any world can be tried out: its parser knows the
  scripts made of words, blanks and semicolons, its globs match literally, its file system has no
  symbolic links.
\<close>

fun example_words :: "nat \<Rightarrow> str list \<Rightarrow> node list" where
  "example_words i [] = []"
| "example_words i (w # ws) =
     (if w = [] then [] else [Node ''word'' True i (i + length w) None []])
       @ example_words (i + length w + 1) ws"

definition example_command :: "nat \<Rightarrow> str \<Rightarrow> node list" where
  "example_command i s =
     (case example_words i (split_on '' '' s) of
        [] \<Rightarrow> []
      | n # ns \<Rightarrow>
          [Node ''command'' True (start_byte n) (end_byte (last (n # ns))) None
             (Node ''command_name'' True (start_byte n) (end_byte n) (Some ''name'') [n] # ns)])"

fun example_list :: "nat \<Rightarrow> str list \<Rightarrow> node list" where
  "example_list i [] = []"
| "example_list i [s] = example_command i s"
| "example_list i (s # ss) =
     example_command i s
       @ [Node '';'' False (i + length s) (i + length s + 1) None []]
       @ example_list (i + length s + 1) ss"

definition example_parser :: "str \<Rightarrow> tree option" where
  "example_parser s =
     Some \<lparr>root_node = Node ''program'' True 0 (length s) None (example_list 0 (split_on '';'' s)),
           has_error = False\<rparr>"

definition example_world :: world where
  "example_world =
     \<lparr>parse_shell = example_parser,
      glob_new = (\<lambda>p. Some (\<lambda>_ s. s = p)),
      url_parse = (\<lambda>s. Some \<lparr>host_str = Some s, url_path = ''/''\<rparr>),
      canonicalize = (\<lambda>p. Some p),
      link_status = (\<lambda>_. Some False),
      read_link = (\<lambda>_. None),
      json_parse = (\<lambda>s. if s = ''true'' then Some (JBool True) else None),
      json_print = (\<lambda>_. ''{}'')\<rparr>"

lemmas example_world_defs =
  example_world_def example_parser_def example_command_def

end
