(* ===== verification/Permission_Types.thy ===== *)
theory Permission_Types
  imports Externals
begin

text \<open>
  The vocabulary of the permission subsystem (\<^verbatim>\<open>xai-grok-workspace/src/permission/types.rs\<close> and
  the persisted state of \<^verbatim>\<open>state.rs\<close>): what a tool call wants to access, what may be decided
  about it, the policy rules, and the grants a user has given.  Constructors that several enums of
  the source share carry the enum as a prefix.
\<close>

datatype access_kind =
  AccessRead "str option"
| AccessGrep "str option" "str option"
| AccessEdit str
| AccessBash str
| AccessMCPTool str json
| AccessWebFetch str
| AccessWebSearch str

datatype decision =
  Allow
| Ask
| FollowupMessage str
| Reject str
| PolicyDeny str
| Cancelled

datatype edit_policy = EditAsk | EditAllow | EditReject

datatype prompt_policy = PromptAsk | PromptDeny | PromptAuto

datatype pattern_mode = Glob | Domain

datatype rule_action = RuleAllow | RuleDeny | RuleAsk

datatype tool_filter =
  ToolAny | ToolBash | ToolEdit | ToolRead | ToolGrep | ToolMcp | ToolWebFetch | ToolWebSearch

record permission_rule =
  action :: rule_action
  tool :: tool_filter
  pattern :: "str option"
  pattern_mode :: pattern_mode

record permission_config =
  rules :: "permission_rule list"
  prompt_policy :: prompt_policy

definition new_config :: "permission_rule list \<Rightarrow> permission_config" where
  "new_config rs = \<lparr>rules = rs, prompt_policy = PromptAsk\<rparr>"

datatype requirement_source =
  SrcUnknown
| SrcRequirements str
| SrcSystemRequirements str
| SrcManagedSettings str
| SrcManagedConfig str
| SrcConfig str
| SrcSettings str

record 'a sourced =
  sourced_value :: 'a
  sourced_from :: requirement_source

datatype client_type =
  Generic | GrokTUI | GrokWeb | Nebula | Extension | GrokPager | Desktop

fun from_client_identifier :: "str option \<Rightarrow> client_type" where
  "from_client_identifier None = Generic"
| "from_client_identifier (Some s) =
     (if s = ''grok-web'' then GrokWeb
      else if s = ''nebula'' then Nebula
      else if s = ''grok-code-extension'' then Extension
      else if s = ''grok-desktop'' then Desktop
      else if s = ''grok-pager'' then GrokPager
      else Generic)"

text \<open>
  The persisted grants.  Each \<^verbatim>\<open>HashSet\<close> is a list in the set's iteration order, which Rust leaves
  unspecified: only the text of one rejection message depends on it.
\<close>

record permission_state =
  edit_policy :: edit_policy
  allow_bash_execute :: bool
  allowed_bash_commands :: "str list"
  disallowed_bash_commands :: "str list"
  allowed_web_fetch_domains :: "str list"
  allowed_mcp_tools :: "str list"
  allowed_mcp_servers :: "str list"

definition default_state :: permission_state where
  "default_state =
     \<lparr>edit_policy = EditAsk, allow_bash_execute = False, allowed_bash_commands = [],
      disallowed_bash_commands = [], allowed_web_fetch_domains = [], allowed_mcp_tools = [],
      allowed_mcp_servers = []\<rparr>"

subsection \<open>Combining decisions\<close>

text \<open>
  \<^verbatim>\<open>decision_rank\<close> and \<^verbatim>\<open>combine_decisions\<close> (at the end of \<^verbatim>\<open>shell_access.rs\<close>): the stronger of
  two outcomes wins, the first one on a tie.
\<close>

fun decision_rank :: "decision \<Rightarrow> nat" where
  "decision_rank (Reject _) = 3"
| "decision_rank (PolicyDeny _) = 3"
| "decision_rank Ask = 2"
| "decision_rank Allow = 1"
| "decision_rank _ = 0"

fun combine_decisions :: "decision option \<Rightarrow> decision option \<Rightarrow> decision option" where
  "combine_decisions None b = b"
| "combine_decisions a None = a"
| "combine_decisions (Some a) (Some b) =
     Some (if decision_rank b \<le> decision_rank a then a else b)"

text \<open>
  The interface the gates rely on: a gate folds the outcomes of its parts with an operation that
  has a neutral element, is associative, chooses one of its two arguments and never loses
  strength.  A client only needs these laws to know that a fold is as strong as its strongest
  part, whatever the order of the parts.
\<close>

locale outcome_combiner =
  fixes comb :: "'o option \<Rightarrow> 'o option \<Rightarrow> 'o option"
    and strength :: "'o option \<Rightarrow> nat"
  assumes comb_None_left: "comb None b = b"
    and comb_None_right: "comb a None = a"
    and comb_assoc: "comb (comb a b) c = comb a (comb b c)"
    and comb_choice: "comb a b = a \<or> comb a b = b"
    and comb_strength: "strength (comb a b) = max (strength a) (strength b)"
begin

lemma fold_strength:
  "strength (fold (\<lambda>b a. comb a b) bs a) = Max (insert (strength a) (strength ` set bs))"
proof (induction bs arbitrary: a)
  case Nil
  then show ?case by simp
next
  case (Cons b bs)
  then show ?case by (cases "bs = []") (auto simp: comb_strength max.assoc max.left_commute)
qed

lemma fold_strength_ge:
  "b \<in> set bs \<Longrightarrow> strength b \<le> strength (fold (\<lambda>b a. comb a b) bs a)"
  unfolding fold_strength by (rule Max_ge) auto

lemma fold_strength_init: "strength a \<le> strength (fold (\<lambda>b a. comb a b) bs a)"
  unfolding fold_strength by (rule Max_ge) auto

lemma fold_choice: "fold (\<lambda>b a. comb a b) bs a \<in> insert a (set bs)"
proof (induction bs arbitrary: a)
  case Nil
  then show ?case by simp
next
  case (Cons b bs)
  have "fold (\<lambda>b a. comb a b) bs (comb a b) \<in> insert (comb a b) (set bs)" by (rule Cons.IH)
  then show ?case using comb_choice [of a b] by auto
qed

lemma fold_strength_set:
  "set bs = set cs \<Longrightarrow>
   strength (fold (\<lambda>b a. comb a b) bs a) = strength (fold (\<lambda>b a. comb a b) cs a)"
  by (simp add: fold_strength)

end

text \<open>Strength of an optional decision: one more than its rank, and 0 for no opinion.\<close>

fun outcome_strength :: "decision option \<Rightarrow> nat" where
  "outcome_strength None = 0"
| "outcome_strength (Some d) = Suc (decision_rank d)"

interpretation dc: outcome_combiner combine_decisions outcome_strength
proof unfold_locales
  fix a b c :: "decision option"
  show "combine_decisions None b = b" by simp
  show "combine_decisions a None = a" by (cases a) simp_all
  show "combine_decisions (combine_decisions a b) c = combine_decisions a (combine_decisions b c)"
    by (cases a; cases b; cases c) simp_all
  show "combine_decisions a b = a \<or> combine_decisions a b = b"
    by (cases a; cases b) simp_all
  show "outcome_strength (combine_decisions a b) = max (outcome_strength a) (outcome_strength b)"
    by (cases a; cases b) simp_all
qed

declare dc.comb_None_left [simp] and dc.comb_None_right [simp]

subsection \<open>Escalation\<close>

text \<open>
  An escalating outcome restricts or has no opinion: it never allows.  The shell gates promise
  only such outcomes, which is why they can run in front of the auto-approving fast paths.
\<close>

definition escalates :: "decision option \<Rightarrow> bool" where
  "escalates d = (d = None \<or> d = Some Ask \<or> (\<exists>r. d = Some (Reject r)))"

lemma escalates_None [simp]: "escalates None"
  and escalates_Ask [simp]: "escalates (Some Ask)"
  and escalates_Reject [simp]: "escalates (Some (Reject r))"
  and escalates_Allow [simp]: "\<not> escalates (Some Allow)"
  by (simp_all add: escalates_def)

lemma escalates_combine [intro]:
  "escalates a \<Longrightarrow> escalates b \<Longrightarrow> escalates (combine_decisions a b)"
  using dc.comb_choice [of a b] by auto

lemma combine_is_Reject:
  "escalates a \<Longrightarrow> escalates b \<Longrightarrow>
   (\<exists>r. combine_decisions a b = Some (Reject r)) \<longleftrightarrow>
   (\<exists>r. a = Some (Reject r)) \<or> (\<exists>r. b = Some (Reject r))"
  by (auto simp: escalates_def)

lemma combine_is_None: "combine_decisions a b = None \<longleftrightarrow> a = None \<and> b = None"
  by (cases a; cases b) auto

text \<open>What a policy says of an access itself: an escalating outcome or a plain allow.\<close>

definition policy_opinion :: "decision option \<Rightarrow> bool" where
  "policy_opinion d = (escalates d \<or> d = Some Allow)"

text \<open>
  The interface of the gates a shell script passes beside the policy on the access itself: a gate
  escalates.  Whoever combines an opinion with a gate then knows that the gate can only take an
  allowance away, never grant one, and that its refusals survive.
\<close>

locale tightening_gate =
  fixes gate :: "'q \<Rightarrow> decision option"
  assumes gate_escalates: "escalates (gate q)"
begin

lemma allow_through_gate:
  "combine_decisions d (gate q) = Some Allow \<longleftrightarrow> d = Some Allow \<and> gate q = None"
  using gate_escalates [of q] by (cases d) (auto simp: escalates_def split: if_splits)

lemma opinion_through_gate:
  "policy_opinion d \<Longrightarrow> policy_opinion (combine_decisions d (gate q))"
  using gate_escalates [of q] dc.comb_choice [of d "gate q"] by (auto simp: policy_opinion_def)

lemma gate_refuses:
  "policy_opinion d \<Longrightarrow>
   (\<exists>r. combine_decisions d (gate q) = Some (Reject r)) \<longleftrightarrow>
     (\<exists>r. d = Some (Reject r)) \<or> (\<exists>r. gate q = Some (Reject r))"
  using gate_escalates [of q] by (auto simp: policy_opinion_def escalates_def)

lemma gate_asks:
  "policy_opinion d \<Longrightarrow> gate q = Some Ask \<Longrightarrow>
   combine_decisions d (gate q) = Some Ask \<or> (\<exists>r. combine_decisions d (gate q) = Some (Reject r))"
  by (auto simp: policy_opinion_def escalates_def)

lemma asked_before_gate:
  "d = Some Ask \<Longrightarrow>
   combine_decisions d (gate q) = Some Ask \<or> (\<exists>r. combine_decisions d (gate q) = Some (Reject r))"
  using gate_escalates [of q] by (auto simp: escalates_def)

end

end
