(* ===== verification/Permission_Rules.thy ===== *)
theory Permission_Rules
  imports Permission_Types
begin

text \<open>
  The rule-string language and the permission-mode vocabulary
  (\<^verbatim>\<open>xai-grok-workspace/src/permission/rules.rs\<close>): \<^verbatim>\<open>Bash(npm run build)\<close>, \<^verbatim>\<open>Read(src/*.rs)\<close>,
  \<^verbatim>\<open>WebFetch(domain:example.com)\<close>, bare tool names and bare patterns.
\<close>

subsection \<open>Modes\<close>

datatype default_permission_mode =
  ModeDefault | AcceptEdits | Plan | Auto | DontAsk | BypassPermissions

definition mode_from_str :: "str \<Rightarrow> str + default_permission_mode" where
  "mode_from_str s =
     (if s = ''default'' then Inr ModeDefault
      else if s = ''acceptEdits'' then Inr AcceptEdits
      else if s = ''plan'' then Inr Plan
      else if s = ''auto'' then Inr Auto
      else if s = ''dontAsk'' then Inr DontAsk
      else if s = ''bypassPermissions'' then Inr BypassPermissions
      else Inl s)"

record default_mode_effects =
  eff_prompt_policy :: prompt_policy
  accept_edits :: bool
  bypass_permissions :: bool

definition no_effects :: default_mode_effects where
  "no_effects = \<lparr>eff_prompt_policy = PromptAsk, accept_edits = False, bypass_permissions = False\<rparr>"

fun effects :: "default_permission_mode \<Rightarrow> default_mode_effects" where
  "effects AcceptEdits = no_effects\<lparr>accept_edits := True\<rparr>"
| "effects BypassPermissions = no_effects\<lparr>bypass_permissions := True\<rparr>"
| "effects ModeDefault = no_effects"
| "effects Plan = no_effects"
| "effects DontAsk = no_effects\<lparr>eff_prompt_policy := PromptDeny\<rparr>"
| "effects Auto = no_effects\<lparr>eff_prompt_policy := PromptAuto\<rparr>"

subsection \<open>Escapes\<close>

datatype rule_parse_error =
  UnsupportedToolPrefix str
| UnknownToolPrefix str
| MalformedRule str

definition backslash :: char where
  "backslash = CHR 0x5C"

text \<open>The number of backslashes right before a position.\<close>

fun backslashes_before :: "str \<Rightarrow> nat \<Rightarrow> nat" where
  "backslashes_before bytes 0 = 0"
| "backslashes_before bytes (Suc j) =
     (if bytes ! j = backslash then Suc (backslashes_before bytes j) else 0)"

definition is_unescaped :: "str \<Rightarrow> nat \<Rightarrow> bool" where
  "is_unescaped bytes pos = even (backslashes_before bytes pos)"

definition find_first_unescaped :: "str \<Rightarrow> char \<Rightarrow> nat option" where
  "find_first_unescaped s target =
     find (\<lambda>i. s ! i = target \<and> is_unescaped s i) [0..<length s]"

definition find_last_unescaped :: "str \<Rightarrow> char \<Rightarrow> nat option" where
  "find_last_unescaped s target =
     find (\<lambda>i. s ! i = target \<and> is_unescaped s i) (rev [0..<length s])"

definition unescape_rule_content :: "str \<Rightarrow> str" where
  "unescape_rule_content s =
     (if \<not> contains_char s backslash then s
      else replace
             (replace (replace s [backslash, CHR ''(''] ''('') [backslash, CHR '')''] '')'')
             [backslash, backslash] [backslash])"

subsection \<open>The parser\<close>

definition strip_domain_prefix :: "str \<Rightarrow> str \<times> pattern_mode" where
  "strip_domain_prefix p =
     (case strip_prefix p ''domain:'' of
        Some domain \<Rightarrow> (domain, Domain)
      | None \<Rightarrow> (p, Glob))"

definition strip_bash_colon_wildcard :: "str \<Rightarrow> str" where
  "strip_bash_colon_wildcard p =
     (case strip_suffix p '':*'' of Some pre \<Rightarrow> pre | None \<Rightarrow> p)"

definition tool_name_to_filter :: "str \<Rightarrow> tool_filter option" where
  "tool_name_to_filter name =
     (if name = ''Bash'' then Some ToolBash
      else if name = ''Read'' \<or> name = ''NotebookRead'' then Some ToolRead
      else if name = ''Edit'' \<or> name = ''Write'' \<or> name = ''NotebookEdit'' then Some ToolEdit
      else if name = ''MCPTool'' then Some ToolMcp
      else if name = ''Grep'' \<or> name = ''Glob'' then Some ToolGrep
      else if name = ''WebFetch'' then Some ToolWebFetch
      else if name = ''WebSearch'' then Some ToolWebSearch
      else None)"

definition nonempty :: "str \<Rightarrow> str option" where
  "nonempty p = (if p = [] then None else Some p)"

definition parse_permission_rule :: "str \<Rightarrow> rule_action \<Rightarrow> rule_parse_error + permission_rule" where
  "parse_permission_rule rule_text act =
     (let rule = trim rule_text in
      case find_first_unescaped rule (CHR ''('') of
        Some open_paren \<Rightarrow>
          (let prefix_trimmed = trim (take open_paren rule);
               content_and_close = drop (open_paren + 1) rule
           in case find_last_unescaped content_and_close (CHR '')'') of
                None \<Rightarrow> Inl (MalformedRule ''missing closing parenthesis'')
              | Some close_paren \<Rightarrow>
                  (let raw_content = trim (take close_paren content_and_close);
                       pat = (if raw_content = [] \<or> raw_content = ''*'' then []
                              else unescape_rule_content raw_content)
                   in case tool_name_to_filter prefix_trimmed of
                        None \<Rightarrow>
                          (if prefix_trimmed = ''EnterWorktree''
                           then Inl (UnsupportedToolPrefix prefix_trimmed)
                           else Inl (UnknownToolPrefix prefix_trimmed))
                      | Some t \<Rightarrow>
                          (let pat' = (if t = ToolBash then strip_bash_colon_wildcard pat else pat);
                               (p, mode) = strip_domain_prefix pat'
                           in Inr \<lparr>action = act, tool = t, pattern = nonempty p,
                                   pattern_mode = mode\<rparr>)))
      | None \<Rightarrow>
          (case tool_name_to_filter rule of
             Some t \<Rightarrow> Inr \<lparr>action = act, tool = t, pattern = None, pattern_mode = Glob\<rparr>
           | None \<Rightarrow> Inr \<lparr>action = act, tool = ToolAny, pattern = nonempty rule, pattern_mode = Glob\<rparr>))"

subsection \<open>Facts about the escape scanner\<close>

lemma find_upt_Some:
  "find P [0..<n] = Some i \<longleftrightarrow> i < n \<and> P i \<and> (\<forall>j<i. \<not> P j)"
  by (auto simp: find_Some_iff nth_append)

lemma find_first_unescaped_Some:
  "find_first_unescaped s t = Some i \<longleftrightarrow>
     i < length s \<and> s ! i = t \<and> is_unescaped s i \<and>
     (\<forall>j<i. \<not> (s ! j = t \<and> is_unescaped s j))"
  by (auto simp: find_first_unescaped_def find_upt_Some)

lemma find_last_unescaped_Some:
  "find_last_unescaped s t = Some i \<Longrightarrow> i < length s \<and> s ! i = t \<and> is_unescaped s i"
  by (auto simp: find_last_unescaped_def find_Some_iff rev_nth)

text \<open>
  The escaping that \<^verbatim>\<open>unescape_rule_content\<close> reverses, as its comment describes it: backslashes
  first, then both parentheses.  Escaping is character-wise, so it is a \<open>concat\<close>.
\<close>

fun escape_char :: "char \<Rightarrow> str" where
  "escape_char c =
     (if c = backslash then [backslash, backslash]
      else if c = CHR ''('' \<or> c = CHR '')'' then [backslash, c] else [c])"

definition escape_rule_content :: "str \<Rightarrow> str" where
  "escape_rule_content s = concat (map escape_char s)"

text \<open>The two stages between the escaped and the unescaped text.\<close>

definition half_escape :: "char list \<Rightarrow> str \<Rightarrow> str" where
  "half_escape parens s =
     concat (map (\<lambda>c. if c \<in> set parens then [backslash, c]
                      else if c = backslash then [backslash, backslash] else [c]) s)"

lemma half_escape_Nil [simp]: "half_escape ps [] = []"
  by (simp add: half_escape_def)

lemma half_escape_Cons [simp]:
  "half_escape ps (c # s) =
     (if c \<in> set ps then [backslash, c]
      else if c = backslash then [backslash, backslash] else [c]) @ half_escape ps s"
  by (simp add: half_escape_def)

lemma backslash_paren [simp]: "backslash \<noteq> CHR ''(''" "backslash \<noteq> CHR '')''"
  "CHR ''('' \<noteq> backslash" "CHR '')'' \<noteq> backslash"
  by (simp_all add: backslash_def)

lemma escape_half: "escape_rule_content s = half_escape ''()'' s"
  unfolding escape_rule_content_def half_escape_def
  by (rule arg_cong [where f = concat], rule map_cong) auto

lemma half_escape_head: "c \<in> set ps \<Longrightarrow> c \<noteq> backslash \<Longrightarrow> \<not> starts_with (half_escape ps s) [c]"
  by (cases s) auto

lemma unescape_one:
  assumes "q \<in> set ps" "q \<noteq> backslash" "backslash \<notin> set ps"
  shows "replace (half_escape ps s) [backslash, q] [q] = half_escape (removeAll q ps) s"
proof (induction s)
  case Nil
  then show ?case by simp
next
  case (Cons c s)
  have "\<not> starts_with (half_escape ps s) [q]"
    using assms half_escape_head by blast
  then show ?case using Cons assms by auto
qed

lemma half_escape_none_replace:
  "replace (half_escape [] s) [backslash, backslash] [backslash] = s"
  by (induction s) auto

lemma half_escape_plain:
  "backslash \<notin> set (half_escape ps s) \<Longrightarrow> half_escape ps s = s"
  by (induction s) (auto split: if_splits)

lemma unescape_half_escape: "unescape_rule_content (half_escape ''()'' s) = s"
proof (cases "contains_char (half_escape ''()'' s) backslash")
  case False
  then show ?thesis using half_escape_plain [of "''()''" s]
    by (simp add: unescape_rule_content_def contains_char_def)
next
  case True
  have 1: "replace (half_escape ''()'' s) [backslash, CHR ''(''] ''('' = half_escape '')'' s"
    using unescape_one [of "CHR ''(''" "''()''" s] by simp
  have 2: "replace (half_escape '')'' s) [backslash, CHR '')''] '')'' = half_escape [] s"
    using unescape_one [of "CHR '')''" "'')''" s] by simp
  show ?thesis using True
    by (simp add: unescape_rule_content_def 1 2 half_escape_none_replace)
qed


subsection \<open>Printing and parsing\<close>

lemma backslashes_before_append: "n \<le> length s \<Longrightarrow> backslashes_before (s @ r) n = backslashes_before s n"
  by (induction n) (auto simp: nth_append)

lemma backslashes_before_snoc:
  "backslashes_before (s @ [c]) (length (s @ [c]))
     = (if c = backslash then Suc (backslashes_before s (length s)) else 0)"
  by (simp add: nth_append backslashes_before_append)

lemma escaped_ends_unescaped:
  "even (backslashes_before (escape_rule_content p) (length (escape_rule_content p)))"
proof (induction p rule: rev_induct)
  case Nil
  then show ?case by (simp add: escape_rule_content_def)
next
  case (snoc c p)
  let ?E = "escape_rule_content p"
  have E: "escape_rule_content (p @ [c]) = ?E @ escape_char c" by (simp add: escape_rule_content_def)
  show ?case
  proof (cases "c = backslash")
    case True
    then have "escape_rule_content (p @ [c]) = (?E @ [backslash]) @ [backslash]" using E by simp
    moreover have "backslashes_before ((?E @ [backslash]) @ [backslash]) (length ((?E @ [backslash]) @ [backslash]))
        = Suc (Suc (backslashes_before ?E (length ?E)))"
      unfolding backslashes_before_snoc if_P [OF refl] ..
    ultimately show ?thesis using snoc by (simp only: even_Suc simp_thms)
  next
    case False
    then obtain d where "escape_rule_content (p @ [c]) = (?E @ d) @ [c]" using E
      by (cases "c = CHR ''('' \<or> c = CHR '')''") auto
    then show ?thesis using False backslashes_before_snoc [of "?E @ d" c] by (simp only: if_False even_zero)
  qed
qed

lemma no_backslash_unescaped: "backslash \<notin> set s \<Longrightarrow> is_unescaped (s @ r) (length s)"
proof -
  assume "backslash \<notin> set s"
  then have "backslashes_before s (length s) = 0"
    by (cases s rule: rev_cases) (auto simp: nth_append)
  then show ?thesis by (simp add: is_unescaped_def backslashes_before_append)
qed

definition tool_names :: "str list" where
  "tool_names = [''Bash'', ''Read'', ''NotebookRead'', ''Edit'', ''Write'', ''NotebookEdit'', ''MCPTool'',
     ''Grep'', ''Glob'', ''WebFetch'', ''WebSearch'']"

lemma tool_name_listed: "tool_name_to_filter name = Some t \<Longrightarrow> name \<in> set tool_names"
  by (auto simp: tool_name_to_filter_def tool_names_def split: if_splits)

lemma tool_names_plain:
  "list_all (\<lambda>n. trim n = n \<and> backslash \<notin> set n \<and> CHR ''('' \<notin> set n \<and> n \<noteq> []
     \<and> of_char (hd n) \<ge> (65 :: nat) \<and> of_char (hd n) < (128 :: nat)) tool_names"
  by code_simp

lemma ws_heads:
  "list_all (\<lambda>e. e \<noteq> [] \<and> (of_char (hd e) < (65 :: nat) \<or> of_char (hd e) \<ge> (128 :: nat))) ws_encodings"
  "list_all (\<lambda>e. e \<noteq> [] \<and> hd e \<noteq> CHR '')'') (map rev ws_encodings)"
  by code_simp+

lemma ws_prefix_0:
  assumes "list_all (\<lambda>e. e \<noteq> [] \<and> hd e \<noteq> c) encs"
  shows "ws_prefix encs (c # s) = 0"
proof -
  have "\<not> starts_with (c # s) e" if "e \<in> set encs" for e
    using assms that by (cases e) (auto simp: list_all_iff)
  then have "find (starts_with (c # s)) encs = None" by (auto simp: find_None_iff)
  then show ?thesis by (simp add: ws_prefix_def)
qed

lemma trim_ws_0: "ws_prefix encs s = 0 \<Longrightarrow> trim_ws n encs s = s"
  by (cases n) simp_all

lemma trim_rule_text:
  assumes "name \<in> set tool_names"
  shows "trim (name @ ''('' @ e @ '')'') = name @ ''('' @ e @ '')''"
proof -
  have "name \<noteq> []" using assms tool_names_plain by (simp add: list_all_iff)
  then obtain c s where name: "name = c # s" by (cases name) auto
  have c: "of_char c \<ge> (65 :: nat)" "of_char c < (128 :: nat)"
    using assms tool_names_plain name by (auto simp: list_all_iff)
  have "hd e' \<noteq> c" if "e' \<in> set ws_encodings" for e'
  proof
    assume eq: "hd e' = c"
    from ws_heads(1) that have "of_char (hd e') < (65 :: nat) \<or> of_char (hd e') \<ge> (128 :: nat)"
      by (simp add: list_all_iff)
    with eq c show False by simp
  qed
  moreover have "e' \<noteq> []" if "e' \<in> set ws_encodings" for e'
    using ws_heads(1) that by (simp add: list_all_iff)
  ultimately have "list_all (\<lambda>e'. e' \<noteq> [] \<and> hd e' \<noteq> c) ws_encodings" by (simp add: list_all_iff)
  from trim_ws_0 [OF ws_prefix_0 [OF this]]
  have "trim_start (name @ ''('' @ e @ '')'') = name @ ''('' @ e @ '')''"
    unfolding trim_start_def name append_Cons .
  moreover have "trim_end (name @ ''('' @ e @ '')'') = name @ ''('' @ e @ '')''"
    using trim_ws_0 [OF ws_prefix_0 [OF ws_heads(2)]] by (simp add: trim_end_def)
  ultimately show ?thesis by (simp add: trim_def)
qed

lemma find_parens:
  assumes "name \<in> set tool_names"
  shows "find_first_unescaped (name @ ''('' @ e @ '')'') (CHR ''('') = Some (length name)"
proof -
  have plain: "backslash \<notin> set name" "CHR ''('' \<notin> set name"
    using assms tool_names_plain by (auto simp: list_all_iff)
  then have "\<forall>j<length name. (name @ ''('' @ e @ '')'') ! j \<noteq> CHR ''(''"
    by (auto simp: nth_append) (metis nth_mem)
  with no_backslash_unescaped [OF plain(1)] show ?thesis
    unfolding find_first_unescaped_Some by (auto simp: nth_append)
qed

lemma find_close: "find_last_unescaped (escape_rule_content p @ '')'') (CHR '')'')
    = Some (length (escape_rule_content p))"
  using escaped_ends_unescaped [of p]
  by (simp add: find_last_unescaped_def is_unescaped_def backslashes_before_append nth_append)

lemma escape_special:
  "escape_rule_content p = [] \<longleftrightarrow> p = []" "escape_rule_content p = ''*'' \<longleftrightarrow> p = ''*''"
proof -
  have ne: "escape_char c \<noteq> []" for c by simp
  then show nil: "escape_rule_content p = [] \<longleftrightarrow> p = []" for p
    by (cases p) (auto simp: escape_rule_content_def)
  show "escape_rule_content p = ''*'' \<longleftrightarrow> p = ''*''"
  proof
    assume star: "escape_rule_content p = ''*''"
    then obtain c q where p: "p = c # q" by (cases p) (auto simp: escape_rule_content_def)
    with star have "escape_char c @ escape_rule_content q = ''*''" by (simp add: escape_rule_content_def)
    then have "c = CHR ''*'' \<and> escape_rule_content q = []"
      by (auto simp: backslash_def split: if_splits)
    with nil p show "p = ''*''" by simp
  qed (simp add: escape_rule_content_def backslash_def)
qed

lemma parse_printed_rule:
  assumes "tool_name_to_filter name = Some t" "p \<noteq> []" "p \<noteq> ''*''"
    and "trim (escape_rule_content p) = escape_rule_content p"
  shows "parse_permission_rule (name @ ''('' @ escape_rule_content p @ '')'') act
    = (let (q, mode) = strip_domain_prefix (if t = ToolBash then strip_bash_colon_wildcard p else p)
       in Inr \<lparr>action = act, tool = t, pattern = nonempty q, pattern_mode = mode\<rparr>)"
proof -
  let ?E = "escape_rule_content p"
  have listed: "name \<in> set tool_names" using tool_name_listed assms(1) .
  have name: "trim name = name" using listed tool_names_plain by (simp add: list_all_iff)
  have parts: "take (length name) (name @ ''('' @ ?E @ '')'') = name"
    "drop (length name + 1) (name @ ''('' @ ?E @ '')'') = ?E @ '')''"
    "take (length ?E) (?E @ '')'') = ?E" by simp_all
  have content: "(if ?E = [] \<or> ?E = ''*'' then [] else unescape_rule_content ?E) = p"
    using assms(2,3) escape_special unescape_half_escape [of p] by (simp add: escape_half)
  show ?thesis
    unfolding parse_permission_rule_def Let_def trim_rule_text [OF listed] find_parens [OF listed]
      option.case parts find_close assms(4) content name assms(1) ..
qed

text \<open>
  Rules survive printing: a rule for any tool name, with its pattern escaped as documented and
  put in parentheses, is parsed back to that tool, action and pattern (unless the pattern uses the
  domain or the trailing wildcard notation), and a pattern in the domain notation to the domain.
\<close>

lemma rule_round_trip:
  assumes "tool_name_to_filter name = Some t" "p \<noteq> []" "p \<noteq> ''*''"
    and "trim (escape_rule_content p) = escape_rule_content p"
    and "t = ToolBash \<longrightarrow> \<not> ends_with p '':*''"
  shows "parse_permission_rule (name @ ''('' @ escape_rule_content p @ '')'') act
    = Inr \<lparr>action = act, tool = t,
           pattern = nonempty (if starts_with p ''domain:'' then drop (length ''domain:'') p else p),
           pattern_mode = (if starts_with p ''domain:'' then Domain else Glob)\<rparr>"
proof -
  have "(if t = ToolBash then strip_bash_colon_wildcard p else p) = p"
    using assms(5) by (simp add: strip_bash_colon_wildcard_def strip_suffix_def)
  with parse_printed_rule [OF assms(1-4), of act] show ?thesis
    by (simp add: strip_domain_prefix_def strip_prefix_def)
qed

lemma rule_round_trip_example:
  "parse_permission_rule (''Bash('' @ escape_rule_content ''echo (a)'' @ '')'') RuleDeny
     = Inr \<lparr>action = RuleDeny, tool = ToolBash, pattern = Some ''echo (a)'', pattern_mode = Glob\<rparr>"
proof -
  have *: "tool_name_to_filter ''Bash'' = Some ToolBash" "''echo (a)'' \<noteq> []" "''echo (a)'' \<noteq> ''*''"
    "trim (escape_rule_content ''echo (a)'') = escape_rule_content ''echo (a)''"
    "ToolBash = ToolBash \<longrightarrow> \<not> ends_with ''echo (a)'' '':*''"
    "\<not> starts_with ''echo (a)'' ''domain:''"
    by code_simp+
  from rule_round_trip [OF *(1-5), of RuleDeny] show ?thesis
    using *(6) by (simp add: nonempty_def)
qed

end
