(* ===== verification/Bash_Splitting.thy ===== *)
theory Bash_Splitting
  imports Externals "HOL-Library.Product_Lexorder"
begin

text \<open>
  Decomposing a shell script into plain commands
  (\<^verbatim>\<open>xai-grok-workspace/src/permission/bash_command_splitting.rs\<close>): the allowlist walk over the
  syntax tree, peeling of wrapper commands (\<^verbatim>\<open>timeout\<close>, \<^verbatim>\<open>env\<close>, \<^verbatim>\<open>nice\<close>, ...), and the soft breaks
  with which the permission prompt lays a script out.
\<close>

subsection \<open>Plain commands\<close>

record plain_command =
  pc_words :: "str list"
  span_start :: nat
  span_end :: nat

definition allowed_kinds :: "str list" where
  "allowed_kinds =
     [''program'', ''list'', ''pipeline'', ''command'', ''command_name'', ''word'', ''string'',
      ''string_content'', ''raw_string'', ''number'', ''concatenation'', ''variable_assignment'',
      ''variable_name'', ''redirected_statement'', ''file_redirect'', ''file_descriptor'',
      ''comment'', ''heredoc_redirect'', ''heredoc_start'', ''heredoc_body'', ''heredoc_content'',
      ''heredoc_end'']"

definition double_quote :: str where
  "double_quote = [CHR 0x22]"

definition single_quote :: str where
  "single_quote = [CHR 0x27]"

definition allowed_punct_tokens :: "str list" where
  "allowed_punct_tokens =
     [''&&'', ''||'', '';'', ''|'', double_quote, single_quote, ''='', ''>'', ''>>'', ''<'', ''<<'',
      ''>&'', ''&>'', ''&>>'']"

text \<open>The test the walk applies to one node, in the order of the source.\<close>

definition node_allowed :: "node \<Rightarrow> bool" where
  "node_allowed n =
     (if is_named n then kind n \<in> set allowed_kinds
      else if (\<exists>c\<in>set (kind n). c \<in> set ''&;|'') \<and> kind n \<notin> set allowed_punct_tokens then False
      else kind n \<in> set allowed_punct_tokens \<or> trim (kind n) = [])"

text \<open>
  \<^verbatim>\<open>parse_plain_command_from_node\<close>: the loop over the named children, with the words so far and
  the byte span so far.  \<open>None\<close> is the early \<^verbatim>\<open>return None\<close>.
\<close>

definition extend_span :: "(nat \<times> nat) option \<Rightarrow> node \<Rightarrow> (nat \<times> nat) option" where
  "extend_span span n =
     (case span of None \<Rightarrow> Some (start_byte n, end_byte n)
      | Some (s, _) \<Rightarrow> Some (s, end_byte n))"

definition plain_string_content :: "node \<Rightarrow> node option" where
  "plain_string_content n =
     (case children n of
        [a, b, c] \<Rightarrow>
          (if kind a = double_quote \<and> kind b = ''string_content'' \<and> kind c = double_quote
           then Some b else None)
      | _ \<Rightarrow> None)"

definition strip_quotes :: "char \<Rightarrow> str \<Rightarrow> str option" where
  "strip_quotes q raw = Option.bind (strip_prefix raw [q]) (\<lambda>s. strip_suffix s [q])"

fun plain_words ::
  "str \<Rightarrow> node list \<Rightarrow> str list \<Rightarrow> (nat \<times> nat) option \<Rightarrow> (str list \<times> (nat \<times> nat) option) option" where
  "plain_words src [] ws span = Some (ws, span)"
| "plain_words src (c # cs) ws span =
     (if kind c = ''variable_assignment'' then plain_words src cs ws span
      else if kind c = ''command_name'' then
        (case named_child c 0 of
           None \<Rightarrow> None
         | Some wn \<Rightarrow>
             if kind wn \<noteq> ''word'' then None
             else plain_words src cs (ws @ [utf8_text wn src]) (extend_span span wn))
      else if kind c = ''word'' \<or> kind c = ''number'' then
        plain_words src cs (ws @ [utf8_text c src]) (extend_span span c)
      else if kind c = ''string'' then
        (case plain_string_content c of
           Some content \<Rightarrow> plain_words src cs (ws @ [utf8_text content src]) (extend_span span c)
         | None \<Rightarrow> None)
      else if kind c = ''raw_string'' then
        (case strip_quotes (CHR 0x27) (utf8_text c src) of
           Some s \<Rightarrow> plain_words src cs (ws @ [s]) (extend_span span c)
         | None \<Rightarrow> None)
      else if kind c = ''concatenation'' then
        plain_words src cs (ws @ [utf8_text c src]) (extend_span span c)
      else None)"

definition parse_plain_command_from_node :: "node \<Rightarrow> str \<Rightarrow> plain_command option" where
  "parse_plain_command_from_node cmd src =
     (if kind cmd \<noteq> ''command'' then None
      else case plain_words src (named_children cmd) [] None of
        None \<Rightarrow> None
      | Some (ws, span) \<Rightarrow>
          Some \<lparr>pc_words = ws,
                span_start = (case span of None \<Rightarrow> start_byte cmd | Some (s, e) \<Rightarrow> s),
                span_end = (case span of None \<Rightarrow> end_byte cmd | Some (s, e) \<Rightarrow> e)\<rparr>)"

fun all_plain :: "str \<Rightarrow> node list \<Rightarrow> plain_command list option" where
  "all_plain src [] = Some []"
| "all_plain src (n # ns) =
     (case parse_plain_command_from_node n src of
        None \<Rightarrow> None
      | Some c \<Rightarrow> map_option ((#) c) (all_plain src ns))"

text \<open>
  The walk rejects on the first node that is not allowed; otherwise the command nodes it met are
  sorted by position (a stable sort) and parsed.
\<close>

definition try_parse_word_only_commands_sequence :: "tree \<Rightarrow> str \<Rightarrow> plain_command list option" where
  "try_parse_word_only_commands_sequence t src =
     (if has_error t then None
      else if \<not> list_all node_allowed (walk (root_node t)) then None
      else all_plain src
             (sort_key start_byte
               (filter (\<lambda>n. is_named n \<and> kind n = ''command'') (walk (root_node t)))))"

definition all_commands_from_script :: "world \<Rightarrow> str \<Rightarrow> plain_command list option" where
  "all_commands_from_script w script =
     Option.bind (try_parse_shell w script)
       (\<lambda>t. try_parse_word_only_commands_sequence t script)"

subsection \<open>Setup commands and wrappers\<close>

definition is_setup_command :: "str list \<Rightarrow> bool" where
  "is_setup_command cmd =
     (case cmd of
        [] \<Rightarrow> True
      | c # _ \<Rightarrow> c \<in> set [''cd'', ''pushd'', ''popd'', ''export'', ''unset'', ''set'', ''source'', ''.'',
                          ''sleep'', ''timeout''])"

text \<open>\<open>word.rsplit(['/', '\\']).next()\<close>: what follows the last separator.\<close>

definition base_name :: "str \<Rightarrow> str" where
  "base_name w = last (split_on [CHR ''/'', CHR 0x5C] w)"

definition is_env_assignment :: "str \<Rightarrow> bool" where
  "is_env_assignment tok =
     (case find_sub tok ''='' of
        None \<Rightarrow> False
      | Some eq \<Rightarrow>
          (let name = take eq tok
           in name \<noteq> [] \<and> (is_ascii_alphabetic (hd name) \<or> hd name = CHR ''_'')
              \<and> list_all (\<lambda>b. is_ascii_alphanumeric b \<or> b = CHR ''_'') name))"

text \<open>
  \<^verbatim>\<open>env_scan\<close>, as a recursion over the words that remain: the last \<^verbatim>\<open>-C\<close> directory and the index
  at which the inner command starts.  A value option skips two words, so the index may pass the end.
\<close>

fun env_scan_from :: "str option \<Rightarrow> nat \<Rightarrow> str list \<Rightarrow> str option \<times> nat" where
  "env_scan_from chdir i [] = (chdir, i)"
| "env_scan_from chdir i (tok # rest) =
     (if tok = ''--'' then (chdir, i + 1)
      else if tok \<noteq> ''-'' \<and> starts_with tok ''-'' then
        (if tok = ''-C'' \<or> tok = ''--chdir'' then
           (case rest of
              [] \<Rightarrow> (None, i + 2)
            | d # rest' \<Rightarrow> env_scan_from (Some d) (i + 2) rest')
         else case strip_prefix tok ''--chdir='' of
           Some dir \<Rightarrow> env_scan_from (Some dir) (i + 1) rest
         | None \<Rightarrow>
             (case filter_option (\<lambda>d. d \<noteq> []) (strip_prefix tok ''-C'') of
                Some dir \<Rightarrow> env_scan_from (Some dir) (i + 1) rest
              | None \<Rightarrow>
                  if tok \<in> set [''-u'', ''--unset'', ''-S'', ''--split-string''] then
                    (case rest of
                       [] \<Rightarrow> (chdir, i + 2)
                     | _ # rest' \<Rightarrow> env_scan_from chdir (i + 2) rest')
                  else env_scan_from chdir (i + 1) rest))
      else if is_env_assignment tok then env_scan_from chdir (i + 1) rest
      else (chdir, i))"

definition env_scan :: "str list \<Rightarrow> str option \<times> nat" where
  "env_scan cmd = env_scan_from None 1 (drop 1 cmd)"

text \<open>
  The option loop the wrappers share: \<open>while i < cmd.len() && cmd[i].starts_with('-')\<close>, where an
  option of \<open>takes_value\<close> skips its value too.
\<close>

fun skip_options :: "str list \<Rightarrow> nat \<Rightarrow> str list \<Rightarrow> nat" where
  "skip_options takes_value i [] = i"
| "skip_options takes_value i (w # ws) =
     (if starts_with w ''-'' then
        (if w \<in> set takes_value
         then (case ws of [] \<Rightarrow> i + 2 | _ # ws' \<Rightarrow> skip_options takes_value (i + 2) ws')
         else skip_options takes_value (i + 1) ws)
      else i)"

definition wrapper_inner_index :: "str \<Rightarrow> str list \<Rightarrow> nat option" where
  "wrapper_inner_index head cmd =
     (let args = drop 1 cmd in
      if head = ''timeout'' then
        (let i = skip_options [''-k'', ''-s'', ''--kill-after'', ''--signal''] 1 args
         in if length cmd \<le> i then None else Some (i + 1))
      else if head = ''nice'' then Some (skip_options [''-n'', ''--adjustment''] 1 args)
      else if head = ''ionice'' then
        Some (skip_options [''-c'', ''-n'', ''-p'', ''-P'', ''-u'', ''--class'', ''--classdata'',
                            ''--pid'', ''--pgid'', ''--uid''] 1 args)
      else if head = ''chrt'' then
        (let i = skip_options [] 1 args in if length cmd \<le> i then None else Some (i + 1))
      else if head = ''stdbuf'' then Some (skip_options [''-i'', ''-o'', ''-e''] 1 args)
      else if head = ''env'' then Some (snd (env_scan cmd))
      else None)"

definition strip_wrapper_command :: "str list \<Rightarrow> str list option" where
  "strip_wrapper_command cmd =
     (case cmd of
        [] \<Rightarrow> None
      | c # _ \<Rightarrow>
          (case wrapper_inner_index (base_name c) cmd of
             None \<Rightarrow> None
           | Some i \<Rightarrow> if length cmd \<le> i then None else Some (drop i cmd)))"

definition is_wrapper_command :: "str list \<Rightarrow> bool" where
  "is_wrapper_command ws =
     (case ws of
        [] \<Rightarrow> False
      | w # _ \<Rightarrow> base_name w \<in> set [''timeout'', ''nice'', ''ionice'', ''chrt'', ''stdbuf'', ''env''])"

fun unwrap_rounds :: "nat \<Rightarrow> str list \<Rightarrow> str list" where
  "unwrap_rounds 0 current = current"
| "unwrap_rounds (Suc n) current =
     (case strip_wrapper_command current of
        Some inner \<Rightarrow> unwrap_rounds n inner
      | None \<Rightarrow> current)"

definition unwrap_wrappers :: "str list \<Rightarrow> str list" where
  "unwrap_wrappers ws = unwrap_rounds 8 ws"

fun chdir_rounds :: "nat \<Rightarrow> str list \<Rightarrow> bool" where
  "chdir_rounds 0 current = False"
| "chdir_rounds (Suc n) current =
     (if map_option base_name (first_opt current) = Some ''env'' \<and> fst (env_scan current) \<noteq> None
      then True
      else case strip_wrapper_command current of
        Some inner \<Rightarrow> chdir_rounds n inner
      | None \<Rightarrow> False)"

definition wrapper_has_chdir :: "str list \<Rightarrow> bool" where
  "wrapper_has_chdir ws = chdir_rounds 8 ws"

subsection \<open>The primary command\<close>

record bash_command_highlights =
  hl_prefix :: "str list"
  highlighted_words :: "str list"
  hl_suffix :: "str list"

text \<open>
  \<^verbatim>\<open>sh_split_simple\<close>: the loop over the characters with the two quote flags, the word under
  construction and the words so far.
\<close>

fun sh_split_from :: "bool \<Rightarrow> bool \<Rightarrow> str \<Rightarrow> str list \<Rightarrow> str list \<Rightarrow> str list" where
  "sh_split_from in_single in_double current result [] =
     (if current = [] then result else result @ [current])"
| "sh_split_from in_single in_double current result (c # cs) =
     (if c = single_quote \<and> \<not> in_double then sh_split_from (\<not> in_single) in_double current result cs
      else if c = double_quote \<and> \<not> in_single then
        sh_split_from in_single (\<not> in_double) current result cs
      else if c = [CHR 0x5C] then
        (case cs of
           [] \<Rightarrow> sh_split_from in_single in_double current result []
         | d # cs' \<Rightarrow> sh_split_from in_single in_double (current @ d) result cs')
      else if is_whitespace c \<and> \<not> in_single \<and> \<not> in_double then
        sh_split_from in_single in_double []
          (if current = [] then result else result @ [current]) cs
      else sh_split_from in_single in_double (current @ c) result cs)"

definition sh_split_simple :: "str \<Rightarrow> str list" where
  "sh_split_simple s = sh_split_from False False [] [] (chars s)"

definition primary_command_from_script :: "world \<Rightarrow> str \<Rightarrow> bash_command_highlights option" where
  "primary_command_from_script w script =
     Option.bind (try_parse_shell w script) (\<lambda>t.
     Option.bind (try_parse_word_only_commands_sequence t script) (\<lambda>commands.
     Option.bind (find (\<lambda>c. \<not> is_setup_command (pc_words c)) commands) (\<lambda>primary.
       Some \<lparr>hl_prefix = sh_split_simple (take (span_start primary) script),
             highlighted_words = pc_words primary,
             hl_suffix = sh_split_simple (drop (span_end primary) script)\<rparr>)))"

subsection \<open>Soft breaks\<close>

definition payload_node_kinds :: "str list" where
  "payload_node_kinds =
     [''heredoc_body'', ''simple_heredoc_body'', ''heredoc_content'', ''heredoc_end'', ''string'',
      ''raw_string'', ''string_content'', ''ansi_c_string'', ''translated_string'', ''comment'']"

definition is_soft_break_operator_kind :: "str \<Rightarrow> bool" where
  "is_soft_break_operator_kind k = (k \<in> set [''&&'', ''||'', ''|'', '';''])"

definition is_payload_node_kind :: "str \<Rightarrow> bool" where
  "is_payload_node_kind k = (k \<in> set payload_node_kinds)"

definition soft_break_offsets_after_operators :: "world \<Rightarrow> str \<Rightarrow> nat list" where
  "soft_break_offsets_after_operators w script =
     (case try_parse_shell w script of
        None \<Rightarrow> []
      | Some t \<Rightarrow>
          if has_error t then []
          else remdups_adj (sort
            (map (\<lambda>pn. end_byte (snd pn))
              (filter (\<lambda>pn. \<not> is_payload_node_kind (kind (snd pn))
                            \<and> is_soft_break_operator_kind (kind (snd pn))
                            \<and> 0 < end_byte (snd pn) \<and> end_byte (snd pn) \<le> length script
                            \<and> is_char_boundary script (end_byte (snd pn)))
                (walk_from (\<lambda>n. \<not> is_payload_node_kind (kind n)) True (root_node t))))))"

definition heredoc_payload :: "str list" where
  "heredoc_payload = [''heredoc_body'', ''simple_heredoc_body'', ''heredoc_content'']"

definition heredoc_payload_byte_ranges :: "world \<Rightarrow> str \<Rightarrow> (nat \<times> nat) list" where
  "heredoc_payload_byte_ranges w script =
     (case try_parse_shell w script of
        None \<Rightarrow> []
      | Some t \<Rightarrow>
          if has_error t then []
          else remdups_adj (sort
            (map (\<lambda>pn. (start_byte (snd pn), end_byte (snd pn)))
              (filter (\<lambda>pn. kind (snd pn) \<in> set heredoc_payload
                            \<and> start_byte (snd pn) < end_byte (snd pn)
                            \<and> end_byte (snd pn) \<le> length script)
                (walk_from (\<lambda>n. kind n \<notin> set heredoc_payload) True (root_node t))))))"

definition range_fully_inside :: "nat \<Rightarrow> nat \<Rightarrow> (nat \<times> nat) list \<Rightarrow> bool" where
  "range_fully_inside s e ranges =
     (if e < s then False else (\<exists>(rs, re)\<in>set ranges. rs \<le> s \<and> e \<le> re))"

text \<open>The loop that cuts a text at ascending offsets: the pieces, and the rest at the end.\<close>

fun cut_from :: "nat \<Rightarrow> nat list \<Rightarrow> str \<Rightarrow> str list" where
  "cut_from start [] s = (if start < length s then [drop start s] else [])"
| "cut_from start (b # bs) s =
     (if start < b then take (b - start) (drop start s) # cut_from b bs s
      else cut_from start bs s)"

definition split_physical_line_at_soft_breaks :: "str \<Rightarrow> nat \<Rightarrow> nat list \<Rightarrow> str list" where
  "split_physical_line_at_soft_breaks line line_start breaks =
     (let line_end = line_start + length line;
          rel = remdups_adj
            (filter (is_char_boundary line)
              (map (\<lambda>b. b - line_start)
                (filter (\<lambda>b. line_start < b \<and> b < line_end) breaks)))
      in if rel = [] then [line]
         else (let chunks = cut_from 0 rel line in if chunks = [] then [line] else chunks))"

definition soft_break_chunks :: "world \<Rightarrow> str \<Rightarrow> str list" where
  "soft_break_chunks w script =
     (let breaks = soft_break_offsets_after_operators w script
      in if breaks = [] then [script]
         else cut_from 0 (filter (\<lambda>b. b \<le> length script) breaks) script)"

subsection \<open>What an accepted script looks like\<close>

lemma all_plain_Some:
  "all_plain src ns = Some cs \<longleftrightarrow> list_all2 (\<lambda>n c. parse_plain_command_from_node n src = Some c) ns cs"
  by (induction ns arbitrary: cs) (auto split: option.splits simp: list_all2_Cons1)

lemma all_commands_from_script_Some:
  "all_commands_from_script w script = Some cs \<Longrightarrow>
     \<exists>t. parse_shell w script = Some t \<and> \<not> has_error t
       \<and> (\<forall>n\<in>set (subnodes (root_node t)). node_allowed n)
       \<and> all_plain script (sort_key start_byte
            (filter (\<lambda>n. is_named n \<and> kind n = ''command'') (walk (root_node t)))) = Some cs"
  by (auto simp: all_commands_from_script_def try_parse_word_only_commands_sequence_def
      try_parse_shell_def bind_eq_Some_conv list_all_iff split: if_splits)

text \<open>
  The accepted fragment of bash: when a script is decomposed into plain commands, it parsed
  without errors, no node anywhere in its tree is outside the allowlist (so no substitution,
  subshell, control flow or unknown operator is hidden in it), every command node of the tree is
  among the decomposed commands, and each decomposed command is a command node of the tree.
\<close>

lemma plain_commands_cover_script:
  assumes "all_commands_from_script w script = Some cs"
  shows "\<exists>t. parse_shell w script = Some t \<and> \<not> has_error t
    \<and> (\<forall>n\<in>set (subnodes (root_node t)). node_allowed n)
    \<and> (\<forall>n\<in>set (subnodes (root_node t)). is_named n \<and> kind n = ''command'' \<longrightarrow>
         (\<exists>c\<in>set cs. parse_plain_command_from_node n script = Some c))
    \<and> (\<forall>c\<in>set cs. \<exists>n\<in>set (subnodes (root_node t)).
         kind n = ''command'' \<and> parse_plain_command_from_node n script = Some c)"
proof -
  obtain t where t: "parse_shell w script = Some t" "\<not> has_error t"
      "\<forall>n\<in>set (subnodes (root_node t)). node_allowed n"
    and l: "list_all2 (\<lambda>n c. parse_plain_command_from_node n script = Some c)
        (sort_key start_byte (filter (\<lambda>n. is_named n \<and> kind n = ''command'') (walk (root_node t)))) cs"
      (is "list_all2 _ ?ns cs")
    using all_commands_from_script_Some [OF assms] by (auto simp: all_plain_Some)
  have ns: "set ?ns = {n \<in> set (subnodes (root_node t)). is_named n \<and> kind n = ''command''}"
    by simp
  have "\<forall>n\<in>set ?ns. \<exists>c\<in>set cs. parse_plain_command_from_node n script = Some c"
    using list_all2_left [OF l] by blast
  moreover have "\<forall>c\<in>set cs. \<exists>n\<in>set ?ns. parse_plain_command_from_node n script = Some c"
    using list_all2_right [OF l] by blast
  ultimately show ?thesis using t unfolding ns by blast
qed

lemma plain_commands_cover_script_example:
  "map_option (map pc_words) (all_commands_from_script example_world ''cd x;rm -r y'')
     = Some [[''cd'', ''x''], [''rm'', ''-r'', ''y'']]
   \<and> (\<exists>t. parse_shell example_world ''cd x;rm -r y'' = Some t
        \<and> (\<forall>n\<in>set (subnodes (root_node t)). node_allowed n))"
proof -
  have eval: "map_option (map pc_words) (all_commands_from_script example_world ''cd x;rm -r y'')
     = Some [[''cd'', ''x''], [''rm'', ''-r'', ''y'']]"
    by code_simp
  then obtain cs where "all_commands_from_script example_world ''cd x;rm -r y'' = Some cs"
    by auto
  from plain_commands_cover_script [OF this] eval show ?thesis by blast
qed

subsection \<open>Unwrapping\<close>

lemma strip_wrapper_command_Some:
  "strip_wrapper_command ws = Some inner \<longleftrightarrow>
     ws \<noteq> [] \<and> (\<exists>i. wrapper_inner_index (base_name (hd ws)) ws = Some i \<and> i < length ws
       \<and> inner = drop i ws)"
  by (cases ws; cases "wrapper_inner_index (base_name (hd ws)) ws")
    (auto simp: strip_wrapper_command_def)

lemma strip_wrapper_command_suffix:
  "strip_wrapper_command ws = Some inner \<Longrightarrow> suffix inner ws \<and> inner \<noteq> []"
  by (auto simp: strip_wrapper_command_Some suffix_drop)

lemma holds_if: "(c \<Longrightarrow> P a) \<Longrightarrow> (\<not> c \<Longrightarrow> P b) \<Longrightarrow> P (if c then a else b)"
  by simp

lemma holds_case_option:
  "P a \<Longrightarrow> (\<And>y. P (f y)) \<Longrightarrow> P (case x of None \<Rightarrow> a | Some y \<Rightarrow> f y)"
  by (cases x) simp_all

lemma holds_case_list:
  "P a \<Longrightarrow> (\<And>y ys. xs = y # ys \<Longrightarrow> P (f y ys)) \<Longrightarrow> P (case xs of [] \<Rightarrow> a | y # ys \<Rightarrow> f y ys)"
  by (cases xs) simp_all

lemma env_scan_from_ge: "i \<le> snd (env_scan_from c i ws)"
proof (induction ws arbitrary: c i rule: length_induct)
  case (1 ws)
  show ?case
  proof (cases ws)
    case Nil
    then show ?thesis by simp
  next
    case (Cons tok rest)
    have IH: "length vs \<le> length rest \<Longrightarrow> i \<le> snd (env_scan_from c' (i + k) vs)" for c' k vs
      using 1 [THEN spec, of vs] Cons by (auto intro: add_leD1)
    show ?thesis
      unfolding Cons
      by (subst env_scan_from.simps, intro holds_if [where P = "\<lambda>r. i \<le> snd r"]
          holds_case_option [where P = "\<lambda>r. i \<le> snd r"]
          holds_case_list [where P = "\<lambda>r. i \<le> snd r"] IH)
        simp_all
  qed
qed

lemma skip_options_ge: "i \<le> skip_options tv i ws"
proof (induction ws arbitrary: i rule: length_induct)
  case (1 ws)
  show ?case
  proof (cases ws)
    case Nil
    then show ?thesis by simp
  next
    case (Cons w rest)
    have IH: "length vs \<le> length rest \<Longrightarrow> i \<le> skip_options tv (i + k) vs" for k vs
      using 1 [THEN spec, of vs] Cons by (auto intro: add_leD1)
    show ?thesis
      unfolding Cons
      by (subst skip_options.simps, intro holds_if [where P = "\<lambda>r. i \<le> r"]
          holds_case_list [where P = "\<lambda>r. i \<le> r"] IH) simp_all
  qed
qed

lemma wrapper_inner_index_pos: "wrapper_inner_index h ws = Some i \<Longrightarrow> 1 \<le> i"
  using env_scan_from_ge [of 1 None "drop 1 ws"]
    skip_options_ge [of 1 _ "drop 1 ws"]
  by (auto simp: wrapper_inner_index_def Let_def env_scan_def split: if_splits)

lemma strip_wrapper_command_shorter:
  "strip_wrapper_command ws = Some inner \<Longrightarrow> length inner < length ws"
  by (auto simp: strip_wrapper_command_Some dest!: wrapper_inner_index_pos)

lemma unwrap_rounds_suffix:
  "suffix (unwrap_rounds n ws) ws \<and> (ws \<noteq> [] \<longrightarrow> unwrap_rounds n ws \<noteq> [])"
proof (induction n arbitrary: ws)
  case 0
  then show ?case by simp
next
  case (Suc n)
  show ?case
  proof (cases "strip_wrapper_command ws")
    case None
    then show ?thesis by simp
  next
    case (Some inner)
    with strip_wrapper_command_suffix [OF Some] Suc.IH [of inner] show ?thesis
      by (auto intro: suffix_order.trans)
  qed
qed

lemma unwrap_wrappers_nonempty: "ws \<noteq> [] \<Longrightarrow> unwrap_wrappers ws \<noteq> []"
  using unwrap_rounds_suffix [of 8 ws] by (simp add: unwrap_wrappers_def)

lemma unwrap_wrappers_suffix: "suffix (unwrap_wrappers ws) ws"
  using unwrap_rounds_suffix [of 8 ws] by (simp add: unwrap_wrappers_def)

lemma unwrap_rounds_stuck:
  "strip_wrapper_command (unwrap_rounds n ws) = None \<or> length (unwrap_rounds n ws) + n \<le> length ws"
proof (induction n arbitrary: ws)
  case 0
  then show ?case by simp
next
  case (Suc n)
  show ?case
  proof (cases "strip_wrapper_command ws")
    case None
    then show ?thesis by simp
  next
    case (Some inner)
    with Suc.IH [of inner] strip_wrapper_command_shorter [OF Some] show ?thesis by auto
  qed
qed

text \<open>
  Unwrapping keeps the command: the words left after peeling wrappers are a non-empty tail of
  the command's words, and unless eight wrappers were peeled, no wrapper is left in front.
\<close>

lemma unwrap_wrappers_complete:
  assumes "ws \<noteq> []"
  shows "unwrap_wrappers ws \<noteq> [] \<and> suffix (unwrap_wrappers ws) ws
    \<and> (strip_wrapper_command (unwrap_wrappers ws) = None
       \<or> length (unwrap_wrappers ws) + 8 \<le> length ws)"
  using assms unwrap_wrappers_nonempty unwrap_wrappers_suffix unwrap_rounds_stuck [of 8 ws]
  by (simp add: unwrap_wrappers_def)

lemma unwrap_wrappers_complete_example:
  "unwrap_wrappers [''/usr/bin/env'', ''A=1'', ''timeout'', ''30'', ''rm'', ''-rf'', ''/'']
     = [''rm'', ''-rf'', ''/'']
   \<and> unwrap_wrappers [''/usr/bin/env'', ''A=1'', ''timeout'', ''30'', ''rm'', ''-rf'', ''/''] \<noteq> []"
  using unwrap_wrappers_complete
    [of "[''/usr/bin/env'', ''A=1'', ''timeout'', ''30'', ''rm'', ''-rf'', ''/'']"]
  by (auto simp: unwrap_wrappers_def numeral_eq_Suc strip_wrapper_command_def
      wrapper_inner_index_def env_scan_def is_env_assignment_def base_name_def Let_def
      is_ascii_alphabetic_def is_ascii_alphanumeric_def upper_letters_def lower_letters_def
      strip_prefix_def filter_option_def)

subsection \<open>Soft breaks lose nothing\<close>

lemma concat_cut_from:
  "start \<le> length s \<Longrightarrow> \<forall>b\<in>set bs. b \<le> length s \<Longrightarrow> concat (cut_from start bs s) = drop start s"
proof (induction bs arbitrary: start)
  case Nil
  then show ?case by simp
next
  case (Cons b bs)
  show ?case
  proof (cases "start < b")
    case True
    have "take (b - start) (drop start s) @ drop b s = drop start s"
      using True append_take_drop_id [of "b - start" "drop start s"] by simp
    with True Cons show ?thesis by simp
  next
    case False
    with Cons show ?thesis by simp
  qed
qed

text \<open>
  The display of a script in the permission prompt shows exactly the script: the chunks at
  soft breaks, and the pieces of every physical line at any break offsets, concatenate to the
  original text.
\<close>

lemma soft_breaks_lossless:
  "concat (soft_break_chunks w script) = script
   \<and> concat (split_physical_line_at_soft_breaks line line_start breaks) = line"
proof
  show "concat (soft_break_chunks w script) = script"
    by (simp add: soft_break_chunks_def Let_def concat_cut_from)
  let ?rel = "remdups_adj (filter (is_char_boundary line) (map (\<lambda>b. b - line_start)
      (filter (\<lambda>b. line_start < b \<and> b < line_start + length line) breaks)))"
  have "concat (cut_from 0 ?rel line) = line"
    by (subst concat_cut_from) auto
  then show "concat (split_physical_line_at_soft_breaks line line_start breaks) = line"
    by (auto simp: split_physical_line_at_soft_breaks_def Let_def)
qed

lemma sorted_remdups_adj_strict:
  fixes xs :: "'a::linorder list"
  shows "sorted xs \<Longrightarrow> sorted_wrt (<) (remdups_adj xs)"
  by (induction xs rule: remdups_adj.induct) (auto simp: less_le)

lemma walk_stack_payload:
  "snd ` set (walk_stack d b st) \<subseteq> (\<Union>n\<in>snd ` set st. set (subnodes n))"
proof (induction d b st rule: walk_stack.induct)
  case (1 d b)
  then show ?case by simp
next
  case (2 d b pn st)
  let ?kids = "if d (snd pn) then (if b then children_at pn else rev (children_at pn)) else []"
  have "snd ` set ?kids \<subseteq> set (children (snd pn))" by (cases "d (snd pn)") simp_all
  then have "(\<Union>n\<in>snd ` set ?kids. set (subnodes n)) \<subseteq> set (subnodes (snd pn))"
    using subnodes_child [of _ "snd pn"] by blast
  then have sub: "(\<Union>n\<in>snd ` set (?kids @ st). set (subnodes n))
      \<subseteq> set (subnodes (snd pn)) \<union> (\<Union>n\<in>snd ` set st. set (subnodes n))"
    unfolding set_append image_Un Union_Un_distrib by (rule Un_mono) (rule subset_refl)
  note IH = 2
  have top: "snd ` set (walk_stack d b (pn # st))
      = insert (snd pn) (snd ` set (walk_stack d b (?kids @ st)))"
    by (simp only: walk_stack.simps list.set image_insert)
  have "(\<Union>n\<in>snd ` set (pn # st). set (subnodes n))
      = set (subnodes (snd pn)) \<union> (\<Union>n\<in>snd ` set st. set (subnodes n))"
    by simp
  moreover have "insert (snd pn) (snd ` set (walk_stack d b (?kids @ st)))
      \<subseteq> set (subnodes (snd pn)) \<union> (\<Union>n\<in>snd ` set st. set (subnodes n))"
    by (rule insert_subsetI [OF UnI1 [OF subnodes_self] order_trans [OF IH sub]])
  ultimately show ?case by (simp only: top)
qed

lemma walk_from_subnodes: "pn \<in> set (walk_from d b r) \<Longrightarrow> snd pn \<in> set (subnodes r)"
  using walk_stack_payload [of d b "[([], r)]"] by (auto simp: walk_from_def)

lemma soft_break_offsets_Some:
  assumes "b \<in> set (soft_break_offsets_after_operators w script)"
  shows "0 < b \<and> b \<le> length script \<and> is_char_boundary script b
     \<and> (\<exists>t. parse_shell w script = Some t \<and> \<not> has_error t
           \<and> (\<exists>n\<in>set (subnodes (root_node t)). is_soft_break_operator_kind (kind n) \<and> end_byte n = b))"
proof (cases "parse_shell w script")
  case None
  with assms show ?thesis by (simp add: soft_break_offsets_after_operators_def try_parse_shell_def)
next
  case (Some t)
  with assms have "\<not> has_error t"
    by (simp add: soft_break_offsets_after_operators_def try_parse_shell_def split: if_splits)
  with assms Some obtain pn
    where "pn \<in> set (walk_from (\<lambda>n. \<not> is_payload_node_kind (kind n)) True (root_node t))"
      and "is_soft_break_operator_kind (kind (snd pn))" "end_byte (snd pn) = b"
      and "0 < b" "b \<le> length script" "is_char_boundary script b"
    by (auto simp: soft_break_offsets_after_operators_def try_parse_shell_def)
  with Some \<open>\<not> has_error t\<close> walk_from_subnodes show ?thesis by blast
qed

text \<open>
  Soft-break offsets are strictly ascending positions inside the script, each at a character
  boundary right after an operator token of the syntax tree, and there are none when the script
  does not parse or its tree has errors.
\<close>

lemma soft_break_offsets_sound:
  "sorted_wrt (<) (soft_break_offsets_after_operators w script)
   \<and> (\<forall>b. b \<in> set (soft_break_offsets_after_operators w script) \<longrightarrow>
        0 < b \<and> b \<le> length script \<and> is_char_boundary script b
        \<and> (\<exists>t. parse_shell w script = Some t \<and> \<not> has_error t
             \<and> (\<exists>n\<in>set (subnodes (root_node t)).
                  is_soft_break_operator_kind (kind n) \<and> end_byte n = b)))"
proof -
  have "sorted_wrt (<) (soft_break_offsets_after_operators w script)"
    by (auto simp: soft_break_offsets_after_operators_def sorted_remdups_adj_strict
        split: option.splits)
  then show ?thesis using soft_break_offsets_Some by blast
qed

lemma soft_break_offsets_example:
  "soft_break_offsets_after_operators example_world ''a;b'' = [2]
   \<and> is_char_boundary ''a;b'' 2"
proof -
  have "soft_break_offsets_after_operators example_world ''a;b'' = [2]"
    by code_simp
  then have eval: "soft_break_offsets_after_operators example_world ''a;b'' = [2]"
    and mem: "2 \<in> set (soft_break_offsets_after_operators example_world ''a;b'')"
    by simp_all
  from soft_break_offsets_sound [of example_world "''a;b''", THEN conjunct2, rule_format, OF mem] eval
  show ?thesis by blast
qed

end
