(* ===== verification/Domain_Matcher.thy ===== *)
theory Domain_Matcher
  imports Externals
begin

text \<open>
  The web-fetch allowlist
  (\<^verbatim>\<open>xai-grok-tools/src/implementations/grok_build/web_fetch/domain.rs\<close>): normalised hosts with
  the path prefixes allowed on them, built once from the configured entries.
\<close>

subsection \<open>Operations\<close>

definition normalize_domain :: "str \<Rightarrow> str" where
  "normalize_domain raw =
     (let s = trim_end_char (CHR ''.'') (trim_end_char (CHR ''/'') (trim raw));
          s = (case strip_prefix s ''www.'' of Some r \<Rightarrow> r | None \<Rightarrow> s)
      in to_lowercase s)"

datatype host_entry = AnyPath | PathPrefixes "str list"

type_synonym domain_matcher = "str \<rightharpoonup> host_entry"

text \<open>\<open>normalized.find('/')\<close>: the host, and the rest from the first slash on.\<close>

definition split_host :: "str \<Rightarrow> str \<times> str option" where
  "split_host normalized =
     (case find_sub normalized ''/'' of
        Some i \<Rightarrow> (take i normalized, Some (drop i normalized))
      | None \<Rightarrow> (normalized, None))"

definition add_prefix :: "str \<Rightarrow> host_entry option \<Rightarrow> host_entry" where
  "add_prefix pre e =
     (case e of
        None \<Rightarrow> PathPrefixes [pre]
      | Some AnyPath \<Rightarrow> AnyPath
      | Some (PathPrefixes v) \<Rightarrow> PathPrefixes (if pre \<in> set v then v else v @ [pre]))"

text \<open>One round of the loop of \<^verbatim>\<open>DomainMatcher::new\<close>; returning \<open>entries\<close> is its \<open>continue\<close>.\<close>

definition add_raw_entry :: "domain_matcher \<Rightarrow> str \<Rightarrow> domain_matcher" where
  "add_raw_entry entries raw =
     (let normalized = normalize_domain raw in
      if normalized = [] then entries
      else case split_host normalized of
        (host, None) \<Rightarrow> entries(host \<mapsto> AnyPath)
      | (host, Some raw_path) \<Rightarrow>
          if entries host = Some AnyPath then entries
          else (let pre = trim_end_char (CHR ''/'') raw_path in
                if pre = [] \<or> pre = ''/'' then entries(host \<mapsto> AnyPath)
                else (let pre = (if starts_with pre ''/'' then pre else ''/'' @ pre)
                      in entries(host \<mapsto> add_prefix pre (entries host)))))"

definition matcher_new :: "str list \<Rightarrow> domain_matcher" where
  "matcher_new raw_entries = foldl add_raw_entry Map.empty raw_entries"

definition prefix_covers :: "str \<Rightarrow> str \<Rightarrow> bool" where
  "prefix_covers upath pre =
     (upath = pre
      \<or> (starts_with upath pre \<and> nth_opt upath (length pre) = Some (CHR ''/'')))"

text \<open>\<open>None\<close> permits the URL, \<open>Some d\<close> is \<^verbatim>\<open>DomainNotAllowed(d)\<close>.\<close>

definition check :: "domain_matcher \<Rightarrow> url \<Rightarrow> str option" where
  "check entries u =
     (case host_str u of
        None \<Rightarrow> Some []
      | Some raw_host \<Rightarrow>
          (let host = normalize_domain raw_host in
           case entries host of
             Some AnyPath \<Rightarrow> None
           | Some (PathPrefixes pres) \<Rightarrow>
               if list_ex (prefix_covers (to_lowercase (url_path u))) pres then None
               else Some host
           | None \<Rightarrow> Some host))"

definition domain_from_url :: "world \<Rightarrow> str \<Rightarrow> str option" where
  "domain_from_url w raw_url =
     Option.bind (url_parse w raw_url) (\<lambda>u. map_option normalize_domain (host_str u))"

subsection \<open>What an entry grants\<close>

text \<open>
  The specification the configuration documents: an entry covers a host and a path when its host
  is that host and it has no path, or its path is the path or one of its ancestors.
\<close>

definition entry_covers :: "str \<Rightarrow> str \<Rightarrow> str \<Rightarrow> bool" where
  "entry_covers raw host path =
     (normalize_domain raw \<noteq> [] \<and>
      (case split_host (normalize_domain raw) of
         (h, None) \<Rightarrow> h = host
       | (h, Some p) \<Rightarrow>
           h = host \<and> (trim_end_char (CHR ''/'') p = [] \<or> prefix_covers path (trim_end_char (CHR ''/'') p))))"

definition granted :: "domain_matcher \<Rightarrow> str \<Rightarrow> str \<Rightarrow> bool" where
  "granted m host path =
     (case m host of
        None \<Rightarrow> False
      | Some AnyPath \<Rightarrow> True
      | Some (PathPrefixes ps) \<Rightarrow> list_ex (prefix_covers path) ps)"

lemma find_sub_char: "find_sub s [c] = Some i \<Longrightarrow> \<exists>r. drop i s = c # r"
proof -
  assume "find_sub s [c] = Some i"
  then have "take i s @ drop i s = take i s @ c # drop (i + 1) s"
    using find_sub_Some_split [of s "[c]" i] by simp
  then show ?thesis by (simp only: same_append_eq) blast
qed

lemma trim_end_starts:
  assumes "trim_end_char c (d # s) \<noteq> []"
  shows "starts_with (trim_end_char c (d # s)) [d]"
proof -
  let ?t = "trim_end_char c (d # s)"
  have "suffix (dropWhile (\<lambda>x. x = c) (rev (d # s))) (rev (d # s))"
    by (rule suffix_dropWhile)
  then have "prefix ?t (d # s)"
    by (simp add: trim_end_by_def trim_start_by_dropWhile suffix_to_prefix)
  with assms obtain r where "?t = d # r" by (cases ?t) auto
  then show ?thesis by simp
qed

lemma granted_add_raw_entry:
  "granted (add_raw_entry m raw) host path \<longleftrightarrow> granted m host path \<or> entry_covers raw host path"
proof (cases "normalize_domain raw = []")
  case True
  then show ?thesis by (simp add: add_raw_entry_def entry_covers_def)
next
  case ne: False
  show ?thesis
  proof (cases "find_sub (normalize_domain raw) ''/''")
    case None
    with ne show ?thesis
      by (auto simp: add_raw_entry_def entry_covers_def split_host_def granted_def)
  next
    case (Some i)
    let ?h = "take i (normalize_domain raw)" and ?p = "drop i (normalize_domain raw)"
    let ?q = "trim_end_char (CHR ''/'') ?p"
    obtain r where r: "?p = CHR ''/'' # r" using find_sub_char [OF Some] by blast
    have q: "?q \<noteq> ''/''"
      using trim_end_by_last [of "\<lambda>d. d = CHR ''/''" ?p] by auto
    have qs: "?q \<noteq> [] \<Longrightarrow> starts_with ?q ''/''"
      using trim_end_starts [of "CHR ''/''" "CHR ''/''" r] r by simp
    have step: "add_raw_entry m raw =
        (if m ?h = Some AnyPath then m
         else if ?q = [] then m(?h \<mapsto> AnyPath)
         else m(?h \<mapsto> add_prefix ?q (m ?h)))"
      using ne Some q qs by (simp add: add_raw_entry_def split_host_def Let_def)
    have cov: "entry_covers raw host path \<longleftrightarrow> ?h = host \<and> (?q = [] \<or> prefix_covers path ?q)"
      using ne Some by (simp add: entry_covers_def split_host_def)
    show ?thesis
      unfolding step cov
      by (auto simp: granted_def add_prefix_def list_ex_iff split: option.splits host_entry.splits)
  qed
qed

lemma granted_matcher_new:
  "granted (matcher_new raws) host path \<longleftrightarrow> (\<exists>raw. raw \<in> set raws \<and> entry_covers raw host path)"
proof -
  have "granted (foldl add_raw_entry m raws) host path \<longleftrightarrow>
      granted m host path \<or> (\<exists>raw. raw \<in> set raws \<and> entry_covers raw host path)" for m
    by (induction raws arbitrary: m) (auto simp: granted_add_raw_entry)
  then show ?thesis by (simp add: matcher_new_def granted_def)
qed

lemma check_None:
  "check m u = None \<longleftrightarrow>
     (\<exists>h. host_str u = Some h \<and> granted m (normalize_domain h) (to_lowercase (url_path u)))"
  by (auto simp: check_def granted_def Let_def split: option.splits host_entry.splits)

text \<open>
  The compiled allowlist means what its entries mean: a URL is permitted exactly when it has a
  host and some configured entry covers that host and the lower-cased path.  In particular the
  order of the entries and duplicates among them do not matter, and an empty list blocks all.
\<close>

lemma check_matcher_new:
  "check (matcher_new raws) u = None \<longleftrightarrow>
     (\<exists>h raw. host_str u = Some h \<and> raw \<in> set raws
        \<and> entry_covers raw (normalize_domain h) (to_lowercase (url_path u)))"
  unfolding check_None granted_matcher_new by blast

end
