(* ===== verification/Bash_Grants.thy ===== *)
theory Bash_Grants
  imports Permission_Policy
begin

text \<open>
  Standing approvals (\<^verbatim>\<open>xai-grok-workspace/src/permission/manager.rs\<close>, the pure functions above
  the actor): the built-in safe and dangerous command lists, the per-segment evaluation of a
  script against the user's grants, the grants for MCP tools, web domains and edits, and the
  clamps of the managed yolo pin.
\<close>

subsection \<open>Reasons\<close>

datatype reason =
  ReasonYolo | ReasonPolicyAllow | ReasonPolicyDeny | ReasonPolicyAsk | ReasonAutoFastPath
| ReasonAutoClassifierAllow | ReasonAutoClassifierBlock | ReasonSandboxAuto | ReasonPersistedGrant
| ReasonSessionGrant | ReasonStaticAllowlist | ReasonSafeCommand | ReasonSessionDeny
| ReasonPromptDeny | ReasonNeedsUser | ReasonRequesterGone

fun reason_str :: "reason \<Rightarrow> str" where
  "reason_str ReasonYolo = ''yolo''"
| "reason_str ReasonPolicyAllow = ''policy_allow''"
| "reason_str ReasonPolicyDeny = ''policy_deny''"
| "reason_str ReasonPolicyAsk = ''policy_ask''"
| "reason_str ReasonAutoFastPath = ''auto_fast_path''"
| "reason_str ReasonAutoClassifierAllow = ''auto_classifier_allow''"
| "reason_str ReasonAutoClassifierBlock = ''auto_classifier_block''"
| "reason_str ReasonSandboxAuto = ''sandbox_auto''"
| "reason_str ReasonPersistedGrant = ''persisted_grant''"
| "reason_str ReasonSessionGrant = ''session_grant''"
| "reason_str ReasonStaticAllowlist = ''static_allowlist''"
| "reason_str ReasonSafeCommand = ''safe_command''"
| "reason_str ReasonSessionDeny = ''session_deny''"
| "reason_str ReasonPromptDeny = ''prompt_deny''"
| "reason_str ReasonNeedsUser = ''needs_user''"
| "reason_str ReasonRequesterGone = ''requester_gone''"

subsection \<open>MCP grants\<close>

definition mcp_server_prefix_allowed :: "str \<Rightarrow> str list \<Rightarrow> bool" where
  "mcp_server_prefix_allowed name servers =
     (if servers = [] then False
      else case split_once name ''__'' of
        None \<Rightarrow> False
      | Some (server, _) \<Rightarrow> server \<noteq> [] \<and> server \<in> set servers)"

definition mcp_pre_decision :: "str \<Rightarrow> permission_state \<Rightarrow> bool \<Rightarrow> bool \<Rightarrow> decision option" where
  "mcp_pre_decision name st policy_forced_prompt remember_tool_approvals =
     (if policy_forced_prompt \<and> \<not> remember_tool_approvals then None
      else if name \<in> set (allowed_mcp_tools st) then Some Allow
      else if mcp_server_prefix_allowed name (allowed_mcp_servers st) then Some Allow
      else None)"

subsection \<open>Command lists\<close>

definition rg_has_pre_flag :: "str list \<Rightarrow> bool" where
  "rg_has_pre_flag words =
     (if first_opt words \<noteq> Some ''rg'' then False
      else list_ex (\<lambda>w. w = ''--pre'' \<or> starts_with w ''--pre='') words)"

definition matches_command_prefix :: "str \<Rightarrow> str \<Rightarrow> bool" where
  "matches_command_prefix cmd pat =
     (cmd = pat \<or> (starts_with cmd pat \<and> nth_opt cmd (length pat) = Some (CHR '' '')))"

definition safe_prefixes :: "str list" where
  "safe_prefixes =
     [''ls'', ''cat'', ''pwd'', ''date'', ''git status'', ''git branch'', ''git log'', ''git diff'',
      ''git ls-files'', ''git show'', ''git rev-parse'', ''cargo check'', ''whoami'', ''hostname'',
      ''uptime'', ''grep'', ''rg'', ''kubectl get'', ''kubectl logs'', ''kubectl describe'', ''ps'',
      ''bin/explorer ls'', ''head'', ''tail'', ''wc'', ''sort'', ''uniq'', ''tr'', ''cut'']"

definition is_safe_command_words_str :: "str \<Rightarrow> bool" where
  "is_safe_command_words_str cmd = list_ex (matches_command_prefix cmd) safe_prefixes"

definition is_safe_command_words :: "str list \<Rightarrow> bool" where
  "is_safe_command_words words =
     (if words = [] then False
      else if rg_has_pre_flag words then False
      else is_safe_command_words_str (join_words words))"

definition always_safe_commands :: "str list" where
  "always_safe_commands =
     [''ls'', ''cat'', ''pwd'', ''date'', ''whoami'', ''hostname'', ''uptime'', ''ps'',
      ''git status'', ''git branch'', ''git log'', ''git diff'', ''git ls-files'', ''git show'',
      ''git rev-parse'', ''grep'', ''rg'', ''cargo check'', ''kubectl get'', ''kubectl logs'',
      ''kubectl describe'', ''bin/explorer ls'']"

definition is_always_safe_command_words :: "str list \<Rightarrow> bool" where
  "is_always_safe_command_words words =
     (if words = [] then False
      else if rg_has_pre_flag words then False
      else list_ex (matches_command_prefix (join_words words)) always_safe_commands)"

text \<open>The loop \<open>while n < words.len() && words[n].starts_with('-')\<close>, on the words after the first n.\<close>

fun count_flags :: "str list \<Rightarrow> nat" where
  "count_flags [] = 0"
| "count_flags (w # ws) = (if starts_with w ''-'' then Suc (count_flags ws) else 0)"

definition default_always_allow_scope :: "str list \<Rightarrow> nat" where
  "default_always_allow_scope words =
     (if words = [] then 0
      else if is_safe_command_words words \<and> is_safe_command_words_str (hd words) then 1
      else if is_safe_command_words words \<and> 2 \<le> length words
              \<and> is_safe_command_words_str (join_words (take 2 words)) then 2
      else (let n = min (length words) 2 in n + count_flags (drop n words)))"

definition dangerous_prefixes :: "str list" where
  "dangerous_prefixes =
     [''rm'', ''chmod'', ''chown'', ''chgrp'', ''chattr'', ''pkill'', ''kill'', ''killall'', ''git push'']"

definition is_dangerous_command_words :: "str list \<Rightarrow> bool" where
  "is_dangerous_command_words words =
     (if words = [] then False
      else list_ex (matches_command_prefix (join_words words)) dangerous_prefixes)"

definition matches_whitelist_prefix :: "str \<Rightarrow> str \<Rightarrow> bool" where
  "matches_whitelist_prefix segment_str allowed_prefix =
     matches_command_prefix segment_str allowed_prefix"

subsection \<open>Segment evaluation\<close>

datatype segment_evaluation =
  AutoAllow (via_session_grant: bool)
| SegReject str
| NeedsPrompts "str list" bool
| Unparseable

definition session_reject_reason :: "str \<Rightarrow> str" where
  "session_reject_reason d = ''User previously rejected `'' @ d @ ''` for this session''"

text \<open>The loop over the segments, with \<open>needs_prompt\<close>, \<open>any_dangerous\<close> and \<open>via_session_grant\<close>.\<close>

fun evaluate_segment_list ::
  "permission_state \<Rightarrow> bool \<Rightarrow> str list list \<Rightarrow> str list \<Rightarrow> bool \<Rightarrow> bool \<Rightarrow> segment_evaluation" where
  "evaluate_segment_list st honor [] needs_prompt any_dangerous via =
     (if needs_prompt = [] then AutoAllow via else NeedsPrompts needs_prompt any_dangerous)"
| "evaluate_segment_list st honor (raw_words # rest) needs_prompt any_dangerous via =
     (let words = unwrap_wrappers raw_words in
      if is_setup_command words then evaluate_segment_list st honor rest needs_prompt any_dangerous via
      else
        (let s = join_words words in
         case find (matches_whitelist_prefix s) (disallowed_bash_commands st) of
           Some d \<Rightarrow> SegReject (session_reject_reason d)
         | None \<Rightarrow>
             if is_dangerous_command_words words then
               evaluate_segment_list st honor rest (needs_prompt @ [s]) True via
             else
               (let matched_grant = list_ex (matches_whitelist_prefix s) (allowed_bash_commands st);
                    matched_safe = (honor \<and> (is_safe_command_words words
                                              \<or> is_always_safe_command_words words))
                in if matched_grant \<or> matched_safe then
                     evaluate_segment_list st honor rest needs_prompt any_dangerous
                       (via \<or> matched_grant)
                   else evaluate_segment_list st honor rest (needs_prompt @ [s]) any_dangerous via)))"

definition evaluate_bash_segments_inner ::
  "world \<Rightarrow> str \<Rightarrow> permission_state \<Rightarrow> bool \<Rightarrow> segment_evaluation" where
  "evaluate_bash_segments_inner w cmd st honor_safe_lists =
     (case all_commands_from_script w cmd of
        None \<Rightarrow> Unparseable
      | Some segments \<Rightarrow>
          evaluate_segment_list st honor_safe_lists (map pc_words segments) [] False False)"

definition evaluate_bash_segments :: "world \<Rightarrow> str \<Rightarrow> permission_state \<Rightarrow> segment_evaluation" where
  "evaluate_bash_segments w cmd st = evaluate_bash_segments_inner w cmd st True"

subsection \<open>Clamps\<close>

text \<open>The pin is the message of the managed policy that set it; \<open>None\<close> is no pin.\<close>

definition clamp_yolo :: "bool \<Rightarrow> str option \<Rightarrow> bool" where
  "clamp_yolo requested yolo_pin = (requested \<and> yolo_pin = None)"

definition max_recorded_permission_decisions :: nat where
  "max_recorded_permission_decisions = 12"

fun prompted_decision_approved :: "decision \<Rightarrow> str \<Rightarrow> bool option" where
  "prompted_decision_approved Allow outcome_str = Some True"
| "prompted_decision_approved (Reject _) outcome_str =
     (if outcome_str \<noteq> ''error'' then Some False else None)"
| "prompted_decision_approved _ outcome_str = None"

definition auto_prompt_blocks_allow :: "access_kind \<Rightarrow> bool" where
  "auto_prompt_blocks_allow access = (\<not> is_bash access)"

definition persisted_bash_auto_allows :: "permission_state \<Rightarrow> str \<Rightarrow> str option \<Rightarrow> bool" where
  "persisted_bash_auto_allows st cmd yolo_pin =
     ((allow_bash_execute st \<and> yolo_pin = None) \<or> cmd \<in> set (allowed_bash_commands st))"

subsection \<open>Grants before the classifier\<close>

record bash_grant_opts =
  honor_safe_lists :: bool
  allow_blanket :: bool
  conservative_blanket :: bool

definition pre_classifier :: bash_grant_opts where
  "pre_classifier =
     \<lparr>honor_safe_lists = True, allow_blanket = True, conservative_blanket = True\<rparr>"

definition ask_floor_remember :: bash_grant_opts where
  "ask_floor_remember =
     \<lparr>honor_safe_lists = False, allow_blanket = False, conservative_blanket = False\<rparr>"

definition post_classify :: "bool \<Rightarrow> bash_grant_opts" where
  "post_classify auto_forced_prompt =
     \<lparr>honor_safe_lists = True, allow_blanket = (\<not> auto_forced_prompt), conservative_blanket = False\<rparr>"

type_synonym pre_decision = "(decision \<times> reason) option"

definition grant_allow :: "reason \<Rightarrow> pre_decision" where
  "grant_allow r = Some (Allow, r)"

definition bash_grant_pre_decision ::
  "world \<Rightarrow> str \<Rightarrow> permission_state \<Rightarrow> str option \<Rightarrow> bash_grant_opts \<Rightarrow> pre_decision" where
  "bash_grant_pre_decision w cmd st yolo_pin opts =
     (let eval = (if honor_safe_lists opts then evaluate_bash_segments w cmd st
                  else evaluate_bash_segments_inner w cmd st False)
      in case eval of
           SegReject rsn \<Rightarrow> Some (Reject rsn, ReasonSessionDeny)
         | AutoAllow via \<Rightarrow> grant_allow (if via then ReasonSessionGrant else ReasonSafeCommand)
         | NeedsPrompts _ any_dangerous \<Rightarrow>
             if \<not> allow_blanket opts then None
             else if any_dangerous \<and> conservative_blanket opts then None
             else if persisted_bash_auto_allows st cmd yolo_pin then grant_allow ReasonSessionGrant
             else None
         | Unparseable \<Rightarrow>
             if \<not> allow_blanket opts then None
             else (let allowed = (if conservative_blanket opts then cmd \<in> set (allowed_bash_commands st)
                                  else persisted_bash_auto_allows st cmd yolo_pin)
                   in if allowed then grant_allow ReasonSessionGrant else None))"

definition session_grant_pre_decision ::
  "world \<Rightarrow> access_kind \<Rightarrow> permission_state \<Rightarrow> bool \<Rightarrow> domain_matcher \<Rightarrow> str option \<Rightarrow> pre_decision" where
  "session_grant_pre_decision w access st allow_edits_for_session static_domain_matcher yolo_pin =
     (case access of
        AccessMCPTool name _ \<Rightarrow>
          map_option (\<lambda>d. (d, ReasonSessionGrant)) (mcp_pre_decision name st False False)
      | AccessWebFetch u \<Rightarrow>
          (case url_parse w u of
             None \<Rightarrow> None
           | Some parsed \<Rightarrow>
               if check static_domain_matcher parsed = None then grant_allow ReasonStaticAllowlist
               else (case host_str parsed of
                       None \<Rightarrow> None
                     | Some h \<Rightarrow>
                         if normalize_domain h \<in> set (allowed_web_fetch_domains st)
                         then grant_allow ReasonSessionGrant else None))
      | AccessEdit _ \<Rightarrow> if allow_edits_for_session then grant_allow ReasonSessionGrant else None
      | AccessBash cmd \<Rightarrow> bash_grant_pre_decision w cmd st yolo_pin pre_classifier
      | _ \<Rightarrow> None)"

subsection \<open>Word boundaries\<close>

lemma matches_command_prefix_iff:
  "matches_command_prefix cmd pat \<longleftrightarrow> cmd = pat \<or> (\<exists>r. cmd = pat @ '' '' @ r)"
proof -
  have "starts_with cmd pat \<and> nth_opt cmd (length pat) = Some (CHR '' '') \<longleftrightarrow>
      (\<exists>r. cmd = pat @ '' '' @ r)"
  proof
    assume a: "starts_with cmd pat \<and> nth_opt cmd (length pat) = Some (CHR '' '')"
    then obtain r where r: "cmd = pat @ r" using starts_withD by blast
    with a obtain r' where "r = CHR '' '' # r'" by (cases r) (auto simp: nth_opt_Some nth_append)
    with r show "\<exists>r. cmd = pat @ '' '' @ r" by simp
  next
    assume "\<exists>r. cmd = pat @ '' '' @ r"
    then show "starts_with cmd pat \<and> nth_opt cmd (length pat) = Some (CHR '' '')"
      by (auto simp: nth_opt_Some)
  qed
  then show ?thesis by (simp add: matches_command_prefix_def)
qed

lemma join_words_take:
  "0 < n \<Longrightarrow> n < length ws \<Longrightarrow> join_words ws = join_words (take n ws) @ '' '' @ join_words (drop n ws)"
proof (induction ws arbitrary: n)
  case Nil
  then show ?case by simp
next
  case (Cons w ws)
  then obtain v vs where ws: "ws = v # vs" by (cases ws) auto
  show ?case
  proof (cases "n = 1")
    case True
    with ws show ?thesis by simp
  next
    case False
    with Cons.prems obtain m where n: "n = Suc m" "0 < m" by (cases n) auto
    with Cons.prems have "m < length ws" by simp
    from Cons.IH [OF n(2) this] have ih: "join_words ws
        = join_words (take m ws) @ '' '' @ join_words (drop m ws)" .
    obtain m' where "m = Suc m'" using n(2) by (cases m) auto
    then have "join_words (take n (w # ws)) = w @ '' '' @ join_words (take m ws)"
      using n ws by simp
    with ih ws n show ?thesis by simp
  qed
qed

lemma count_flags_le: "count_flags ws \<le> length ws"
  by (induction ws) auto

lemma scope_bounds:
  "words \<noteq> [] \<Longrightarrow> 1 \<le> default_always_allow_scope words \<and> default_always_allow_scope words \<le> length words"
proof -
  assume ne: "words \<noteq> []"
  then have pos: "1 \<le> length words" by (cases words) auto
  have "count_flags (drop (min (length words) 2) words) \<le> length words - min (length words) 2"
    using count_flags_le [of "drop (min (length words) 2) words"] by simp
  with ne pos show ?thesis by (auto simp: default_always_allow_scope_def Let_def)
qed

text \<open>
  An "always allow" answer covers the command it was given for: the scope the prompt proposes
  is between one word and the whole command, and the prefix that is stored for it matches that
  command again, on a word boundary.
\<close>

lemma always_allow_scope_covers:
  assumes "words \<noteq> []"
  shows "1 \<le> default_always_allow_scope words
    \<and> default_always_allow_scope words \<le> length words
    \<and> matches_whitelist_prefix (join_words words)
        (join_words (take (default_always_allow_scope words) words))"
proof (cases "default_always_allow_scope words = length words")
  case True
  with scope_bounds [OF assms] show ?thesis
    by (simp add: matches_whitelist_prefix_def matches_command_prefix_def)
next
  case False
  with scope_bounds [OF assms] have n: "0 < default_always_allow_scope words"
    "default_always_allow_scope words < length words" by simp_all
  from join_words_take [OF n] scope_bounds [OF assms] show ?thesis
    unfolding matches_whitelist_prefix_def matches_command_prefix_iff by blast
qed

lemma always_allow_scope_covers_example:
  "default_always_allow_scope [''git'', ''status'', ''-s'', ''src''] = 2
   \<and> matches_whitelist_prefix (join_words [''git'', ''status'', ''-s'', ''src'']) ''git status''"
proof -
  have "default_always_allow_scope [''git'', ''status'', ''-s'', ''src''] = 2" by code_simp
  with always_allow_scope_covers [of "[''git'', ''status'', ''-s'', ''src'']"] show ?thesis
    by simp
qed

subsection \<open>When a script is allowed without asking\<close>

definition segment_disallowed :: "permission_state \<Rightarrow> str list \<Rightarrow> bool" where
  "segment_disallowed st words =
     (\<not> is_setup_command words \<and>
      list_ex (matches_whitelist_prefix (join_words words)) (disallowed_bash_commands st))"

definition segment_granted :: "permission_state \<Rightarrow> str list \<Rightarrow> bool" where
  "segment_granted st words =
     list_ex (matches_whitelist_prefix (join_words words)) (allowed_bash_commands st)"

definition segment_safe :: "str list \<Rightarrow> bool" where
  "segment_safe words = (is_safe_command_words words \<or> is_always_safe_command_words words)"

definition segment_passes :: "permission_state \<Rightarrow> bool \<Rightarrow> str list \<Rightarrow> bool" where
  "segment_passes st honor words =
     (is_setup_command words
      \<or> (\<not> is_dangerous_command_words words \<and> (segment_granted st words \<or> (honor \<and> segment_safe words))))"

lemma find_list_ex: "(find P xs = None) = (\<not> list_ex P xs)"
  by (induction xs) auto

lemma evaluate_segment_list_Reject:
  "(\<exists>r. evaluate_segment_list st honor segs np dg via = SegReject r) \<longleftrightarrow>
     list_ex (segment_disallowed st) (map unwrap_wrappers segs)"
proof (induction segs arbitrary: np dg via)
  case Nil
  then show ?case by simp
next
  case (Cons seg segs)
  show ?case
  proof (cases "find (matches_whitelist_prefix (join_words (unwrap_wrappers seg)))
      (disallowed_bash_commands st)")
    case None
    then have "\<not> segment_disallowed st (unwrap_wrappers seg)"
      by (simp add: segment_disallowed_def find_list_ex)
    with None Cons show ?thesis by (simp add: Let_def)
  next
    case (Some d)
    then have "list_ex (matches_whitelist_prefix (join_words (unwrap_wrappers seg)))
        (disallowed_bash_commands st)"
      using find_list_ex [of _ "disallowed_bash_commands st"] by (metis option.distinct(1))
    with Some Cons show ?thesis by (simp add: Let_def segment_disallowed_def)
  qed
qed

lemma evaluate_segment_list_accepted:
  "\<not> list_ex (segment_disallowed st) (map unwrap_wrappers segs) \<Longrightarrow>
   evaluate_segment_list st honor segs np dg via =
     (let pending = np @ map (\<lambda>seg. join_words (unwrap_wrappers seg))
            (filter (\<lambda>seg. \<not> segment_passes st honor (unwrap_wrappers seg)) segs);
          dangerous = (dg \<or> list_ex (\<lambda>seg. \<not> is_setup_command (unwrap_wrappers seg)
            \<and> is_dangerous_command_words (unwrap_wrappers seg)) segs);
          granted = (via \<or> list_ex (\<lambda>seg. \<not> is_setup_command (unwrap_wrappers seg)
            \<and> \<not> is_dangerous_command_words (unwrap_wrappers seg)
            \<and> segment_granted st (unwrap_wrappers seg)) segs)
      in if pending = [] then AutoAllow granted else NeedsPrompts pending dangerous)"
proof (induction segs arbitrary: np dg via)
  case Nil
  then show ?case by simp
next
  case (Cons seg segs)
  let ?u = "unwrap_wrappers seg"
  have tail: "\<not> list_ex (segment_disallowed st) (map unwrap_wrappers segs)"
    and head: "\<not> segment_disallowed st ?u" using Cons.prems by simp_all
  show ?case
  proof (cases "is_setup_command ?u")
    case True
    with Cons.IH [OF tail] show ?thesis by (simp add: Let_def segment_passes_def)
  next
    case False
    with head have none: "find (matches_whitelist_prefix (join_words ?u)) (disallowed_bash_commands st) = None"
      by (simp add: segment_disallowed_def find_list_ex)
    show ?thesis
    proof (cases "is_dangerous_command_words ?u")
      case True
      with False none Cons.IH [OF tail] show ?thesis by (simp add: Let_def segment_passes_def)
    next
      case safe: False
      show ?thesis
      proof (cases "segment_granted st ?u \<or> (honor \<and> segment_safe ?u)")
        case True
        with safe False have pass: "segment_passes st honor ?u" by (simp add: segment_passes_def)
        have "evaluate_segment_list st honor (seg # segs) np dg via =
            evaluate_segment_list st honor segs np dg (via \<or> segment_granted st ?u)"
          using True safe False none by (auto simp: Let_def segment_granted_def segment_safe_def)
        with Cons.IH [OF tail, of np dg "via \<or> segment_granted st ?u"] pass safe False
        show ?thesis by (simp add: Let_def disj_assoc)
      next
        case no: False
        with safe False have pass: "\<not> segment_passes st honor ?u" by (simp add: segment_passes_def)
        have "evaluate_segment_list st honor (seg # segs) np dg via =
            evaluate_segment_list st honor segs (np @ [join_words ?u]) dg via"
          using no safe False none by (auto simp: Let_def segment_granted_def segment_safe_def)
        with Cons.IH [OF tail, of "np @ [join_words ?u]" dg via] pass no safe False
        show ?thesis by (simp add: Let_def)
      qed
    qed
  qed
qed

lemma passes_auto_allow:
  assumes "all_commands_from_script w cmd = Some cs"
    "\<not> list_ex (segment_disallowed st) (map (\<lambda>c. unwrap_wrappers (pc_words c)) cs)"
    "list_all (\<lambda>c. segment_passes st honor (unwrap_wrappers (pc_words c))) cs"
  shows "\<exists>via. evaluate_bash_segments_inner w cmd st honor = AutoAllow via"
  using assms evaluate_segment_list_accepted [of st "map pc_words cs" honor "[]" False False]
  by (auto simp: evaluate_bash_segments_inner_def comp_def list_all_iff filter_empty_conv)


lemma dangerous_not_auto_allowed:
  assumes "all_commands_from_script w cmd = Some cs" "c \<in> set cs"
    "\<not> is_setup_command (unwrap_wrappers (pc_words c))"
    "is_dangerous_command_words (unwrap_wrappers (pc_words c))"
  shows "(\<exists>r. evaluate_bash_segments_inner w cmd st honor = SegReject r)
    \<or> (\<exists>segs. evaluate_bash_segments_inner w cmd st honor = NeedsPrompts segs True)"
proof (cases "list_ex (segment_disallowed st) (map (\<lambda>c. unwrap_wrappers (pc_words c)) cs)")
  case True
  with assms evaluate_segment_list_Reject [of st honor "map pc_words cs"] show ?thesis
    by (simp add: evaluate_bash_segments_inner_def comp_def)
next
  case False
  have "\<not> segment_passes st honor (unwrap_wrappers (pc_words c))"
    using assms by (simp add: segment_passes_def)
  with False assms evaluate_segment_list_accepted [of st "map pc_words cs" honor "[]" False False]
  show ?thesis
    by (auto simp: evaluate_bash_segments_inner_def comp_def list_ex_iff Let_def filter_empty_conv
        split: if_splits)
qed


definition example_state :: permission_state where
  "example_state = default_state\<lparr>allow_bash_execute := True,
     allowed_bash_commands := [''rm'', ''npm'', ''ls x;timeout 5 rm y'']\<rparr>"


text \<open>
  Under the managed pin the stored "approve all" switch is dead: with a yolo pin, the decision
  about a bash script is the same whether or not the user-writable \<^verbatim>\<open>allow_bash_execute\<close> is set.
\<close>

lemma pin_disables_approve_all:
  assumes "pin \<noteq> None"
  shows "bash_grant_pre_decision w cmd (st\<lparr>allow_bash_execute := b\<rparr>) pin opts
    = bash_grant_pre_decision w cmd st pin opts"
proof -
  have list: "evaluate_segment_list (st\<lparr>allow_bash_execute := b\<rparr>) honor segs np dg via
      = evaluate_segment_list st honor segs np dg via" for honor segs np dg via
    by (induction segs arbitrary: np dg via) (auto simp: Let_def split: option.splits)
  have "evaluate_bash_segments_inner w cmd (st\<lparr>allow_bash_execute := b\<rparr>) honor
      = evaluate_bash_segments_inner w cmd st honor" for honor
    by (simp add: evaluate_bash_segments_inner_def list split: option.splits)
  moreover have "persisted_bash_auto_allows (st\<lparr>allow_bash_execute := b\<rparr>) cmd pin
      = persisted_bash_auto_allows st cmd pin"
    using assms by (auto simp: persisted_bash_auto_allows_def)
  moreover have "allowed_bash_commands (st\<lparr>allow_bash_execute := b\<rparr>) = allowed_bash_commands st"
    by simp
  ultimately show ?thesis
    unfolding bash_grant_pre_decision_def evaluate_bash_segments_def by (simp only:)
qed

lemma pin_disables_approve_all_example:
  "bash_grant_pre_decision example_world ''make'' (default_state\<lparr>allow_bash_execute := True\<rparr>)
     (Some ''managed'') pre_classifier = None"
proof -
  have "bash_grant_pre_decision example_world ''make'' default_state (Some ''managed'') pre_classifier
      = None"
    by code_simp
  with pin_disables_approve_all [of "Some ''managed''" example_world "''make''" True default_state
      pre_classifier]
  show ?thesis by simp
qed

subsection \<open>MCP servers\<close>

text \<open>
  A server grant covers the tools of that server and no others: a tool name is covered exactly
  when what precedes its first double underscore is non-empty and one of the granted servers.
\<close>

lemma mcp_server_prefix_iff:
  "mcp_server_prefix_allowed name servers \<longleftrightarrow>
     (\<exists>i. find_sub name ''__'' = Some i \<and> 0 < i \<and> take i name \<in> set servers
        \<and> name = take i name @ ''__'' @ drop (i + 2) name)"
proof -
  have "name = take i name @ ''__'' @ drop (i + 2) name \<and> i \<le> length name"
    if "find_sub name ''__'' = Some i" for i
    using find_sub_Some_split [OF that] by auto
  then show ?thesis
    by (cases "find_sub name ''__''")
      (auto simp: mcp_server_prefix_allowed_def split_once_def)
qed

text \<open>Setup commands are never looked at: a script of nothing else is allowed as it is.\<close>

lemma setup_only_scripts_auto_allow:
  assumes "all_commands_from_script w cmd = Some cs"
    "list_all (\<lambda>c. is_setup_command (unwrap_wrappers (pc_words c))) cs"
  shows "evaluate_bash_segments w cmd st = AutoAllow False"
proof -
  have "evaluate_segment_list st True (map pc_words cs) [] False False = AutoAllow False"
    using assms(2) by (induction cs) (auto simp: Let_def)
  with assms(1) show ?thesis
    by (simp add: evaluate_bash_segments_def evaluate_bash_segments_inner_def)
qed

lemma sourcing_a_file_auto_allows:
  "evaluate_bash_segments example_world ''source ./x.sh'' default_state = AutoAllow False"
  by code_simp

end
