(* ===== verification/Shell_Access.thy ===== *)
theory Shell_Access
  imports Permission_Policy
begin

text \<open>
  File accesses hidden in a shell command
  (\<^verbatim>\<open>xai-grok-workspace/src/permission/shell_access.rs\<close>): which files the words and redirects of
  a script read and write, how an operand becomes a path (quotes, \<open>.\<close> and \<open>..\<close>, the working
  directory, symbolic links), and the gate that checks each of them against the \<^verbatim>\<open>Read\<close> and
  \<^verbatim>\<open>Edit\<close> rules.  Paths are Unix paths; the file system is part of the world.
\<close>

subsection \<open>Paths\<close>

definition shell_program_name :: "str \<Rightarrow> str" where
  "shell_program_name word = base_name word"

definition is_absolute_shell_path :: "str \<Rightarrow> bool" where
  "is_absolute_shell_path p =
     (starts_with p ''/'' \<or> starts_with p ''~/'' \<or> nth_opt p 1 = Some (CHR '':''))"

definition trim_quotes :: "str \<Rightarrow> str" where
  "trim_quotes p =
     trim_end_by (\<lambda>c. c = CHR 0x22 \<or> c = CHR 0x27)
       (trim_start_by (\<lambda>c. c = CHR 0x22 \<or> c = CHR 0x27) p)"

definition normalize_shell_path_raw :: "str \<Rightarrow> str" where
  "normalize_shell_path_raw p =
     (let p = replace (trim_quotes p) [CHR 0x5C] ''/'' in
      case strip_prefix p ''/c/'' of Some rest \<Rightarrow> ''C:/'' @ rest | None \<Rightarrow> p)"

text \<open>The segment loop of \<^verbatim>\<open>lexical_normalize\<close>; \<open>out\<close> is kept in order.\<close>

fun normalize_segments :: "bool \<Rightarrow> str list \<Rightarrow> str list \<Rightarrow> str list" where
  "normalize_segments absol out [] = out"
| "normalize_segments absol out (seg # segs) =
     (if seg = '''' \<or> seg = ''.'' then normalize_segments absol out segs
      else if seg = ''..'' then
        (if is_some_and (\<lambda>s. s \<noteq> ''..'') (last_opt out)
         then normalize_segments absol (butlast out) segs
         else if \<not> absol then normalize_segments absol (out @ [''..'']) segs
         else normalize_segments absol out segs)
      else normalize_segments absol (out @ [seg]) segs)"

definition lexical_normalize :: "str \<Rightarrow> str" where
  "lexical_normalize p =
     (let prefix_len = (if nth_opt p 1 = Some (CHR '':'') then 2 else 0);
          pre = take prefix_len p;
          rest = drop prefix_len p;
          absol = starts_with rest ''/'';
          body = join ''/'' (normalize_segments absol [] (split_on ''/'' rest))
      in if pre \<noteq> [] \<and> absol \<and> body \<noteq> [] then pre @ ''/'' @ body
         else if pre \<noteq> [] \<and> absol then pre @ ''/''
         else if pre \<noteq> [] then pre @ body
         else if absol \<and> body \<noteq> [] then ''/'' @ body
         else if absol then ''/''
         else body)"

definition normalize_shell_path :: "str \<Rightarrow> str" where
  "normalize_shell_path p = lexical_normalize (normalize_shell_path_raw p)"

text \<open>The prefixes of a path, from the root to the path itself.\<close>

definition path_prefixes :: "path \<Rightarrow> path list" where
  "path_prefixes p = map (\<lambda>n. p\<lparr>comps := take n (comps p)\<rparr>) [0..<Suc (length (comps p))]"

definition path_has_symlink :: "world \<Rightarrow> str \<Rightarrow> bool" where
  "path_has_symlink w absol =
     (let p = path_of absol in
      if \<not> absolute p then False
      else list_ex (\<lambda>pre. link_status w pre = Some True) (path_prefixes p))"

text \<open>
  \<^verbatim>\<open>resolve_following_symlinks\<close>, by the number of nested calls that are left: the first call has
  depth 0 and a call with a depth above 40 gives up, so 41 are left at the start.
\<close>

fun resolve_following_symlinks :: "nat \<Rightarrow> world \<Rightarrow> path \<Rightarrow> path option" where
  "resolve_following_symlinks 0 w p = None"
| "resolve_following_symlinks (Suc left) w p =
     (case canonicalize w p of
        Some canonical \<Rightarrow> Some canonical
      | None \<Rightarrow>
          (case (parent p, file_name p) of
             (Some par, Some name) \<Rightarrow>
               (case resolve_following_symlinks left w par of
                  None \<Rightarrow> None
                | Some resolved_parent \<Rightarrow>
                    (let candidate = path_join resolved_parent \<lparr>absolute = False, comps = [name]\<rparr> in
                     if link_status w candidate = Some True then
                       (case read_link w candidate of
                          None \<Rightarrow> None
                        | Some target \<Rightarrow>
                            resolve_following_symlinks left w
                              (if absolute target then target else path_join resolved_parent target))
                     else Some candidate))
           | _ \<Rightarrow> None))"

definition resolve_symlink_target :: "world \<Rightarrow> str \<Rightarrow> str option" where
  "resolve_symlink_target w absol =
     (let p = path_of absol in
      if \<not> absolute p then None
      else map_option (\<lambda>r. normalize_shell_path (path_str r)) (resolve_following_symlinks 41 w p))"

subsection \<open>Operands and redirects in the syntax tree\<close>

datatype shell_file_mode = ShellRead | ShellWrite

datatype arg_text = Literal str | Ambiguous

definition read_programs :: "str list" where
  "read_programs =
     [''cat'', ''tac'', ''nl'', ''head'', ''tail'', ''grep'', ''egrep'', ''fgrep'', ''rg'', ''sed'',
      ''awk'', ''less'', ''more'', ''bat'', ''strings'', ''xxd'', ''od'', ''hexdump'', ''base64'',
      ''base32'', ''cut'', ''sort'', ''uniq'', ''wc'', ''type'', ''get-content'', ''gc'', ''diff'',
      ''comm'', ''rev'', ''jq'', ''yq'', ''select-string'', ''sls'', ''ag'', ''ack'', ''zcat'',
      ''zless'', ''zmore'', ''zgrep'', ''zegrep'', ''zfgrep'', ''bzcat'', ''bzgrep'', ''xzcat'',
      ''xzgrep'', ''zstdcat'', ''lz4cat'']"

definition write_programs :: "str list" where
  "write_programs =
     [''tee'', ''set-content'', ''out-file'', ''add-content'', ''tee-object'', ''truncate'']"

definition shell_file_mode :: "str \<Rightarrow> shell_file_mode option" where
  "shell_file_mode program =
     (if program \<in> set read_programs then Some ShellRead
      else if program \<in> set write_programs then Some ShellWrite
      else None)"

text \<open>The climb from a command to the root, along its position.\<close>

fun runs_in_current_shell :: "node \<Rightarrow> pos \<Rightarrow> bool" where
  "runs_in_current_shell root [] = True"
| "runs_in_current_shell root (i # p) =
     (if is_some_and (\<lambda>s. kind s = ''&'') (node_at root (Suc i # p)) then False
      else if is_some_and (\<lambda>n. kind n \<in> set [''subshell'', ''pipeline'', ''command_substitution'',
                                         ''process_substitution'']) (node_at root p) then False
      else runs_in_current_shell root p)"

definition cwd_poison_positions :: "node \<Rightarrow> str \<Rightarrow> nat list" where
  "cwd_poison_positions root src =
     map (\<lambda>pn. start_byte (snd pn))
       (filter (\<lambda>(p, n). kind n = ''command''
            \<and> is_some_and (\<lambda>m. shell_program_name (utf8_text m src) \<in> set [''cd'', ''pushd'', ''popd''])
                (child_by_field_name n ''name'')
            \<and> runs_in_current_shell root p)
         (walk_from (\<lambda>_. True) False root))"

definition cwd_unpinned_before :: "nat list \<Rightarrow> nat \<Rightarrow> bool" where
  "cwd_unpinned_before positions at = list_ex (\<lambda>p. p < at) positions"

definition expansion_kinds :: "str list" where
  "expansion_kinds =
     [''expansion'', ''simple_expansion'', ''command_substitution'', ''arithmetic_expansion'',
      ''process_substitution'']"

definition node_has_expansion :: "node \<Rightarrow> bool" where
  "node_has_expansion n =
     list_ex (\<lambda>m. list_ex (\<lambda>c. kind c \<in> set expansion_kinds) (children m)) (walk n)"

definition strip_pair :: "char \<Rightarrow> str \<Rightarrow> str" where
  "strip_pair q raw = (case strip_quotes q raw of Some s \<Rightarrow> s | None \<Rightarrow> raw)"

definition shell_node_arg :: "node \<Rightarrow> str \<Rightarrow> arg_text option" where
  "shell_node_arg n src =
     (let k = kind n; txt = utf8_text n src in
      if k = ''variable_assignment'' then None
      else if k = ''word'' \<or> k = ''number'' then Some (Literal txt)
      else if k = ''raw_string'' then Some (Literal (strip_pair (CHR 0x27) txt))
      else if k = ''string'' then
        (if node_has_expansion n then Some Ambiguous else Some (Literal (strip_pair (CHR 0x22) txt)))
      else if k = ''concatenation'' then
        (if node_has_expansion n then Some Ambiguous else Some (Literal txt))
      else Some Ambiguous)"

fun invocation_words :: "str \<Rightarrow> node list \<Rightarrow> str list \<Rightarrow> bool \<Rightarrow> str list \<times> bool" where
  "invocation_words src [] ws amb = (ws, amb)"
| "invocation_words src (c # cs) ws amb =
     (case (if kind c = ''command_name''
            then Option.bind (named_child c 0) (\<lambda>inner. shell_node_arg inner src)
            else shell_node_arg c src) of
        Some (Literal t) \<Rightarrow> invocation_words src cs (ws @ [t]) amb
      | Some Ambiguous \<Rightarrow> invocation_words src cs ws True
      | None \<Rightarrow> invocation_words src cs ws amb)"

type_synonym invocation = "nat \<times> str list \<times> bool"

definition shell_command_invocations :: "node \<Rightarrow> str \<Rightarrow> invocation list" where
  "shell_command_invocations root src =
     sort_key fst
       (map (\<lambda>n. (start_byte n, invocation_words src (named_children n) [] False))
         (filter (\<lambda>n. kind n = ''command'') (walk root)))"

definition shell_arg_is_ambiguous :: "str \<Rightarrow> bool" where
  "shell_arg_is_ambiguous token =
     (contains_char token (CHR ''*'') \<or> contains_char token (CHR ''?'') \<or> contains_char token (CHR ''[''))"

fun redirect_mode :: "node list \<Rightarrow> shell_file_mode option" where
  "redirect_mode [] = None"
| "redirect_mode (c # cs) =
     (if contains (kind c) ''<<'' then None
      else if contains_char (kind c) (CHR ''>'') then Some ShellWrite
      else if contains_char (kind c) (CHR ''<'') then Some ShellRead
      else redirect_mode cs)"

type_synonym redirect_target = "nat \<times> str option \<times> shell_file_mode \<times> bool"

definition shell_redirect_one :: "node \<Rightarrow> str \<Rightarrow> (str option \<times> shell_file_mode \<times> bool) option" where
  "shell_redirect_one n src =
     Option.bind (redirect_mode (children n)) (\<lambda>mode.
     Option.bind (child_by_field_name n ''destination'') (\<lambda>dest.
     case shell_node_arg dest src of
       None \<Rightarrow> None
     | Some (Literal s) \<Rightarrow>
         (if s = [] \<or> starts_with s ''&'' \<or> list_all is_ascii_digit s then None
          else Some (Some s, mode, shell_arg_is_ambiguous s))
     | Some Ambiguous \<Rightarrow> Some (None, mode, True)))"

definition shell_redirect_targets :: "node \<Rightarrow> str \<Rightarrow> redirect_target list" where
  "shell_redirect_targets root src =
     List.map_filter
       (\<lambda>n. if kind n = ''file_redirect''
            then map_option (\<lambda>t. (start_byte n, t)) (shell_redirect_one n src) else None)
       (walk root)"

subsection \<open>Operands by program\<close>

definition shell_sed_in_place :: "str list \<Rightarrow> bool" where
  "shell_sed_in_place words =
     list_ex (\<lambda>word. word = ''--in-place'' \<or> starts_with word ''--in-place=''
                \<or> (starts_with word ''-'' \<and> \<not> starts_with word ''--'' \<and> contains_char word (CHR ''i'')))
       (drop 1 words)"

text \<open>Each word with the word that follows it.\<close>

fun with_next :: "str list \<Rightarrow> (str \<times> str option) list" where
  "with_next [] = []"
| "with_next (w # ws) = (w, first_opt ws) # with_next ws"

definition nonempty_value :: "str option \<Rightarrow> str option" where
  "nonempty_value v = filter_option (\<lambda>s. s \<noteq> []) v"

definition shell_output_flag_values :: "str list \<Rightarrow> str list" where
  "shell_output_flag_values words =
     List.map_filter
       (\<lambda>(token, next_word).
          or_else (strip_prefix token ''--output='')
            (or_else (nonempty_value (strip_prefix token ''-o''))
              (if token = ''--output'' \<or> token = ''-o'' then next_word else None)))
       (with_next words)"

definition value_flag_values :: "str list \<Rightarrow> str \<Rightarrow> str list" where
  "value_flag_values words flag =
     List.map_filter
       (\<lambda>(token, next_word).
          case strip_prefix token (flag @ ''='') of
            Some v \<Rightarrow> Some v
          | None \<Rightarrow>
              if token = flag then next_word
              else if \<not> starts_with flag ''--'' then nonempty_value (strip_prefix token flag)
              else None)
       (with_next words)"

fun file_candidates_from :: "bool \<Rightarrow> str list \<Rightarrow> str list" where
  "file_candidates_from end_of_options [] = []"
| "file_candidates_from end_of_options (token # rest) =
     (if \<not> end_of_options \<and> token = ''--'' then file_candidates_from True rest
      else (if end_of_options \<or> (token \<noteq> ''-'' \<and> \<not> starts_with token ''-'') then [token] else [])
             @ file_candidates_from end_of_options rest)"

definition shell_file_candidates :: "str list \<Rightarrow> str list" where
  "shell_file_candidates words = file_candidates_from False (drop 1 words)"

type_synonym operand = "str \<times> shell_file_mode"

definition special_file_operands :: "str \<Rightarrow> str list \<Rightarrow> operand list" where
  "special_file_operands program words =
     (if program = ''dd'' then
        List.map_filter
          (\<lambda>token. or_else (map_option (\<lambda>f. (f, ShellRead)) (strip_prefix token ''if=''))
                      (map_option (\<lambda>f. (f, ShellWrite)) (strip_prefix token ''of='')))
          (drop 1 words)
      else if program \<in> set [''sort'', ''go'', ''git''] then
        map (\<lambda>f. (f, ShellWrite)) (shell_output_flag_values words)
      else if program = ''rustc'' then
        map (\<lambda>f. (f, ShellWrite))
          (shell_output_flag_values words @ value_flag_values words ''--out-dir'')
      else if program = ''rustfmt'' then
        map (\<lambda>f. (f, ShellWrite)) (shell_file_candidates words)
      else [])"

definition shell_path_command_operands :: "str \<Rightarrow> str list \<Rightarrow> operand list option" where
  "shell_path_command_operands program words =
     (let operands = shell_file_candidates words in
      if program \<in> set [''cp'', ''mv'', ''ln'', ''install''] then
        (if operands = [] then None
         else Some (map (\<lambda>s. (s, ShellRead)) (butlast operands) @ [(last operands, ShellWrite)]))
      else if program \<in> set [''rm'', ''rmdir'', ''mkdir'', ''touch''] then
        Some (map (\<lambda>c. (c, ShellWrite)) operands)
      else if program = ''uniq'' then
        (case operands of
           input # output # _ \<Rightarrow> Some [(input, ShellRead), (output, ShellWrite)]
         | _ \<Rightarrow> None)
      else None)"

definition is_directory_operand :: "str \<Rightarrow> bool" where
  "is_directory_operand token = (token = ''.'' \<or> token = ''..'' \<or> ends_with token ''/'')"

definition shell_reader_can_recurse :: "str \<Rightarrow> str list \<Rightarrow> str list \<Rightarrow> bool" where
  "shell_reader_can_recurse program words candidates =
     (let grep_recursive =
            program \<in> set [''grep'', ''egrep'', ''fgrep'']
            \<and> list_ex (\<lambda>word. word = ''--recursive'' \<or> word = ''--dereference-recursive''
                 \<or> (starts_with word ''-'' \<and> \<not> starts_with word ''--''
                    \<and> (contains_char word (CHR ''r'') \<or> contains_char word (CHR ''R'')))) words;
          searches_dir =
            program \<in> set [''rg'', ''ag'', ''ack'']
            \<and> (length candidates \<le> 1 \<or> list_ex is_directory_operand (drop 1 candidates))
      in grep_recursive \<or> searches_dir)"

text \<open>The files a single command writes, and all the files a script writes.\<close>

definition written :: "operand list \<Rightarrow> str list" where
  "written ops = map fst (filter (\<lambda>(f, m). m = ShellWrite) ops)"

definition command_words_write_paths :: "str list \<Rightarrow> str list" where
  "command_words_write_paths words =
     (let inner = unwrap_wrappers words in
      case inner of
        [] \<Rightarrow> []
      | w # _ \<Rightarrow>
          (let program = to_lowercase (shell_program_name w);
               out = written (special_file_operands program inner)
           in case shell_path_command_operands program inner of
                Some operands \<Rightarrow> out @ written operands
              | None \<Rightarrow>
                  (if shell_file_mode program = Some ShellWrite
                      \<or> (program = ''sed'' \<and> shell_sed_in_place inner)
                   then out @ shell_file_candidates inner
                   else out)))"

definition command_write_paths_in_tree :: "node \<Rightarrow> str \<Rightarrow> str list" where
  "command_write_paths_in_tree root src =
     List.map_filter (\<lambda>(start, f, mode, amb). if mode = ShellWrite then f else None)
       (shell_redirect_targets root src)
     @ concat (map (\<lambda>(start, ws, amb). command_words_write_paths ws)
                (shell_command_invocations root src))"

subsection \<open>The gate\<close>

fun shell_access :: "shell_file_mode \<Rightarrow> str \<Rightarrow> access_kind" where
  "shell_access ShellRead f = AccessRead (Some f)"
| "shell_access ShellWrite f = AccessEdit f"

definition escalate_access :: "world \<Rightarrow> compiled_policy \<Rightarrow> access_kind \<Rightarrow> decision option" where
  "escalate_access w p access =
     (case evaluate w p access of Some Allow \<Rightarrow> None | None \<Rightarrow> None | other \<Rightarrow> other)"

definition evaluate_shell_path ::
  "world \<Rightarrow> compiled_policy \<Rightarrow> str \<Rightarrow> str \<Rightarrow> shell_file_mode \<Rightarrow> decision option" where
  "evaluate_shell_path w p cwd token mode =
     (let f = normalize_shell_path token;
          absol = (if is_absolute_shell_path f then f
                   else normalize_shell_path (join_str cwd f));
          raw = normalize_shell_path_raw token;
          raw_absolute = (if is_absolute_shell_path raw then raw
                          else normalize_shell_path_raw (join_str cwd raw));
          resolved_decision =
            (case resolve_symlink_target w raw_absolute of
               Some resolved \<Rightarrow>
                 (if resolved \<noteq> absol then escalate_access w p (shell_access mode resolved) else None)
             | None \<Rightarrow> then_some (path_has_symlink w raw_absolute) Ask)
      in combine_decisions
           (combine_decisions (escalate_access w p (shell_access mode f))
              (escalate_access w p (shell_access mode absol)))
           resolved_decision)"

type_synonym gate_state = "decision option \<times> bool"

text \<open>The gate's two accumulators: the strongest decision so far and \<^verbatim>\<open>forced_ask\<close>.\<close>

definition check_operand ::
  "world \<Rightarrow> compiled_policy \<Rightarrow> str \<Rightarrow> operand \<Rightarrow> gate_state \<Rightarrow> gate_state" where
  "check_operand w p cwd = (\<lambda>(f, mode) (d, forced).
     (combine_decisions d (evaluate_shell_path w p cwd f mode),
      forced \<or> shell_arg_is_ambiguous f))"

definition check_redirect ::
  "world \<Rightarrow> compiled_policy \<Rightarrow> str \<Rightarrow> nat list \<Rightarrow> redirect_target \<Rightarrow> gate_state \<Rightarrow> gate_state" where
  "check_redirect w p cwd cwd_changes = (\<lambda>(start, target, mode, ambiguous) (d, forced).
     let forced = (forced \<or> ambiguous) in
     case target of
       None \<Rightarrow> (d, forced)
     | Some f \<Rightarrow>
         (combine_decisions d (evaluate_shell_path w p cwd f mode),
          forced \<or> (cwd_unpinned_before cwd_changes start
                     \<and> \<not> is_absolute_shell_path (normalize_shell_path f))))"

definition check_invocation ::
  "world \<Rightarrow> compiled_policy \<Rightarrow> str \<Rightarrow> nat list \<Rightarrow> bool \<Rightarrow> invocation \<Rightarrow> gate_state \<Rightarrow> gate_state" where
  "check_invocation w p cwd cwd_changes parse_failed = (\<lambda>(start, raw_words, arg_ambiguous) (d, forced).
     let words = unwrap_wrappers raw_words in
     case map_option shell_program_name (first_opt words) of
       None \<Rightarrow> (d, forced)
     | Some program \<Rightarrow>
         (let program_lower = to_lowercase program in
          if program_lower = ''cd'' then (d, forced)
          else
            (let cwd_unpinned = (cwd_unpinned_before cwd_changes start \<or> wrapper_has_chdir raw_words);
                 candidates = shell_file_candidates words;
                 path_operands = shell_path_command_operands program_lower words;
                 is_known = (program_lower = ''dd'' \<or> shell_file_mode program_lower \<noteq> None
                             \<or> path_operands \<noteq> None);
                 forced = (forced \<or> (is_known \<and> (cwd_unpinned \<or> arg_ambiguous \<or> parse_failed)));
                 st = fold (check_operand w p cwd) (special_file_operands program_lower words) (d, forced)
             in if program_lower = ''dd'' then st
                else case path_operands of
                  Some operands \<Rightarrow> fold (check_operand w p cwd) operands st
                | None \<Rightarrow>
                    (let modes =
                       (case shell_file_mode program_lower of
                          Some m \<Rightarrow>
                            (if program_lower = ''sed'' \<and> shell_sed_in_place words
                             then Some [ShellRead, ShellWrite] else Some [m])
                        | None \<Rightarrow> None)
                     in case modes of
                          None \<Rightarrow> st
                        | Some ms \<Rightarrow>
                            (let (d, forced) =
                               fold (check_operand w p cwd)
                                 (concat (map (\<lambda>token. map (Pair token) ms) candidates)) st
                             in (d, forced \<or> shell_reader_can_recurse program_lower words candidates))))))"

definition evaluate_shell_file_access ::
  "world \<Rightarrow> compiled_policy \<Rightarrow> str \<Rightarrow> str \<Rightarrow> decision option" where
  "evaluate_shell_file_access w p cwd cmd =
     (if \<not> has_file_restrictions p then None
      else case try_parse_shell w cmd of
        None \<Rightarrow> None
      | Some t \<Rightarrow>
          (let root = root_node t;
               parse_failed = has_error t;
               invocations = shell_command_invocations root cmd;
               cwd_changes = cwd_poison_positions root cmd;
               st = fold (check_redirect w p cwd cwd_changes) (shell_redirect_targets root cmd)
                      (None, False);
               (d, forced_ask) =
                 fold (check_invocation w p cwd cwd_changes parse_failed) invocations st
           in combine_decisions d (then_some forced_ask Ask)))"

subsection \<open>What the gate checks\<close>

text \<open>
  The files a command touches according to its words, and those a whole script touches: the
  specification against which the two folds of the gate are measured.
\<close>

definition command_modes :: "str \<Rightarrow> str list \<Rightarrow> shell_file_mode list" where
  "command_modes program words =
     (case shell_file_mode program of
        None \<Rightarrow> []
      | Some m \<Rightarrow>
          if program = ''sed'' \<and> shell_sed_in_place words then [ShellRead, ShellWrite] else [m])"

definition command_accesses :: "str list \<Rightarrow> operand list" where
  "command_accesses raw_words =
     (let words = unwrap_wrappers raw_words in
      case words of
        [] \<Rightarrow> []
      | w # _ \<Rightarrow>
          (let program = to_lowercase (shell_program_name w) in
           if program = ''cd'' then []
           else special_file_operands program words
             @ (if program = ''dd'' then []
                else case shell_path_command_operands program words of
                  Some ops \<Rightarrow> ops
                | None \<Rightarrow>
                    concat (map (\<lambda>token. map (Pair token) (command_modes program words))
                             (shell_file_candidates words)))))"

definition redirect_accesses :: "redirect_target list \<Rightarrow> operand list" where
  "redirect_accesses ts =
     List.map_filter (\<lambda>(start, target, mode, amb). map_option (\<lambda>f. (f, mode)) target) ts"

definition script_accesses :: "node \<Rightarrow> str \<Rightarrow> operand list" where
  "script_accesses root src =
     redirect_accesses (shell_redirect_targets root src)
     @ concat (map (\<lambda>(start, ws, amb). command_accesses ws) (shell_command_invocations root src))"

abbreviation combine_all :: "decision option list \<Rightarrow> decision option \<Rightarrow> decision option" where
  "combine_all \<equiv> fold (\<lambda>b a. combine_decisions a b)"

definition operand_outcomes ::
  "world \<Rightarrow> compiled_policy \<Rightarrow> str \<Rightarrow> operand list \<Rightarrow> decision option list" where
  "operand_outcomes w p cwd ops = map (\<lambda>(f, m). evaluate_shell_path w p cwd f m) ops"

lemma operand_outcomes_simps [simp]:
  "operand_outcomes w p cwd [] = []"
  "operand_outcomes w p cwd ((f, m) # ops) =
     evaluate_shell_path w p cwd f m # operand_outcomes w p cwd ops"
  "operand_outcomes w p cwd (xs @ ys) = operand_outcomes w p cwd xs @ operand_outcomes w p cwd ys"
  by (simp_all add: operand_outcomes_def)

lemma fold_check_operand:
  "fst (fold (check_operand w p cwd) ops st) = combine_all (operand_outcomes w p cwd ops) (fst st)
   \<and> snd (fold (check_operand w p cwd) ops st)
       = (snd st \<or> list_ex (\<lambda>(f, m). shell_arg_is_ambiguous f) ops)"
  by (induction ops arbitrary: st) (auto simp: check_operand_def split: prod.splits)

lemmas fst_fold_check_operand = fold_check_operand [THEN conjunct1]
  and snd_fold_check_operand = fold_check_operand [THEN conjunct2]

lemma check_redirect_decision:
  "fst (check_redirect w p cwd changes t st) =
     combine_all (operand_outcomes w p cwd (redirect_accesses [t])) (fst st)"
  by (cases t; cases st; cases "fst (snd t)")
    (auto simp: check_redirect_def redirect_accesses_def map_filter_simps Let_def)

lemma fold_check_redirect:
  "fst (fold (check_redirect w p cwd changes) ts st) =
     combine_all (operand_outcomes w p cwd (redirect_accesses ts)) (fst st)"
proof (induction ts arbitrary: st)
  case Nil
  then show ?case by (simp add: redirect_accesses_def map_filter_simps)
next
  case (Cons t ts)
  have "redirect_accesses (t # ts) = redirect_accesses [t] @ redirect_accesses ts"
    by (auto simp: redirect_accesses_def map_filter_simps split: option.splits)
  with Cons check_redirect_decision [of w p cwd changes t st] show ?case by simp
qed

lemma concat_map_Nil: "concat (map (\<lambda>_. []) xs) = []"
  by (induction xs) auto

lemma check_invocation_decision:
  "fst (check_invocation w p cwd changes failed (start, raw, amb) st) =
     combine_all (operand_outcomes w p cwd (command_accesses raw)) (fst st)"
proof -
  obtain d f where st: "st = (d, f)" by (cases st)
  show ?thesis
  proof (cases "unwrap_wrappers raw")
    case Nil
    then show ?thesis
      by (simp add: check_invocation_def command_accesses_def st first_opt_def Let_def)
  next
    case (Cons v vs)
    let ?pl = "to_lowercase (shell_program_name v)"
    show ?thesis
    proof (cases "shell_path_command_operands ?pl (v # vs)")
      case None
      then show ?thesis using Cons
        by (cases "shell_file_mode ?pl")
          (auto simp: check_invocation_def command_accesses_def command_modes_def st first_opt_def
            Let_def fst_fold_check_operand case_prod_unfold concat_map_Nil)
    next
      case (Some ops)
      with Cons show ?thesis
        by (auto simp: check_invocation_def command_accesses_def st first_opt_def Let_def
            fst_fold_check_operand)
    qed
  qed
qed

lemma fold_check_invocation:
  "fst (fold (check_invocation w p cwd changes failed) is st) =
     combine_all (operand_outcomes w p cwd
       (concat (map (\<lambda>(start, ws, amb). command_accesses ws) is))) (fst st)"
  by (induction "is" arbitrary: st) (auto simp: check_invocation_decision)

text \<open>The spellings of an operand that the rules are matched against.\<close>

definition absolute_operand :: "str \<Rightarrow> str \<Rightarrow> str" where
  "absolute_operand cwd token =
     (let f = normalize_shell_path token in
      if is_absolute_shell_path f then f else normalize_shell_path (join_str cwd f))"

definition raw_absolute_operand :: "str \<Rightarrow> str \<Rightarrow> str" where
  "raw_absolute_operand cwd token =
     (let raw = normalize_shell_path_raw token in
      if is_absolute_shell_path raw then raw else normalize_shell_path_raw (join_str cwd raw))"

definition operand_paths :: "world \<Rightarrow> str \<Rightarrow> str \<Rightarrow> str list" where
  "operand_paths w cwd token =
     [normalize_shell_path token, absolute_operand cwd token]
     @ (case resolve_symlink_target w (raw_absolute_operand cwd token) of
          Some r \<Rightarrow> [r] | None \<Rightarrow> [])"

lemma escalates_escalate_access [simp]: "escalates (escalate_access w p access)"
proof (cases "evaluate w p access")
  case None
  then show ?thesis by (simp add: escalate_access_def)
next
  case (Some d)
  have "d \<in> {Allow, Ask} \<or> (\<exists>r. d = Reject r)"
    using Some evaluate_rules_cases [of w access "zip (rules (config p)) (matchers p)" False False]
    by (auto simp: evaluate_def split: if_splits)
  with Some show ?thesis by (auto simp: escalate_access_def)
qed

lemma escalate_access_Reject:
  "(\<exists>r. escalate_access w (policy_new w cfg) access = Some (Reject r)) \<longleftrightarrow>
     config_has w cfg access RuleDeny"
  using evaluate_Reject_iff [of w cfg access]
  by (auto simp: escalate_access_def split: option.splits decision.splits)

lemma evaluate_shell_path_unfold:
  "evaluate_shell_path w p cwd token mode =
     combine_decisions
       (combine_decisions (escalate_access w p (shell_access mode (normalize_shell_path token)))
          (escalate_access w p (shell_access mode (absolute_operand cwd token))))
       (case resolve_symlink_target w (raw_absolute_operand cwd token) of
          Some r \<Rightarrow> if r \<noteq> absolute_operand cwd token
                    then escalate_access w p (shell_access mode r) else None
        | None \<Rightarrow> then_some (path_has_symlink w (raw_absolute_operand cwd token)) Ask)"
  unfolding evaluate_shell_path_def absolute_operand_def raw_absolute_operand_def Let_def ..

lemma escalates_then_some [simp]: "escalates (then_some b Ask)"
  by (simp add: then_some_def)

lemma escalates_shell_path [simp]: "escalates (evaluate_shell_path w p cwd token mode)"
  unfolding evaluate_shell_path_unfold by (auto split: option.splits intro!: escalates_combine)

lemma evaluate_shell_path_Reject:
  "(\<exists>r. evaluate_shell_path w (policy_new w cfg) cwd token mode = Some (Reject r)) \<longleftrightarrow>
     (\<exists>f. f \<in> set (operand_paths w cwd token) \<and> config_has w cfg (shell_access mode f) RuleDeny)"
proof -
  let ?p = "policy_new w cfg" and ?abs = "absolute_operand cwd token"
  let ?res = "case resolve_symlink_target w (raw_absolute_operand cwd token) of
      Some r \<Rightarrow> if r \<noteq> ?abs then escalate_access w ?p (shell_access mode r) else None
    | None \<Rightarrow> then_some (path_has_symlink w (raw_absolute_operand cwd token)) Ask"
  have res: "escalates ?res" by (auto split: option.splits)
  have "(\<exists>r. ?res = Some (Reject r)) \<or> config_has w cfg (shell_access mode ?abs) RuleDeny \<longleftrightarrow>
      config_has w cfg (shell_access mode ?abs) RuleDeny
      \<or> (\<exists>r. resolve_symlink_target w (raw_absolute_operand cwd token) = Some r
           \<and> config_has w cfg (shell_access mode r) RuleDeny)"
    using escalate_access_Reject [of w cfg]
    by (cases "resolve_symlink_target w (raw_absolute_operand cwd token)")
      (auto simp: then_some_def)
  then show ?thesis
    unfolding evaluate_shell_path_unfold
    by (subst combine_is_Reject [OF escalates_combine [OF escalates_escalate_access
            escalates_escalate_access] res],
        subst combine_is_Reject [OF escalates_escalate_access escalates_escalate_access])
      (auto simp: operand_paths_def escalate_access_Reject split: option.splits)
qed

lemma escalates_combine_all:
  "(\<And>b. b \<in> set bs \<Longrightarrow> escalates b) \<Longrightarrow> escalates a \<Longrightarrow> escalates (combine_all bs a)"
  by (rule escalates_fold)

lemma combine_all_Reject:
  assumes "\<And>b. b \<in> set bs \<Longrightarrow> escalates b"
  shows "(\<exists>r. combine_all bs None = Some (Reject r)) \<longleftrightarrow> (\<exists>b r. b \<in> set bs \<and> b = Some (Reject r))"
proof -
  have "escalates (combine_all bs None)" using assms by (auto intro!: escalates_combine_all)
  moreover have "(\<exists>r. b = Some (Reject r)) \<longleftrightarrow> 4 \<le> outcome_strength b" if "b \<in> set bs" for b
    using escalates_strength(1) assms that by blast
  moreover have "4 \<le> outcome_strength (combine_all bs None) \<longleftrightarrow>
      (\<exists>b. b \<in> set bs \<and> 4 \<le> outcome_strength b)"
    unfolding dc.fold_strength by (subst Max_ge_iff) auto
  ultimately show ?thesis using escalates_strength(1) by blast
qed

text \<open>The decision of the gate, without the forced prompts, is the fold over the accesses.\<close>

lemma shell_gate_unfold:
  assumes "parse_shell w cmd = Some t" "has_file_restrictions p"
  shows "\<exists>forced. evaluate_shell_file_access w p cwd cmd =
     combine_decisions
       (combine_all (operand_outcomes w p cwd (script_accesses (root_node t) cmd)) None)
       (then_some forced Ask)"
  using assms
  by (auto simp: evaluate_shell_file_access_def try_parse_shell_def Let_def case_prod_unfold
      fold_check_invocation fold_check_redirect script_accesses_def)

lemma escalates_operand_outcomes: "b \<in> set (operand_outcomes w p cwd ops) \<Longrightarrow> escalates b"
  by (auto simp: operand_outcomes_def)

lemma unrestricted_no_file_rule:
  assumes "\<not> has_file_restrictions (policy_new w cfg)" "act \<in> {RuleDeny, RuleAsk}"
  shows "\<not> config_has w cfg (shell_access mode f) act"
proof
  assume "config_has w cfg (shell_access mode f) act"
  then obtain r where r: "r \<in> set (rules cfg)" "action r = act" "rule_matches w (shell_access mode f) r"
    unfolding config_has_iff by blast
  then have "tool r \<in> set [ToolRead, ToolEdit, ToolAny]"
    by (cases "tool r"; cases mode) (auto simp: rule_matches_def rule_applies_def)
  with r assms show False by (auto simp: policy_new_def list_ex_iff)
qed

lemma outcomes_Reject:
  "(\<exists>r. combine_all (operand_outcomes w (policy_new w cfg) cwd ops) None = Some (Reject r)) \<longleftrightarrow>
     (\<exists>token mode f. (token, mode) \<in> set ops \<and> f \<in> set (operand_paths w cwd token)
        \<and> config_has w cfg (shell_access mode f) RuleDeny)"
proof -
  have outcomes: "(\<exists>b r. b \<in> set (operand_outcomes w (policy_new w cfg) cwd ops) \<and> b = Some (Reject r)) \<longleftrightarrow>
      (\<exists>token mode. (token, mode) \<in> set ops
         \<and> (\<exists>r. evaluate_shell_path w (policy_new w cfg) cwd token mode = Some (Reject r)))"
    by (force simp: operand_outcomes_def)
  have "(\<exists>r. combine_all (operand_outcomes w (policy_new w cfg) cwd ops) None = Some (Reject r)) \<longleftrightarrow>
      (\<exists>b r. b \<in> set (operand_outcomes w (policy_new w cfg) cwd ops) \<and> b = Some (Reject r))"
    by (rule combine_all_Reject) (rule escalates_operand_outcomes)
  then show ?thesis unfolding outcomes evaluate_shell_path_Reject by blast
qed

lemma parsed_gate_rejects:
  assumes "parse_shell w cmd = Some t"
  shows "(\<exists>r. evaluate_shell_file_access w (policy_new w cfg) cwd cmd = Some (Reject r)) \<longleftrightarrow>
    (\<exists>token mode f. (token, mode) \<in> set (script_accesses (root_node t) cmd)
      \<and> f \<in> set (operand_paths w cwd token)
      \<and> config_has w cfg (shell_access mode f) RuleDeny)"
proof (cases "has_file_restrictions (policy_new w cfg)")
  case False
  then show ?thesis
    using unrestricted_no_file_rule by (auto simp: evaluate_shell_file_access_def)
next
  case True
  let ?all = "combine_all (operand_outcomes w (policy_new w cfg) cwd
      (script_accesses (root_node t) cmd)) None"
  obtain forced where "evaluate_shell_file_access w (policy_new w cfg) cwd cmd
      = combine_decisions ?all (then_some forced Ask)"
    using shell_gate_unfold [OF assms True] by blast
  moreover have "escalates ?all"
    by (rule escalates_combine_all) (auto dest: escalates_operand_outcomes)
  moreover have "then_some forced Ask \<noteq> Some (Reject r)" for r
    by (simp add: then_some_def)
  ultimately show ?thesis
    using combine_is_Reject [OF _ escalates_then_some] outcomes_Reject by auto
qed

text \<open>
  C14. Shell commands cannot read or write around the file rules: the gate rejects a script exactly
  when some file its words or redirects touch is denied under one of its spellings, namely as
  written, made absolute against the working directory, or with every symbolic link resolved.
\<close>

theorem shell_gate_rejects_iff:
  "(\<exists>r. evaluate_shell_file_access w (policy_new w cfg) cwd cmd = Some (Reject r)) \<longleftrightarrow>
   (\<exists>t token mode f. parse_shell w cmd = Some t
      \<and> (token, mode) \<in> set (script_accesses (root_node t) cmd)
      \<and> f \<in> set (operand_paths w cwd token)
      \<and> config_has w cfg (shell_access mode f) RuleDeny)"
proof (cases "parse_shell w cmd")
  case None
  then show ?thesis by (simp add: evaluate_shell_file_access_def try_parse_shell_def)
next
  case (Some t)
  from parsed_gate_rejects [OF this] Some show ?thesis by simp
qed

lemma escalates_shell_file_access: "escalates (evaluate_shell_file_access w p cwd cmd)"
proof (cases "has_file_restrictions p \<and> parse_shell w cmd \<noteq> None")
  case False
  then show ?thesis by (auto simp: evaluate_shell_file_access_def try_parse_shell_def)
next
  case True
  then obtain t where "parse_shell w cmd = Some t" by auto
  with shell_gate_unfold [of w cmd t p cwd] True obtain forced
    where "evaluate_shell_file_access w p cwd cmd = combine_decisions
      (combine_all (operand_outcomes w p cwd (script_accesses (root_node t) cmd)) None)
      (then_some forced Ask)" by blast
  then show ?thesis
    by (auto intro!: escalates_combine escalates_combine_all dest: escalates_operand_outcomes)
qed

lemma set_written: "f \<in> set (written ops) \<longleftrightarrow> (f, ShellWrite) \<in> set ops"
  by (force simp: written_def)

lemma cd_dd_operands:
  "shell_path_command_operands ''dd'' ws = None" "shell_file_mode ''dd'' = None"
  "shell_path_command_operands ''cd'' ws = None" "shell_file_mode ''cd'' = None"
  "special_file_operands ''cd'' ws = []"
  by (simp_all add: shell_path_command_operands_def shell_file_mode_def read_programs_def
      write_programs_def special_file_operands_def Let_def)

lemma command_write_paths_checked:
  assumes "f \<in> set (command_words_write_paths ws)"
  shows "(f, ShellWrite) \<in> set (command_accesses ws)"
proof (cases "unwrap_wrappers ws")
  case Nil
  with assms show ?thesis by (simp add: command_words_write_paths_def)
next
  case (Cons v vs)
  define pl where "pl = to_lowercase (shell_program_name v)"
  have writes: "f \<in> set (case shell_path_command_operands pl (v # vs) of
        Some operands \<Rightarrow> written (special_file_operands pl (v # vs)) @ written operands
      | None \<Rightarrow> (if shell_file_mode pl = Some ShellWrite \<or> pl = ''sed'' \<and> shell_sed_in_place (v # vs)
                 then written (special_file_operands pl (v # vs)) @ shell_file_candidates (v # vs)
                 else written (special_file_operands pl (v # vs))))"
    using assms unfolding command_words_write_paths_def Let_def Cons list.case pl_def .
  have goal: "command_accesses ws = (if pl = ''cd'' then []
      else special_file_operands pl (v # vs)
        @ (if pl = ''dd'' then []
           else case shell_path_command_operands pl (v # vs) of
             Some ops \<Rightarrow> ops
           | None \<Rightarrow> concat (map (\<lambda>token. map (Pair token) (command_modes pl (v # vs)))
                               (shell_file_candidates (v # vs)))))"
    unfolding command_accesses_def Let_def Cons list.case pl_def ..
  have modes: "ShellWrite \<in> set (command_modes pl (v # vs))"
    if "shell_file_mode pl = Some ShellWrite \<or> pl = ''sed'' \<and> shell_sed_in_place (v # vs)"
  proof -
    have "shell_file_mode ''sed'' = Some ShellRead"
      by (simp add: shell_file_mode_def read_programs_def)
    with that show ?thesis by (auto simp: command_modes_def)
  qed
  consider "pl = ''cd''" | "pl = ''dd''" | "pl \<noteq> ''cd''" "pl \<noteq> ''dd''" by blast
  then show ?thesis
  proof cases
    case 1
    with writes show ?thesis by (simp add: cd_dd_operands set_written written_def)
  next
    case 2
    with writes goal show ?thesis by (simp add: cd_dd_operands set_written)
  next
    case 3
    with writes goal modes show ?thesis
      by (cases "shell_path_command_operands pl (v # vs)") (auto simp: set_written split: if_splits)
  qed
qed

text \<open>
  The write model of the auto mode agrees with the gate: every file that
  \<^verbatim>\<open>command_write_paths_in_tree\<close> reports as written by a script is one of the accesses the gate
  checks, in write mode.
\<close>

lemma write_paths_are_checked:
  "set (command_write_paths_in_tree root src) \<subseteq>
     {f. (f, ShellWrite) \<in> set (script_accesses root src)}"
proof
  fix f assume f: "f \<in> set (command_write_paths_in_tree root src)"
  then consider
      (redirect) start amb where "(start, Some f, ShellWrite, amb) \<in> set (shell_redirect_targets root src)"
    | (words) start ws amb where "(start, ws, amb) \<in> set (shell_command_invocations root src)"
        "f \<in> set (command_words_write_paths ws)"
    unfolding command_write_paths_in_tree_def set_append set_map_filter
    by (auto split: if_splits)
  then show "f \<in> {f. (f, ShellWrite) \<in> set (script_accesses root src)}"
  proof cases
    case redirect
    then have "(f, ShellWrite) \<in> set (redirect_accesses (shell_redirect_targets root src))"
      unfolding redirect_accesses_def set_map_filter by (intro CollectI bexI) auto
    then show ?thesis by (simp add: script_accesses_def)
  next
    case words
    from command_write_paths_checked [OF words(2)] words(1) show ?thesis
      unfolding script_accesses_def by force
  qed
qed

subsection \<open>Normal forms of paths\<close>

definition plain_segment :: "str \<Rightarrow> bool" where
  "plain_segment s = (s \<noteq> [] \<and> s \<noteq> ''.'' \<and> s \<noteq> ''..'' \<and> CHR ''/'' \<notin> set s)"

lemma normalize_segments_absolute:
  "list_all plain_segment out \<Longrightarrow> (\<And>s. s \<in> set segs \<Longrightarrow> CHR ''/'' \<notin> set s) \<Longrightarrow>
   list_all plain_segment (normalize_segments True out segs)"
proof (induction segs arbitrary: out)
  case Nil
  then show ?case by simp
next
  case (Cons s segs)
  have butl: "list_all plain_segment (butlast out)"
    using Cons.prems(1) by (auto simp: list_all_iff dest: in_set_butlastD)
  with Cons.prems show ?case
    by (subst normalize_segments.simps,
        intro holds_if [where P = "list_all plain_segment"] Cons.IH butl)
      (auto simp: plain_segment_def)
qed

lemma normalize_segments_plain:
  "list_all plain_segment segs \<Longrightarrow> normalize_segments a out segs = out @ segs"
  by (induction segs arbitrary: out) (auto simp: plain_segment_def)

lemma normalize_segments_subset:
  "set (normalize_segments True out segs) \<subseteq> set out \<union> set segs"
proof (induction segs arbitrary: out)
  case Nil
  then show ?case by simp
next
  case (Cons s segs)
  show ?case
    by (subst normalize_segments.simps,
        intro holds_if [where P = "\<lambda>x. set x \<subseteq> set out \<union> set (s # segs)"];
        rule order_trans [OF Cons.IH]; auto dest: in_set_butlastD)
qed

definition absolute_segments :: "str \<Rightarrow> str list" where
  "absolute_segments p = normalize_segments True [] (split_on ''/'' p)"

lemma lexical_normalize_unfold:
  assumes "starts_with p ''/''" "CHR '':'' \<notin> set p"
  shows "lexical_normalize p = ''/'' @ join ''/'' (absolute_segments p)"
proof -
  have "nth_opt p 1 \<noteq> Some (CHR '':'')"
    using assms(2) by (auto simp: nth_opt_def split: if_splits dest!: nth_mem)
  with assms(1) show ?thesis
    by (simp add: lexical_normalize_def absolute_segments_def Let_def)
qed

lemma absolute_segments_plain: "list_all plain_segment (absolute_segments p)"
  unfolding absolute_segments_def
  by (rule normalize_segments_absolute) (use split_on_no_sep in fastforce)+

text \<open>
  The rules see every absolute path in one normal form: a slash followed by segments none of
  which is empty, \<open>.\<close> or \<open>..\<close>, and normalising twice changes nothing.  (Paths with a colon are
  left out: a colon in second place is taken for a Windows drive.)
\<close>

lemma lexical_normalize_normal_form:
  assumes "starts_with p ''/''" "CHR '':'' \<notin> set p"
  shows "(\<exists>segs. lexical_normalize p = ''/'' @ join ''/'' segs \<and> list_all plain_segment segs)
    \<and> lexical_normalize (lexical_normalize p) = lexical_normalize p"
proof
  let ?segs = "absolute_segments p" and ?n = "lexical_normalize p"
  have n: "?n = ''/'' @ join ''/'' ?segs" by (rule lexical_normalize_unfold [OF assms])
  with absolute_segments_plain
  show "\<exists>segs. ?n = ''/'' @ join ''/'' segs \<and> list_all plain_segment segs" by blast
  have "set ?n \<subseteq> insert (CHR ''/'') (\<Union>s\<in>set ?segs. set s)"
    using set_join [of "CHR ''/''" ?segs] n by auto
  also have "\<dots> \<subseteq> insert (CHR ''/'') (set p)"
    using normalize_segments_subset [of "[]" "split_on ''/'' p"] set_split_on [of _ "''/''" p]
    unfolding absolute_segments_def by fastforce
  finally have colon: "CHR '':'' \<notin> set ?n" using assms(2) by auto
  have "absolute_segments ?n = ?segs"
  proof (cases "?segs = []")
    case True
    with n show ?thesis by (simp add: absolute_segments_def)
  next
    case False
    have "split_on ''/'' (join ''/'' ?segs) = ?segs"
      by (rule split_on_join [OF False])
        (use absolute_segments_plain [of p] in \<open>auto simp: list_all_iff plain_segment_def\<close>)
    with n normalize_segments_plain [OF absolute_segments_plain, of True "[]" p]
    show ?thesis by (simp add: absolute_segments_def)
  qed
  then show "lexical_normalize ?n = ?n"
    using lexical_normalize_unfold [OF _ colon] n by simp
qed

lemma lexical_normalize_normal_form_example:
  "lexical_normalize ''/a/./b//../c'' = ''/a/c''
   \<and> lexical_normalize (lexical_normalize ''/a/./b//../c'') = ''/a/c''"
proof -
  have "lexical_normalize ''/a/./b//../c'' = ''/a/c''" by code_simp
  with lexical_normalize_normal_form [of "''/a/./b//../c''"] show ?thesis by simp
qed

interpretation file_gate: tightening_gate "evaluate_shell_file_access w p cwd" for w p cwd
  by unfold_locales (rule escalates_shell_file_access)

end
