(* ===== verification/Auto_Classifier.thy ===== *)
theory Auto_Classifier
  imports Shell_Access
begin

text \<open>
  Auto mode (\<^verbatim>\<open>xai-grok-workspace/src/permission/auto_mode.rs\<close>): the fast path, the heuristic
  classifier with its fail-closed lists of routine commands, safe environment keys and package
  manager subcommands, the messages for the language model and the reading of its answer.  The
  model itself is an input: \<open>Some text\<close> if the side query returned an answer.
\<close>

subsection \<open>Vocabulary\<close>

datatype classifier_verdict = VAllow | VBlock | VUnavailable

datatype classifier_prompt_type = Full | NoUserToolPrefix | BareInstructions | JustCommand

datatype classifier_message_role = System | User

record classifier_message =
  role :: classifier_message_role
  message_text :: str

datatype classifier_turn =
  UserText str
| AssistantToolUse str str
| PermissionDecision str str bool

fun render :: "classifier_turn \<Rightarrow> str" where
  "render (UserText txt) = ''User: '' @ txt"
| "render (AssistantToolUse nm args) = nm @ '' '' @ args"
| "render (PermissionDecision nm args approved) =
     (if approved
      then ''The user was asked before running '' @ nm @ '' '' @ args
             @ '' and approved it; it has run once.''
      else ''The user was asked about running '' @ nm @ '' '' @ args @ '' and declined it.'')"

record classifier_context =
  turns :: "classifier_turn list"
  project_instructions :: "str option"

definition transcript_text :: "classifier_context \<Rightarrow> str" where
  "transcript_text ctx = join [CHR 0x0A] (map render (turns ctx))"

subsection \<open>Lists\<close>

definition dangerous_patterns :: "str list" where
  "dangerous_patterns =
     [''rm -rf /'', ''rm -rf /*'', ''mkfs'', ''dd if='', '':(){ :|:& };:'', ''curl | sh'',
      ''curl|sh'', ''curl | bash'', ''curl|bash'', ''wget | sh'', ''wget|sh'', ''wget | bash'',
      ''wget|bash'', ''chmod 777'', ''chmod -r 777'', ''chmod +x /tmp'', ''base64 -d'',
      ''base64 --decode'', ''nc -e'', ''ncat -e'', ''/dev/tcp/'', ''shutdown'', ''reboot'',
      ''useradd'', ''userdel'', ''passwd '', ''chown -r /'', ''iptables -f'', ''kill -9 1'',
      ''sudo rm'', ''sudo dd'', ''sudo mkfs'', ''exfiltrat'', ''steal credential'',
      ''send secrets'']"

definition hostile_intents :: "str list" where
  "hostile_intents =
     [''delete all files'', ''wipe the disk'', ''exfiltrate'', ''steal secrets'',
      ''send my credentials'', ''ignore safety'', ''bypass permission'']"

definition routine_prefixes :: "str list" where
  "routine_prefixes =
     [''cargo '', ''git status'', ''git diff'', ''git log'', ''git branch'', ''git add'',
      ''git commit'', ''git checkout'', ''git switch'', ''git stash'', ''git pull'', ''git fetch'',
      ''git show'', ''git blame'', ''git grep'', ''git ls-files'', ''git rev-parse'',
      ''git describe'', ''git merge-base'', ''git worktree list'', ''pytest'', ''python '',
      ''python3 '', ''node '', ''rustc '', ''rustfmt'', ''clippy'', ''make '', ''cmake '', ''cd'',
      ''pushd'', ''popd'', ''ls'', ''pwd'', ''echo '', ''printf '', ''cat '', ''head '', ''tail '',
      ''wc '', ''rg '', ''grep '', ''which '', ''type '', ''true'', ''false'', ''test '', ''sort '',
      ''uniq '', ''tr '', ''cut '', ''diff '', ''jq '', ''date'', ''whoami'', ''hostname'',
      ''uname'', ''nproc'', ''printenv'', ''stat '', ''file '', ''tree'', ''basename '',
      ''dirname '', ''realpath '', ''readlink '', ''strings '', ''sleep '', ''df '', ''du '',
      ''ps '', ''top'', ''htop'', ''bazel '', ''just '', ''go '', ''kubectl get'',
      ''kubectl logs'', ''kubectl describe'', ''set'']"

definition safe_env_keys :: "str list" where
  "safe_env_keys =
     [''CARGO_TERM_COLOR'', ''CARGO_TERM_PROGRESS_WHEN'', ''RUST_LOG'', ''RUST_LOG_STYLE'',
      ''RUST_BACKTRACE'', ''RUST_TEST_THREADS'', ''RUST_MIN_STACK'', ''NO_COLOR'', ''CLICOLOR'',
      ''CLICOLOR_FORCE'', ''FORCE_COLOR'', ''COLORTERM'']"

definition npm_safe_subcommands :: "str list" where
  "npm_safe_subcommands =
     [''install'', ''i'', ''ci'', ''add'', ''remove'', ''rm'', ''uninstall'', ''update'', ''up'',
      ''upgrade'', ''test'', ''t'', ''run'', ''run-script'', ''start'', ''build'', ''audit'',
      ''list'', ''ls'', ''ll'', ''outdated'', ''why'', ''view'', ''info'', ''dedupe'', ''prune'',
      ''version'', ''pack'', ''config'', ''link'', ''unlink'', ''rebuild'', ''store'', ''fetch'',
      ''import'']"

definition uv_safe_subcommands :: "str list" where
  "uv_safe_subcommands =
     [''sync'', ''pip'', ''lock'', ''venv'', ''add'', ''remove'', ''tree'', ''export'', ''build'',
      ''version'', ''python'', ''cache'', ''init'', ''self'', ''help'']"

definition rustup_safe_subcommands :: "str list" where
  "rustup_safe_subcommands =
     [''show'', ''toolchain'', ''component'', ''target'', ''default'', ''update'', ''which'',
      ''doc'', ''self'', ''completions'', ''set'', ''override'']"

subsection \<open>Environment and write sinks\<close>

definition is_safe_env_key :: "str \<Rightarrow> bool" where
  "is_safe_env_key key = (key \<in> set safe_env_keys)"

definition is_safe_write_sink :: "str \<Rightarrow> bool" where
  "is_safe_write_sink f = (f \<in> set [''/dev/null'', ''/dev/stdout'', ''/dev/stderr''])"

definition is_lone_wrapper :: "str list \<Rightarrow> bool" where
  "is_lone_wrapper words = (length words = 1 \<and> is_wrapper_command words)"

text \<open>The loop over the arguments of one \<^verbatim>\<open>env\<close>; true is the early \<^verbatim>\<open>return true\<close>.\<close>

fun env_args_unsafe :: "str list \<Rightarrow> bool" where
  "env_args_unsafe [] = False"
| "env_args_unsafe (arg # rest) =
     (if arg = ''--'' then False
      else if starts_with arg ''-'' then True
      else case split_once arg ''='' of
        Some (key, _) \<Rightarrow> if \<not> is_safe_env_key key then True else env_args_unsafe rest
      | None \<Rightarrow> False)"

fun env_unsafe_rounds :: "nat \<Rightarrow> str list \<Rightarrow> bool" where
  "env_unsafe_rounds 0 current = False"
| "env_unsafe_rounds (Suc n) current =
     (if map_option base_name (first_opt current) = Some ''env'' \<and> env_args_unsafe (drop 1 current)
      then True
      else case strip_wrapper_command current of
        Some inner \<Rightarrow> env_unsafe_rounds n inner
      | None \<Rightarrow> False)"

definition command_env_is_unsafe :: "str list \<Rightarrow> bool" where
  "command_env_is_unsafe words = env_unsafe_rounds 8 words"

definition assignment_key :: "node \<Rightarrow> str \<Rightarrow> str" where
  "assignment_key n src =
     (case find (\<lambda>c. kind c = ''variable_name'') (children n) of
        Some c \<Rightarrow> utf8_text c src
      | None \<Rightarrow> hd (split_on ''='' (utf8_text n src)))"

definition sets_unsafe_env :: "node \<Rightarrow> str \<Rightarrow> plain_command list \<Rightarrow> bool" where
  "sets_unsafe_env root src cmds =
     (list_ex (\<lambda>n. kind n = ''variable_assignment'' \<and> \<not> is_safe_env_key (assignment_key n src))
        (walk root)
      \<or> list_ex (\<lambda>c. command_env_is_unsafe (pc_words c)) cmds)"

definition launched_writes_nonsink :: "str list \<Rightarrow> bool" where
  "launched_writes_nonsink words =
     list_ex (\<lambda>f. \<not> is_safe_write_sink f) (command_words_write_paths words)"

subsection \<open>Package managers\<close>

definition is_js_manager :: "str \<Rightarrow> bool" where
  "is_js_manager head = (head \<in> set [''npm'', ''pnpm'', ''yarn''])"

definition launcher_subcommand :: "str \<Rightarrow> str list \<Rightarrow> str option" where
  "launcher_subcommand head inner =
     map_option
       (\<lambda>sub. if is_js_manager head \<and> sub = ''x'' then ''exec''
              else if is_js_manager head \<and> sub = ''innit'' then ''init''
              else sub)
       (nth_opt inner 1)"

definition is_remote_launcher :: "str \<Rightarrow> str list \<Rightarrow> bool" where
  "is_remote_launcher head inner =
     (if head = ''npx'' \<or> head = ''uvx'' then True
      else if head = ''uv'' \<and> nth_opt inner 1 = Some ''tool'' \<and> nth_opt inner 2 = Some ''run'' then True
      else case launcher_subcommand head inner of
        None \<Rightarrow> False
      | Some sub \<Rightarrow>
          is_js_manager head
          \<and> (sub \<in> set [''dlx'', ''create'', ''explore'']
             \<or> (sub = ''init'' \<and> is_some_and (\<lambda>a. \<not> starts_with a ''-'') (nth_opt inner 2))))"

datatype launch_target = NotLauncher | Inner "str list" | Unresolved

text \<open>The inner command at an index: present and not an option, or the launcher is unresolved.\<close>

definition launched_at :: "str list \<Rightarrow> nat \<Rightarrow> launch_target" where
  "launched_at inner start =
     (case nth_opt inner start of
        Some tok \<Rightarrow> if \<not> starts_with tok ''-'' then Inner (drop start inner) else Unresolved
      | None \<Rightarrow> Unresolved)"

definition explicit_launch_target :: "str \<Rightarrow> str list \<Rightarrow> launch_target" where
  "explicit_launch_target head inner =
     (case launcher_subcommand head inner of
        None \<Rightarrow> NotLauncher
      | Some sub \<Rightarrow>
          if head = ''uv'' \<and> sub = ''run'' then launched_at inner 2
          else if head = ''rustup'' \<and> sub = ''run'' then
            (if is_some_and (\<lambda>toolchain. \<not> starts_with toolchain ''-'') (nth_opt inner 2)
             then launched_at inner 3 else Unresolved)
          else if is_js_manager head \<and> sub = ''exec'' then
            (if nth_opt inner 2 = Some ''--'' then launched_at inner 3 else launched_at inner 2)
          else NotLauncher)"

lemma launched_at_Inner:
  "launched_at inner k = Inner launched \<Longrightarrow> launched = drop k inner \<and> k < length inner"
  by (auto simp: launched_at_def nth_opt_def split: if_splits)

lemma explicit_launch_target_Inner:
  assumes "explicit_launch_target head inner = Inner launched"
  shows "suffix launched inner \<and> launched \<noteq> [] \<and> length launched + 2 \<le> length inner"
proof -
  have "launched_at inner 2 = Inner launched \<or> launched_at inner 3 = Inner launched"
    using assms by (auto simp: explicit_launch_target_def split: option.splits if_splits)
  then show ?thesis by (auto dest!: launched_at_Inner simp: suffix_drop)
qed

subsection \<open>Routine commands\<close>

definition find_is_read_only :: "str list \<Rightarrow> bool" where
  "find_is_read_only words =
     (\<not> list_ex (\<lambda>w. w \<in> set [''-delete'', ''-exec'', ''-execdir'', ''-ok'', ''-okdir'', ''-fprint'',
                               ''-fprint0'', ''-fprintf'', ''-fls'']) words)"

definition nonflag_tokens :: "str list \<Rightarrow> nat \<Rightarrow> str list" where
  "nonflag_tokens inner n = take n (filter (\<lambda>w. \<not> starts_with w ''-'') (drop 1 inner))"

definition gh_subcommand_is_read_only :: "str list \<Rightarrow> bool" where
  "gh_subcommand_is_read_only inner =
     (case nonflag_tokens inner 2 of
        [grp, sub] \<Rightarrow>
          (grp \<in> set [''pr'', ''issue'', ''release'', ''run'', ''workflow'', ''repo'', ''gist'']
           \<and> sub \<in> set [''view'', ''list'', ''status'', ''checks'', ''diff''])
          \<or> (grp = ''auth'' \<and> sub = ''status'')
      | [t] \<Rightarrow> t = ''status''
      | _ \<Rightarrow> False)"

text \<open>\<^verbatim>\<open>git grep\<close> with an option that opens a pager, and \<^verbatim>\<open>tree\<close> with an output file.\<close>

definition git_grep_opens_pager :: "str \<Rightarrow> str list \<Rightarrow> bool" where
  "git_grep_opens_pager head inner =
     (head = ''git''
      \<and> is_some_and (\<lambda>s. to_lowercase s = ''grep'') (nth_opt inner 1)
      \<and> list_ex (\<lambda>w. let flag = hd (split_on ''='' w) in
                   starts_with w ''-O''
                   \<or> (starts_with flag ''--o'' \<and> starts_with ''--open-files-in-pager'' flag)) inner)"

definition tree_writes_file :: "str \<Rightarrow> str list \<Rightarrow> bool" where
  "tree_writes_file head inner =
     (head = ''tree''
      \<and> list_ex (\<lambda>w. (starts_with w ''-'' \<and> \<not> starts_with w ''--'' \<and> contains_char w (CHR ''o''))
                   \<or> starts_with w ''--output'') inner)"

definition matches_routine_prefix :: "str list \<Rightarrow> bool" where
  "matches_routine_prefix inner =
     (let joined = to_lowercase (join_words inner) in
      list_ex (\<lambda>p. let base = trim p in
                 joined = base
                 \<or> (starts_with joined base \<and> starts_with (drop (length base) joined) '' ''))
        routine_prefixes)"

text \<open>
  \<^verbatim>\<open>bash_command_is_routine\<close> and \<^verbatim>\<open>package_manager_subcommand_is_routine\<close> call each other: a
  launcher hands over the command behind it, which is shorter.
\<close>

function bash_command_is_routine :: "str list \<Rightarrow> bool"
  and package_manager_subcommand_is_routine :: "str \<Rightarrow> str list \<Rightarrow> bool option" where
  "bash_command_is_routine words =
     (let inner = unwrap_wrappers words in
      if inner = [] \<or> is_lone_wrapper inner then True
      else
        (let head = to_lowercase (base_name (hd inner)) in
         case package_manager_subcommand_is_routine head inner of
           Some routine \<Rightarrow> routine
         | None \<Rightarrow>
             if head = ''find'' then find_is_read_only inner
             else if git_grep_opens_pager head inner then False
             else if tree_writes_file head inner then False
             else if head = ''gh'' then gh_subcommand_is_read_only inner
             else matches_routine_prefix inner))"
| "package_manager_subcommand_is_routine prog inner =
     (if prog \<notin> set [''uv'', ''uvx'', ''npm'', ''npx'', ''pnpm'', ''yarn'', ''rustup''] then None
      else if is_remote_launcher prog inner then Some False
      else case explicit_launch_target prog inner of
        Unresolved \<Rightarrow> Some False
      | Inner launched \<Rightarrow>
          Some (\<not> command_env_is_unsafe launched \<and> \<not> launched_writes_nonsink launched
                \<and> bash_command_is_routine launched)
      | NotLauncher \<Rightarrow>
          (let sub = launcher_subcommand prog inner in
           Some (if is_js_manager prog then is_some_and (\<lambda>s. s \<in> set npm_safe_subcommands) sub
                 else if prog = ''uv'' then is_some_and (\<lambda>s. s \<in> set uv_safe_subcommands) sub
                 else if prog = ''rustup'' then is_some_and (\<lambda>s. s \<in> set rustup_safe_subcommands) sub
                 else False)))"
  by pat_completeness auto

lemma unwrap_wrappers_length: "length (unwrap_wrappers ws) \<le> length ws"
  using unwrap_wrappers_suffix by (rule suffix_length_le)

termination bash_command_is_routine
  by (relation "measure (\<lambda>x. case x of Inl ws \<Rightarrow> 2 * length ws + 1 | Inr (p, inner) \<Rightarrow> 2 * length inner)")
    (auto dest!: explicit_launch_target_Inner simp: unwrap_wrappers_length less_Suc_eq_le)

declare bash_command_is_routine.simps [simp del] and
  package_manager_subcommand_is_routine.simps [simp del]

subsection \<open>The heuristic classifier\<close>

definition classify_bash :: "world \<Rightarrow> str \<Rightarrow> classifier_verdict" where
  "classify_bash w cmd =
     (case try_parse_shell w cmd of
        None \<Rightarrow> VBlock
      | Some t \<Rightarrow>
          (case try_parse_word_only_commands_sequence t cmd of
             None \<Rightarrow> VBlock
           | Some cmds \<Rightarrow>
               if sets_unsafe_env (root_node t) cmd cmds then VBlock
               else if list_ex (\<lambda>f. \<not> is_safe_write_sink f) (command_write_paths_in_tree (root_node t) cmd)
               then VBlock
               else if cmds \<noteq> [] \<and> list_all (\<lambda>c. bash_command_is_routine (pc_words c)) cmds then VAllow
               else VBlock))"

definition pipes_to_shell :: "str \<Rightarrow> bool" where
  "pipes_to_shell blob =
     (list_ex (contains blob) [''curl'', ''wget'', ''fetch'']
      \<and> list_ex (contains blob) [''| sh'', ''|sh'', ''| bash'', ''|bash'', ''| zsh'', ''|zsh''])"

text \<open>The text the patterns are searched in: tool, detail and transcript in lower case.\<close>

definition classifier_blob :: "str \<Rightarrow> str option \<Rightarrow> classifier_context \<Rightarrow> str" where
  "classifier_blob tool_name access_detail ctx =
     to_lowercase tool_name @ '' '' @
     to_lowercase (case access_detail of None \<Rightarrow> [] | Some d \<Rightarrow> d) @ '' '' @
     to_lowercase (transcript_text ctx)"

definition classify_sync ::
  "world \<Rightarrow> str \<Rightarrow> access_kind \<Rightarrow> str option \<Rightarrow> classifier_context \<Rightarrow> classifier_verdict" where
  "classify_sync w tool_name access access_detail ctx =
     (let lower_tool = to_lowercase tool_name;
          transcript = to_lowercase (transcript_text ctx);
          blob = classifier_blob tool_name access_detail ctx
      in if contains lower_tool ''ask_user'' \<or> contains lower_tool ''askuserquestion'' then VBlock
         else if list_ex (contains blob) dangerous_patterns then VBlock
         else if pipes_to_shell blob then VBlock
         else if list_ex (contains transcript) hostile_intents then VBlock
         else case access of
           AccessBash cmd \<Rightarrow> classify_bash w cmd
         | AccessWebFetch _ \<Rightarrow> VBlock
         | AccessEdit _ \<Rightarrow> VBlock
         | AccessMCPTool _ _ \<Rightarrow> VBlock
         | AccessRead _ \<Rightarrow> VAllow
         | AccessGrep _ _ \<Rightarrow> VAllow
         | AccessWebSearch _ \<Rightarrow> VAllow)"

subsection \<open>Reading the model's answer\<close>

definition verdict_of :: "bool \<Rightarrow> classifier_verdict" where
  "verdict_of b = (if b then VBlock else VAllow)"

text \<open>\<^verbatim>\<open>str::rfind\<close> of a character.\<close>

definition rfind_char :: "str \<Rightarrow> char \<Rightarrow> nat option" where
  "rfind_char s c =
     map_option (\<lambda>i. length s - Suc i) (find_sub (rev s) [c])"

definition embedded_object :: "str \<Rightarrow> str option" where
  "embedded_object s =
     (case (find_sub s ''{'', rfind_char s (CHR ''}'')) of
        (Some i, Some j) \<Rightarrow> if i < j then Some (drop i (take (Suc j) s)) else None
      | _ \<Rightarrow> None)"

text \<open>The verdict in the first JSON document, in an embedded one, or in a bare word.\<close>

definition direct_json_verdict :: "world \<Rightarrow> str \<Rightarrow> classifier_verdict option" where
  "direct_json_verdict w trimmed =
     Option.bind (json_parse w trimmed) (\<lambda>v.
       map_option verdict_of
         (or_else (Option.bind (json_get v ''shouldBlock'') as_bool)
            (Option.bind (json_get v ''should_block'') as_bool)))"

definition embedded_json_verdict :: "world \<Rightarrow> str \<Rightarrow> classifier_verdict option" where
  "embedded_json_verdict w trimmed =
     Option.bind (embedded_object trimmed) (\<lambda>obj.
     Option.bind (json_parse w obj) (\<lambda>v.
       map_option verdict_of
         (Option.bind (or_else (json_get v ''shouldBlock'') (json_get v ''should_block'')) as_bool)))"

definition parse_classifier_model_text :: "world \<Rightarrow> str \<Rightarrow> classifier_verdict" where
  "parse_classifier_model_text w txt =
     (let trimmed = trim txt in
      if trimmed = [] then VUnavailable
      else case direct_json_verdict w trimmed of
        Some v \<Rightarrow> v
      | None \<Rightarrow>
          (case embedded_json_verdict w trimmed of
             Some v \<Rightarrow> v
           | None \<Rightarrow>
               (let lower = to_lowercase trimmed in
                if contains lower (double_quote @ ''shouldblock'' @ double_quote @ '': true'')
                   \<or> contains lower (''shouldblock'' @ double_quote @ '':true'')
                then VBlock
                else if trim lower \<in> set [''block'', ''blocked'', ''deny'', ''denied''] then VBlock
                else if trim lower \<in> set [''allow'', ''allowed'', ''approve'', ''approved''] then VAllow
                else VUnavailable)))"

text \<open>
  \<^verbatim>\<open>LlmPermissionClassifier::classify\<close>; \<open>model_text\<close> is the answer of the side query, if one is
  wired and it answered.
\<close>

definition llm_classify ::
  "world \<Rightarrow> str option \<Rightarrow> str \<Rightarrow> access_kind \<Rightarrow> str option \<Rightarrow> classifier_context \<Rightarrow> classifier_verdict" where
  "llm_classify w model_text tool_name access access_detail ctx =
     (let heuristic = classify_sync w tool_name access access_detail ctx in
      if heuristic = VAllow then VAllow
      else case model_text of
        Some txt \<Rightarrow>
          (let v = parse_classifier_model_text w txt in if v \<noteq> VUnavailable then v else heuristic)
      | None \<Rightarrow> heuristic)"

subsection \<open>The fast path\<close>

definition access_requires_user_interaction :: "str \<Rightarrow> access_kind \<Rightarrow> bool" where
  "access_requires_user_interaction tool_name access =
     (let t = to_lowercase tool_name in
      if contains t ''ask_user'' \<or> contains t ''askuserquestion'' \<or> contains t ''user_question''
         \<or> t = ''ask_user_question''
      then True
      else case access of
        AccessMCPTool name _ \<Rightarrow>
          (let n = to_lowercase name in
           contains n ''ask_user'' \<or> (contains n ''confirm'' \<and> contains n ''human''))
      | _ \<Rightarrow> False)"

definition is_auto_mode_allowlisted_access :: "access_kind \<Rightarrow> bool" where
  "is_auto_mode_allowlisted_access access = (is_read access \<or> is_grep access \<or> is_web_search access)"

definition is_auto_mode_allowlisted_tool_name :: "str \<Rightarrow> bool" where
  "is_auto_mode_allowlisted_tool_name tool_name =
     (tool_name \<in> set
       [''todo_write'', ''TodoWrite'', ''task_output'', ''TaskOutput'', ''wait_tasks'', ''WaitTasks'',
        ''ask_user_question'', ''AskUserQuestion'', ''enter_plan_mode'', ''EnterPlanMode'',
        ''exit_plan_mode'', ''ExitPlanMode'', ''switch_mode'', ''SwitchMode'', ''create_plan'',
        ''CreatePlan'', ''update_plan'', ''UpdatePlan'', ''list_mcp_resources'',
        ''ListMcpResources'', ''read_mcp_resource'', ''ReadMcpResource'', ''tool_search'',
        ''ToolSearch'', ''sleep'', ''Sleep''])"

datatype auto_fast_path = FastAllow | FastPromptUser | FastClassify

definition auto_mode_fast_path :: "access_kind \<Rightarrow> str \<Rightarrow> bool \<Rightarrow> auto_fast_path" where
  "auto_mode_fast_path access tool_name requires_user_interaction =
     (if requires_user_interaction then FastPromptUser
      else if is_auto_mode_allowlisted_access access \<or> is_auto_mode_allowlisted_tool_name tool_name
      then FastAllow
      else if is_edit access then FastAllow
      else case access of
        AccessBash cmd \<Rightarrow> if trim cmd \<in> set [''true'', '':'', ''false''] then FastAllow else FastClassify
      | _ \<Rightarrow> FastClassify)"

subsection \<open>What the heuristic guarantees\<close>

lemma classify_bash_VAllow:
  "classify_bash w cmd = VAllow \<longleftrightarrow>
     (\<exists>t cmds. parse_shell w cmd = Some t \<and> try_parse_word_only_commands_sequence t cmd = Some cmds
        \<and> \<not> sets_unsafe_env (root_node t) cmd cmds
        \<and> list_all is_safe_write_sink (command_write_paths_in_tree (root_node t) cmd)
        \<and> cmds \<noteq> [] \<and> list_all (\<lambda>c. bash_command_is_routine (pc_words c)) cmds)"
  by (auto simp: classify_bash_def try_parse_shell_def list_ex_iff list_all_iff
      split: option.splits)

lemma classify_bash_cases: "classify_bash w cmd = VAllow \<or> classify_bash w cmd = VBlock"
  by (auto simp: classify_bash_def Let_def split: option.splits)

lemma classify_sync_cases:
  "classify_sync w tn access detail ctx = VAllow \<or> classify_sync w tn access detail ctx = VBlock"
  using classify_bash_cases by (auto simp: classify_sync_def Let_def split: access_kind.splits)

lemma classify_sync_VAllow:
  "classify_sync w tn access detail ctx = VAllow \<Longrightarrow>
     \<not> list_ex (contains (classifier_blob tn detail ctx)) dangerous_patterns
     \<and> \<not> list_ex (contains (to_lowercase (transcript_text ctx))) hostile_intents
     \<and> (\<forall>cmd. access = AccessBash cmd \<longrightarrow> classify_bash w cmd = VAllow)
     \<and> \<not> is_edit access \<and> \<not> is_mcp access \<and> \<not> is_web_fetch access"
  by (cases access) (auto simp: classify_sync_def Let_def split: if_splits)

lemma sets_unsafe_env_False:
  "\<not> sets_unsafe_env root src cmds \<longleftrightarrow>
     (\<forall>n\<in>set (subnodes root). kind n = ''variable_assignment'' \<longrightarrow> assignment_key n src \<in> set safe_env_keys)
     \<and> (\<forall>c\<in>set cmds. \<not> command_env_is_unsafe (pc_words c))"
  by (auto simp: sets_unsafe_env_def list_ex_iff is_safe_env_key_def)

text \<open>
  C31. The heuristic allows a bash command only when it can account for all of it: the script parses
  into plain commands, every environment variable it assigns is a cosmetic one, every file its
  words or redirects write is a null or standard stream, and every one of its commands is routine;
  and none of the dangerous patterns occurs in the tool, the detail or the transcript.
\<close>

theorem heuristic_allow_sound:
  assumes "classify_sync w tool_name (AccessBash cmd) detail ctx = VAllow"
  shows "\<exists>t cmds. parse_shell w cmd = Some t \<and> all_commands_from_script w cmd = Some cmds \<and> cmds \<noteq> []
    \<and> (\<forall>n\<in>set (subnodes (root_node t)). kind n = ''variable_assignment'' \<longrightarrow>
         assignment_key n cmd \<in> set safe_env_keys)
    \<and> (\<forall>c\<in>set cmds. \<not> command_env_is_unsafe (pc_words c) \<and> bash_command_is_routine (pc_words c))
    \<and> set (command_write_paths_in_tree (root_node t) cmd)
        \<subseteq> {''/dev/null'', ''/dev/stdout'', ''/dev/stderr''}
    \<and> \<not> list_ex (contains (classifier_blob tool_name detail ctx)) dangerous_patterns"
proof -
  from classify_sync_VAllow [OF assms] have ok: "classify_bash w cmd = VAllow"
    and blob: "\<not> list_ex (contains (classifier_blob tool_name detail ctx)) dangerous_patterns"
    by simp_all
  from ok obtain t cmds where t: "parse_shell w cmd = Some t"
    "try_parse_word_only_commands_sequence t cmd = Some cmds"
    "\<not> sets_unsafe_env (root_node t) cmd cmds"
    "list_all is_safe_write_sink (command_write_paths_in_tree (root_node t) cmd)"
    "cmds \<noteq> []" "list_all (\<lambda>c. bash_command_is_routine (pc_words c)) cmds"
    unfolding classify_bash_VAllow by blast
  have "all_commands_from_script w cmd = Some cmds"
    using t by (simp add: all_commands_from_script_def try_parse_shell_def)
  moreover have "set (command_write_paths_in_tree (root_node t) cmd)
      \<subseteq> {''/dev/null'', ''/dev/stdout'', ''/dev/stderr''}"
    using t(4) by (auto simp: list_all_iff is_safe_write_sink_def)
  moreover have "\<forall>c\<in>set cmds. \<not> command_env_is_unsafe (pc_words c) \<and> bash_command_is_routine (pc_words c)"
    using t(3,6) unfolding sets_unsafe_env_False list_all_iff by blast
  ultimately show ?thesis
    using t blob unfolding sets_unsafe_env_False by blast
qed

lemma heuristic_allow_sound_witness:
  "classify_sync example_world ''bash'' (AccessBash ''cd x;git status'') None
     \<lparr>turns = [], project_instructions = None\<rparr> = VAllow
   \<and> (\<exists>t. parse_shell example_world ''cd x;git status'' = Some t
        \<and> set (command_write_paths_in_tree (root_node t) ''cd x;git status'')
            \<subseteq> {''/dev/null'', ''/dev/stdout'', ''/dev/stderr''})"
proof -
  have "classify_sync example_world ''bash'' (AccessBash ''cd x;git status'') None
     \<lparr>turns = [], project_instructions = None\<rparr> = VAllow"
    by code_simp
  with heuristic_allow_sound [OF this] show ?thesis by blast
qed

text \<open>
  A package manager launching a command (\<^verbatim>\<open>uv run\<close>, \<^verbatim>\<open>npm exec\<close>, \<^verbatim>\<open>rustup run\<close>), directly or
  through further launchers.
\<close>

definition package_managers :: "str list" where
  "package_managers = [''uv'', ''uvx'', ''npm'', ''npx'', ''pnpm'', ''yarn'', ''rustup'']"

definition program_head :: "str list \<Rightarrow> str" where
  "program_head words = to_lowercase (base_name (hd (unwrap_wrappers words)))"

inductive launches :: "str list \<Rightarrow> str list \<Rightarrow> bool" where
  direct: "words \<noteq> [] \<Longrightarrow> program_head words \<in> set package_managers \<Longrightarrow>
    explicit_launch_target (program_head words) (unwrap_wrappers words) = Inner launched \<Longrightarrow>
    launches words launched"
| further: "launches words launched \<Longrightarrow> launches launched launched' \<Longrightarrow> launches words launched'"

lemma package_manager_step:
  assumes "prog \<in> set package_managers"
  shows "package_manager_subcommand_is_routine prog inner =
     (if is_remote_launcher prog inner then Some False
      else case explicit_launch_target prog inner of
        Unresolved \<Rightarrow> Some False
      | Inner launched \<Rightarrow>
          Some (\<not> command_env_is_unsafe launched \<and> \<not> launched_writes_nonsink launched
                \<and> bash_command_is_routine launched)
      | NotLauncher \<Rightarrow>
          (let sub = launcher_subcommand prog inner in
           Some (if is_js_manager prog then is_some_and (\<lambda>s. s \<in> set npm_safe_subcommands) sub
                 else if prog = ''uv'' then is_some_and (\<lambda>s. s \<in> set uv_safe_subcommands) sub
                 else if prog = ''rustup'' then is_some_and (\<lambda>s. s \<in> set rustup_safe_subcommands) sub
                 else False)))"
proof -
  have known: "(prog \<notin> set [''uv'', ''uvx'', ''npm'', ''npx'', ''pnpm'', ''yarn'', ''rustup'']) = False"
    using assms unfolding package_managers_def by blast
  show ?thesis
    by (subst package_manager_subcommand_is_routine.simps) (simp only: known if_False)
qed

lemma package_manager_known:
  "prog \<in> set package_managers \<Longrightarrow> \<exists>r. package_manager_subcommand_is_routine prog inner = Some r"
  unfolding package_manager_step Let_def by (auto split: launch_target.split)

lemma routine_package_manager:
  assumes "words \<noteq> []" "program_head words \<in> set package_managers"
    "\<not> is_lone_wrapper (unwrap_wrappers words)"
  shows "bash_command_is_routine words =
    (package_manager_subcommand_is_routine (program_head words) (unwrap_wrappers words) = Some True)"
proof -
  obtain r where "package_manager_subcommand_is_routine
      (to_lowercase (base_name (hd (unwrap_wrappers words)))) (unwrap_wrappers words) = Some r"
    using package_manager_known [OF assms(2)] unfolding program_head_def by blast
  then show ?thesis
    using assms(3) unwrap_wrappers_nonempty [OF assms(1)]
    by (subst bash_command_is_routine.simps) (simp add: Let_def program_head_def)
qed

lemma launcher_not_lone:
  "explicit_launch_target h inner = Inner launched \<Longrightarrow> \<not> is_lone_wrapper inner"
  by (drule explicit_launch_target_Inner) (auto simp: is_lone_wrapper_def)

text \<open>
  Launching through a package manager hides nothing from the heuristic: if a command is
  routine, every command it launches, through any number of launchers, is itself routine, sets no
  unsafe environment variable and writes no file.
\<close>

lemma launched_commands_are_routine:
  assumes "launches words launched" "bash_command_is_routine words"
  shows "bash_command_is_routine launched \<and> \<not> command_env_is_unsafe launched
    \<and> \<not> launched_writes_nonsink launched"
  using assms
proof (induction rule: launches.induct)
  case (direct words launched)
  have "package_manager_subcommand_is_routine (program_head words) (unwrap_wrappers words) = Some True"
    using routine_package_manager [OF direct(1,2) launcher_not_lone [OF direct(3)]] direct(4) by simp
  with direct(3) show ?case
    unfolding package_manager_step [OF direct(2)] by (auto split: if_splits)
next
  case (further words launched launched')
  then show ?case by blast
qed

lemma launched_commands_are_routine_example:
  "bash_command_is_routine [''npm'', ''exec'', ''--'', ''git'', ''log'']
   \<and> bash_command_is_routine [''git'', ''log'']"
proof -
  have "program_head [''npm'', ''exec'', ''--'', ''git'', ''log''] = ''npm''"
    "explicit_launch_target ''npm'' (unwrap_wrappers [''npm'', ''exec'', ''--'', ''git'', ''log''])
      = Inner [''git'', ''log'']"
    "''npm'' \<in> set package_managers"
    by code_simp+
  then have "launches [''npm'', ''exec'', ''--'', ''git'', ''log''] [''git'', ''log'']"
    by (intro launches.direct) simp_all
  moreover have "bash_command_is_routine [''npm'', ''exec'', ''--'', ''git'', ''log'']" by code_simp
  ultimately show ?thesis using launched_commands_are_routine by blast
qed

text \<open>
  The auto classifier always decides and fails closed: it answers allow or block, never
  "unavailable"; without a usable answer of the model it is the heuristic, and it allows only if
  the heuristic does or the model's answer reads as an allow.
\<close>

lemma llm_classify_decides:
  "(llm_classify w answer tool_name access detail ctx = VAllow
    \<or> llm_classify w answer tool_name access detail ctx = VBlock)
   \<and> llm_classify w None tool_name access detail ctx = classify_sync w tool_name access detail ctx
   \<and> (llm_classify w answer tool_name access detail ctx = VAllow \<longleftrightarrow>
        classify_sync w tool_name access detail ctx = VAllow
        \<or> (\<exists>txt. answer = Some txt \<and> parse_classifier_model_text w txt = VAllow))"
proof -
  have "v \<noteq> VUnavailable \<longleftrightarrow> v = VAllow \<or> v = VBlock" for v by (cases v) auto
  then show ?thesis
    using classify_sync_cases [of w tool_name access detail ctx]
    by (cases answer) (auto simp: llm_classify_def Let_def)
qed



end
