(* ===== verification/Permission_Prompter.thy ===== *)
theory Permission_Prompter
  imports Permission_Policy
begin

text \<open>
  Asking the user (\<^verbatim>\<open>xai-grok-workspace/src/permission/prompter.rs\<close> and \<^verbatim>\<open>hub_permission.rs\<close>):
  which options a prompt offers to which client, and how the selected option, or the reply that
  chat sends over the hub, becomes a prompt outcome.  Of an option the model keeps its id, its
  kind and the words in its label; metadata that only drives the display is left out.
\<close>

subsection \<open>Options\<close>

datatype option_kind = KindAllowOnce | KindAllowAlways | KindRejectOnce | KindRejectAlways | KindOther

record perm_option =
  option_id :: str
  option_name :: str
  option_kind :: option_kind

definition opt :: "str \<Rightarrow> str \<Rightarrow> option_kind \<Rightarrow> perm_option" where
  "opt i n k = \<lparr>option_id = i, option_name = n, option_kind = k\<rparr>"

definition reject_once_label :: str where
  "reject_once_label = ''No, and tell Grok what to do differently''"

definition allow_edits_session_option_id :: str where
  "allow_edits_session_option_id = ''allow-edits-session''"

definition enable_always_approve_option_id :: str where
  "enable_always_approve_option_id = ''enable-always-approve''"

definition enable_always_approve_option :: perm_option where
  "enable_always_approve_option =
     opt enable_always_approve_option_id
       (''Yes, and don'' @ single_quote @ ''t ask again for anything (always-approve mode)'') KindAllowOnce"

text \<open>
  An \<^verbatim>\<open>IndexMap\<close> keyed by option id is the list of its values in order: inserting an id that is
  there replaces the value in place, removing keeps the order of the others.
\<close>

type_synonym option_map = "perm_option list"

fun om_insert :: "perm_option \<Rightarrow> option_map \<Rightarrow> option_map" where
  "om_insert o' [] = [o']"
| "om_insert o' (p # ps) = (if option_id p = option_id o' then o' # ps else p # om_insert o' ps)"

definition om_of :: "perm_option list \<Rightarrow> option_map" where
  "om_of os = foldl (\<lambda>m p. om_insert p m) [] os"

definition om_extend :: "option_map \<Rightarrow> option_map \<Rightarrow> option_map" where
  "om_extend m os = foldl (\<lambda>m p. om_insert p m) m os"

definition om_get :: "option_map \<Rightarrow> str \<Rightarrow> perm_option option" where
  "om_get m i = find (\<lambda>p. option_id p = i) m"

definition is_fancy_client :: "client_type \<Rightarrow> bool" where
  "is_fancy_client c = (c \<in> set [GrokTUI, GrokPager, Desktop])"

definition client_supports_enable_always_approve :: "client_type \<Rightarrow> bool" where
  "client_supports_enable_always_approve c = is_fancy_client c"

definition prepend_enable_always_approve :: "client_type \<Rightarrow> option_map \<Rightarrow> option_map" where
  "prepend_enable_always_approve c base =
     (if \<not> client_supports_enable_always_approve c then base
      else om_extend (om_of [enable_always_approve_option]) base)"

definition remember_gated_ids :: "str list" where
  "remember_gated_ids =
     [''allow-always-command'', ''reject-always-command'', ''allow-always-mcp'',
      ''allow-always-domain'', ''always-allow'', ''reject-always'']"

text \<open>The four option maps that \<^verbatim>\<open>AcpPrompter::new\<close> builds.\<close>

definition edit_options :: option_map where
  "edit_options = om_of
     [opt allow_edits_session_option_id ''Yes, allow all edits during this session'' KindAllowAlways,
      opt ''allow-once'' ''Yes'' KindAllowOnce,
      opt ''reject-once'' reject_once_label KindRejectOnce]"

definition bash_options :: option_map where
  "bash_options = om_of
     [opt ''allow-once'' ''Yes, proceed'' KindAllowOnce,
      opt ''reject-once'' reject_once_label KindRejectOnce]"

definition generic_bash_options :: option_map where
  "generic_bash_options = om_of
     [opt ''always-allow'' (''Yes, and don'' @ single_quote @ ''t ask again for bash commands'') KindAllowAlways,
      opt ''allow-once'' ''Yes, proceed'' KindAllowOnce,
      opt ''reject-once'' reject_once_label KindRejectOnce,
      opt ''reject-always'' (''No, and don'' @ single_quote @ ''t run bash commands'') KindRejectAlways]"

definition fallback_options :: option_map where
  "fallback_options = om_of
     [opt ''always-allow'' ''always allow'' KindAllowAlways,
      opt ''allow-once'' ''allow once'' KindAllowOnce,
      opt ''reject-once'' ''reject once'' KindRejectOnce]"

definition bash_scope_option ::
  "str \<Rightarrow> str \<Rightarrow> option_kind \<Rightarrow> bash_command_highlights \<Rightarrow> perm_option" where
  "bash_scope_option i prefix_label k primary =
     opt i (prefix_label @ '' '' @ join_words (highlighted_words primary)) k"

definition build_options_inner :: "world \<Rightarrow> client_type \<Rightarrow> access_kind \<Rightarrow> option_map" where
  "build_options_inner w c access =
     (case access of
        AccessEdit _ \<Rightarrow> edit_options
      | AccessBash cmd \<Rightarrow>
          (if is_fancy_client c then
             (let primary = primary_command_from_script w cmd;
                  lead = (case primary of
                    Some p \<Rightarrow> om_of [bash_scope_option ''allow-always-command'' ''Always allow:'' KindAllowAlways p]
                  | None \<Rightarrow> om_of []);
                  rows = om_extend lead bash_options
              in case primary of
                   Some p \<Rightarrow> om_insert
                     (bash_scope_option ''reject-always-command'' ''Never allow:'' KindRejectAlways p) rows
                 | None \<Rightarrow> rows)
           else generic_bash_options)
      | AccessWebFetch u \<Rightarrow>
          (let domain = (case domain_from_url w u of Some d \<Rightarrow> d | None \<Rightarrow> ''unknown domain'')
           in om_of [opt ''allow-always-domain'' (''Yes, always allow '' @ domain @ '' this session'') KindAllowAlways,
                     opt ''allow-once'' ''Yes, allow once'' KindAllowOnce,
                     opt ''reject-once'' reject_once_label KindRejectOnce])
      | AccessMCPTool name _ \<Rightarrow>
          (if is_fancy_client c then
             om_of [opt ''allow-always-mcp'' (''Always allow: '' @ name) KindAllowAlways,
                    opt ''allow-once'' ''Yes'' KindAllowOnce,
                    opt ''reject-once'' reject_once_label KindRejectOnce]
           else fallback_options)
      | _ \<Rightarrow> fallback_options)"

definition build_options :: "world \<Rightarrow> client_type \<Rightarrow> bool \<Rightarrow> access_kind \<Rightarrow> option_map" where
  "build_options w c remember_tool_approvals access =
     (let base = build_options_inner w c access;
          base = (if \<not> remember_tool_approvals
                  then foldl (\<lambda>m i. filter (\<lambda>p. option_id p \<noteq> i) m) base remember_gated_ids
                  else base)
      in prepend_enable_always_approve c base)"

subsection \<open>Outcomes\<close>

datatype prompt_outcome =
  AllowOnce
| AllowAlways
| AllowEditsForSession
| AllowAlwaysBashCommand str
| AllowAlwaysDomain str
| AllowAlwaysMcpTool str
| AllowAlwaysMcpServer str
| RejectOnce
| RejectAlwaysBashCommand str
| OutcomeCancelled
| OutcomeFollowup str
| OutcomeError str

datatype mcp_scope_selection = ScopeTool str | ScopeServer str

text \<open>
  \<^verbatim>\<open>serde_json::from_value\<close> on the two response shapes: the tagged scope selection and the list of
  selected words; \<open>None\<close> where it returns an error.
\<close>

definition scope_selection_of :: "json \<Rightarrow> mcp_scope_selection option" where
  "scope_selection_of m =
     (case json_get m ''kind'' of
        Some (JStr k) \<Rightarrow>
          (if k = ''tool'' then
             (case json_get m ''tool_name'' of Some (JStr t) \<Rightarrow> Some (ScopeTool t) | _ \<Rightarrow> None)
           else if k = ''server'' then
             (case json_get m ''server'' of Some (JStr s) \<Rightarrow> Some (ScopeServer s) | _ \<Rightarrow> None)
           else None)
      | _ \<Rightarrow> None)"

fun json_strings :: "json list \<Rightarrow> str list option" where
  "json_strings [] = Some []"
| "json_strings (JStr s # js) = map_option ((#) s) (json_strings js)"
| "json_strings (_ # js) = None"

definition selected_terms_of :: "json \<Rightarrow> str list option" where
  "selected_terms_of m =
     (case json_get m ''command_parts'' of Some (JArr js) \<Rightarrow> json_strings js | _ \<Rightarrow> None)"

definition map_allow_always :: "world \<Rightarrow> str \<Rightarrow> json option \<Rightarrow> access_kind \<Rightarrow> prompt_outcome" where
  "map_allow_always w oid meta access =
     (if oid = enable_always_approve_option_id then AllowOnce
      else if oid = ''allow-always-mcp'' then
        (case Option.bind meta scope_selection_of of
           Some (ScopeTool t) \<Rightarrow> AllowAlwaysMcpTool t
         | Some (ScopeServer server) \<Rightarrow>
             (if server = [] then
                (case access of AccessMCPTool name _ \<Rightarrow> AllowAlwaysMcpTool name | _ \<Rightarrow> AllowAlways)
              else AllowAlwaysMcpServer server)
         | None \<Rightarrow>
             (case access of AccessMCPTool name _ \<Rightarrow> AllowAlwaysMcpTool name | _ \<Rightarrow> AllowAlways))
      else if oid = ''allow-always-domain'' then
        (case access of
           AccessWebFetch u \<Rightarrow>
             (case domain_from_url w u of
                Some domain \<Rightarrow> if domain \<noteq> [] then AllowAlwaysDomain domain else AllowOnce
              | None \<Rightarrow> AllowOnce)
         | _ \<Rightarrow> AllowOnce)
      else if oid = ''allow-always-command'' then
        (case Option.bind meta selected_terms_of of
           Some parts \<Rightarrow> AllowAlwaysBashCommand (join_words parts)
         | None \<Rightarrow>
             (case access of
                AccessBash cmd \<Rightarrow>
                  (case primary_command_from_script w cmd of
                     Some primary \<Rightarrow> AllowAlwaysBashCommand (join_words (highlighted_words primary))
                   | None \<Rightarrow> AllowAlways)
              | _ \<Rightarrow> AllowAlways))
      else if oid = allow_edits_session_option_id then AllowEditsForSession
      else AllowAlways)"

definition map_reject_once :: "json option \<Rightarrow> prompt_outcome" where
  "map_reject_once meta =
     (case Option.bind (Option.bind meta (\<lambda>m. json_get m ''followup_message'')) as_str of
        Some followup \<Rightarrow> if trim followup \<noteq> [] then OutcomeFollowup followup else RejectOnce
      | None \<Rightarrow> RejectOnce)"

definition map_reject_always :: "world \<Rightarrow> str \<Rightarrow> json option \<Rightarrow> access_kind \<Rightarrow> prompt_outcome" where
  "map_reject_always w oid meta access =
     (if oid = ''reject-always-command'' then
        (case Option.bind meta selected_terms_of of
           Some parts \<Rightarrow> RejectAlwaysBashCommand (join_words parts)
         | None \<Rightarrow>
             (case access of
                AccessBash cmd \<Rightarrow>
                  (case primary_command_from_script w cmd of
                     Some primary \<Rightarrow> RejectAlwaysBashCommand (join_words (highlighted_words primary))
                   | None \<Rightarrow> RejectOnce)
              | _ \<Rightarrow> RejectOnce))
      else RejectOnce)"

definition map_selected_outcome ::
  "world \<Rightarrow> option_map \<Rightarrow> str \<Rightarrow> json option \<Rightarrow> access_kind \<Rightarrow> prompt_outcome" where
  "map_selected_outcome w options oid meta access =
     (case om_get options oid of
        None \<Rightarrow> OutcomeError ''unknown permission option''
      | Some p \<Rightarrow>
          (case option_kind p of
             KindAllowOnce \<Rightarrow> AllowOnce
           | KindAllowAlways \<Rightarrow> map_allow_always w oid meta access
           | KindRejectOnce \<Rightarrow> map_reject_once meta
           | KindRejectAlways \<Rightarrow> map_reject_always w oid meta access
           | KindOther \<Rightarrow> OutcomeError ''unknown permission option kind''))"

fun tool_name_for_access :: "access_kind \<Rightarrow> str" where
  "tool_name_for_access (AccessRead _) = ''read_file''"
| "tool_name_for_access (AccessGrep _ _) = ''grep''"
| "tool_name_for_access (AccessEdit _) = ''search_replace''"
| "tool_name_for_access (AccessBash _) = ''run_terminal_command''"
| "tool_name_for_access (AccessMCPTool name _) = ''mcp:'' @ name"
| "tool_name_for_access (AccessWebFetch _) = ''web_fetch''"
| "tool_name_for_access (AccessWebSearch _) = ''web_search''"

datatype permission_decision = DecAllow | DecDeny | DecCancelled | DecFollowup

fun permission_decision_for_outcome :: "prompt_outcome \<Rightarrow> permission_decision" where
  "permission_decision_for_outcome AllowOnce = DecAllow"
| "permission_decision_for_outcome AllowAlways = DecAllow"
| "permission_decision_for_outcome AllowEditsForSession = DecAllow"
| "permission_decision_for_outcome (AllowAlwaysBashCommand _) = DecAllow"
| "permission_decision_for_outcome (AllowAlwaysDomain _) = DecAllow"
| "permission_decision_for_outcome (AllowAlwaysMcpTool _) = DecAllow"
| "permission_decision_for_outcome (AllowAlwaysMcpServer _) = DecAllow"
| "permission_decision_for_outcome RejectOnce = DecDeny"
| "permission_decision_for_outcome (RejectAlwaysBashCommand _) = DecDeny"
| "permission_decision_for_outcome (OutcomeError _) = DecDeny"
| "permission_decision_for_outcome OutcomeCancelled = DecCancelled"
| "permission_decision_for_outcome (OutcomeFollowup _) = DecFollowup"

subsection \<open>Permission over the hub\<close>

fun scope_for_access :: "access_kind \<Rightarrow> str" where
  "scope_for_access (AccessBash _) = ''write''"
| "scope_for_access (AccessEdit _) = ''write''"
| "scope_for_access (AccessMCPTool _ _) = ''write''"
| "scope_for_access (AccessRead _) = ''read''"
| "scope_for_access (AccessGrep _ _) = ''read''"
| "scope_for_access (AccessWebFetch _) = ''read''"
| "scope_for_access (AccessWebSearch _) = ''read''"

fun describe_access :: "access_kind \<Rightarrow> str" where
  "describe_access (AccessBash _) = ''Run a terminal command''"
| "describe_access (AccessEdit f) = ''Edit '' @ f"
| "describe_access (AccessMCPTool name _) = ''Run MCP tool '' @ name"
| "describe_access (AccessWebFetch u) = ''Fetch '' @ u"
| "describe_access (AccessWebSearch q) = ''Search the web for '' @ q"
| "describe_access (AccessRead _) = ''Read a file''"
| "describe_access (AccessGrep _ _) = ''Search file contents''"

definition build_permission_payload :: "access_kind \<Rightarrow> str \<Rightarrow> json" where
  "build_permission_payload access tool_call_id =
     JObj ([(''tool_call_id'', JStr tool_call_id),
            (''tool_name'', JStr (tool_name_for_access access)),
            (''description'', JStr (describe_access access)),
            (''scope'', JStr (scope_for_access access))]
       @ (case access of
            AccessBash command \<Rightarrow> [(''bash_command'', JStr command)]
          | AccessEdit f \<Rightarrow> [(''edit_file_paths'', JArr [JStr f])]
          | _ \<Rightarrow> []))"

definition scope_kind_value :: "json \<Rightarrow> (str \<times> str option) option" where
  "scope_kind_value reply =
     Option.bind (json_get reply ''scope'') (\<lambda>scope.
     Option.bind (Option.bind (json_get scope ''kind'') as_str) (\<lambda>k.
       Some (k, Option.bind (json_get scope ''value'') as_str)))"

definition reply_word :: "json \<Rightarrow> str" where
  "reply_word reply =
     (case json_get reply ''outcome'' of
        Some (JStr s) \<Rightarrow> s
      | Some (JInt n) \<Rightarrow>
          (if n = 1 then ''approve'' else if n = 2 then ''reject''
           else if n = 3 then ''always_approve'' else if n = 4 then ''always_reject'' else [])
      | _ \<Rightarrow> [])"

definition reply_to_outcome :: "json \<Rightarrow> prompt_outcome" where
  "reply_to_outcome reply =
     (let outcome = reply_word reply;
          followup = filter_option (\<lambda>s. s \<noteq> [])
                       (Option.bind (json_get reply ''followup_message'') as_str)
      in if outcome = ''approve'' then AllowOnce
         else if outcome = ''always_approve'' then
           (case scope_kind_value reply of
              Some (k, Some v) \<Rightarrow>
                (if k = ''bash_command'' then AllowAlwaysBashCommand v
                 else if k = ''server_prefix'' then AllowAlwaysMcpServer v
                 else if k = ''domain'' then AllowAlwaysDomain v
                 else AllowAlways)
            | _ \<Rightarrow> AllowAlways)
         else if outcome = ''reject'' then
           (case followup of Some message \<Rightarrow> OutcomeFollowup message | None \<Rightarrow> RejectOnce)
         else if outcome = ''always_reject'' then
           (case scope_kind_value reply of
              Some (k, Some v) \<Rightarrow>
                (if k = ''bash_command'' then RejectAlwaysBashCommand v else RejectOnce)
            | _ \<Rightarrow> RejectOnce)
         else if outcome = ''cancelled'' then OutcomeCancelled
         else RejectOnce)"

definition access_kind_for_hub_tool :: "str \<Rightarrow> json \<Rightarrow> access_kind option" where
  "access_kind_for_hub_tool tool_name args =
     (let name = last (split_on '':'' tool_name);
          name = (case strip_prefix name ''GrokBuild:'' of Some n \<Rightarrow> n | None \<Rightarrow> name);
          text_or = (\<lambda>keys dflt.
            case Option.bind (or_else (json_get args (fst keys)) (json_get args (snd keys))) as_str of
              Some s \<Rightarrow> s | None \<Rightarrow> dflt)
      in if name \<in> set [''run_terminal_command'', ''run_terminal_cmd'', ''bash'', ''shell''] then
           Some (AccessBash (text_or (''command'', ''full_command'') []))
         else if name \<in> set [''search_replace'', ''hashline_edit''] then
           Some (AccessEdit (text_or (''file_path'', ''path'') ''unknown''))
         else if name \<in> set [''write'', ''write_file''] then
           Some (AccessEdit (text_or (''file_path'', ''path'') ''unknown''))
         else if name = ''apply_patch'' then Some (AccessEdit ''apply_patch'')
         else if name = ''web_fetch'' then
           Some (AccessWebFetch
             (case Option.bind (json_get args ''url'') as_str of Some s \<Rightarrow> s | None \<Rightarrow> []))
         else if contains name ''__'' \<or> starts_with name ''mcp'' then
           Some (AccessMCPTool tool_name args)
         else None)"

fun prompt_outcome_allows :: "prompt_outcome \<Rightarrow> bool" where
  "prompt_outcome_allows AllowOnce = True"
| "prompt_outcome_allows AllowAlways = True"
| "prompt_outcome_allows AllowEditsForSession = True"
| "prompt_outcome_allows (AllowAlwaysBashCommand _) = True"
| "prompt_outcome_allows (AllowAlwaysDomain _) = True"
| "prompt_outcome_allows (AllowAlwaysMcpTool _) = True"
| "prompt_outcome_allows (AllowAlwaysMcpServer _) = True"
| "prompt_outcome_allows _ = False"

text \<open>The transport's answer: an error text, or the reply of chat.\<close>

definition request_permission_via_hub :: "str + json \<Rightarrow> access_kind \<Rightarrow> prompt_outcome" where
  "request_permission_via_hub answer access =
     (case answer of
        Inr reply \<Rightarrow>
          (let o' = reply_to_outcome reply in
           if o' = AllowAlways \<and> is_edit access then AllowEditsForSession else o')
      | Inl e \<Rightarrow> OutcomeError (''hub permission request failed: '' @ e))"

text \<open>
  \<^verbatim>\<open>AcpPrompter::request\<close>: over the hub when a transport is wired, else the gateway's answer, which
  is an error, a cancellation, a selected option with its metadata, or something unknown.
\<close>

datatype gateway_answer =
  GatewayError | GatewayCancelled | GatewaySelected str "json option" | GatewayUnknown

datatype prompt_answer = ViaHub "str + json" | ViaGateway gateway_answer

definition prompter_request ::
  "world \<Rightarrow> client_type \<Rightarrow> bool \<Rightarrow> access_kind \<Rightarrow> prompt_answer \<Rightarrow> prompt_outcome" where
  "prompter_request w c remember_tool_approvals access answer =
     (case answer of
        ViaHub a \<Rightarrow> request_permission_via_hub a access
      | ViaGateway GatewayCancelled \<Rightarrow> OutcomeCancelled
      | ViaGateway (GatewaySelected oid meta) \<Rightarrow>
          map_selected_outcome w (build_options w c remember_tool_approvals access) oid meta access
      | ViaGateway GatewayUnknown \<Rightarrow> OutcomeError ''unknown permission outcome''
      | ViaGateway GatewayError \<Rightarrow> OutcomeError ''failed to request permission'')"

subsection \<open>Fail closed\<close>

text \<open>An outcome that stores a standing grant.\<close>

fun is_standing_grant :: "prompt_outcome \<Rightarrow> bool" where
  "is_standing_grant AllowAlways = True"
| "is_standing_grant (AllowAlwaysBashCommand _) = True"
| "is_standing_grant (AllowAlwaysDomain _) = True"
| "is_standing_grant (AllowAlwaysMcpTool _) = True"
| "is_standing_grant (AllowAlwaysMcpServer _) = True"
| "is_standing_grant _ = False"

lemma permission_decision_allows:
  "permission_decision_for_outcome out = DecAllow \<longleftrightarrow> prompt_outcome_allows out"
  by (cases out) auto

text \<open>
  A reply over the hub fails closed: the request is allowed only when chat answered with
  "approve" or "always_approve" (or their numbers); a lost connection, an unknown answer or no
  answer never allows.
\<close>

lemma hub_reply_fails_closed:
  "prompt_outcome_allows (request_permission_via_hub answer access) \<longleftrightarrow>
     (\<exists>reply. answer = Inr reply \<and> reply_word reply \<in> {''approve'', ''always_approve''})"
proof (cases answer)
  case (Inl e)
  then show ?thesis by (simp add: request_permission_via_hub_def)
next
  case (Inr reply)
  have "prompt_outcome_allows (reply_to_outcome reply) \<longleftrightarrow> reply_word reply \<in> {''approve'', ''always_approve''}"
    by (auto simp: reply_to_outcome_def Let_def split: option.splits)
  with Inr show ?thesis
    by (cases "reply_to_outcome reply") (simp_all add: request_permission_via_hub_def Let_def)
qed

lemma om_insert_ids:
  "option_id ` set (om_insert p m) = insert (option_id p) (option_id ` set m)"
  by (induction m) auto

lemma om_insert_member: "q \<in> set (om_insert p m) \<Longrightarrow> q = p \<or> q \<in> set m"
  by (induction m) (auto split: if_splits)

lemma om_extend_member: "q \<in> set (om_extend m os) \<Longrightarrow> q \<in> set m \<or> q \<in> set os"
  unfolding om_extend_def
proof (induction os arbitrary: m)
  case Nil
  then show ?case by simp
next
  case (Cons p ps)
  then have "q \<in> set (om_insert p m) \<or> q \<in> set ps" by simp
  then show ?case by (auto dest: om_insert_member)
qed

lemma foldl_remove: "set (foldl (\<lambda>m i. filter (\<lambda>p. option_id p \<noteq> i) m) m is) = {p \<in> set m. option_id p \<notin> set is}"
  by (induction "is" arbitrary: m) auto

lemma om_get_member: "om_get m i = Some p \<Longrightarrow> p \<in> set m \<and> option_id p = i"
  by (auto simp: om_get_def find_Some_iff in_set_conv_nth)

lemma gate_off_options:
  assumes "p \<in> set (build_options w c False access)"
  shows "option_id p \<notin> set remember_gated_ids"
proof -
  have "enable_always_approve_option_id \<notin> set remember_gated_ids"
    by (simp add: enable_always_approve_option_id_def remember_gated_ids_def)
  moreover have "p = enable_always_approve_option \<or>
      p \<in> set (foldl (\<lambda>m i. filter (\<lambda>p. option_id p \<noteq> i) m) (build_options_inner w c access) remember_gated_ids)"
    using assms om_extend_member [of p "om_of [enable_always_approve_option]"]
    by (auto simp: build_options_def prepend_enable_always_approve_def Let_def om_of_def
        split: if_splits)
  ultimately show ?thesis
    by (auto simp: foldl_remove enable_always_approve_option_def opt_def)
qed

text \<open>The kinds an option may have, by its id.\<close>

definition id_kind_ok :: "perm_option \<Rightarrow> bool" where
  "id_kind_ok p =
     (option_kind p \<noteq> KindOther
      \<and> (option_kind p = KindAllowAlways \<longrightarrow>
           option_id p \<in> set remember_gated_ids \<or> option_id p = allow_edits_session_option_id)
      \<and> (option_kind p = KindRejectAlways \<longrightarrow> option_id p \<in> set remember_gated_ids))"

lemma om_of_ok: "list_all id_kind_ok os \<Longrightarrow> list_all id_kind_ok (om_of os)"
  using om_extend_member [of _ "[]" os] by (auto simp: om_of_def om_extend_def list_all_iff)

lemma om_extend_ok: "list_all id_kind_ok m \<Longrightarrow> list_all id_kind_ok os \<Longrightarrow> list_all id_kind_ok (om_extend m os)"
  using om_extend_member by (fastforce simp: list_all_iff)

lemma om_insert_ok: "list_all id_kind_ok m \<Longrightarrow> id_kind_ok p \<Longrightarrow> list_all id_kind_ok (om_insert p m)"
  using om_insert_member by (fastforce simp: list_all_iff)

lemmas id_kind_simps =
  id_kind_ok_def opt_def remember_gated_ids_def allow_edits_session_option_id_def bash_scope_option_def

lemma build_options_inner_ok: "list_all id_kind_ok (build_options_inner w c access)"
proof -
  have "list_all id_kind_ok edit_options" "list_all id_kind_ok bash_options"
    "list_all id_kind_ok generic_bash_options" "list_all id_kind_ok fallback_options"
    unfolding edit_options_def bash_options_def generic_bash_options_def fallback_options_def
    by (rule om_of_ok, simp add: id_kind_simps)+
  then show ?thesis
    by (auto simp: build_options_inner_def Let_def id_kind_simps
        intro!: om_of_ok om_extend_ok om_insert_ok split: access_kind.splits option.splits)
qed

lemma build_options_ok: "p \<in> set (build_options w c remember access) \<Longrightarrow> id_kind_ok p"
proof -
  have "id_kind_ok enable_always_approve_option"
    by (simp add: id_kind_simps enable_always_approve_option_def)
  then show "p \<in> set (build_options w c remember access) \<Longrightarrow> id_kind_ok p"
    using build_options_inner_ok [of w c access]
    by (auto simp: build_options_def prepend_enable_always_approve_def Let_def om_of_def
        foldl_remove list_all_iff dest!: om_extend_member split: if_splits)
qed

text \<open>
  With the "remember approvals" gate off, a prompt cannot create a standing grant: whatever
  option a client selects, in whatever shape of metadata, the outcome is never an "always" one.
\<close>

lemma gate_off_no_standing_grant:
  "\<not> is_standing_grant (prompter_request w c False access (ViaGateway g))
   \<and> (\<forall>prefix_words. prompter_request w c False access (ViaGateway g) \<noteq> RejectAlwaysBashCommand prefix_words)"
proof (cases g)
  case (GatewaySelected oid meta)
  show ?thesis
  proof (cases "om_get (build_options w c False access) oid")
    case None
    with GatewaySelected show ?thesis by (simp add: prompter_request_def map_selected_outcome_def)
  next
    case (Some p)
    then have p: "p \<in> set (build_options w c False access)" "option_id p = oid"
      using om_get_member by auto
    have "option_id p \<notin> set remember_gated_ids" using gate_off_options [OF p(1)] .
    with build_options_ok [OF p(1)] have "option_kind p = KindAllowOnce \<or> option_kind p = KindRejectOnce
        \<or> (option_kind p = KindAllowAlways \<and> oid = allow_edits_session_option_id)"
      using p(2) by (cases "option_kind p") (auto simp: id_kind_ok_def)
    moreover have "map_allow_always w allow_edits_session_option_id meta access = AllowEditsForSession"
      by (simp add: map_allow_always_def allow_edits_session_option_id_def enable_always_approve_option_id_def)
    moreover have "map_reject_once meta = RejectOnce \<or> (\<exists>m. map_reject_once meta = OutcomeFollowup m)"
      by (auto simp: map_reject_once_def split: option.splits)
    ultimately show ?thesis
      using GatewaySelected Some by (auto simp: prompter_request_def map_selected_outcome_def)
  qed
qed (simp_all add: prompter_request_def)

end
