(* ===== verification/Numerals.thy ===== *)
theory Numerals
  imports Prelude
begin

text \<open>
  Decimal numbers as text: what \<^verbatim>\<open>to_string\<close> prints for an unsigned integer and what \<^verbatim>\<open>parse\<close> reads.
\<close>

subsection \<open>Printing and parsing\<close>

fun digits :: "nat \<Rightarrow> str" where
  "digits n =
     (if n < 10 then [digit_letters ! n] else digits (n div 10) @ [digit_letters ! (n mod 10)])"

declare digits.simps [simp del]

definition digit_value :: "char \<Rightarrow> nat" where
  "digit_value c = length (takeWhile (\<lambda>d. d \<noteq> c) digit_letters)"

definition decimal :: "str \<Rightarrow> nat" where
  "decimal ds = foldl (\<lambda>n c. 10 * n + digit_value c) 0 ds"

text \<open>\<^verbatim>\<open>parse\<close> of an unsigned integer type with the given number of values.\<close>

definition parse_unsigned :: "nat \<Rightarrow> str \<Rightarrow> nat option" where
  "parse_unsigned bound s =
     (let ds = (case s of [] \<Rightarrow> [] | c # r \<Rightarrow> if c = CHR ''+'' then r else s)
      in if ds \<noteq> [] \<and> list_all is_ascii_digit ds \<and> decimal ds < bound then Some (decimal ds)
         else None)"

subsection \<open>Round trip\<close>

lemma digit_value_letter: "n < 10 \<Longrightarrow> digit_value (digit_letters ! n) = n"
proof -
  assume "n < 10"
  then have "n \<in> set [0..<10]" by simp
  moreover have "\<forall>n\<in>set [0..<10]. digit_value (digit_letters ! n) = n" by code_simp
  ultimately show ?thesis by blast
qed

lemma digit_letter: "n < 10 \<Longrightarrow> is_ascii_digit (digit_letters ! n)"
proof -
  assume "n < 10"
  moreover have "length digit_letters = 10" by code_simp
  ultimately show ?thesis unfolding is_ascii_digit_def by (intro nth_mem) simp
qed

lemma digits_digits: "list_all is_ascii_digit (digits n) \<and> digits n \<noteq> []"
proof (induction n rule: digits.induct)
  case (1 n)
  then show ?case
    by (cases "n < 10") (simp_all add: digits.simps [of n] digit_letter)
qed

lemma decimal_snoc: "decimal (ds @ [c]) = 10 * decimal ds + digit_value c"
  by (simp add: decimal_def)

lemma decimal_digits [simp]: "decimal (digits n) = n"
proof (induction n rule: digits.induct)
  case (1 n)
  show ?case
  proof (cases "n < 10")
    case True
    then show ?thesis by (subst digits.simps) (simp add: decimal_def digit_value_letter)
  next
    case False
    with 1 show ?thesis
      by (subst digits.simps) (simp add: decimal_snoc digit_value_letter)
  qed
qed

lemma digit_plain:
  "is_ascii_digit c \<Longrightarrow> c \<noteq> CHR ''+'' \<and> c \<noteq> CHR '','' \<and> \<not> starts_with (c # s) [] = False
     \<and> list_all (\<lambda>w. hd w \<noteq> c \<and> last w \<noteq> c) ws_encodings"
proof -
  assume "is_ascii_digit c"
  then have "c \<in> set digit_letters" by (simp add: is_ascii_digit_def)
  moreover have "\<forall>c\<in>set digit_letters. c \<noteq> CHR ''+'' \<and> c \<noteq> CHR '',''
      \<and> list_all (\<lambda>w. hd w \<noteq> c \<and> last w \<noteq> c) ws_encodings" by code_simp
  ultimately show ?thesis by simp
qed

lemma parse_unsigned_digits: "n < bound \<Longrightarrow> parse_unsigned bound (digits n) = Some n"
proof -
  assume n: "n < bound"
  obtain c r where d: "digits n = c # r" using digits_digits by (cases "digits n") auto
  then have "is_ascii_digit c" using digits_digits [of n] by simp
  then have "(case digits n of [] \<Rightarrow> [] | c # r \<Rightarrow> if c = CHR ''+'' then r else digits n) = digits n"
    using digit_plain d by simp
  with n digits_digits [of n] show ?thesis unfolding parse_unsigned_def Let_def by simp
qed

lemma ws_prefix_none:
  assumes "list_all (\<lambda>w. w \<noteq> [] \<and> hd w \<noteq> c) encs"
  shows "ws_prefix encs (c # s) = 0"
proof -
  have "find (starts_with (c # s)) encs = None"
    unfolding find_None_iff
  proof
    assume "\<exists>w. w \<in> set encs \<and> starts_with (c # s) w"
    then obtain w where w: "w \<in> set encs" "starts_with (c # s) w" by blast
    then have "w \<noteq> []" "hd w \<noteq> c" using assms by (auto simp: list_all_iff)
    with w(2) show False by (cases w) auto
  qed
  then show ?thesis by (simp add: ws_prefix_def)
qed

lemma trim_ws_none: "ws_prefix encs s = 0 \<Longrightarrow> trim_ws n encs s = s"
  by (cases n) (simp_all add: Let_def)

lemma trim_digits [simp]: "trim (digits n) = digits n"
proof -
  have all: "list_all is_ascii_digit (digits n)" "digits n \<noteq> []" using digits_digits by blast+
  obtain c r where d: "digits n = c # r" using all(2) by (cases "digits n") auto
  obtain e q where q: "rev (digits n) = e # q" using all(2) by (cases "rev (digits n)") auto
  have digit: "is_ascii_digit c" "is_ascii_digit e"
  proof -
    have "c \<in> set (digits n)" by (simp add: d)
    moreover have "e \<in> set (rev (digits n))" unfolding q by simp
    ultimately show "is_ascii_digit c" "is_ascii_digit e" using all(1) by (simp_all add: list_all_iff)
  qed
  have full: "list_all (\<lambda>w. w \<noteq> []) ws_encodings" by code_simp
  have "list_all (\<lambda>w. w \<noteq> [] \<and> hd w \<noteq> c) ws_encodings"
    using digit_plain [OF digit(1)] full by (auto simp: list_all_iff)
  then have start: "trim_start (digits n) = digits n"
    unfolding trim_start_def d by (intro trim_ws_none ws_prefix_none)
  have "list_all (\<lambda>w. w \<noteq> [] \<and> hd w \<noteq> e) (map rev ws_encodings)"
    using digit_plain [OF digit(2)] full by (auto simp: list_all_iff hd_rev)
  then have "trim_ws (length (digits n)) (map rev ws_encodings) (rev (digits n)) = rev (digits n)"
    unfolding q by (intro trim_ws_none ws_prefix_none)
  then have "trim_end (digits n) = digits n" by (simp add: trim_end_def)
  with start show ?thesis by (simp add: trim_def)
qed

lemma digits_no_comma: "CHR '','' \<notin> set (digits n)"
  using digits_digits [of n] digit_plain by (auto simp: list_all_iff)

end
