(* ===== verification/Truncation.thy ===== *)
theory Truncation
  imports Numerals
begin

text \<open>
  Cutting text to a budget (\<^verbatim>\<open>xai-grok-tools/src/util/truncate.rs\<close>): at a number of characters,
  at a number of bytes on a character boundary, and soft wrapping, which keeps everything.
\<close>

subsection \<open>Operations\<close>

definition truncation_marker :: str where
  "truncation_marker = [CHR 0xE2, CHR 0x80, CHR 0xA6]"

definition truncate_line :: "str \<Rightarrow> nat \<Rightarrow> str" where
  "truncate_line line max_chars =
     (if length line \<le> max_chars then line
      else
        (let char_count = length (chars line) in
         if char_count \<le> max_chars then line
         else concat (take max_chars (chars line))
                @ '' [... truncated ('' @ digits char_count @ '' chars total)]''))"

text \<open>The loop over the characters with \<open>chars_on_current_line\<close>.\<close>

fun soft_wrap_from :: "nat \<Rightarrow> nat \<Rightarrow> str list \<Rightarrow> str" where
  "soft_wrap_from wrap_width count [] = []"
| "soft_wrap_from wrap_width count (ch # chs) =
     (if wrap_width \<le> count then [CHR 0x0A] @ ch @ soft_wrap_from wrap_width 1 chs
      else ch @ soft_wrap_from wrap_width (count + 1) chs)"

text \<open>\<open>None\<close> is the panic of the division by a width of 0.\<close>

definition soft_wrap_line :: "str \<Rightarrow> nat \<Rightarrow> str option" where
  "soft_wrap_line line wrap_width =
     (if length line \<le> wrap_width then Some line
      else if length (chars line) \<le> wrap_width then Some line
      else if wrap_width = 0 then None
      else Some (soft_wrap_from wrap_width 0 (chars line)))"

text \<open>\<open>while !s.is_char_boundary(end) { end -= 1 }\<close>; offset 0 is a boundary.\<close>

fun boundary_below :: "str \<Rightarrow> nat \<Rightarrow> nat" where
  "boundary_below s 0 = 0"
| "boundary_below s (Suc n) = (if is_char_boundary s (Suc n) then Suc n else boundary_below s n)"

definition truncate_str :: "str \<Rightarrow> nat \<Rightarrow> str" where
  "truncate_str s max_bytes =
     (if length s \<le> max_bytes then s else take (boundary_below s max_bytes) s)"

definition truncate_with_preview :: "str \<Rightarrow> nat \<Rightarrow> nat \<Rightarrow> str option \<Rightarrow> str \<times> bool" where
  "truncate_with_preview output max_bytes preview_bytes footer_hint =
     (if length output \<le> max_bytes then (output, False)
      else
        (let preview = truncate_str output (min preview_bytes (length output));
             footer =
               (case footer_hint of
                  Some hint \<Rightarrow> ''[Output truncated - '' @ digits (length output) @ '' bytes total. '' @ hint @ '']''
                | None \<Rightarrow> ''[Output truncated - '' @ digits (length output) @ '' bytes total]'')
         in (preview @ [CHR 0x0A, CHR 0x0A] @ footer, True)))"

definition truncate_str_with_marker :: "str \<Rightarrow> nat \<Rightarrow> str" where
  "truncate_str_with_marker s max_bytes =
     (if length s \<le> max_bytes then s
      else if max_bytes < length truncation_marker then truncate_str s max_bytes
      else take (boundary_below s (max_bytes - length truncation_marker)) s @ truncation_marker)"

fun floor_from :: "str \<Rightarrow> nat \<Rightarrow> nat" where
  "floor_from s 0 = 0"
| "floor_from s (Suc n) = (if \<not> is_char_boundary s (Suc n) then floor_from s n else Suc n)"

definition floor_char_boundary :: "str \<Rightarrow> nat \<Rightarrow> nat" where
  "floor_char_boundary s index = (if length s \<le> index then length s else floor_from s index)"

subsection \<open>Budgets\<close>

lemma boundary_below_le: "boundary_below s n \<le> n"
  by (induction n) auto

lemma boundary_below_boundary: "is_char_boundary s (boundary_below s n)"
  by (induction n) (auto simp: is_char_boundary_def)

lemma boundary_below_greatest:
  "is_char_boundary s m \<Longrightarrow> m \<le> n \<Longrightarrow> m \<le> boundary_below s n"
  by (induction n) (auto simp: le_Suc_eq)

lemma floor_from_eq: "floor_from s n = boundary_below s n"
  by (induction n) auto

text \<open>
  Byte truncation keeps its budget and never splits a character: the result of
  \<^verbatim>\<open>truncate_str_with_marker\<close> has at most the given number of bytes, is the text itself when that
  fits, and otherwise (given room for the marker) is a prefix that ends on a character boundary,
  followed by the marker.
\<close>

lemma truncate_marker_budget:
  "length (truncate_str_with_marker s max_bytes) \<le> max_bytes
   \<and> (truncate_str_with_marker s max_bytes = s
      \<or> (\<exists>k. is_char_boundary s k
            \<and> (truncate_str_with_marker s max_bytes = take k s
               \<or> truncate_str_with_marker s max_bytes = take k s @ truncation_marker)))"
proof -
  have m: "length truncation_marker = 3" by (simp add: truncation_marker_def)
  show ?thesis
    using boundary_below_le [of s max_bytes] boundary_below_le [of s "max_bytes - 3"]
      boundary_below_boundary
    by (auto simp: truncate_str_with_marker_def truncate_str_def m min_def)
qed

text \<open>
  \<^verbatim>\<open>floor_char_boundary\<close> is what it is a polyfill for: the largest character boundary that is
  not above the index (or the length of the text).
\<close>

lemma floor_char_boundary_spec:
  "is_char_boundary s (floor_char_boundary s index)
   \<and> floor_char_boundary s index \<le> index
   \<and> \<not> (\<exists>m. m \<le> index \<and> is_char_boundary s m \<and> floor_char_boundary s index < m)"
proof (cases "length s \<le> index")
  case True
  then show ?thesis
    by (auto simp: floor_char_boundary_def is_char_boundary_def)
next
  case False
  with boundary_below_le [of s index] boundary_below_boundary [of s index]
    boundary_below_greatest [of s _ index]
  show ?thesis by (auto simp: floor_char_boundary_def floor_from_eq not_less)
qed

subsection \<open>Soft wrapping\<close>

text \<open>The lines of a wrapped text, as lists of characters.\<close>

fun wrap_chunks :: "nat \<Rightarrow> nat \<Rightarrow> str list \<Rightarrow> str list list" where
  "wrap_chunks width count [] = [[]]"
| "wrap_chunks width count (ch # chs) =
     (if width \<le> count
      then [] # (case wrap_chunks width 1 chs of l # ls \<Rightarrow> (ch # l) # ls | [] \<Rightarrow> [[ch]])
      else (case wrap_chunks width (count + 1) chs of l # ls \<Rightarrow> (ch # l) # ls | [] \<Rightarrow> [[ch]]))"

lemma wrap_chunks_nonempty [simp]: "wrap_chunks w n chs \<noteq> []"
  by (cases chs) (auto split: list.splits)

lemma join_Cons: "ws \<noteq> [] \<Longrightarrow> join sep (w # ws) = w @ sep @ join sep ws"
  by (cases ws) auto

lemma join_extend: "join sep ((w @ v) # ws) = w @ join sep (v # ws)"
  by (cases ws) auto

lemma soft_wrap_from_chunks:
  "soft_wrap_from w n chs = join [CHR 0x0A] (map concat (wrap_chunks w n chs))"
proof (induction w n chs rule: soft_wrap_from.induct)
  case (1 w n)
  then show ?case by simp
next
  case (2 w n ch chs)
  obtain l ls where a: "wrap_chunks w 1 chs = l # ls" by (cases "wrap_chunks w 1 chs") auto
  obtain l' ls' where b: "wrap_chunks w (n + 1) chs = l' # ls'"
    by (cases "wrap_chunks w (n + 1) chs") auto
  show ?case
  proof (cases "w \<le> n")
    case True
    with 2(1) a show ?thesis by (simp add: join_extend)
  next
    case False
    with 2(2) b show ?thesis by (simp add: join_extend)
  qed
qed

lemma concat_wrap_chunks: "concat (wrap_chunks w n chs) = chs"
  by (induction w n chs rule: wrap_chunks.induct)
    (auto split: list.splits)

lemma wrap_chunks_width:
  "0 < w \<Longrightarrow> n \<le> w \<Longrightarrow>
   length (hd (wrap_chunks w n chs)) + n \<le> w \<and> (\<forall>l\<in>set (wrap_chunks w n chs). length l \<le> w)"
proof (induction w n chs rule: soft_wrap_from.induct)
  case (1 w n)
  then show ?case by simp
next
  case (2 w n ch chs)
  obtain l ls where a: "wrap_chunks w 1 chs = l # ls" by (cases "wrap_chunks w 1 chs") auto
  obtain l' ls' where b: "wrap_chunks w (n + 1) chs = l' # ls'"
    by (cases "wrap_chunks w (n + 1) chs") auto
  show ?case
  proof (cases "w \<le> n")
    case True
    with 2(1) 2(3,4) a show ?thesis by auto
  next
    case False
    with 2(2) 2(3,4) b show ?thesis by auto
  qed
qed

text \<open>
  Soft wrapping discards nothing: for a positive width it returns lines, joined by newlines,
  which concatenated are exactly the characters of the text, and each has at most that many.
\<close>

lemma soft_wrap_lossless:
  assumes "0 < wrap_width"
  shows "\<exists>pieces. soft_wrap_line line wrap_width = Some (join [CHR 0x0A] (map concat pieces))
    \<and> concat pieces = chars line \<and> (\<forall>l\<in>set pieces. length l \<le> wrap_width)"
proof (cases "length (chars line) \<le> wrap_width")
  case True
  then have "soft_wrap_line line wrap_width = Some (join [CHR 0x0A] (map concat [chars line]))"
    by (simp add: soft_wrap_line_def)
  with True show ?thesis by (intro exI [of _ "[chars line]"]) simp
next
  case False
  have "length (chars line) \<le> length line" for line
  proof (induction line rule: chars.induct)
    case (2 c s)
    have "length (chars (drop (utf8_len c) (c # s))) \<le> Suc (length s) - utf8_len c"
      using 2 by simp
    moreover have "0 < utf8_len c" by simp
    ultimately have "length (chars (drop (utf8_len c) (c # s))) \<le> length s" by linarith
    then show ?case by simp
  qed simp
  note le_trans [OF this [of line], of wrap_width]
  with False assms have "soft_wrap_line line wrap_width = Some (soft_wrap_from wrap_width 0 (chars line))"
    by (auto simp: soft_wrap_line_def)
  with wrap_chunks_width [OF assms, of 0 "chars line"] show ?thesis
    by (intro exI [of _ "wrap_chunks wrap_width 0 (chars line)"])
      (simp add: soft_wrap_from_chunks concat_wrap_chunks)
qed

lemma soft_wrap_lossless_example:
  "soft_wrap_line ''abcde'' 2 = Some [CHR ''a'', CHR ''b'', CHR 0x0A, CHR ''c'', CHR ''d'', CHR 0x0A, CHR ''e'']
   \<and> (\<exists>pieces. concat pieces = chars ''abcde'' \<and> (\<forall>l\<in>set pieces. length l \<le> 2))"
proof -
  have "soft_wrap_line ''abcde'' 2
      = Some [CHR ''a'', CHR ''b'', CHR 0x0A, CHR ''c'', CHR ''d'', CHR 0x0A, CHR ''e'']"
    by code_simp
  with soft_wrap_lossless [of 2 "''abcde''"] show ?thesis by auto
qed

end
