(* ===== verification/Permission_Manager.thy ===== *)
theory Permission_Manager
  imports Bash_Grants Auto_Classifier Permission_Prompter Truncation
begin

text \<open>
  The permission manager actor (\<^verbatim>\<open>xai-grok-workspace/src/permission/manager.rs\<close>): the state it
  keeps, the handling of every command it receives, and the handle whose operations set the shared
  mode flags and enqueue commands.  A request meets its surroundings through \<open>request_env\<close>: when
  the requester went away, what the sandbox says, what the user answered.  Writing the state to
  disk is taken to succeed (the code only logs a failure); timestamps and gauges are left out.
\<close>

subsection \<open>State\<close>

type_synonym classifier =
  "str \<Rightarrow> access_kind \<Rightarrow> str option \<Rightarrow> classifier_context \<Rightarrow> classifier_verdict"

record actor_config =
  cfg_world :: world
  cfg_cwd :: str
  cfg_policy :: "compiled_policy option"
  cfg_prompt_policy :: prompt_policy
  cfg_domains :: domain_matcher
  cfg_pin :: "str option"
  cfg_remember :: bool
  cfg_client :: client_type

record actor =
  perm_state :: permission_state
  persisted :: "permission_state option"
  yolo_mode :: bool
  auto_mode :: bool
  auto_classifier :: "classifier option"
  classifier_turns :: "classifier_turn list"
  recorded_decisions :: "classifier_turn list"
  instructions :: "str option"
  pin_refusal_logged :: bool
  allow_edits_for_session :: bool

record request_env =
  closed_at_dequeue :: bool
  closed_in_classify :: bool
  sandbox_auto_bash :: bool
  closed_before_prompt :: bool
  prompt_reply :: "prompt_answer option"
  closed_at_end :: bool

datatype permission_mode = AlwaysApprove | AutoMode | AskMode

record permission_event =
  ev_tool :: str
  ev_access_kind :: str
  ev_detail :: "str option"
  ev_yolo :: bool
  ev_mode :: permission_mode
  ev_auto_approved :: bool
  ev_user_prompted :: bool
  ev_decision :: str
  ev_reject_reason :: "str option"
  ev_outcome :: "str option"
  ev_reason :: reason

definition persist :: "actor \<Rightarrow> actor" where
  "persist a = a\<lparr>persisted := Some (perm_state a)\<rparr>"

definition update_state :: "(permission_state \<Rightarrow> permission_state) \<Rightarrow> actor \<Rightarrow> actor" where
  "update_state f a = a\<lparr>perm_state := f (perm_state a)\<rparr>"

text \<open>\<^verbatim>\<open>default_auto_mode_classifier\<close>: no side query is wired, so the model never answers.\<close>

definition default_auto_mode_classifier :: "world \<Rightarrow> classifier" where
  "default_auto_mode_classifier w = llm_classify w None"

text \<open>The start of the actor: clamped yolo, seeded auto, the migration of a persisted edit grant.\<close>

definition spawn_actor :: "actor_config \<Rightarrow> permission_config option \<Rightarrow> bool \<Rightarrow> permission_state \<Rightarrow> actor" where
  "spawn_actor cfg permission_config initial_yolo loaded =
     (let initial = clamp_yolo initial_yolo (cfg_pin cfg);
          seed_auto = (\<not> initial \<and> is_some_and (\<lambda>c. permission_config.prompt_policy c = PromptAuto) permission_config);
          a = \<lparr>perm_state = loaded, persisted = Some loaded, yolo_mode = initial, auto_mode = seed_auto,
               auto_classifier = Some (default_auto_mode_classifier (cfg_world cfg)),
               classifier_turns = [], recorded_decisions = [], instructions = None,
               pin_refusal_logged = False, allow_edits_for_session = False\<rparr>
      in if edit_policy loaded = EditAllow
         then persist (update_state (\<lambda>s. s\<lparr>edit_policy := EditAsk\<rparr>) a)
         else a)"

definition config_of ::
  "world \<Rightarrow> str \<Rightarrow> permission_config option \<Rightarrow> str list \<Rightarrow> str option \<Rightarrow> bool \<Rightarrow> client_type \<Rightarrow> actor_config" where
  "config_of w cwd permission_config domains pin remember client =
     \<lparr>cfg_world = w, cfg_cwd = cwd,
      cfg_policy = map_option (policy_new w) permission_config,
      cfg_prompt_policy = (case permission_config of Some c \<Rightarrow> permission_config.prompt_policy c | None \<Rightarrow> PromptAsk),
      cfg_domains = matcher_new domains, cfg_pin = pin, cfg_remember = remember, cfg_client = client\<rparr>"

subsection \<open>What is known about a request\<close>

definition mcp_access_detail_max_len :: nat where
  "mcp_access_detail_max_len = 1024"

definition classifier_turn_max_len :: nat where
  "classifier_turn_max_len = 400"

definition mcp_access_detail :: "world \<Rightarrow> str \<Rightarrow> json \<Rightarrow> str" where
  "mcp_access_detail w name input =
     (if input = JNull then name
      else truncate_line (name @ '' '' @ json_print w input) mcp_access_detail_max_len)"

fun access_detail :: "world \<Rightarrow> access_kind \<Rightarrow> str option" where
  "access_detail w (AccessRead _) = None"
| "access_detail w (AccessGrep p _) = p"
| "access_detail w (AccessEdit f) = Some f"
| "access_detail w (AccessBash cmd) = Some cmd"
| "access_detail w (AccessMCPTool name input) = Some (mcp_access_detail w name input)"
| "access_detail w (AccessWebFetch u) = Some u"
| "access_detail w (AccessWebSearch q) = Some q"

fun access_kind_str :: "access_kind \<Rightarrow> str" where
  "access_kind_str (AccessRead _) = ''read''"
| "access_kind_str (AccessGrep _ _) = ''grep''"
| "access_kind_str (AccessEdit _) = ''edit''"
| "access_kind_str (AccessBash _) = ''bash''"
| "access_kind_str (AccessMCPTool _ _) = ''mcp''"
| "access_kind_str (AccessWebFetch _) = ''web_fetch''"
| "access_kind_str (AccessWebSearch _) = ''web_search''"

definition permission_decision_args :: "world \<Rightarrow> access_kind \<Rightarrow> str" where
  "permission_decision_args w access =
     (let raw = (case access of
            AccessBash cmd \<Rightarrow> json_print w (JObj [(''command'', JStr cmd)])
          | _ \<Rightarrow> (case access_detail w access of Some d \<Rightarrow> d | None \<Rightarrow> ''(none)''))
      in truncate_str_with_marker raw classifier_turn_max_len)"

definition effective_mode :: "actor \<Rightarrow> permission_mode" where
  "effective_mode a =
     (if yolo_mode a then AlwaysApprove else if auto_mode a then AutoMode else AskMode)"

fun decision_words :: "decision \<Rightarrow> str \<times> str option" where
  "decision_words Allow = (''allow'', None)"
| "decision_words Ask = (''ask'', None)"
| "decision_words (Reject r) = (''reject'', Some r)"
| "decision_words (PolicyDeny r) = (''reject'', Some r)"
| "decision_words (FollowupMessage _) = (''followup'', None)"
| "decision_words Cancelled = (''cancelled'', None)"

definition emit_event ::
  "actor_config \<Rightarrow> actor \<Rightarrow> access_kind \<Rightarrow> decision \<Rightarrow> bool \<Rightarrow> bool \<Rightarrow> str option \<Rightarrow> reason \<Rightarrow> permission_event" where
  "emit_event cfg a access d auto_approved user_prompted outcome rsn =
     \<lparr>ev_tool = tool_name_for_access access, ev_access_kind = access_kind_str access,
      ev_detail = access_detail (cfg_world cfg) access, ev_yolo = yolo_mode a,
      ev_mode = effective_mode a, ev_auto_approved = auto_approved,
      ev_user_prompted = user_prompted, ev_decision = fst (decision_words d),
      ev_reject_reason = snd (decision_words d), ev_outcome = outcome, ev_reason = rsn\<rparr>"

subsection \<open>Policy of a request\<close>

definition direct_decision :: "actor_config \<Rightarrow> access_kind \<Rightarrow> decision option" where
  "direct_decision cfg access =
     Option.bind (cfg_policy cfg) (\<lambda>p. evaluate (cfg_world cfg) p access)"

definition shell_command_decision :: "actor_config \<Rightarrow> access_kind \<Rightarrow> decision option" where
  "shell_command_decision cfg access =
     (case (cfg_policy cfg, access) of
        (Some p, AccessBash cmd) \<Rightarrow> evaluate_bash_command_policy (cfg_world cfg) p cmd
      | _ \<Rightarrow> None)"

definition shell_file_decision :: "actor_config \<Rightarrow> access_kind \<Rightarrow> decision option" where
  "shell_file_decision cfg access =
     (case (cfg_policy cfg, access) of
        (Some p, AccessBash cmd) \<Rightarrow> evaluate_shell_file_access (cfg_world cfg) p (cfg_cwd cfg) cmd
      | _ \<Rightarrow> None)"

definition policy_decision :: "actor_config \<Rightarrow> access_kind \<Rightarrow> decision option" where
  "policy_decision cfg access =
     combine_decisions
       (combine_decisions (direct_decision cfg access) (shell_command_decision cfg access))
       (shell_file_decision cfg access)"

definition shell_file_forced_prompt :: "actor_config \<Rightarrow> access_kind \<Rightarrow> bool" where
  "shell_file_forced_prompt cfg access = (shell_file_decision cfg access = Some Ask)"

definition shell_forced_prompt :: "actor_config \<Rightarrow> access_kind \<Rightarrow> bool" where
  "shell_forced_prompt cfg access =
     (shell_file_forced_prompt cfg access \<or> shell_command_decision cfg access = Some Ask)"

definition policy_forced_prompt :: "actor_config \<Rightarrow> access_kind \<Rightarrow> bool" where
  "policy_forced_prompt cfg access = (policy_decision cfg access = Some Ask)"

subsection \<open>The stages of a request\<close>

datatype auto_stage = AutoAllowed reason | AutoGone | AutoPass bool "reason option"

definition classify_request :: "actor_config \<Rightarrow> request_env \<Rightarrow> actor \<Rightarrow> access_kind \<Rightarrow> classifier_verdict option" where
  "classify_request cfg env a access =
     (case auto_classifier a of
        Some clf \<Rightarrow>
          (if closed_in_classify env then None
           else Some (clf (tool_name_for_access access) access (access_detail (cfg_world cfg) access)
             \<lparr>turns = classifier_turns a @ recorded_decisions a, project_instructions = instructions a\<rparr>))
      | None \<Rightarrow> Some VUnavailable)"

definition run_auto_stage :: "actor_config \<Rightarrow> request_env \<Rightarrow> actor \<Rightarrow> access_kind \<Rightarrow> auto_stage" where
  "run_auto_stage cfg env a access =
     (if auto_mode a \<and> \<not> policy_forced_prompt cfg access \<and> \<not> shell_forced_prompt cfg access then
        (let tool_name = tool_name_for_access access in
         case auto_mode_fast_path access tool_name (access_requires_user_interaction tool_name access) of
           FastAllow \<Rightarrow> AutoAllowed ReasonAutoFastPath
         | FastPromptUser \<Rightarrow> AutoPass True (Some ReasonNeedsUser)
         | FastClassify \<Rightarrow>
             (case classify_request cfg env a access of
                None \<Rightarrow> AutoGone
              | Some VAllow \<Rightarrow> AutoAllowed ReasonAutoClassifierAllow
              | Some _ \<Rightarrow> AutoPass True (Some ReasonAutoClassifierBlock)))
      else AutoPass False None)"

text \<open>The match that computes \<open>pre_decision\<close> after the policy outcome was applied.\<close>

definition late_pre_decision :: "actor_config \<Rightarrow> actor \<Rightarrow> access_kind \<Rightarrow> bool \<Rightarrow> pre_decision" where
  "late_pre_decision cfg a access auto_forced_prompt =
     (let forced = policy_forced_prompt cfg access; st = perm_state a; w = cfg_world cfg in
      case access of
        AccessRead _ \<Rightarrow> if forced then None else Some (Allow, ReasonSafeCommand)
      | AccessGrep _ _ \<Rightarrow> if forced then None else Some (Allow, ReasonSafeCommand)
      | AccessWebSearch _ \<Rightarrow> Some (Allow, ReasonSafeCommand)
      | AccessMCPTool name _ \<Rightarrow>
          map_option (\<lambda>d. (d, ReasonPersistedGrant)) (mcp_pre_decision name st forced (cfg_remember cfg))
      | AccessEdit _ \<Rightarrow>
          (if allow_edits_for_session a then Some (Allow, ReasonPersistedGrant)
           else (case edit_policy st of
                   EditReject \<Rightarrow> Some (Reject ''edits prohibited'', ReasonSessionDeny)
                 | _ \<Rightarrow> None))
      | AccessBash cmd \<Rightarrow>
          (if forced then
             (if cfg_remember cfg \<and> \<not> auto_forced_prompt \<and> \<not> shell_file_forced_prompt cfg access
              then bash_grant_pre_decision w cmd st (cfg_pin cfg) ask_floor_remember
              else None)
           else bash_grant_pre_decision w cmd st (cfg_pin cfg) (post_classify auto_forced_prompt))
      | AccessWebFetch u \<Rightarrow>
          (case url_parse w u of
             None \<Rightarrow> None
           | Some parsed \<Rightarrow>
               if check (cfg_domains cfg) parsed = None then Some (Allow, ReasonStaticAllowlist)
               else (case host_str parsed of
                       None \<Rightarrow> None
                     | Some h \<Rightarrow>
                         if normalize_domain h \<in> set (allowed_web_fetch_domains st)
                         then Some (Allow, ReasonPersistedGrant) else None)))"

definition neutralize :: "bool \<Rightarrow> access_kind \<Rightarrow> pre_decision \<Rightarrow> pre_decision" where
  "neutralize auto_forced_prompt access pre =
     (if auto_forced_prompt \<and> auto_prompt_blocks_allow access \<and> is_some_and (\<lambda>p. fst p = Allow) pre
      then None else pre)"

text \<open>What the user's answer does, for a bash request and for any other.\<close>

definition user_rejected :: decision where
  "user_rejected = Reject ''User rejected the execution''"

fun apply_bash_outcome :: "str \<Rightarrow> prompt_outcome \<Rightarrow> actor \<Rightarrow> actor \<times> decision \<times> str" where
  "apply_bash_outcome cmd AllowOnce a = (a, Allow, ''allow_once'')"
| "apply_bash_outcome cmd AllowAlways a =
     (persist (update_state
        (\<lambda>s. s\<lparr>allowed_bash_commands := set_insert cmd (allowed_bash_commands s)\<rparr>) a),
      Allow, ''allow_always'')"
| "apply_bash_outcome cmd (AllowAlwaysBashCommand p) a =
     (persist (update_state
        (\<lambda>s. s\<lparr>allowed_bash_commands := set_insert p (allowed_bash_commands s)\<rparr>) a),
      Allow, ''allow_always_bash'')"
| "apply_bash_outcome cmd (AllowAlwaysDomain _) a = (a, Allow, ''allow_once'')"
| "apply_bash_outcome cmd (AllowAlwaysMcpTool _) a = (a, Allow, ''allow_once'')"
| "apply_bash_outcome cmd (AllowAlwaysMcpServer _) a = (a, Allow, ''allow_once'')"
| "apply_bash_outcome cmd AllowEditsForSession a = (a, Allow, ''allow_once'')"
| "apply_bash_outcome cmd RejectOnce a = (a, user_rejected, ''reject_once'')"
| "apply_bash_outcome cmd (RejectAlwaysBashCommand p) a =
     (persist (update_state
        (\<lambda>s. s\<lparr>disallowed_bash_commands := set_insert p (disallowed_bash_commands s)\<rparr>) a),
      Reject (''User rejected the execution and excluded '' @ p @ '' from this session''),
      ''reject_always_bash'')"
| "apply_bash_outcome cmd OutcomeCancelled a = (a, Cancelled, ''cancelled'')"
| "apply_bash_outcome cmd (OutcomeFollowup m) a = (a, FollowupMessage m, ''followup'')"
| "apply_bash_outcome cmd (OutcomeError e) a =
     (a, Reject (''Failed to request permission from user: '' @ e), ''error'')"

definition grant_mcp_tool :: "str \<Rightarrow> actor \<Rightarrow> actor" where
  "grant_mcp_tool name = update_state (\<lambda>s. s\<lparr>allowed_mcp_tools := set_insert name (allowed_mcp_tools s)\<rparr>)"

definition canonical_server :: "str \<Rightarrow> str option" where
  "canonical_server name =
     filter_option (\<lambda>s. s \<noteq> []) (map_option fst (split_once name ''__''))"

fun apply_other_outcome :: "access_kind \<Rightarrow> prompt_outcome \<Rightarrow> actor \<Rightarrow> actor \<times> decision \<times> str" where
  "apply_other_outcome access AllowOnce a = (a, Allow, ''allow_once'')"
| "apply_other_outcome access AllowEditsForSession a =
     (a\<lparr>allow_edits_for_session := True\<rparr>, Allow, ''allow_edits_for_session'')"
| "apply_other_outcome access AllowAlways a =
     (persist (case access of AccessMCPTool name _ \<Rightarrow> grant_mcp_tool name a | _ \<Rightarrow> a),
      Allow, ''allow_always'')"
| "apply_other_outcome access (AllowAlwaysBashCommand _) a = (a, Allow, ''allow_always_bash'')"
| "apply_other_outcome access (AllowAlwaysDomain domain) a =
     ((case access of
         AccessWebFetch _ \<Rightarrow> persist (update_state
           (\<lambda>s. s\<lparr>allowed_web_fetch_domains := set_insert domain (allowed_web_fetch_domains s)\<rparr>) a)
       | _ \<Rightarrow> a),
      Allow, ''allow_always_domain'')"
| "apply_other_outcome access (AllowAlwaysMcpTool _) a =
     ((case access of AccessMCPTool name _ \<Rightarrow> persist (grant_mcp_tool name a) | _ \<Rightarrow> a),
      Allow, ''allow_always_mcp_tool'')"
| "apply_other_outcome access (AllowAlwaysMcpServer server_prefix) a =
     ((case access of
         AccessMCPTool name _ \<Rightarrow>
           (if canonical_server name = Some server_prefix
            then persist (update_state
              (\<lambda>s. s\<lparr>allowed_mcp_servers := set_insert server_prefix (allowed_mcp_servers s)\<rparr>) a)
            else persist (grant_mcp_tool name a))
       | _ \<Rightarrow> a),
      Allow, ''allow_always_mcp_server'')"
| "apply_other_outcome access (RejectAlwaysBashCommand _) a = (a, user_rejected, ''reject_always_bash'')"
| "apply_other_outcome access RejectOnce a = (a, user_rejected, ''reject_once'')"
| "apply_other_outcome access OutcomeCancelled a = (a, Cancelled, ''cancelled'')"
| "apply_other_outcome access (OutcomeError e) a =
     (a, Reject (''Failed to request permission from user: '' @ e), ''error'')"
| "apply_other_outcome access (OutcomeFollowup m) a = (a, FollowupMessage m, ''followup'')"

definition apply_outcome :: "access_kind \<Rightarrow> prompt_outcome \<Rightarrow> actor \<Rightarrow> actor \<times> decision \<times> str" where
  "apply_outcome access outcome a =
     (case access of
        AccessBash cmd \<Rightarrow> apply_bash_outcome cmd outcome a
      | _ \<Rightarrow> apply_other_outcome access outcome a)"

text \<open>Answered prompts are remembered for the classifier, the last twelve of them.\<close>

definition record_decision :: "world \<Rightarrow> access_kind \<Rightarrow> decision \<Rightarrow> str \<Rightarrow> actor \<Rightarrow> actor" where
  "record_decision w access d outcome_str a =
     (case prompted_decision_approved d outcome_str of
        None \<Rightarrow> a
      | Some approved \<Rightarrow>
          (let ds = recorded_decisions a
                 @ [PermissionDecision (tool_name_for_access access) (permission_decision_args w access) approved];
               len = length ds
           in a\<lparr>recorded_decisions :=
                 (if max_recorded_permission_decisions < len
                  then drop (len - max_recorded_permission_decisions) ds else ds)\<rparr>))"

subsection \<open>Handling a request\<close>

text \<open>
  The result of a request: the actor afterwards, the event that is emitted, and the decision that
  is sent back, or nothing when the requester is gone.
\<close>

type_synonym request_result = "actor \<times> permission_event \<times> decision option"

definition respond ::
  "actor_config \<Rightarrow> actor \<Rightarrow> access_kind \<Rightarrow> decision \<Rightarrow> bool \<Rightarrow> reason \<Rightarrow> request_result" where
  "respond cfg a access d auto_approved rsn =
     (a, emit_event cfg a access d auto_approved False None rsn, Some d)"

definition requester_gone :: "actor_config \<Rightarrow> actor \<Rightarrow> access_kind \<Rightarrow> request_result" where
  "requester_gone cfg a access =
     (a, emit_event cfg a access Cancelled False False None ReasonRequesterGone, None)"

definition prompt_trigger :: "actor_config \<Rightarrow> access_kind \<Rightarrow> reason option \<Rightarrow> reason" where
  "prompt_trigger cfg access auto_prompt_reason =
     (if policy_forced_prompt cfg access \<or> shell_forced_prompt cfg access then ReasonPolicyAsk
      else case auto_prompt_reason of Some r \<Rightarrow> r | None \<Rightarrow> ReasonNeedsUser)"

definition prompt_user ::
  "actor_config \<Rightarrow> request_env \<Rightarrow> actor \<Rightarrow> access_kind \<Rightarrow> reason option \<Rightarrow> request_result" where
  "prompt_user cfg env a access auto_prompt_reason =
     (let outcome = (case prompt_reply env of
            None \<Rightarrow> OutcomeCancelled
          | Some answer \<Rightarrow> prompter_request (cfg_world cfg) (cfg_client cfg) (cfg_remember cfg) access answer);
          (a1, d, outcome_str) = apply_outcome access outcome a;
          a2 = record_decision (cfg_world cfg) access d outcome_str a1;
          trigger = (if d = Cancelled \<and> closed_at_end env then ReasonRequesterGone
                     else prompt_trigger cfg access auto_prompt_reason)
      in (a2, emit_event cfg a2 access d False True (Some outcome_str) trigger, Some d))"

definition prompt_policy_denied :: decision where
  "prompt_policy_denied = PolicyDeny ''denied by prompt policy (tool not pre-approved)''"

definition after_auto ::
  "actor_config \<Rightarrow> request_env \<Rightarrow> actor \<Rightarrow> access_kind \<Rightarrow> bool \<Rightarrow> reason option \<Rightarrow> request_result" where
  "after_auto cfg env a access auto_forced_prompt auto_prompt_reason =
     (if is_bash access \<and> sandbox_auto_bash env \<and> \<not> policy_forced_prompt cfg access
         \<and> \<not> auto_forced_prompt
      then respond cfg a access Allow True ReasonSandboxAuto
      else case filter_option (\<lambda>d. d \<noteq> Ask) (policy_decision cfg access) of
        Some d \<Rightarrow> respond cfg a access d True ReasonPolicyAllow
      | None \<Rightarrow>
          (case neutralize auto_forced_prompt access (late_pre_decision cfg a access auto_forced_prompt) of
             Some (d, rsn) \<Rightarrow> respond cfg a access d True rsn
           | None \<Rightarrow>
               if cfg_prompt_policy cfg = PromptDeny
               then respond cfg a access prompt_policy_denied False ReasonPromptDeny
               else if closed_before_prompt env then requester_gone cfg a access
               else prompt_user cfg env a access auto_prompt_reason))"

definition early_grant :: "actor_config \<Rightarrow> actor \<Rightarrow> access_kind \<Rightarrow> pre_decision" where
  "early_grant cfg a access =
     (if \<not> policy_forced_prompt cfg access \<and> \<not> shell_forced_prompt cfg access
      then session_grant_pre_decision (cfg_world cfg) access (perm_state a)
             (allow_edits_for_session a) (cfg_domains cfg) (cfg_pin cfg)
      else None)"

definition handle_request :: "actor_config \<Rightarrow> request_env \<Rightarrow> actor \<Rightarrow> access_kind \<Rightarrow> request_result" where
  "handle_request cfg env a access =
     (if closed_at_dequeue env then requester_gone cfg a access
      else case policy_decision cfg access of
        Some (Reject rsn) \<Rightarrow> respond cfg a access (PolicyDeny rsn) False ReasonPolicyDeny
      | _ \<Rightarrow>
          if yolo_mode a \<and> \<not> shell_forced_prompt cfg access
          then respond cfg a access Allow True ReasonYolo
          else case early_grant cfg a access of
            Some (d, rsn) \<Rightarrow> respond cfg a access d True rsn
          | None \<Rightarrow>
              (case run_auto_stage cfg env a access of
                 AutoAllowed rsn \<Rightarrow> respond cfg a access Allow True rsn
               | AutoGone \<Rightarrow> requester_gone cfg a access
               | AutoPass forced rsn \<Rightarrow> after_auto cfg env a access forced rsn))"

subsection \<open>Commands and the handle\<close>

datatype command =
  SetYoloMode bool
| SetAutoMode bool
| SetClassifier "classifier option"
| SetClassifierTranscript "classifier_turn list"
| SetProjectInstructions "str option"
| ResetState
| Request access_kind request_env
| Shutdown

text \<open>The atomics the handle shares with the actor.\<close>

record shared_flags =
  yolo_state :: bool
  auto_state :: bool
  side_query_wired :: bool

fun handle_command ::
  "actor_config \<Rightarrow> command \<Rightarrow> actor \<Rightarrow> shared_flags \<Rightarrow> actor \<times> shared_flags \<times> (permission_event \<times> decision option) option" where
  "handle_command cfg (SetYoloMode enabled) a fl =
     (let clamped = clamp_yolo enabled (cfg_pin cfg);
          a = a\<lparr>pin_refusal_logged := pin_refusal_logged a \<or> (enabled \<and> \<not> clamped), yolo_mode := clamped\<rparr>;
          fl = fl\<lparr>yolo_state := clamped\<rparr>
      in if clamped then (a\<lparr>auto_mode := False\<rparr>, fl\<lparr>auto_state := False\<rparr>, None) else (a, fl, None))"
| "handle_command cfg (SetAutoMode enabled) a fl =
     (let a = a\<lparr>auto_mode := enabled\<rparr>; fl = fl\<lparr>auto_state := enabled\<rparr>
      in if enabled
         then (a\<lparr>yolo_mode := False,
                 auto_classifier := (case auto_classifier a of
                     None \<Rightarrow> Some (default_auto_mode_classifier (cfg_world cfg)) | c \<Rightarrow> c)\<rparr>,
               fl\<lparr>yolo_state := False\<rparr>, None)
         else (a, fl, None))"
| "handle_command cfg (SetClassifier c) a fl = (a\<lparr>auto_classifier := c\<rparr>, fl, None)"
| "handle_command cfg (SetClassifierTranscript ts) a fl = (a\<lparr>classifier_turns := ts\<rparr>, fl, None)"
| "handle_command cfg (SetProjectInstructions i) a fl = (a\<lparr>instructions := i\<rparr>, fl, None)"
| "handle_command cfg ResetState a fl =
     ((persist (a\<lparr>perm_state := default_state\<rparr>))\<lparr>allow_edits_for_session := False\<rparr>, fl, None)"
| "handle_command cfg (Request access env) a fl =
     (case handle_request cfg env a access of (a', ev, resp) \<Rightarrow> (a', fl, Some (ev, resp)))"
| "handle_command cfg Shutdown a fl = (a, fl, None)"

text \<open>The operations of \<^verbatim>\<open>PermissionHandle::Actor\<close>: what they do to the flags, and the command they send.\<close>

definition handle_set_yolo_mode :: "actor_config \<Rightarrow> bool \<Rightarrow> shared_flags \<Rightarrow> shared_flags \<times> command" where
  "handle_set_yolo_mode cfg enabled fl =
     (let clamped = clamp_yolo enabled (cfg_pin cfg);
          fl = fl\<lparr>yolo_state := clamped\<rparr>
      in (if clamped then fl\<lparr>auto_state := False\<rparr> else fl, SetYoloMode enabled))"

definition handle_set_auto_mode :: "bool \<Rightarrow> shared_flags \<Rightarrow> shared_flags \<times> command" where
  "handle_set_auto_mode enabled fl =
     (let fl = fl\<lparr>auto_state := enabled\<rparr>
      in (if enabled then fl\<lparr>yolo_state := False\<rparr> else fl, SetAutoMode enabled))"

definition handle_set_classifier :: "classifier option \<Rightarrow> shared_flags \<Rightarrow> shared_flags \<times> command" where
  "handle_set_classifier c fl = (fl\<lparr>side_query_wired := False\<rparr>, SetClassifier c)"

definition handle_set_classifier_with_side_query ::
  "classifier \<Rightarrow> bool \<Rightarrow> shared_flags \<Rightarrow> shared_flags \<times> command" where
  "handle_set_classifier_with_side_query c has_side_query fl =
     (fl\<lparr>side_query_wired := has_side_query\<rparr>, SetClassifier (Some c))"

record manager =
  the_actor :: actor
  mailbox :: "command list"
  flags :: shared_flags
  running :: bool

text \<open>
  The steps of the whole: a handle operation, a request or another message enqueued, and the
  actor taking the next command; after a shutdown it takes no more.
\<close>

inductive manager_step :: "actor_config \<Rightarrow> manager \<Rightarrow> manager \<Rightarrow> bool" for cfg where
  set_yolo: "handle_set_yolo_mode cfg b (flags m) = (fl, c) \<Longrightarrow>
    manager_step cfg m (m\<lparr>flags := fl, mailbox := mailbox m @ [c]\<rparr>)"
| set_auto: "handle_set_auto_mode b (flags m) = (fl, c) \<Longrightarrow>
    manager_step cfg m (m\<lparr>flags := fl, mailbox := mailbox m @ [c]\<rparr>)"
| set_classifier: "handle_set_classifier k (flags m) = (fl, c) \<Longrightarrow>
    manager_step cfg m (m\<lparr>flags := fl, mailbox := mailbox m @ [c]\<rparr>)"
| set_side_query: "handle_set_classifier_with_side_query k b (flags m) = (fl, c) \<Longrightarrow>
    manager_step cfg m (m\<lparr>flags := fl, mailbox := mailbox m @ [c]\<rparr>)"
| set_wired: "manager_step cfg m (m\<lparr>flags := (flags m)\<lparr>side_query_wired := b\<rparr>\<rparr>)"
| enqueue: "c = SetClassifierTranscript ts \<or> c = SetProjectInstructions i \<or> c = ResetState
      \<or> c = Request access env \<or> c = Shutdown \<Longrightarrow>
    manager_step cfg m (m\<lparr>mailbox := mailbox m @ [c]\<rparr>)"
| take: "running m \<Longrightarrow> mailbox m = c # cs \<Longrightarrow>
    handle_command cfg c (the_actor m) (flags m) = (a, fl, out) \<Longrightarrow>
    manager_step cfg m (m\<lparr>the_actor := a, flags := fl, mailbox := cs, running := c \<noteq> Shutdown\<rparr>)"

inductive_cases manager_stepE: "manager_step cfg m m'"

definition spawn_manager ::
  "actor_config \<Rightarrow> permission_config option \<Rightarrow> bool \<Rightarrow> permission_state \<Rightarrow> manager" where
  "spawn_manager cfg permission_config initial_yolo loaded =
     (let a = spawn_actor cfg permission_config initial_yolo loaded
      in \<lparr>the_actor = a, mailbox = [],
          flags = \<lparr>yolo_state = yolo_mode a, auto_state = auto_mode a, side_query_wired = False\<rparr>,
          running = True\<rparr>)"

definition manager_reachable ::
  "actor_config \<Rightarrow> permission_config option \<Rightarrow> bool \<Rightarrow> permission_state \<Rightarrow> manager \<Rightarrow> bool" where
  "manager_reachable cfg pc y ld = (manager_step cfg)\<^sup>*\<^sup>* (spawn_manager cfg pc y ld)"

end
