(* ===== verification/Manager_Safety.thy ===== *)
theory Manager_Safety
  imports Permission_Manager Shell_Access
begin

text \<open>
  What the permission manager promises: which requests are answered without the user, what an
  answer may change, and the invariants of the actor and of the flags its handle shares, over all
  sequences of commands.
\<close>

subsection \<open>The ways a request ends\<close>

abbreviation denied :: "actor_config \<Rightarrow> access_kind \<Rightarrow> bool" where
  "denied cfg access \<equiv> \<exists>r. policy_decision cfg access = Some (Reject r)"

lemma after_auto_cases:
  assumes "after_auto cfg env a access forced rsn0 = res"
  obtains (sandbox) "is_bash access" "sandbox_auto_bash env" "\<not> policy_forced_prompt cfg access" "\<not> forced"
      "res = respond cfg a access Allow True ReasonSandboxAuto"
    | (policy) d where "policy_decision cfg access = Some d" "d \<noteq> Ask"
      "res = respond cfg a access d True ReasonPolicyAllow"
    | (late) d rsn where
      "neutralize forced access (late_pre_decision cfg a access forced) = Some (d, rsn)"
      "filter_option (\<lambda>d. d \<noteq> Ask) (policy_decision cfg access) = None"
      "res = respond cfg a access d True rsn"
    | (dont_ask) "cfg_prompt_policy cfg = PromptDeny"
      "res = respond cfg a access prompt_policy_denied False ReasonPromptDeny"
    | (gone) "closed_before_prompt env" "res = requester_gone cfg a access"
    | (prompted) "cfg_prompt_policy cfg \<noteq> PromptDeny"
      "filter_option (\<lambda>d. d \<noteq> Ask) (policy_decision cfg access) = None"
      "res = prompt_user cfg env a access rsn0"
proof (cases "is_bash access \<and> sandbox_auto_bash env \<and> \<not> policy_forced_prompt cfg access \<and> \<not> forced")
  case True
  with assms sandbox show ?thesis by (simp add: after_auto_def)
next
  case no_sandbox: False
  show ?thesis
  proof (cases "filter_option (\<lambda>d. d \<noteq> Ask) (policy_decision cfg access)")
    case (Some d)
    then have "policy_decision cfg access = Some d" "d \<noteq> Ask"
      by (auto simp: filter_option_def split: option.splits if_splits)
    moreover have "res = respond cfg a access d True ReasonPolicyAllow"
      using assms no_sandbox Some by (simp add: after_auto_def del: de_Morgan_conj)
    ultimately show ?thesis by (rule policy)
  next
    case None
    show ?thesis
    proof (cases "neutralize forced access (late_pre_decision cfg a access forced)")
      case (Some p)
      with assms no_sandbox None late [of "fst p" "snd p"] show ?thesis
        by (cases p) (simp add: after_auto_def del: de_Morgan_conj)
    next
      case no_late: None
      have "res = (if cfg_prompt_policy cfg = PromptDeny
               then respond cfg a access prompt_policy_denied False ReasonPromptDeny
               else if closed_before_prompt env then requester_gone cfg a access
               else prompt_user cfg env a access rsn0)"
        using assms no_sandbox None no_late by (simp add: after_auto_def del: de_Morgan_conj)
      then show ?thesis using dont_ask gone prompted None by (auto split: if_splits)
    qed
  qed
qed

lemma handle_request_cases:
  assumes "handle_request cfg env a access = res"
  obtains (gone) "closed_at_dequeue env \<or> closed_in_classify env \<or> closed_before_prompt env"
      "res = requester_gone cfg a access"
    | (denied) r where "policy_decision cfg access = Some (Reject r)"
      "res = respond cfg a access (PolicyDeny r) False ReasonPolicyDeny"
    | (yolo) "\<not> denied cfg access" "yolo_mode a" "\<not> shell_forced_prompt cfg access"
      "res = respond cfg a access Allow True ReasonYolo"
    | (early) d rsn where "\<not> denied cfg access" "early_grant cfg a access = Some (d, rsn)"
      "res = respond cfg a access d True rsn"
    | (auto) rsn where "\<not> denied cfg access" "run_auto_stage cfg env a access = AutoAllowed rsn"
      "res = respond cfg a access Allow True rsn"
    | (passed) forced rsn where "\<not> closed_at_dequeue env" "\<not> denied cfg access"
      "\<not> (yolo_mode a \<and> \<not> shell_forced_prompt cfg access)"
      "early_grant cfg a access = None" "run_auto_stage cfg env a access = AutoPass forced rsn"
      "after_auto cfg env a access forced rsn = res"
proof (cases "closed_at_dequeue env")
  case True
  with assms gone show ?thesis by (simp add: handle_request_def)
next
  case open_: False
  show ?thesis
  proof (cases "denied cfg access")
    case True
    then obtain r where "policy_decision cfg access = Some (Reject r)" by blast
    with open_ assms denied show ?thesis by (simp add: handle_request_def)
  next
    case False
    let ?rest = "if yolo_mode a \<and> \<not> shell_forced_prompt cfg access
          then respond cfg a access Allow True ReasonYolo
          else case early_grant cfg a access of
            Some (d, rsn) \<Rightarrow> respond cfg a access d True rsn
          | None \<Rightarrow>
              (case run_auto_stage cfg env a access of
                 AutoAllowed rsn \<Rightarrow> respond cfg a access Allow True rsn
               | AutoGone \<Rightarrow> requester_gone cfg a access
               | AutoPass forced rsn \<Rightarrow> after_auto cfg env a access forced rsn)"
    have res: "res = ?rest"
      using False open_ assms by (auto simp: handle_request_def split: option.splits decision.splits)
    have stage_gone: "closed_in_classify env" if "run_auto_stage cfg env a access = AutoGone"
      using that by (auto simp: run_auto_stage_def classify_request_def Let_def
          split: if_splits auto_fast_path.splits option.splits classifier_verdict.splits)
    show ?thesis
    proof (cases "yolo_mode a \<and> \<not> shell_forced_prompt cfg access")
      case True
      with res False yolo show ?thesis by simp
    next
      case no_yolo: False
      show ?thesis
      proof (cases "early_grant cfg a access")
        case (Some p)
        with res no_yolo False early [of "fst p" "snd p"] show ?thesis
          by (cases p) (simp del: de_Morgan_conj)
      next
        case None
        with res no_yolo have "res = (case run_auto_stage cfg env a access of
                 AutoAllowed rsn \<Rightarrow> respond cfg a access Allow True rsn
               | AutoGone \<Rightarrow> requester_gone cfg a access
               | AutoPass forced rsn \<Rightarrow> after_auto cfg env a access forced rsn)"
          by (simp del: de_Morgan_conj)
        with None no_yolo False open_ stage_gone gone auto passed show ?thesis
          by (cases "run_auto_stage cfg env a access") auto
      qed
    qed
  qed
qed


subsection \<open>Why a request may be answered without the user\<close>

text \<open>A standing approval of the user covers the access.\<close>

fun user_granted :: "actor_config \<Rightarrow> actor \<Rightarrow> access_kind \<Rightarrow> bool" where
  "user_granted cfg a (AccessMCPTool name _) =
     (name \<in> set (allowed_mcp_tools (perm_state a))
      \<or> mcp_server_prefix_allowed name (allowed_mcp_servers (perm_state a)))"
| "user_granted cfg a (AccessEdit _) = allow_edits_for_session a"
| "user_granted cfg a (AccessWebFetch u) =
     (\<exists>parsed h. url_parse (cfg_world cfg) u = Some parsed \<and> host_str parsed = Some h
        \<and> normalize_domain h \<in> set (allowed_web_fetch_domains (perm_state a)))"
| "user_granted cfg a (AccessBash cmd) =
     ((\<exists>honor. evaluate_bash_segments_inner (cfg_world cfg) cmd (perm_state a) honor = AutoAllow True)
      \<or> persisted_bash_auto_allows (perm_state a) cmd (cfg_pin cfg))"
| "user_granted cfg a _ = False"

text \<open>What each reason of an automatic approval claims about the request and the actor.\<close>

fun reason_holds :: "actor_config \<Rightarrow> request_env \<Rightarrow> actor \<Rightarrow> access_kind \<Rightarrow> reason \<Rightarrow> bool" where
  "reason_holds cfg env a access ReasonYolo = (yolo_mode a \<and> \<not> shell_forced_prompt cfg access)"
| "reason_holds cfg env a access ReasonPolicyAllow = (policy_decision cfg access = Some Allow)"
| "reason_holds cfg env a access ReasonSandboxAuto =
     (is_bash access \<and> sandbox_auto_bash env \<and> \<not> policy_forced_prompt cfg access)"
| "reason_holds cfg env a access ReasonAutoFastPath =
     (auto_mode a \<and> \<not> policy_forced_prompt cfg access
      \<and> auto_mode_fast_path access (tool_name_for_access access)
          (access_requires_user_interaction (tool_name_for_access access) access) = FastAllow)"
| "reason_holds cfg env a access ReasonAutoClassifierAllow =
     (auto_mode a \<and> \<not> policy_forced_prompt cfg access
      \<and> classify_request cfg env a access = Some VAllow)"
| "reason_holds cfg env a access ReasonStaticAllowlist =
     (\<exists>u parsed. access = AccessWebFetch u \<and> url_parse (cfg_world cfg) u = Some parsed
        \<and> check (cfg_domains cfg) parsed = None)"
| "reason_holds cfg env a access ReasonSessionGrant = user_granted cfg a access"
| "reason_holds cfg env a access ReasonPersistedGrant = user_granted cfg a access"
| "reason_holds cfg env a access ReasonSafeCommand =
     (is_read access \<or> is_grep access \<or> is_web_search access
      \<or> (\<exists>cmd honor. access = AccessBash cmd
           \<and> evaluate_bash_segments_inner (cfg_world cfg) cmd (perm_state a) honor = AutoAllow False))"
| "reason_holds cfg env a access _ = False"

lemma bash_grant_holds:
  assumes "bash_grant_pre_decision (cfg_world cfg) cmd (perm_state a) (cfg_pin cfg) opts = Some (Allow, rsn)"
  shows "reason_holds cfg env a (AccessBash cmd) rsn"
proof -
  let ?eval = "evaluate_bash_segments_inner (cfg_world cfg) cmd (perm_state a) (honor_safe_lists opts)"
  have "bash_grant_pre_decision (cfg_world cfg) cmd (perm_state a) (cfg_pin cfg) opts =
      (case ?eval of
           SegReject rsn \<Rightarrow> Some (Reject rsn, ReasonSessionDeny)
         | AutoAllow via \<Rightarrow> grant_allow (if via then ReasonSessionGrant else ReasonSafeCommand)
         | NeedsPrompts _ any_dangerous \<Rightarrow>
             if \<not> allow_blanket opts then None
             else if any_dangerous \<and> conservative_blanket opts then None
             else if persisted_bash_auto_allows (perm_state a) cmd (cfg_pin cfg) then grant_allow ReasonSessionGrant
             else None
         | Unparseable \<Rightarrow>
             if \<not> allow_blanket opts then None
             else (let allowed = (if conservative_blanket opts then cmd \<in> set (allowed_bash_commands (perm_state a))
                                  else persisted_bash_auto_allows (perm_state a) cmd (cfg_pin cfg))
                   in if allowed then grant_allow ReasonSessionGrant else None))"
    by (simp add: bash_grant_pre_decision_def evaluate_bash_segments_def)
  with assms show ?thesis
    by (cases ?eval)
      (auto simp: grant_allow_def persisted_bash_auto_allows_def Let_def split: if_splits)
qed

lemma bash_grant_explicit:
  "bash_grant_pre_decision w cmd st pin ask_floor_remember = Some (Allow, rsn) \<Longrightarrow>
   \<exists>via. evaluate_bash_segments_inner w cmd st False = AutoAllow via"
  by (auto simp: bash_grant_pre_decision_def ask_floor_remember_def Let_def
      split: segment_evaluation.splits)

lemma mcp_grant_holds:
  "mcp_pre_decision name (perm_state a) forced remember = Some d \<Longrightarrow>
   d = Allow \<and> user_granted cfg a (AccessMCPTool name input) \<and> (forced \<longrightarrow> remember)"
  by (auto simp: mcp_pre_decision_def split: if_splits)

lemma early_grant_unforced:
  "early_grant cfg a access = Some p \<Longrightarrow>
   \<not> policy_forced_prompt cfg access \<and> \<not> shell_forced_prompt cfg access"
  by (simp add: early_grant_def split: if_splits)

lemma early_grant_holds:
  assumes "early_grant cfg a access = Some (Allow, rsn)"
  shows "reason_holds cfg env a access rsn"
proof -
  have grant: "session_grant_pre_decision (cfg_world cfg) access (perm_state a)
      (allow_edits_for_session a) (cfg_domains cfg) (cfg_pin cfg) = Some (Allow, rsn)"
    using assms by (simp add: early_grant_def split: if_splits)
  show ?thesis
  proof (cases access)
    case (AccessWebFetch u)
    with grant show ?thesis
      by (auto simp: session_grant_pre_decision_def grant_allow_def split: option.splits if_splits)
  next
    case (AccessBash cmd)
    with grant have "bash_grant_pre_decision (cfg_world cfg) cmd (perm_state a) (cfg_pin cfg)
        pre_classifier = Some (Allow, rsn)" by (simp add: session_grant_pre_decision_def)
    with AccessBash bash_grant_holds show ?thesis by blast
  next
    case (AccessMCPTool name input)
    with grant have "mcp_pre_decision name (perm_state a) False False = Some Allow" "rsn = ReasonSessionGrant"
      by (auto simp: session_grant_pre_decision_def)
    from mcp_grant_holds [OF this(1)] this(2) AccessMCPTool show ?thesis
      by (simp only: reason_holds.simps)
  qed (use grant in \<open>auto simp: session_grant_pre_decision_def grant_allow_def split: if_splits\<close>)
qed

lemma late_holds:
  assumes "late_pre_decision cfg a access forced = Some (Allow, rsn)"
  shows "reason_holds cfg env a access rsn"
proof (cases access)
  case (AccessWebFetch u)
  with assms show ?thesis
    by (auto simp: late_pre_decision_def split: option.splits if_splits)
next
  case (AccessBash cmd)
  with assms have "\<exists>opts. bash_grant_pre_decision (cfg_world cfg) cmd (perm_state a) (cfg_pin cfg) opts
      = Some (Allow, rsn)"
    by (auto simp: late_pre_decision_def Let_def split: if_splits)
  with AccessBash bash_grant_holds show ?thesis by blast
next
  case (AccessMCPTool name input)
  with assms have "mcp_pre_decision name (perm_state a) (policy_forced_prompt cfg access) (cfg_remember cfg) = Some Allow"
    "rsn = ReasonPersistedGrant"
    by (auto simp: late_pre_decision_def Let_def)
  from mcp_grant_holds [OF this(1)] this(2) AccessMCPTool show ?thesis
    by (simp only: reason_holds.simps)
next
  case (AccessEdit f)
  with assms show ?thesis
    by (auto simp: late_pre_decision_def Let_def split: if_splits edit_policy.splits)
qed (use assms in \<open>auto simp: late_pre_decision_def Let_def split: if_splits\<close>)

lemma auto_stage_holds:
  "run_auto_stage cfg env a access = AutoAllowed rsn \<Longrightarrow> reason_holds cfg env a access rsn"
  by (auto simp: run_auto_stage_def Let_def
      split: if_splits auto_fast_path.splits option.splits classifier_verdict.splits)


lemma respond_simps:
  "respond cfg a access d auto rsn = (a', ev, resp) \<longleftrightarrow>
     a' = a \<and> ev = emit_event cfg a access d auto False None rsn \<and> resp = Some d"
  "(a', ev, resp) = respond cfg a access d auto rsn \<longleftrightarrow>
     a' = a \<and> ev = emit_event cfg a access d auto False None rsn \<and> resp = Some d"
  by (auto simp: respond_def)

lemma requester_gone_simps:
  "requester_gone cfg a access = (a', ev, resp) \<longleftrightarrow>
     a' = a \<and> ev = emit_event cfg a access Cancelled False False None ReasonRequesterGone
     \<and> resp = None"
  "(a', ev, resp) = requester_gone cfg a access \<longleftrightarrow>
     a' = a \<and> ev = emit_event cfg a access Cancelled False False None ReasonRequesterGone
     \<and> resp = None"
  by (auto simp: requester_gone_def)

lemma emit_event_simps [simp]:
  "ev_user_prompted (emit_event cfg a access d auto prompted out rsn) = prompted"
  "ev_auto_approved (emit_event cfg a access d auto prompted out rsn) = auto"
  "ev_reason (emit_event cfg a access d auto prompted out rsn) = rsn"
  "ev_decision (emit_event cfg a access d auto prompted out rsn) = fst (decision_words d)"
  "ev_mode (emit_event cfg a access d auto prompted out rsn) = effective_mode a"
  by (simp_all add: emit_event_def)

lemma prompt_user_prompted:
  "(a', ev, resp) = prompt_user cfg env a access rsn \<Longrightarrow> ev_user_prompted ev \<and> resp \<noteq> None"
  by (auto simp: prompt_user_def Let_def split: prod.splits)

lemmas result_simps = respond_simps requester_gone_simps

lemma neutralize_Some: "neutralize forced access pre = Some p \<Longrightarrow> pre = Some p"
  by (simp add: neutralize_def split: if_splits)

lemma filter_not_ask:
  "filter_option (\<lambda>d. d \<noteq> Ask) d = None \<longleftrightarrow> d = None \<or> d = Some Ask"
  by (auto simp: filter_option_def split: option.splits)

text \<open>The ways of a request that is allowed although nobody was prompted.\<close>

lemma silent_allow_cases:
  assumes "handle_request cfg env a access = (a', ev, Some Allow)" "\<not> ev_user_prompted ev"
  obtains (yolo) "yolo_mode a" "\<not> shell_forced_prompt cfg access" "ev_reason ev = ReasonYolo"
    | (early) "early_grant cfg a access = Some (Allow, ev_reason ev)"
    | (auto) "run_auto_stage cfg env a access = AutoAllowed (ev_reason ev)"
    | (sandbox) "is_bash access" "sandbox_auto_bash env" "\<not> policy_forced_prompt cfg access"
        "ev_reason ev = ReasonSandboxAuto"
    | (policy) "policy_decision cfg access = Some Allow" "ev_reason ev = ReasonPolicyAllow"
    | (late) forced rsn where "run_auto_stage cfg env a access = AutoPass forced rsn"
        "late_pre_decision cfg a access forced = Some (Allow, ev_reason ev)"
  using assms(1)
proof (cases rule: handle_request_cases)
  case (passed forced rsn)
  from passed(6) show ?thesis
  proof (cases rule: after_auto_cases)
    case (late d rsn')
    with passed(5) show ?thesis
      using that(6) by (auto simp: respond_simps dest: neutralize_Some)
  next
    case prompted
    with assms(2) prompt_user_prompted show ?thesis by metis
  qed (use that(4,5) in \<open>auto simp: result_simps prompt_policy_denied_def\<close>)
qed (use that(1,2,3) in \<open>auto simp: result_simps\<close>)

lemma unprompted_keeps_state:
  assumes "handle_request cfg env a access = (a', ev, resp)" "\<not> ev_user_prompted ev"
  shows "a' = a"
  using assms(1)
proof (cases rule: handle_request_cases)
  case (passed forced rsn)
  from passed(6) show ?thesis
    by (cases rule: after_auto_cases)
      (use assms(2) in \<open>auto simp: result_simps dest: prompt_user_prompted\<close>)
qed (auto simp: result_simps)

lemma allow_not_denied:
  assumes "handle_request cfg env a access = (a', ev, Some Allow)"
  shows "\<not> denied cfg access"
  using assms by (cases rule: handle_request_cases) (auto simp: result_simps)

lemma unprompted_allow_marked:
  assumes "handle_request cfg env a access = (a', ev, Some Allow)" "\<not> ev_user_prompted ev"
  shows "ev_auto_approved ev \<and> ev_decision ev = ''allow''"
  using assms(1)
proof (cases rule: handle_request_cases)
  case (passed forced rsn)
  from passed(6) show ?thesis
    by (cases rule: after_auto_cases)
      (use assms(2) in \<open>auto simp: result_simps prompt_policy_denied_def dest: prompt_user_prompted\<close>)
qed (auto simp: result_simps)


subsection \<open>Deny\<close>

lemma opinion_direct: "policy_opinion (direct_decision cfg access)"
  by (cases "cfg_policy cfg")
    (simp_all add: direct_decision_def policy_opinion_evaluate, simp add: policy_opinion_def)

lemma policy_decision_bash:
  "cfg_policy cfg = Some p \<Longrightarrow>
   policy_decision cfg (AccessBash cmd) = combine_decisions
     (combine_decisions (evaluate (cfg_world cfg) p (AccessBash cmd))
        (evaluate_bash_command_policy (cfg_world cfg) p cmd))
     (evaluate_shell_file_access (cfg_world cfg) p (cfg_cwd cfg) cmd)"
  by (simp add: policy_decision_def direct_decision_def shell_command_decision_def
      shell_file_decision_def)

lemma policy_decision_other:
  "\<not> is_bash access \<or> cfg_policy cfg = None \<Longrightarrow> policy_decision cfg access = direct_decision cfg access"
  by (cases access)
    (auto simp: policy_decision_def direct_decision_def shell_command_decision_def
      shell_file_decision_def split: option.splits)

lemma denied_bash_iff:
  assumes "cfg_policy cfg = Some p"
  shows "denied cfg (AccessBash cmd) \<longleftrightarrow>
     (\<exists>r. evaluate (cfg_world cfg) p (AccessBash cmd) = Some (Reject r))
     \<or> (\<exists>r. evaluate_bash_command_policy (cfg_world cfg) p cmd = Some (Reject r))
     \<or> (\<exists>r. evaluate_shell_file_access (cfg_world cfg) p (cfg_cwd cfg) cmd = Some (Reject r))"
  unfolding policy_decision_bash [OF assms]
    file_gate.gate_refuses [OF bash_gate.opinion_through_gate [OF policy_opinion_evaluate]]
    bash_gate.gate_refuses [OF policy_opinion_evaluate]
  by (rule disj_assoc)

text \<open>What the rules of a configuration deny, for a request as a whole.\<close>

definition rules_deny :: "world \<Rightarrow> permission_config \<Rightarrow> str \<Rightarrow> access_kind \<Rightarrow> bool" where
  "rules_deny w pc cwd access =
     (config_has w pc access RuleDeny
      \<or> (\<exists>cmd n words. access = AccessBash cmd \<and> n < 8 \<and> runs w cmd n words
           \<and> config_has w pc (AccessBash (join_words words)) RuleDeny)
      \<or> (\<exists>cmd t token mode f. access = AccessBash cmd \<and> parse_shell w cmd = Some t
           \<and> (token, mode) \<in> set (script_accesses (root_node t) cmd)
           \<and> f \<in> set (operand_paths w cwd token)
           \<and> config_has w pc (shell_access mode f) RuleDeny))"

lemma rules_deny_nested:
  "n < 8 \<Longrightarrow> runs w cmd n words \<Longrightarrow> config_has w pc (AccessBash (join_words words)) RuleDeny \<Longrightarrow>
   rules_deny w pc cwd (AccessBash cmd)"
  unfolding rules_deny_def by blast

lemma rules_deny_denied:
  assumes policy: "cfg_policy cfg = Some (policy_new (cfg_world cfg) pc)"
    and "rules_deny (cfg_world cfg) pc (cfg_cwd cfg) access"
  shows "denied cfg access"
  using assms(2) unfolding rules_deny_def
proof (elim disjE exE conjE)
  assume "config_has (cfg_world cfg) pc access RuleDeny"
  then have d: "\<exists>r. evaluate (cfg_world cfg) (policy_new (cfg_world cfg) pc) access = Some (Reject r)"
    using evaluate_Reject_iff by blast
  show ?thesis
  proof (cases "is_bash access")
    case True
    then obtain cmd where "access = AccessBash cmd" by (cases access) auto
    with d denied_bash_iff [OF policy] show ?thesis by blast
  next
    case False
    with d policy policy_decision_other show ?thesis by (auto simp: direct_decision_def)
  qed
next
  fix cmd n words
  assume "access = AccessBash cmd" "n < 8" "runs (cfg_world cfg) cmd n words"
    "config_has (cfg_world cfg) pc (AccessBash (join_words words)) RuleDeny"
  then show ?thesis
    using denied_command_rejected denied_bash_iff [OF policy] by metis
next
  fix cmd t token mode f
  assume acc: "access = AccessBash cmd" and t: "parse_shell (cfg_world cfg) cmd = Some t"
    and "(token, mode) \<in> set (script_accesses (root_node t) cmd)"
    "f \<in> set (operand_paths (cfg_world cfg) (cfg_cwd cfg) token)"
    "config_has (cfg_world cfg) pc (shell_access mode f) RuleDeny"
  then have "\<exists>r. evaluate_shell_file_access (cfg_world cfg) (policy_new (cfg_world cfg) pc)
      (cfg_cwd cfg) cmd = Some (Reject r)"
    unfolding parsed_gate_rejects [OF t] by blast
  with acc denied_bash_iff [OF policy] show ?thesis by blast
qed

lemma denied_answer:
  assumes "denied cfg access" "handle_request cfg env a access = (a', ev, resp)"
  shows "a' = a \<and> \<not> ev_user_prompted ev
    \<and> (if closed_at_dequeue env then resp = None else \<exists>r. resp = Some (PolicyDeny r))"
  using assms
  by (auto simp: handle_request_def result_simps split: if_splits)

text \<open>
  C1. A managed deny is final in every mode.  If a deny rule matches the access, or a command the
  script runs at one of the eight nesting levels, or a file it reads or writes under one of its
  spellings, then whatever the mode, the grants, the classifier, the sandbox and the user's answer,
  the requester (unless it is gone) is told that the policy denied the request, nobody is prompted
  and the actor keeps its state.
\<close>

theorem deny_rules_are_final:
  assumes "cfg_policy cfg = Some (policy_new (cfg_world cfg) pc)"
    and "rules_deny (cfg_world cfg) pc (cfg_cwd cfg) access"
    and "handle_request cfg env a access = (a', ev, resp)"
  shows "a' = a \<and> \<not> ev_user_prompted ev
    \<and> (if closed_at_dequeue env then resp = None else \<exists>r. resp = Some (PolicyDeny r))"
  by (rule denied_answer [OF rules_deny_denied [OF assms(1,2)] assms(3)])

definition example_cfg :: "permission_config \<Rightarrow> actor_config" where
  "example_cfg pc = config_of example_world ''/work'' (Some pc) [''docs.rs''] None True GrokTUI"

definition example_env :: request_env where
  "example_env =
     \<lparr>closed_at_dequeue = False, closed_in_classify = False, sandbox_auto_bash = True,
      closed_before_prompt = False, prompt_reply = Some (ViaGateway GatewayCancelled),
      closed_at_end = False\<rparr>"

definition example_actor :: "permission_config \<Rightarrow> actor" where
  "example_actor pc = spawn_actor (example_cfg pc) (Some pc) True example_state"

definition deny_rm_config :: permission_config where
  "deny_rm_config = new_config
     [\<lparr>action = RuleDeny, tool = ToolBash, pattern = Some ''rm y'', pattern_mode = Glob\<rparr>]"


lemma deny_rules_are_final_witness:
  "\<exists>r. snd (snd (handle_request (example_cfg deny_rm_config) example_env
      (example_actor deny_rm_config) (AccessBash ''ls x;timeout 5 rm y''))) = Some (PolicyDeny r)"
proof -
  let ?cmd = "''ls x;timeout 5 rm y''"
  obtain a' ev resp where res: "handle_request (example_cfg deny_rm_config) example_env
      (example_actor deny_rm_config) (AccessBash ?cmd) = (a', ev, resp)" by (rule prod_cases3)
  have cfg: "cfg_world (example_cfg deny_rm_config) = example_world"
    "cfg_policy (example_cfg deny_rm_config) = Some (policy_new example_world deny_rm_config)"
    by (simp_all add: example_cfg_def config_of_def)
  have "is_some_and (\<lambda>cs. [''rm'', ''y''] \<in> set (script_forms cs))
      (all_commands_from_script example_world ?cmd)" by code_simp
  then obtain cs where "all_commands_from_script example_world ?cmd = Some cs"
    "[''rm'', ''y''] \<in> set (script_forms cs)" by (auto simp: is_some_and_iff)
  from runs.here [OF this] have "runs example_world ?cmd 0 [''rm'', ''y'']" .
  moreover have "config_has example_world deny_rm_config (AccessBash (join_words [''rm'', ''y''])) RuleDeny"
    by code_simp
  ultimately have "rules_deny example_world deny_rm_config (cfg_cwd (example_cfg deny_rm_config)) (AccessBash ?cmd)"
    by (rule rules_deny_nested [rotated]) simp
  then have deny: "rules_deny (cfg_world (example_cfg deny_rm_config)) deny_rm_config
      (cfg_cwd (example_cfg deny_rm_config)) (AccessBash ?cmd)" unfolding cfg(1) .
  have pol: "cfg_policy (example_cfg deny_rm_config)
      = Some (policy_new (cfg_world (example_cfg deny_rm_config)) deny_rm_config)" unfolding cfg ..
  have "\<not> closed_at_dequeue example_env" by (simp add: example_env_def)
  with deny_rules_are_final [OF pol deny res] have "\<exists>r. resp = Some (PolicyDeny r)" by presburger
  then show ?thesis unfolding res snd_conv .
qed

subsection \<open>Ask\<close>

lemma forced_blocks_early:
  "policy_decision cfg access = Some Ask \<Longrightarrow> early_grant cfg a access = None"
  by (simp add: early_grant_def policy_forced_prompt_def)

lemma forced_blocks_auto:
  "policy_decision cfg access = Some Ask \<Longrightarrow> run_auto_stage cfg env a access = AutoPass False None"
  by (simp add: run_auto_stage_def policy_forced_prompt_def)


definition ask_config :: "tool_filter \<Rightarrow> str \<Rightarrow> permission_config" where
  "ask_config t pat = new_config [\<lparr>action = RuleAsk, tool = t, pattern = Some pat, pattern_mode = Glob\<rparr>]"

definition ask_npm :: permission_config where
  "ask_npm = ask_config ToolBash ''npm test''"



text \<open>
  A script that touches a file the policy wants to be asked about always reaches the user.  If
  the file gate answers "ask" for a bash script, then no mode (always-approve, auto), grant,
  sandbox setting or remembered answer allows it: an allow was given at a prompt.
\<close>

lemma file_ask_always_prompts:
  assumes "shell_file_decision cfg access = Some Ask"
    and "handle_request cfg env a access = (a', ev, Some Allow)"
  shows "ev_user_prompted ev"
proof (rule ccontr)
  assume quiet: "\<not> ev_user_prompted ev"
  obtain cmd p where cmd: "access = AccessBash cmd" and p: "cfg_policy cfg = Some p"
    and gate: "evaluate_shell_file_access (cfg_world cfg) p (cfg_cwd cfg) cmd = Some Ask"
    using assms(1) by (auto simp: shell_file_decision_def split: option.splits access_kind.splits)
  have "policy_opinion (combine_decisions (evaluate (cfg_world cfg) p (AccessBash cmd))
      (evaluate_bash_command_policy (cfg_world cfg) p cmd))"
    by (rule bash_gate.opinion_through_gate [OF policy_opinion_evaluate])
  from file_gate.gate_asks [OF this gate] have "policy_decision cfg access = Some Ask"
    using allow_not_denied [OF assms(2)] policy_decision_bash [OF p, of cmd] cmd by auto
  moreover have "shell_file_forced_prompt cfg access" "shell_forced_prompt cfg access"
    using assms(1) by (simp_all add: shell_forced_prompt_def shell_file_forced_prompt_def)
  ultimately show False
    using silent_allow_cases [OF assms(2) quiet] cmd
    by (cases rule: silent_allow_cases [OF assms(2) quiet])
      (auto simp: forced_blocks_early forced_blocks_auto late_pre_decision_def Let_def
        policy_forced_prompt_def)
qed

definition ask_read :: permission_config where
  "ask_read = ask_config ToolRead ''/work/k''"

lemma file_ask_always_prompts_example:
  "let env = example_env\<lparr>prompt_reply := Some (ViaHub (Inr (JObj [(''outcome'', JStr ''approve'')])))\<rparr>;
       r = handle_request (example_cfg ask_read) env (example_actor ask_read) (AccessBash ''cat k'')
   in yolo_mode (example_actor ask_read) \<and> snd (snd r) = Some Allow \<and> ev_user_prompted (fst (snd r))"
proof -
  let ?env = "example_env\<lparr>prompt_reply := Some (ViaHub (Inr (JObj [(''outcome'', JStr ''approve'')])))\<rparr>"
  let ?r = "handle_request (example_cfg ask_read) ?env (example_actor ask_read) (AccessBash ''cat k'')"
  have "shell_file_decision (example_cfg ask_read) (AccessBash ''cat k'') = Some Ask" by code_simp
  moreover have ok: "yolo_mode (example_actor ask_read)" "snd (snd ?r) = Some Allow" by code_simp+
  moreover have "?r = (fst ?r, fst (snd ?r), Some Allow)" using ok(2) by (metis prod.collapse)
  ultimately have "ev_user_prompted (fst (snd ?r))" using file_ask_always_prompts by blast
  with ok show ?thesis by (simp only: Let_def)
qed

text \<open>
  Web searches escape ask rules: whatever the policy says short of a deny, a web search is
  allowed at once and nobody is prompted, in every mode, an ask rule for it included.
\<close>

lemma web_search_ask_is_ignored:
  assumes "policy_decision cfg (AccessWebSearch q) = Some Ask" "\<not> closed_at_dequeue env"
  shows "(\<exists>ev. handle_request cfg env a (AccessWebSearch q) = (a, ev, Some Allow) \<and> \<not> ev_user_prompted ev)"
proof -
  have "neutralize False (AccessWebSearch q) (late_pre_decision cfg a (AccessWebSearch q) False)
      = Some (Allow, ReasonSafeCommand)"
    by (simp add: neutralize_def late_pre_decision_def Let_def)
  with assms forced_blocks_early [OF assms(1)] forced_blocks_auto [OF assms(1)] show ?thesis
    by (auto simp: handle_request_def after_auto_def result_simps filter_option_def)
qed

definition ask_search :: permission_config where
  "ask_search = ask_config ToolWebSearch ''q''"

lemma web_search_ask_is_ignored_example:
  "\<exists>ev. handle_request (example_cfg ask_search) example_env (example_actor ask_search) (AccessWebSearch ''q'')
      = (example_actor ask_search, ev, Some Allow) \<and> \<not> ev_user_prompted ev"
proof -
  have "policy_decision (example_cfg ask_search) (AccessWebSearch ''q'') = Some Ask" by code_simp
  moreover have "\<not> closed_at_dequeue example_env" by (simp add: example_env_def)
  ultimately show ?thesis by (rule web_search_ask_is_ignored)
qed

subsection \<open>The audit trail\<close>

text \<open>
  C3. Every approval that nobody was asked about names a reason that holds.  The event of such a
  request says "allow" and "auto approved", the actor is unchanged, the policy does not deny the
  request, and the reason recorded is true of it: always-approve mode is on and no shell gate asked;
  the policy allows it; the sandbox setting covers the bash command; the fast path or the classifier
  of auto mode allowed it; its domain is on the static list; the user granted it; or it is a
  built-in safe request.
\<close>

theorem silent_allow_is_accounted_for:
  assumes "handle_request cfg env a access = (a', ev, Some Allow)" "\<not> ev_user_prompted ev"
  shows "reason_holds cfg env a access (ev_reason ev) \<and> a' = a \<and> \<not> denied cfg access
    \<and> ev_auto_approved ev \<and> ev_decision ev = ''allow''"
proof -
  have "reason_holds cfg env a access (ev_reason ev)"
    using assms
    by (cases rule: silent_allow_cases) (auto intro: early_grant_holds late_holds auto_stage_holds)
  with unprompted_keeps_state [OF assms] allow_not_denied [OF assms(1)] unprompted_allow_marked [OF assms]
  show ?thesis by blast
qed

lemma silent_allow_is_accounted_for_witness:
  "\<exists>ev. handle_request (example_cfg ask_npm) example_env (example_actor ask_npm) (AccessEdit ''f'')
      = (example_actor ask_npm, ev, Some Allow) \<and> yolo_mode (example_actor ask_npm)"
proof -
  let ?r = "handle_request (example_cfg ask_npm) example_env (example_actor ask_npm) (AccessEdit ''f'')"
  have ok: "snd (snd ?r) = Some Allow \<and> \<not> ev_user_prompted (fst (snd ?r))
      \<and> ev_reason (fst (snd ?r)) = ReasonYolo" by code_simp
  then have r: "?r = (fst ?r, fst (snd ?r), Some Allow)" by (metis prod.collapse)
  from silent_allow_is_accounted_for [OF this] ok
  have "reason_holds (example_cfg ask_npm) example_env (example_actor ask_npm) (AccessEdit ''f'') ReasonYolo
      \<and> fst ?r = example_actor ask_npm" by auto
  with r show ?thesis by (metis reason_holds.simps(1))
qed


subsection \<open>Every request ends\<close>

lemma bash_grant_decides: "bash_grant_pre_decision w cmd st pin opts \<noteq> Some (Ask, rsn)"
  by (auto simp: bash_grant_pre_decision_def grant_allow_def Let_def
      split: segment_evaluation.splits if_splits)

lemma session_grant_decides: "session_grant_pre_decision w access st e dm pin \<noteq> Some (Ask, rsn)"
  by (auto simp: session_grant_pre_decision_def grant_allow_def mcp_pre_decision_def
      bash_grant_decides split: access_kind.splits option.splits if_splits)

lemmas grant_decisions = bash_grant_decides session_grant_decides

lemma late_decides: "late_pre_decision cfg a access forced = Some (d, rsn) \<Longrightarrow> d \<noteq> Ask"
  by (auto simp: late_pre_decision_def mcp_pre_decision_def Let_def
      grant_decisions split: access_kind.splits option.splits if_splits edit_policy.splits)

lemma outcome_decides: "apply_outcome access out a = (a', d, s) \<Longrightarrow> d \<noteq> Ask"
  by (cases access; cases out) (auto simp: apply_outcome_def user_rejected_def)

lemma prompt_user_decides: "(a', ev, resp) = prompt_user cfg env a access rsn \<Longrightarrow> resp \<noteq> Some Ask"
  by (auto simp: prompt_user_def Let_def dest: outcome_decides split: prod.splits)

text \<open>
  Every request gets exactly one definite answer: unless its requester has gone away, it is
  answered, and the answer is never "ask"; when the requester is gone the event says so and
  nothing changes.
\<close>

lemma every_request_is_answered:
  assumes "handle_request cfg env a access = (a', ev, resp)"
  shows "resp \<noteq> Some Ask
    \<and> (resp = None \<longrightarrow> (closed_at_dequeue env \<or> closed_in_classify env \<or> closed_before_prompt env)
         \<and> a' = a \<and> ev_reason ev = ReasonRequesterGone \<and> ev_decision ev = ''cancelled'')"
  using assms
proof (cases rule: handle_request_cases)
  case (early d rsn)
  then have "d \<noteq> Ask" by (auto simp: early_grant_def grant_decisions split: if_splits)
  with early show ?thesis by (simp add: result_simps)
next
  case (passed forced rsn)
  from passed(6) show ?thesis
  proof (cases rule: after_auto_cases)
    case (late d rsn')
    then show ?thesis by (auto simp: result_simps dest: neutralize_Some late_decides)
  next
    case prompted
    then show ?thesis using prompt_user_prompted prompt_user_decides by blast
  qed (auto simp: result_simps prompt_policy_denied_def)
qed (auto simp: result_simps)

lemma every_request_is_answered_example:
  "\<exists>d. snd (snd (handle_request (example_cfg ask_npm) example_env (example_actor ask_npm)
     (AccessBash ''make''))) = Some d \<and> d \<noteq> Ask"
proof -
  obtain a' ev resp where res: "handle_request (example_cfg ask_npm) example_env
      (example_actor ask_npm) (AccessBash ''make'') = (a', ev, resp)" by (rule prod_cases3)
  have "\<not> (closed_at_dequeue example_env \<or> closed_in_classify example_env \<or> closed_before_prompt example_env)"
    by (simp add: example_env_def)
  with every_request_is_answered [OF res] res show ?thesis by (cases resp) auto
qed

text \<open>
  Under the prompt policy "deny" nobody is ever prompted, and a request that nothing
  pre-approves is denied by policy.
\<close>

lemma deny_prompt_policy_never_prompts:
  assumes "cfg_prompt_policy cfg = PromptDeny" "handle_request cfg env a access = (a', ev, resp)"
  shows "\<not> ev_user_prompted ev \<and> a' = a
    \<and> (resp = Some Allow \<longrightarrow> reason_holds cfg env a access (ev_reason ev))"
proof -
  have quiet: "\<not> ev_user_prompted ev"
    using assms(2)
  proof (cases rule: handle_request_cases)
    case (passed forced rsn)
    from passed(6) show ?thesis
      by (cases rule: after_auto_cases) (use assms(1) in \<open>auto simp: result_simps\<close>)
  qed (auto simp: result_simps)
  moreover have "reason_holds cfg env a access (ev_reason ev)" if "resp = Some Allow"
    using assms(2) quiet unfolding that
    by (cases rule: silent_allow_cases) (auto intro: early_grant_holds late_holds auto_stage_holds)
  ultimately show ?thesis using unprompted_keeps_state [OF assms(2)] by blast
qed

definition dont_ask_config :: permission_config where
  "dont_ask_config = (new_config [])\<lparr>prompt_policy := PromptDeny\<rparr>"

lemma deny_prompt_policy_never_prompts_example:
  "let r = handle_request (example_cfg dont_ask_config) example_env
      ((example_actor dont_ask_config)\<lparr>yolo_mode := False\<rparr>) (AccessEdit ''f'')
   in snd (snd r) = Some prompt_policy_denied \<and> \<not> ev_user_prompted (fst (snd r))"
proof -
  let ?a = "(example_actor dont_ask_config)\<lparr>yolo_mode := False\<rparr>"
  obtain a' ev resp where res: "handle_request (example_cfg dont_ask_config) example_env
      ?a (AccessEdit ''f'') = (a', ev, resp)" by (rule prod_cases3)
  have "cfg_prompt_policy (example_cfg dont_ask_config) = PromptDeny" by code_simp
  from deny_prompt_policy_never_prompts [OF this res] have "\<not> ev_user_prompted ev" by blast
  moreover have "snd (snd (handle_request (example_cfg dont_ask_config) example_env
      ?a (AccessEdit ''f''))) = Some prompt_policy_denied" by code_simp
  ultimately show ?thesis by (simp add: res Let_def)
qed


subsection \<open>What an answer may change\<close>

text \<open>The grants of an actor after a request, compared with those before.\<close>

definition grants_within :: "access_kind \<Rightarrow> permission_state \<Rightarrow> permission_state \<Rightarrow> bool" where
  "grants_within access old new =
     (edit_policy new = edit_policy old \<and> allow_bash_execute new = allow_bash_execute old
      \<and> set (allowed_mcp_tools new)
          \<subseteq> set (allowed_mcp_tools old) \<union> (case access of AccessMCPTool name _ \<Rightarrow> {name} | _ \<Rightarrow> {})
      \<and> set (allowed_mcp_servers new)
          \<subseteq> set (allowed_mcp_servers old)
            \<union> (case access of AccessMCPTool name _ \<Rightarrow> set_option (canonical_server name) | _ \<Rightarrow> {})
      \<and> (is_bash access \<or> allowed_bash_commands new = allowed_bash_commands old
           \<and> disallowed_bash_commands new = disallowed_bash_commands old)
      \<and> (is_web_fetch access \<or> allowed_web_fetch_domains new = allowed_web_fetch_domains old))"

lemma grants_within_refl [simp]: "grants_within access st st"
  by (simp add: grants_within_def)

text \<open>The parts of the actor that no request touches.\<close>

definition modes :: "actor \<Rightarrow> bool \<times> bool" where
  "modes a = (yolo_mode a, auto_mode a)"

definition in_sync :: "actor \<Rightarrow> bool" where
  "in_sync a = (persisted a = Some (perm_state a))"

lemmas outcome_defs =
  persist_def update_state_def grant_mcp_tool_def modes_def in_sync_def grants_within_def

lemma apply_outcome_frame:
  assumes "apply_outcome access out a = (a', d, s)"
  shows "grants_within access (perm_state a) (perm_state a') \<and> modes a' = modes a
    \<and> (in_sync a \<longrightarrow> in_sync a') \<and> recorded_decisions a' = recorded_decisions a
    \<and> (is_bash access \<longrightarrow> allow_edits_for_session a' = allow_edits_for_session a)"
proof (cases "is_bash access")
  case True
  then obtain cmd where acc: "access = AccessBash cmd" by (cases access) auto
  show ?thesis using assms unfolding acc by (cases out) (auto simp: apply_outcome_def outcome_defs)
next
  case False
  have other: "apply_other_outcome access out a = (a', d, s)"
    using assms False by (cases access) (simp_all add: apply_outcome_def)
  show ?thesis
  proof (cases "is_mcp access")
    case True
    then obtain name input where acc: "access = AccessMCPTool name input" by (cases access) auto
    show ?thesis using other unfolding acc
      by (cases out) (auto simp: outcome_defs split: if_splits)
  next
    case no_mcp: False
    then show ?thesis
      using other False by (cases out; cases access) (auto simp: outcome_defs)
  qed
qed

lemma record_decision_frame:
  "perm_state (record_decision w access d s a) = perm_state a"
  "persisted (record_decision w access d s a) = persisted a"
  "yolo_mode (record_decision w access d s a) = yolo_mode a"
  "auto_mode (record_decision w access d s a) = auto_mode a"
  "allow_edits_for_session (record_decision w access d s a) = allow_edits_for_session a"
  "length (recorded_decisions a) \<le> max_recorded_permission_decisions \<Longrightarrow>
   length (recorded_decisions (record_decision w access d s a)) \<le> max_recorded_permission_decisions"
  by (auto simp: record_decision_def Let_def max_recorded_permission_decisions_def
      split: option.splits)

lemma prompt_user_frame:
  assumes "(a', ev, resp) = prompt_user cfg env a access rsn"
  shows "grants_within access (perm_state a) (perm_state a') \<and> modes a' = modes a
    \<and> (in_sync a \<longrightarrow> in_sync a')
    \<and> (is_bash access \<longrightarrow> allow_edits_for_session a' = allow_edits_for_session a)
    \<and> (length (recorded_decisions a) \<le> max_recorded_permission_decisions \<longrightarrow>
        length (recorded_decisions a') \<le> max_recorded_permission_decisions)"
proof -
  from assms obtain out a1 d s where "apply_outcome access out a = (a1, d, s)"
    and a': "a' = record_decision (cfg_world cfg) access d s a1"
    by (auto simp: prompt_user_def Let_def split: prod.splits)
  from apply_outcome_frame [OF this(1)] show ?thesis
    unfolding a' by (auto simp: modes_def in_sync_def record_decision_frame)
qed

lemma handle_request_frame:
  assumes "handle_request cfg env a access = (a', ev, resp)"
  shows "grants_within access (perm_state a) (perm_state a') \<and> modes a' = modes a
    \<and> (in_sync a \<longrightarrow> in_sync a')
    \<and> (is_bash access \<longrightarrow> allow_edits_for_session a' = allow_edits_for_session a)
    \<and> (length (recorded_decisions a) \<le> max_recorded_permission_decisions \<longrightarrow>
        length (recorded_decisions a') \<le> max_recorded_permission_decisions)"
proof (cases "ev_user_prompted ev")
  case False
  from unprompted_keeps_state [OF assms False] show ?thesis by simp
next
  case True
  from assms show ?thesis
  proof (cases rule: handle_request_cases)
    case (passed forced rsn)
    from passed(6) show ?thesis
    proof (cases rule: after_auto_cases)
      case prompted
      from prompt_user_frame [OF prompted(3)] show ?thesis .
    qed (use True in \<open>auto simp: result_simps\<close>)
  qed (use True in \<open>auto simp: result_simps\<close>)
qed




subsection \<open>Invariants of the running manager\<close>

definition actor_inv :: "actor_config \<Rightarrow> actor \<Rightarrow> bool" where
  "actor_inv cfg a =
     (\<not> (yolo_mode a \<and> auto_mode a) \<and> \<not> (yolo_mode a \<and> cfg_pin cfg \<noteq> None)
      \<and> length (recorded_decisions a) \<le> max_recorded_permission_decisions
      \<and> edit_policy (perm_state a) \<noteq> EditAllow \<and> in_sync a)"

definition flags_inv :: "actor_config \<Rightarrow> shared_flags \<Rightarrow> bool" where
  "flags_inv cfg fl =
     (\<not> (yolo_state fl \<and> auto_state fl) \<and> \<not> (yolo_state fl \<and> cfg_pin cfg \<noteq> None))"

definition manager_inv :: "actor_config \<Rightarrow> manager \<Rightarrow> bool" where
  "manager_inv cfg m = (actor_inv cfg (the_actor m) \<and> flags_inv cfg (flags m))"

lemmas manager_inv_defs = manager_inv_def actor_inv_def flags_inv_def

text \<open>What each command other than a request does to the actor and the flags.\<close>

lemma set_yolo_result:
  assumes "handle_command cfg (SetYoloMode e) a fl = (a', fl', out)"
  shows "perm_state a' = perm_state a \<and> persisted a' = persisted a
    \<and> recorded_decisions a' = recorded_decisions a
    \<and> yolo_mode a' = clamp_yolo e (cfg_pin cfg) \<and> yolo_state fl' = clamp_yolo e (cfg_pin cfg)
    \<and> auto_mode a' = (\<not> clamp_yolo e (cfg_pin cfg) \<and> auto_mode a)
    \<and> auto_state fl' = (\<not> clamp_yolo e (cfg_pin cfg) \<and> auto_state fl)"
  using assms by (cases "clamp_yolo e (cfg_pin cfg)") (simp_all add: Let_def, fastforce+)

lemma set_auto_result:
  assumes "handle_command cfg (SetAutoMode e) a fl = (a', fl', out)"
  shows "perm_state a' = perm_state a \<and> persisted a' = persisted a
    \<and> recorded_decisions a' = recorded_decisions a
    \<and> yolo_mode a' = (\<not> e \<and> yolo_mode a) \<and> yolo_state fl' = (\<not> e \<and> yolo_state fl)
    \<and> auto_mode a' = e \<and> auto_state fl' = e"
  using assms by (cases e) (simp_all add: Let_def, fastforce+)

lemma reset_result:
  assumes "handle_command cfg ResetState a fl = (a', fl', out)"
  shows "perm_state a' = default_state \<and> persisted a' = Some default_state
    \<and> recorded_decisions a' = recorded_decisions a \<and> modes a' = modes a \<and> fl' = fl
    \<and> \<not> allow_edits_for_session a'"
  using assms by (auto simp: persist_def modes_def)

lemma request_result:
  assumes "handle_command cfg (Request access env) a fl = (a', fl', out)"
  shows "fl' = fl \<and> (\<exists>ev resp. handle_request cfg env a access = (a', ev, resp))"
  using assms by (cases "handle_request cfg env a access") simp

definition sets_mode :: "command \<Rightarrow> bool" where
  "sets_mode c = (\<exists>e. c = SetYoloMode e \<or> c = SetAutoMode e)"

lemma quiet_result:
  assumes "handle_command cfg c a fl = (a', fl', out)" "\<not> sets_mode c" "c \<noteq> ResetState"
    "\<And>access env. c \<noteq> Request access env"
  shows "perm_state a' = perm_state a \<and> persisted a' = persisted a
    \<and> recorded_decisions a' = recorded_decisions a \<and> modes a' = modes a \<and> fl' = fl"
  using assms by (cases c) (auto simp: modes_def sets_mode_def)

lemma actor_inv_frame:
  assumes "grants_within access (perm_state a) (perm_state a')" "modes a' = modes a"
    "in_sync a \<longrightarrow> in_sync a'"
    "length (recorded_decisions a) \<le> max_recorded_permission_decisions \<longrightarrow>
     length (recorded_decisions a') \<le> max_recorded_permission_decisions"
  shows "actor_inv cfg a \<Longrightarrow> actor_inv cfg a'"
  using assms by (simp add: actor_inv_def modes_def grants_within_def)

lemma handle_command_inv:
  assumes "handle_command cfg c a fl = (a', fl', out)" "actor_inv cfg a" "flags_inv cfg fl"
  shows "actor_inv cfg a' \<and> flags_inv cfg fl'"
proof -
  consider (yolo) e where "c = SetYoloMode e" | (auto) e where "c = SetAutoMode e"
    | (reset) "c = ResetState" | (req) access env where "c = Request access env"
    | (quiet) "\<not> sets_mode c" "c \<noteq> ResetState" "\<And>access env. c \<noteq> Request access env"
    unfolding sets_mode_def by blast
  then show ?thesis
  proof cases
    case yolo
    from set_yolo_result [OF assms(1) [unfolded yolo]] assms(2,3) show ?thesis
      by (auto simp: actor_inv_def flags_inv_def clamp_yolo_def in_sync_def)
  next
    case auto
    from set_auto_result [OF assms(1) [unfolded auto]] assms(2,3) show ?thesis
      by (auto simp: actor_inv_def flags_inv_def in_sync_def)
  next
    case reset
    from reset_result [OF assms(1) [unfolded reset]] assms(2,3) show ?thesis
      by (auto simp: actor_inv_def in_sync_def modes_def default_state_def)
  next
    case req
    from request_result [OF assms(1) [unfolded req]] obtain ev resp
      where "fl' = fl" "handle_request cfg env a access = (a', ev, resp)" by blast
    with handle_request_frame [OF this(2)] assms(2,3) show ?thesis
      using actor_inv_frame by blast
  next
    case quiet
    from quiet_result [OF assms(1) quiet] assms(2,3) show ?thesis
      by (simp add: actor_inv_def in_sync_def modes_def)
  qed
qed

lemma spawn_inv: "manager_inv cfg (spawn_manager cfg pc y ld)"
  by (auto simp: manager_inv_defs spawn_manager_def spawn_actor_def clamp_yolo_def in_sync_def
      persist_def update_state_def Let_def)

lemma handle_ops_inv:
  "handle_set_yolo_mode cfg b fl = (fl', c) \<Longrightarrow> flags_inv cfg fl \<Longrightarrow> flags_inv cfg fl'"
  "handle_set_auto_mode b fl = (fl', c) \<Longrightarrow> flags_inv cfg fl \<Longrightarrow> flags_inv cfg fl'"
  "handle_set_classifier k fl = (fl', c) \<Longrightarrow> flags_inv cfg fl \<Longrightarrow> flags_inv cfg fl'"
  "handle_set_classifier_with_side_query q b fl = (fl', c) \<Longrightarrow> flags_inv cfg fl \<Longrightarrow> flags_inv cfg fl'"
  by (auto simp: handle_set_yolo_mode_def handle_set_auto_mode_def handle_set_classifier_def
      handle_set_classifier_with_side_query_def flags_inv_def clamp_yolo_def Let_def split: if_splits)

lemma manager_step_inv: "manager_step cfg m m' \<Longrightarrow> manager_inv cfg m \<Longrightarrow> manager_inv cfg m'"
proof (induction rule: manager_step.induct)
  case (take m c cs a fl out)
  from handle_command_inv [OF take(3)] take(4) show ?case by (simp add: manager_inv_def)
qed (auto simp: manager_inv_def handle_ops_inv, simp_all add: flags_inv_def)

interpretation managed: invariant_of "spawn_manager cfg pc y ld" "manager_step cfg" "manager_inv cfg"
  for cfg pc y ld
  by unfold_locales (auto intro: spawn_inv manager_step_inv)


definition pinned_cfg :: actor_config where
  "pinned_cfg = config_of example_world ''/work'' None [] (Some ''managed'') True GrokTUI"


subsection \<open>The flags follow the modes\<close>

text \<open>What the pending commands will still do to a pair of modes.\<close>

fun step_modes :: "actor_config \<Rightarrow> command \<Rightarrow> bool \<times> bool \<Rightarrow> bool \<times> bool" where
  "step_modes cfg (SetYoloMode e) (yo, au) =
     (clamp_yolo e (cfg_pin cfg), if clamp_yolo e (cfg_pin cfg) then False else au)"
| "step_modes cfg (SetAutoMode e) (yo, au) = (if e then False else yo, e)"
| "step_modes cfg _ s = s"

definition drained :: "actor_config \<Rightarrow> command list \<Rightarrow> bool \<times> bool \<Rightarrow> bool \<times> bool" where
  "drained cfg cs s = fold (step_modes cfg) cs s"

definition flag_modes :: "shared_flags \<Rightarrow> bool \<times> bool" where
  "flag_modes fl = (yolo_state fl, auto_state fl)"

lemma step_modes_mode:
  "step_modes cfg (SetYoloMode e) s =
     (clamp_yolo e (cfg_pin cfg), \<not> clamp_yolo e (cfg_pin cfg) \<and> snd s)"
  "step_modes cfg (SetAutoMode e) s = (\<not> e \<and> fst s, e)"
  by (cases s, simp)+

lemma step_modes_other: "\<not> sets_mode c \<Longrightarrow> step_modes cfg c s = s"
  by (cases c) (auto simp: sets_mode_def)

lemma step_modes_split:
  assumes "fst s = fst s'"
  shows "fst (step_modes cfg c s) = fst (step_modes cfg c s')"
  using assms by (cases "sets_mode c") (auto simp: step_modes_other step_modes_mode sets_mode_def)

lemma step_modes_split2:
  assumes "snd s = snd s'"
  shows "snd (step_modes cfg c s) = snd (step_modes cfg c s')"
  using assms by (cases "sets_mode c") (auto simp: step_modes_other step_modes_mode sets_mode_def)

lemma drained_split:
  "fst s = fst s' \<Longrightarrow> fst (drained cfg cs s) = fst (drained cfg cs s')"
  "snd s = snd s' \<Longrightarrow> snd (drained cfg cs s) = snd (drained cfg cs s')"
proof -
  show "fst s = fst s' \<Longrightarrow> fst (drained cfg cs s) = fst (drained cfg cs s')"
    unfolding drained_def
  proof (induction cs arbitrary: s s')
    case (Cons c cs)
    from Cons.IH [OF step_modes_split [OF Cons.prems]] show ?case by simp
  qed simp
  show "snd s = snd s' \<Longrightarrow> snd (drained cfg cs s) = snd (drained cfg cs s')"
    unfolding drained_def
  proof (induction cs arbitrary: s s')
    case (Cons c cs)
    from Cons.IH [OF step_modes_split2 [OF Cons.prems]] show ?case by simp
  qed simp
qed

lemma drained_Cons: "drained cfg (c # cs) s = drained cfg cs (step_modes cfg c s)"
  and drained_snoc: "drained cfg (cs @ [c]) s = step_modes cfg c (drained cfg cs s)"
  by (simp_all add: drained_def)

lemma step_modes_early:
  "step_modes cfg c (drained cfg cs (step_modes cfg c s)) = step_modes cfg c (drained cfg cs s)"
proof (cases "sets_mode c")
  case False
  then show ?thesis by (simp add: step_modes_other)
next
  case True
  then consider (yolo) e where "c = SetYoloMode e" | (auto) e where "c = SetAutoMode e"
    unfolding sets_mode_def by blast
  then show ?thesis
  proof cases
    case yolo
    have "snd (drained cfg cs (step_modes cfg c s)) = snd (drained cfg cs s)"
      if "\<not> clamp_yolo e (cfg_pin cfg)"
      by (rule drained_split) (simp add: that yolo step_modes_mode)
    then show ?thesis unfolding yolo step_modes_mode by auto
  next
    case auto
    have "fst (drained cfg cs (step_modes cfg c s)) = fst (drained cfg cs s)" if "\<not> e"
      by (rule drained_split) (simp add: that auto step_modes_mode)
    then show ?thesis unfolding auto step_modes_mode by auto
  qed
qed

lemma handle_command_modes:
  assumes "handle_command cfg c a fl = (a', fl', out)"
  shows "modes a' = step_modes cfg c (modes a) \<and> flag_modes fl' = step_modes cfg c (flag_modes fl)"
proof -
  consider (yolo) e where "c = SetYoloMode e" | (auto) e where "c = SetAutoMode e"
    | (reset) "c = ResetState" | (req) access env where "c = Request access env"
    | (quiet) "\<not> sets_mode c" "c \<noteq> ResetState" "\<And>access env. c \<noteq> Request access env"
    unfolding sets_mode_def by blast
  then show ?thesis
  proof cases
    case yolo
    from set_yolo_result [OF assms [unfolded yolo]] show ?thesis
      by (simp add: yolo step_modes_mode modes_def flag_modes_def)
  next
    case auto
    from set_auto_result [OF assms [unfolded auto]] show ?thesis
      by (simp add: auto step_modes_mode modes_def flag_modes_def)
  next
    case reset
    from reset_result [OF assms [unfolded reset]] show ?thesis by (simp add: reset)
  next
    case req
    from request_result [OF assms [unfolded req]] obtain ev resp
      where "fl' = fl" "handle_request cfg env a access = (a', ev, resp)" by blast
    with handle_request_frame [OF this(2)] show ?thesis by (simp add: req)
  next
    case quiet
    from quiet_result [OF assms quiet] show ?thesis by (simp add: step_modes_other quiet)
  qed
qed

lemma handle_ops_modes:
  "handle_set_yolo_mode cfg b fl = (fl', c) \<Longrightarrow> flag_modes fl' = step_modes cfg c (flag_modes fl)"
  "handle_set_auto_mode b fl = (fl', c) \<Longrightarrow> flag_modes fl' = step_modes cfg c (flag_modes fl)"
  "handle_set_classifier k fl = (fl', c) \<Longrightarrow> flag_modes fl' = step_modes cfg c (flag_modes fl)"
  "handle_set_classifier_with_side_query q b fl = (fl', c) \<Longrightarrow>
   flag_modes fl' = step_modes cfg c (flag_modes fl)"
  by (auto simp: handle_set_yolo_mode_def handle_set_auto_mode_def handle_set_classifier_def
      handle_set_classifier_with_side_query_def flag_modes_def Let_def split: if_splits)

definition drained_agree :: "actor_config \<Rightarrow> manager \<Rightarrow> bool" where
  "drained_agree cfg m =
     (drained cfg (mailbox m) (modes (the_actor m)) = drained cfg (mailbox m) (flag_modes (flags m)))"

lemma drained_agree_op:
  "flag_modes fl = step_modes cfg c (flag_modes (flags m)) \<Longrightarrow> drained_agree cfg m \<Longrightarrow>
   drained_agree cfg (m\<lparr>flags := fl, mailbox := mailbox m @ [c]\<rparr>)"
  by (simp add: drained_agree_def drained_snoc step_modes_early)

lemma manager_step_drained: "manager_step cfg m m' \<Longrightarrow> drained_agree cfg m \<Longrightarrow> drained_agree cfg m'"
proof (induction rule: manager_step.induct)
  case (set_wired m b)
  then show ?case by (simp add: drained_agree_def flag_modes_def)
next
  case (enqueue c ts i access env m)
  then show ?case by (auto simp: drained_agree_def drained_snoc)
next
  case (take m c cs a fl out)
  from handle_command_modes [OF take(3)] take(2,4) show ?case
    by (simp add: drained_agree_def drained_Cons)
qed (erule drained_agree_op [rotated], erule handle_ops_modes)+

interpretation synced: invariant_of "spawn_manager cfg pc y ld" "manager_step cfg" "drained_agree cfg"
  for cfg pc y ld
  by unfold_locales
    (simp add: drained_agree_def spawn_manager_def modes_def flag_modes_def Let_def,
     rule manager_step_drained)

lemma drained_no_modes: "\<forall>c \<in> set cs. \<not> sets_mode c \<Longrightarrow> drained cfg cs s = s"
  unfolding drained_def
proof (induction cs)
  case (Cons c cs)
  then show ?case by (simp add: step_modes_other)
qed simp



end
