(* ===== verification/Permission_Resolution.thy ===== *)
theory Permission_Resolution
  imports Permission_Policy Permission_Rules
begin

text \<open>
  Where the effective policy comes from
  (\<^verbatim>\<open>xai-grok-workspace/src/permission/resolution.rs\<close>): merging the rules of every settings file
  with their provenance, the managed pin on always-approve, and the allow and deny lists for MCP
  servers and marketplaces.  Reading the files is left out: what each of them yields is an input.
  A parsed TOML table is looked up like a JSON object.
\<close>

subsection \<open>Default modes\<close>

datatype user_default_mode_load = ApplyUserMode | SkipManagedOwns

record skipped_permission =
  skipped_rule :: str
  skipped_reason :: str

definition allow_all :: "tool_filter \<Rightarrow> permission_rule" where
  "allow_all t = \<lparr>action = RuleAllow, tool = t, pattern = None, pattern_mode = Glob\<rparr>"

definition synthetic_rules_for_default_mode ::
  "default_permission_mode \<Rightarrow> str option \<Rightarrow> permission_rule list \<times> skipped_permission list \<times> bool" where
  "synthetic_rules_for_default_mode mode policy_block =
     (if bypass_permissions (effects mode) then
        (case policy_block of
           Some reason \<Rightarrow>
             ([], [\<lparr>skipped_rule = ''defaultMode=bypassPermissions'', skipped_reason = reason\<rparr>], True)
         | None \<Rightarrow> ([allow_all ToolAny], [], False))
      else if accept_edits (effects mode) then ([allow_all ToolEdit], [], False)
      else ([], [], False))"

definition parse_default_mode_claiming_scope ::
  "str \<Rightarrow> skipped_permission list \<Rightarrow> default_permission_mode \<times> skipped_permission list" where
  "parse_default_mode_claiming_scope raw skipped =
     (case mode_from_str raw of
        Inr mode \<Rightarrow> (mode, skipped)
      | Inl invalid \<Rightarrow>
          (ModeDefault,
           skipped @ [\<lparr>skipped_rule = ''defaultMode='' @ invalid,
                       skipped_reason = ''unrecognized value; treated as default''\<rparr>]))"

definition deny_read_globs_from_config :: "permission_config \<Rightarrow> str list" where
  "deny_read_globs_from_config cfg =
     List.map_filter pattern
       (filter (\<lambda>r. action r = RuleDeny \<and> tool r \<in> set [ToolRead, ToolGrep, ToolAny]) (rules cfg))"

subsection \<open>Catch-all allows\<close>

definition is_catchall_allow :: "world \<Rightarrow> permission_rule \<Rightarrow> bool" where
  "is_catchall_allow w rule =
     (if action rule \<noteq> RuleAllow then False
      else if tool rule \<in> set [ToolRead, ToolEdit, ToolGrep] then False
      else rule_is_catchall w rule)"

fun is_admin_source :: "requirement_source \<Rightarrow> bool" where
  "is_admin_source (SrcSystemRequirements _) = True"
| "is_admin_source (SrcManagedSettings _) = True"
| "is_admin_source _ = False"

definition catchall_skip :: "str \<Rightarrow> permission_rule sourced \<Rightarrow> skipped_permission" where
  "catchall_skip reason s =
     \<lparr>skipped_rule = ''allow '' @ (case pattern (sourced_value s) of Some p \<Rightarrow> p | None \<Rightarrow> ''*'')
                      @ '' (catch-all)'',
      skipped_reason = reason\<rparr>"

definition drop_untrusted_catchall_allows ::
  "world \<Rightarrow> permission_rule sourced list \<Rightarrow> str option \<Rightarrow> skipped_permission list \<Rightarrow>
   permission_rule sourced list \<times> skipped_permission list" where
  "drop_untrusted_catchall_allows w rs policy_block skipped =
     (case policy_block of
        None \<Rightarrow> (rs, skipped)
      | Some reason \<Rightarrow>
          (let untrusted = (\<lambda>s. is_catchall_allow w (sourced_value s)
                                 \<and> \<not> is_admin_source (sourced_from s))
           in (filter (\<lambda>s. \<not> untrusted s) rs,
               skipped @ map (catchall_skip reason) (filter untrusted rs))))"

subsection \<open>Resolution\<close>

record resolve_inputs =
  policy_block :: "str option"
  managed_default_mode :: "default_permission_mode option"
  managed_permissions :: "permission_rule sourced list"
  managed_source_path :: "str option"
  managed_config_rules :: "permission_rule sourced list"
  requirements_rules :: "permission_rule sourced list"
  config_toml_rules :: "permission_rule sourced list"
  claude_imported :: bool
  claude_settings ::
    "user_default_mode_load \<Rightarrow> (permission_config \<times> skipped_permission list \<times> str) option"

record resolved_permissions =
  resolved_config :: permission_config
  resolved_sources :: "requirement_source list"
  resolved_skipped :: "skipped_permission list"

definition tag_with_source ::
  "permission_rule list \<Rightarrow> requirement_source \<Rightarrow> permission_rule sourced list" where
  "tag_with_source rs source = map (\<lambda>r. \<lparr>sourced_value = r, sourced_from = source\<rparr>) rs"

definition settings_json ::
  "resolve_inputs \<Rightarrow> (permission_config \<times> skipped_permission list \<times> str) option" where
  "settings_json inp =
     (if claude_imported inp then None
      else claude_settings inp
        (if managed_default_mode inp \<noteq> None then SkipManagedOwns else ApplyUserMode))"

text \<open>All rules in the order they are collected, before the pin drops any.\<close>

definition collected_rules :: "resolve_inputs \<Rightarrow> permission_rule sourced list" where
  "collected_rules inp =
     requirements_rules inp @ managed_permissions inp
     @ (case managed_default_mode inp of
          None \<Rightarrow> []
        | Some mode \<Rightarrow>
            tag_with_source (fst (synthetic_rules_for_default_mode mode (policy_block inp)))
              (SrcManagedSettings
                (case managed_source_path inp of Some p \<Rightarrow> p | None \<Rightarrow> ''managed-settings.json'')))
     @ managed_config_rules inp @ config_toml_rules inp
     @ (case settings_json inp of
          None \<Rightarrow> []
        | Some (cfg, _, path) \<Rightarrow> tag_with_source (rules cfg) (SrcSettings path))"

definition collected_skips :: "resolve_inputs \<Rightarrow> skipped_permission list" where
  "collected_skips inp =
     (case managed_default_mode inp of
        None \<Rightarrow> []
      | Some mode \<Rightarrow> fst (snd (synthetic_rules_for_default_mode mode (policy_block inp))))
     @ (case settings_json inp of None \<Rightarrow> [] | Some (_, sk, _) \<Rightarrow> sk)"

definition resolved_prompt_policy :: "resolve_inputs \<Rightarrow> prompt_policy" where
  "resolved_prompt_policy inp =
     (case managed_default_mode inp of
        Some mode \<Rightarrow> eff_prompt_policy (effects mode)
      | None \<Rightarrow> (case settings_json inp of
                   Some (cfg, _, _) \<Rightarrow> permission_config.prompt_policy cfg
                 | None \<Rightarrow> PromptAsk))"

definition resolve_permissions :: "world \<Rightarrow> resolve_inputs \<Rightarrow> resolved_permissions option" where
  "resolve_permissions w inp =
     (let (all_rules, skipped) = drop_untrusted_catchall_allows w (collected_rules inp)
            (policy_block inp) (collected_skips inp);
          pp = resolved_prompt_policy inp
      in if all_rules = [] \<and> pp = PromptAsk \<and> skipped = [] then None
         else Some \<lparr>resolved_config = \<lparr>rules = map sourced_value all_rules, prompt_policy = pp\<rparr>,
                    resolved_sources = map sourced_from all_rules,
                    resolved_skipped = skipped\<rparr>)"

subsection \<open>The pin\<close>

definition yolo_pin_reason_requirements :: str where
  "yolo_pin_reason_requirements =
     ''always-approve disabled by managed policy ([ui] disable_bypass_permissions_mode = true in requirements.toml)''"

definition yolo_pin_reason_legacy_yolo :: str where
  "yolo_pin_reason_legacy_yolo =
     ''always-approve disabled by managed policy ([ui] yolo = false in requirements.toml)''"

definition requirements_lock_bool :: "json option \<Rightarrow> str \<Rightarrow> bool option" where
  "requirements_lock_bool ui key =
     Option.bind (Option.bind ui (\<lambda>t. json_get t key)) as_bool"

fun resolve_yolo_policy_block :: "json list \<Rightarrow> str option" where
  "resolve_yolo_policy_block [] = None"
| "resolve_yolo_policy_block (layer # layers) =
     (let ui = json_get layer ''ui'' in
      if requirements_lock_bool ui ''disable_bypass_permissions_mode'' = Some True
      then Some yolo_pin_reason_requirements
      else if requirements_lock_bool ui ''yolo'' = Some False then Some yolo_pin_reason_legacy_yolo
      else resolve_yolo_policy_block layers)"

text \<open>\<^verbatim>\<open>disableBypassPermissionsMode\<close> of a settings file.\<close>

definition parse_disable_bypass_permissions :: "json \<Rightarrow> bool option" where
  "parse_disable_bypass_permissions j =
     map_option (\<lambda>v. as_str v = Some ''disable'')
       (Option.bind (json_get j ''permissions'') (\<lambda>p. json_get p ''disableBypassPermissionsMode''))"

subsection \<open>MCP servers\<close>

datatype allowed_mcp_server = ByUrl str | ByCommand str | ByName str

record mcp_server_allowlist =
  mcp_entries :: "allowed_mcp_server list"
  mcp_deny_entries :: "allowed_mcp_server list"
  url_patterns :: "str list"
  commands :: "str list"
  names :: "str list"
  deny_url_patterns :: "str list"
  deny_commands :: "str list"
  deny_names :: "str list"

fun entry_url :: "allowed_mcp_server \<Rightarrow> str option" where
  "entry_url (ByUrl u) = Some u" | "entry_url _ = None"

fun entry_command :: "allowed_mcp_server \<Rightarrow> str option" where
  "entry_command (ByCommand c) = Some c" | "entry_command _ = None"

fun entry_name :: "allowed_mcp_server \<Rightarrow> str option" where
  "entry_name (ByName n) = Some n" | "entry_name _ = None"

definition split_mcp_entries :: "allowed_mcp_server list \<Rightarrow> str list \<times> str list \<times> str list" where
  "split_mcp_entries es =
     (List.map_filter entry_url es, List.map_filter entry_command es, List.map_filter entry_name es)"

definition mcp_allowlist_new ::
  "allowed_mcp_server list \<Rightarrow> allowed_mcp_server list \<Rightarrow> mcp_server_allowlist" where
  "mcp_allowlist_new entries deny_entries =
     (let (u, c, n) = split_mcp_entries entries; (du, dc, dn) = split_mcp_entries deny_entries
      in \<lparr>mcp_entries = entries, mcp_deny_entries = deny_entries, url_patterns = u, commands = c,
          names = n, deny_url_patterns = du, deny_commands = dc, deny_names = dn\<rparr>)"

definition mcp_is_restricted :: "mcp_server_allowlist \<Rightarrow> bool" where
  "mcp_is_restricted l = (mcp_entries l \<noteq> [] \<or> mcp_deny_entries l \<noteq> [])"

text \<open>A server as the protocol names it; the last case is a transport of a later version.\<close>

datatype mcp_server = McpHttp str str | McpSse str str | McpStdio str str | McpOther

fun mcp_server_name :: "mcp_server \<Rightarrow> str" where
  "mcp_server_name (McpHttp name _) = name"
| "mcp_server_name (McpSse name _) = name"
| "mcp_server_name (McpStdio name _) = name"
| "mcp_server_name McpOther = []"

definition managed_mcp_prefix :: str where
  "managed_mcp_prefix = ''grok_com_''"

definition managed_mcp_name_max_chars :: nat where
  "managed_mcp_name_max_chars = 39"

definition normalize_managed_name :: "str \<Rightarrow> str" where
  "normalize_managed_name bare = replace (to_lowercase bare) '' '' ''_''"

definition mcp_name_key :: "str \<Rightarrow> str" where
  "mcp_name_key s =
     (let bare = (case strip_prefix s managed_mcp_prefix of Some r \<Rightarrow> r | None \<Rightarrow> s)
      in concat (take (managed_mcp_name_max_chars - length managed_mcp_prefix)
           (chars (normalize_managed_name bare))))"

definition mcp_name_matches :: "str \<Rightarrow> str \<Rightarrow> bool" where
  "mcp_name_matches pat name = (mcp_name_key pat \<noteq> [] \<and> mcp_name_key pat = mcp_name_key name)"

definition strip_url_query :: "str \<Rightarrow> str" where
  "strip_url_query url = hd (split_on ''?'' (hd (split_on ''#'' url)))"

definition insensitive :: match_options where
  "insensitive = \<lparr>case_sensitive = False, require_literal_separator = False,
     require_literal_leading_dot = False\<rparr>"

definition glob_match :: "world \<Rightarrow> str \<Rightarrow> str \<Rightarrow> bool" where
  "glob_match w pat s = is_some_and (\<lambda>g. g insensitive s) (glob_new w pat)"

definition url_glob_matches :: "world \<Rightarrow> str \<Rightarrow> str \<Rightarrow> bool" where
  "url_glob_matches w pat url = glob_match w pat (strip_url_query url)"

definition split_host_path :: "str \<Rightarrow> str option \<times> str" where
  "split_host_path s =
     (let after_scheme = (case find_sub s ''://'' of Some i \<Rightarrow> drop (i + 3) s | None \<Rightarrow> s);
          (authority, path) = (case find_sub after_scheme ''/'' of
              Some i \<Rightarrow> (take i after_scheme, drop i after_scheme)
            | None \<Rightarrow> (after_scheme, []));
          authority = last (split_on ''@'' authority);
          host = to_lowercase (trim_end_char (CHR ''.'') (hd (split_on '':'' authority)))
      in (if host = [] then None else Some host, path))"

definition url_deny_matches :: "world \<Rightarrow> str \<Rightarrow> str \<Rightarrow> bool" where
  "url_deny_matches w pat url =
     (case (split_host_path pat, split_host_path (strip_url_query url)) of
        ((Some pat_host, pat_path), (Some url_host, upath)) \<Rightarrow>
          (if \<not> glob_match w pat_host url_host then False
           else if pat_path = [] then True
           else glob_match w pat_path (if upath = [] then ''/'' else upath))
      | _ \<Rightarrow> False)"

definition is_server_denied :: "world \<Rightarrow> mcp_server_allowlist \<Rightarrow> mcp_server \<Rightarrow> bool" where
  "is_server_denied w l server =
     (if list_ex (\<lambda>p. mcp_name_matches p (mcp_server_name server)) (deny_names l) then True
      else case server of
        McpHttp _ url \<Rightarrow> list_ex (\<lambda>p. url_deny_matches w p url) (deny_url_patterns l)
      | McpSse _ url \<Rightarrow> list_ex (\<lambda>p. url_deny_matches w p url) (deny_url_patterns l)
      | McpStdio _ command \<Rightarrow> list_ex (\<lambda>c. c = command) (deny_commands l)
      | McpOther \<Rightarrow> False)"

text \<open>What the transport adds to \<open>restricted\<close> and \<open>matched\<close>.\<close>

fun transport_match :: "world \<Rightarrow> mcp_server_allowlist \<Rightarrow> mcp_server \<Rightarrow> bool \<times> bool" where
  "transport_match w l (McpHttp _ url) =
     (url_patterns l \<noteq> [], list_ex (\<lambda>p. url_glob_matches w p url) (url_patterns l))"
| "transport_match w l (McpSse _ url) =
     (url_patterns l \<noteq> [], list_ex (\<lambda>p. url_glob_matches w p url) (url_patterns l))"
| "transport_match w l (McpStdio _ command) =
     (commands l \<noteq> [], list_ex (\<lambda>c. c = command) (commands l))"
| "transport_match w l McpOther = (False, False)"

definition is_server_allowed :: "world \<Rightarrow> mcp_server_allowlist \<Rightarrow> mcp_server \<Rightarrow> bool" where
  "is_server_allowed w l server =
     (if \<not> mcp_is_restricted l then True
      else if is_server_denied w l server then False
      else
        (let restricted = (names l \<noteq> []);
             matched = list_ex (\<lambda>p. mcp_name_matches p (mcp_server_name server)) (names l);
             (r, m) = transport_match w l server
         in \<not> (restricted \<or> r) \<or> (matched \<or> m)))"

subsection \<open>Marketplaces\<close>

function trim_end_matches_str :: "str \<Rightarrow> str \<Rightarrow> str" where
  "trim_end_matches_str s p =
     (if p \<noteq> [] \<and> ends_with s p then trim_end_matches_str (take (length s - length p) s) p else s)"
  by pat_completeness auto
termination
  by (relation "measure (\<lambda>(s, p). length s)") (auto simp: ends_with_iff_suffix suffix_def)

declare trim_end_matches_str.simps [simp del]

definition normalize_git_url :: "str \<Rightarrow> str" where
  "normalize_git_url url = trim_end_matches_str (to_lowercase url) ''.git''"

definition is_url_allowed :: "str list \<Rightarrow> str \<Rightarrow> bool" where
  "is_url_allowed allowed_urls url =
     (if allowed_urls = [] then True
      else list_ex (\<lambda>a. normalize_git_url a = normalize_git_url url) allowed_urls)"


subsection \<open>What the pin leaves\<close>

definition untrusted_catchall :: "world \<Rightarrow> permission_rule sourced \<Rightarrow> bool" where
  "untrusted_catchall w s =
     (is_catchall_allow w (sourced_value s) \<and> \<not> is_admin_source (sourced_from s))"

lemma drop_untrusted_fst:
  "fst (drop_untrusted_catchall_allows w rs (Some reason) sk) = filter (\<lambda>s. \<not> untrusted_catchall w s) rs"
  "fst (drop_untrusted_catchall_allows w rs None sk) = rs"
  by (simp_all add: drop_untrusted_catchall_allows_def untrusted_catchall_def Let_def)

lemma resolve_rules:
  assumes "resolve_permissions w inp = Some res"
  shows "rules (resolved_config res) = map sourced_value (fst (drop_untrusted_catchall_allows w
        (collected_rules inp) (policy_block inp) (collected_skips inp)))
    \<and> resolved_sources res = map sourced_from (fst (drop_untrusted_catchall_allows w
        (collected_rules inp) (policy_block inp) (collected_skips inp)))"
  using assms by (auto simp: resolve_permissions_def Let_def split: prod.splits if_splits)

lemma bypass_not_synthesised:
  "bypass_permissions (effects mode) \<Longrightarrow>
   fst (synthetic_rules_for_default_mode mode (Some reason)) = []"
  by (simp add: synthetic_rules_for_default_mode_def)

text \<open>
  C37. Under the managed pin no rule file can stand in for always-approve: of everything that was
  collected, exactly the catch-all allow rules from sources an administrator does not own are
  dropped; every rule that remains and allows everything comes from an administrator's source, all
  deny and ask rules remain, and what is left is at least as strict: it denies what was denied,
  asks or denies where it was asked, and allows nothing that was not allowed before.
\<close>

theorem pin_drops_untrusted_catchalls:
  assumes "policy_block inp = Some reason" "resolve_permissions w inp = Some res"
  shows "(\<forall>i < length (rules (resolved_config res)).
            is_catchall_allow w (rules (resolved_config res) ! i) \<longrightarrow>
            is_admin_source (resolved_sources res ! i))
    \<and> set (rules (resolved_config res))
        = {sourced_value s | s. s \<in> set (collected_rules inp) \<and> \<not> untrusted_catchall w s}
    \<and> (let before = \<lparr>rules = map sourced_value (collected_rules inp), prompt_policy = pp\<rparr> in
        \<forall>access act. config_has w (resolved_config res) access act \<noteq> config_has w before access act \<longrightarrow>
          act = RuleAllow \<and> config_has w before access act)"
proof -
  let ?kept = "filter (\<lambda>s. \<not> untrusted_catchall w s) (collected_rules inp)"
  let ?before = "\<lparr>rules = map sourced_value (collected_rules inp), prompt_policy = pp\<rparr>"
  have kept: "rules (resolved_config res) = map sourced_value ?kept"
    "resolved_sources res = map sourced_from ?kept"
    using resolve_rules [OF assms(2)] by (simp_all add: assms(1) drop_untrusted_fst)
  have "is_admin_source (resolved_sources res ! i)"
    if "i < length (rules (resolved_config res))" "is_catchall_allow w (rules (resolved_config res) ! i)" for i
  proof -
    from that(1) have i: "i < length ?kept" by (simp add: kept)
    then have "?kept ! i \<in> set ?kept" by (rule nth_mem)
    then have "\<not> untrusted_catchall w (?kept ! i)" by simp
    with that(2) i show ?thesis by (simp add: kept untrusted_catchall_def)
  qed
  moreover have "set (rules (resolved_config res))
      = {sourced_value s | s. s \<in> set (collected_rules inp) \<and> \<not> untrusted_catchall w s}"
    by (auto simp: kept)
  moreover have "act = RuleAllow \<and> config_has w ?before access act"
    if "config_has w (resolved_config res) access act \<noteq> config_has w ?before access act" for access act
  proof -
    have "set (rules (resolved_config res)) \<subseteq> set (rules ?before)" by (auto simp: kept)
    from config_has_mono [OF this] that have had: "config_has w ?before access act"
      and gone: "\<not> config_has w (resolved_config res) access act" by blast+
    then obtain s where s: "s \<in> set (collected_rules inp)" "action (sourced_value s) = act"
      "rule_matches w access (sourced_value s)" unfolding config_has_iff by auto
    with gone have "untrusted_catchall w s" unfolding config_has_iff kept by auto
    with s(2) have "act = RuleAllow"
      by (auto simp: untrusted_catchall_def is_catchall_allow_def split: if_splits)
    with had show ?thesis by simp
  qed
  ultimately show ?thesis unfolding Let_def by blast
qed

definition example_inputs :: resolve_inputs where
  "example_inputs =
     \<lparr>policy_block = Some ''pinned'', managed_default_mode = Some BypassPermissions,
      managed_permissions = [\<lparr>sourced_value = allow_all ToolBash, sourced_from = SrcManagedSettings ''m''\<rparr>],
      managed_source_path = None, managed_config_rules = [], requirements_rules = [],
      config_toml_rules = [\<lparr>sourced_value = allow_all ToolAny, sourced_from = SrcConfig ''c''\<rparr>],
      claude_imported = False,
      claude_settings = (\<lambda>_. Some (new_config [allow_all ToolRead], [], ''s''))\<rparr>"

lemma pin_drops_untrusted_catchalls_witness:
  "\<exists>res. resolve_permissions example_world example_inputs = Some res
     \<and> rules (resolved_config res) = [allow_all ToolBash, allow_all ToolRead]
     \<and> (\<forall>i < length (rules (resolved_config res)).
            is_catchall_allow example_world (rules (resolved_config res) ! i) \<longrightarrow>
            is_admin_source (resolved_sources res ! i))"
proof -
  have "is_some_and (\<lambda>res. rules (resolved_config res) = [allow_all ToolBash, allow_all ToolRead])
      (resolve_permissions example_world example_inputs)" by code_simp
  then obtain res where res: "resolve_permissions example_world example_inputs = Some res"
    "rules (resolved_config res) = [allow_all ToolBash, allow_all ToolRead]"
    by (auto simp: is_some_and_iff)
  have "policy_block example_inputs = Some ''pinned''" by (simp add: example_inputs_def)
  from pin_drops_untrusted_catchalls [OF this res(1)] res show ?thesis by blast
qed

subsection \<open>Deny before allow\<close>

lemma mcp_new_simps:
  "mcp_entries (mcp_allowlist_new es ds) = es" "mcp_deny_entries (mcp_allowlist_new es ds) = ds"
  "url_patterns (mcp_allowlist_new es ds) = List.map_filter entry_url es"
  "commands (mcp_allowlist_new es ds) = List.map_filter entry_command es"
  "names (mcp_allowlist_new es ds) = List.map_filter entry_name es"
  "deny_url_patterns (mcp_allowlist_new es ds) = List.map_filter entry_url ds"
  "deny_commands (mcp_allowlist_new es ds) = List.map_filter entry_command ds"
  "deny_names (mcp_allowlist_new es ds) = List.map_filter entry_name ds"
  by (simp_all add: mcp_allowlist_new_def split_mcp_entries_def)

text \<open>What one entry says of a server: whether it is about its transport, and whether it matches.\<close>

fun entry_denies :: "world \<Rightarrow> mcp_server \<Rightarrow> allowed_mcp_server \<Rightarrow> bool" where
  "entry_denies w s (ByName n) = mcp_name_matches n (mcp_server_name s)"
| "entry_denies w (McpHttp _ url) (ByUrl p) = url_deny_matches w p url"
| "entry_denies w (McpSse _ url) (ByUrl p) = url_deny_matches w p url"
| "entry_denies w (McpStdio _ c) (ByCommand d) = (d = c)"
| "entry_denies w _ _ = False"

fun entry_admits :: "world \<Rightarrow> mcp_server \<Rightarrow> allowed_mcp_server \<Rightarrow> bool" where
  "entry_admits w s (ByName n) = mcp_name_matches n (mcp_server_name s)"
| "entry_admits w (McpHttp _ url) (ByUrl p) = url_glob_matches w p url"
| "entry_admits w (McpSse _ url) (ByUrl p) = url_glob_matches w p url"
| "entry_admits w (McpStdio _ c) (ByCommand d) = (d = c)"
| "entry_admits w _ _ = False"

fun entry_concerns :: "mcp_server \<Rightarrow> allowed_mcp_server \<Rightarrow> bool" where
  "entry_concerns s (ByName _) = True"
| "entry_concerns (McpHttp _ _) (ByUrl _) = True"
| "entry_concerns (McpSse _ _) (ByUrl _) = True"
| "entry_concerns (McpStdio _ _) (ByCommand _) = True"
| "entry_concerns _ _ = False"

lemma list_ex_False [simp]: "\<not> list_ex (\<lambda>x. False) xs"
  by (induction xs) auto

lemma list_ex_map_filter: "list_ex P (List.map_filter f xs) = list_ex (\<lambda>x. is_some_and P (f x)) xs"
  by (induction xs) (auto simp: List.map_filter_def is_some_and_def split: option.splits)

lemma map_filter_empty: "List.map_filter f xs = [] \<longleftrightarrow> \<not> list_ex (\<lambda>x. f x \<noteq> None) xs"
  by (induction xs) (auto simp: List.map_filter_def split: option.splits)

lemma list_ex_or: "list_ex P xs \<or> list_ex Q xs \<longleftrightarrow> list_ex (\<lambda>x. P x \<or> Q x) xs"
  by (induction xs) auto

lemma server_denied_iff:
  "is_server_denied w (mcp_allowlist_new es ds) s \<longleftrightarrow> list_ex (entry_denies w s) ds"
proof -
  have "is_some_and (\<lambda>p. mcp_name_matches p (mcp_server_name s)) (entry_name e)
      \<or> (case s of McpHttp _ url \<Rightarrow> is_some_and (\<lambda>p. url_deny_matches w p url) (entry_url e)
         | McpSse _ url \<Rightarrow> is_some_and (\<lambda>p. url_deny_matches w p url) (entry_url e)
         | McpStdio _ command \<Rightarrow> is_some_and (\<lambda>c. c = command) (entry_command e)
         | McpOther \<Rightarrow> False) \<longleftrightarrow> entry_denies w s e" for e
    by (cases e; cases s) (simp_all add: is_some_and_def)
  then have "list_ex (\<lambda>e. is_some_and (\<lambda>p. mcp_name_matches p (mcp_server_name s)) (entry_name e)) ds
      \<or> list_ex (\<lambda>e. case s of McpHttp _ url \<Rightarrow> is_some_and (\<lambda>p. url_deny_matches w p url) (entry_url e)
         | McpSse _ url \<Rightarrow> is_some_and (\<lambda>p. url_deny_matches w p url) (entry_url e)
         | McpStdio _ command \<Rightarrow> is_some_and (\<lambda>c. c = command) (entry_command e)
         | McpOther \<Rightarrow> False) ds \<longleftrightarrow> list_ex (entry_denies w s) ds"
    by (simp only: list_ex_or)
  then show ?thesis
    by (cases s) (auto simp: is_server_denied_def mcp_new_simps list_ex_map_filter)
qed

lemma transport_or_name:
  "(names (mcp_allowlist_new es ds) \<noteq> []
      \<or> fst (transport_match w (mcp_allowlist_new es ds) s)) \<longleftrightarrow> list_ex (entry_concerns s) es"
  "(list_ex (\<lambda>p. mcp_name_matches p (mcp_server_name s)) (names (mcp_allowlist_new es ds))
      \<or> snd (transport_match w (mcp_allowlist_new es ds) s)) \<longleftrightarrow> list_ex (entry_admits w s) es"
proof -
  have "(entry_name e \<noteq> None \<or> (case s of McpHttp _ _ \<Rightarrow> entry_url e \<noteq> None
       | McpSse _ _ \<Rightarrow> entry_url e \<noteq> None | McpStdio _ _ \<Rightarrow> entry_command e \<noteq> None
       | McpOther \<Rightarrow> False)) \<longleftrightarrow> entry_concerns s e" for e
    by (cases e; cases s) simp_all
  then show "(names (mcp_allowlist_new es ds) \<noteq> []
      \<or> fst (transport_match w (mcp_allowlist_new es ds) s)) \<longleftrightarrow> list_ex (entry_concerns s) es"
    by (cases s) (simp_all add: mcp_new_simps map_filter_empty list_ex_or)
  have "(is_some_and (\<lambda>p. mcp_name_matches p (mcp_server_name s)) (entry_name e)
      \<or> (case s of McpHttp _ url \<Rightarrow> is_some_and (\<lambda>p. url_glob_matches w p url) (entry_url e)
         | McpSse _ url \<Rightarrow> is_some_and (\<lambda>p. url_glob_matches w p url) (entry_url e)
         | McpStdio _ command \<Rightarrow> is_some_and (\<lambda>c. c = command) (entry_command e)
         | McpOther \<Rightarrow> False)) \<longleftrightarrow> entry_admits w s e" for e
    by (cases e; cases s) (simp_all add: is_some_and_def)
  then show "(list_ex (\<lambda>p. mcp_name_matches p (mcp_server_name s)) (names (mcp_allowlist_new es ds))
      \<or> snd (transport_match w (mcp_allowlist_new es ds) s)) \<longleftrightarrow> list_ex (entry_admits w s) es"
    by (cases s) (simp_all add: mcp_new_simps list_ex_map_filter list_ex_or)
qed

text \<open>
  For MCP servers deny beats allow: a server is allowed exactly when no entry of the deny list
  matches it and, if the allow list has any entry about its name or its transport, one of them
  matches.  So whatever the allow list says, no denied server is allowed.
\<close>

lemma mcp_deny_beats_allow:
  "is_server_allowed w (mcp_allowlist_new allow deny) server \<longleftrightarrow>
     \<not> list_ex (entry_denies w server) deny
     \<and> \<not> (list_ex (entry_concerns server) allow \<and> \<not> list_ex (entry_admits w server) allow)"
proof (cases "allow = [] \<and> deny = []")
  case True
  then show ?thesis by (simp add: is_server_allowed_def mcp_is_restricted_def mcp_new_simps)
next
  case False
  then have "mcp_is_restricted (mcp_allowlist_new allow deny)"
    by (auto simp: mcp_is_restricted_def mcp_new_simps)
  then show ?thesis
    using transport_or_name [where es = allow and ds = deny and w = w and s = server]
      server_denied_iff [where es = allow and ds = deny and w = w and s = server]
    by (auto simp: is_server_allowed_def Let_def split: prod.splits)
qed


subsection \<open>Denied hosts\<close>

lemma hd_split_on_append:
  "set a \<inter> set seps = {} \<Longrightarrow> hd (split_on seps (a @ b)) = a @ hd (split_on seps b)"
  by (induction a) (auto split: list.splits)

lemma last_split_on_append:
  assumes "set b \<inter> set seps = {}" "c \<in> set seps"
  shows "last (split_on seps (a @ c # b)) = b"
proof -
  have "\<exists>v vs. split_on seps (a @ c # b) = v # vs @ [b]"
  proof (induction a)
    case Nil
    with assms show ?case by (simp add: split_on_plain)
  next
    case (Cons d a)
    then obtain v vs where "split_on seps (a @ c # b) = v # vs @ [b]" by blast
    then have "split_on seps ((d # a) @ c # b)
        = (if d \<in> set seps then [] # (v # vs) @ [b] else (d # v) # vs @ [b])" by simp
    then show ?case by (cases "d \<in> set seps") (metis append_Cons)+
  qed
  then show ?thesis by auto
qed

lemma find_sub_append:
  "c \<notin> set a \<Longrightarrow> find_sub (a @ (c # p) @ b) (c # p) = Some (length a)"
proof (induction a)
  case Nil
  have "starts_with ((c # p) @ b) (c # p)" by (rule starts_with_append)
  then show ?case using find_sub_prefix by force
next
  case (Cons d a)
  then show ?case by auto
qed

lemma find_sub_absent: "c \<notin> set a \<Longrightarrow> find_sub a (c # p) = None"
  by (induction a) auto

lemma strip_url_query_head:
  "strip_url_query (CHR ''#'' # s) = []" "strip_url_query (CHR ''?'' # s) = []"
proof -
  obtain v vs where "split_on ''#'' s = v # vs" by (cases "split_on ''#'' s") auto
  then show "strip_url_query (CHR ''?'' # s) = []" by (simp add: strip_url_query_def)
qed (simp add: strip_url_query_def)

text \<open>A URL as it is written, with an optional user part and port.\<close>

definition url_text :: "str \<Rightarrow> str option \<Rightarrow> str \<Rightarrow> str option \<Rightarrow> str \<Rightarrow> str" where
  "url_text scheme user host port rest =
     scheme @ ''://'' @ (case user of Some u \<Rightarrow> u @ ''@'' | None \<Rightarrow> []) @ host
       @ (case port of Some p \<Rightarrow> '':'' @ p | None \<Rightarrow> []) @ rest"

definition free_of :: "str \<Rightarrow> str \<Rightarrow> bool" where
  "free_of seps s = (set s \<inter> set seps = {})"

definition well_formed_url :: "str \<Rightarrow> str option \<Rightarrow> str \<Rightarrow> str option \<Rightarrow> str \<Rightarrow> bool" where
  "well_formed_url scheme user host port rest =
     (free_of '':?#'' scheme \<and> free_of ''/?#'' (case user of Some u \<Rightarrow> u | None \<Rightarrow> [])
      \<and> free_of ''/?#@:'' host \<and> free_of ''/?#@'' (case port of Some p \<Rightarrow> p | None \<Rightarrow> [])
      \<and> (rest = [] \<or> hd rest \<in> set ''/?#''))"

definition canonical_host :: "str \<Rightarrow> str" where
  "canonical_host host = to_lowercase (trim_end_char (CHR ''.'') host)"

lemma split_url_text:
  assumes "well_formed_url scheme user host port rest"
  shows "split_host_path (strip_url_query (url_text scheme user host port rest))
    = (if canonical_host host = [] then None else Some (canonical_host host), strip_url_query rest)"
proof -
  define up where "up = (case user of Some u \<Rightarrow> u @ ''@'' | None \<Rightarrow> [])"
  define pp where "pp = (case port of Some p \<Rightarrow> '':'' @ p | None \<Rightarrow> [])"
  let ?auth = "up @ host @ pp"
  let ?path = "strip_url_query rest"
  have auth: "set ?auth \<inter> set ''/?#'' = {}" and scheme: "set scheme \<inter> set '':?#'' = {}"
    using assms by (auto simp: well_formed_url_def free_of_def up_def pp_def split: option.splits)
  have url: "url_text scheme user host port rest = (scheme @ ''://'' @ ?auth) @ rest"
    by (simp add: url_text_def up_def pp_def)
  have no_frag: "set (scheme @ ''://'' @ ?auth) \<inter> set ''#'' = {}"
    "set (scheme @ ''://'' @ ?auth) \<inter> set ''?'' = {}"
    using auth scheme by auto
  have strip: "strip_url_query (url_text scheme user host port rest) = scheme @ ''://'' @ ?auth @ ?path"
    unfolding strip_url_query_def url hd_split_on_append [OF no_frag(1)]
      hd_split_on_append [OF no_frag(2)] by simp
  have after: "find_sub (scheme @ ''://'' @ ?auth @ ?path) ''://'' = Some (length scheme)"
    using find_sub_append [of "CHR '':''" scheme "''//''" "?auth @ ?path"] scheme by auto
  have cut: "(case find_sub (?auth @ ?path) ''/'' of
      Some i \<Rightarrow> (take i (?auth @ ?path), drop i (?auth @ ?path)) | None \<Rightarrow> (?auth @ ?path, []))
      = (?auth, ?path)"
  proof (cases ?path)
    case Nil
    have "find_sub ?auth ''/'' = None" using auth by (intro find_sub_absent) auto
    with Nil show ?thesis by simp
  next
    case (Cons c cs)
    have "rest \<noteq> []" using Cons by (auto simp: strip_url_query_def)
    then obtain d ds where rest: "rest = d # ds" by (cases rest) auto
    have "d \<in> set ''/?#''" using assms rest by (simp add: well_formed_url_def)
    moreover have "d \<noteq> CHR ''?''" "d \<noteq> CHR ''#''"
      using Cons rest strip_url_query_head by auto
    ultimately have d: "d = CHR ''/''" by auto
    have "c = d" using Cons rest d by (auto simp: strip_url_query_def split: list.splits)
    with Cons d have path: "?path = ''/'' @ cs" by simp
    have "find_sub (?auth @ ''/'' @ cs) ''/'' = Some (length ?auth)"
      using find_sub_append [of "CHR ''/''" ?auth "[]" cs] auth by auto
    then show ?thesis unfolding path by simp
  qed
  have host: "set host \<inter> set ''@:'' = {}" "set (host @ pp) \<inter> set ''@'' = {}"
    using assms by (auto simp: well_formed_url_def free_of_def pp_def split: option.splits)
  have last: "last (split_on ''@'' ?auth) = host @ pp"
    using host last_split_on_append [of "host @ pp" "''@''" "CHR ''@''"] split_on_plain [of "host @ pp" "''@''"]
    by (cases user) (auto simp: up_def)
  have hd: "hd (split_on '':'' (host @ pp)) = host"
    using host hd_split_on_append [of host "'':''" pp] by (cases port) (auto simp: pp_def)
  have rest: "drop (length scheme + 3) (scheme @ ''://'' @ ?auth @ ?path) = ?auth @ ?path" by simp
  show ?thesis
    unfolding strip split_host_path_def after option.case Let_def rest cut prod.case last hd
      canonical_host_def ..
qed

text \<open>
  A denied MCP host stays denied however its URL is written: whether a deny pattern matches a
  URL does not depend on its scheme, its user part, its port, the case of the host, trailing dots
  on it, or its query and fragment.
\<close>

lemma deny_ignores_url_dressing:
  assumes "well_formed_url scheme user host port rest"
    and "well_formed_url scheme' user' host' port' rest'"
    and "canonical_host host = canonical_host host'" "strip_url_query rest = strip_url_query rest'"
  shows "url_deny_matches w pat (url_text scheme user host port rest)
    = url_deny_matches w pat (url_text scheme' user' host' port' rest')"
  unfolding url_deny_matches_def split_url_text [OF assms(1)] split_url_text [OF assms(2)] assms(3,4) ..

lemma deny_ignores_url_dressing_example:
  "url_deny_matches example_world ''evil.com'' ''http://me:x@EVIL.com.:8080/mcp?q''
   \<and> url_text ''http'' (Some ''me:x'') ''EVIL.com.'' (Some ''8080'') ''/mcp?q''
      = ''http://me:x@EVIL.com.:8080/mcp?q''"
proof -
  have "url_deny_matches example_world ''evil.com'' (url_text ''https'' None ''evil.com'' None ''/mcp'')"
    "well_formed_url ''http'' (Some ''me:x'') ''EVIL.com.'' (Some ''8080'') ''/mcp?q''"
    "well_formed_url ''https'' None ''evil.com'' None ''/mcp''"
    "canonical_host ''EVIL.com.'' = canonical_host ''evil.com''"
    "strip_url_query ''/mcp?q'' = strip_url_query ''/mcp''"
    by code_simp+
  with deny_ignores_url_dressing [of "''http''" "Some ''me:x''" "''EVIL.com.''" "Some ''8080''" "''/mcp?q''"
      "''https''" None "''evil.com''" None "''/mcp''" example_world "''evil.com''"]
  have "url_deny_matches example_world ''evil.com''
      (url_text ''http'' (Some ''me:x'') ''EVIL.com.'' (Some ''8080'') ''/mcp?q'')" by blast
  then show ?thesis by (simp add: url_text_def)
qed

end
