(* ===== verification/Sliding_Window.thy ===== *)
theory Sliding_Window
  imports Prelude Complex_Main
begin

text \<open>
  The bounded sliding window of the circuit breaker
  (\<^verbatim>\<open>common/xai-circuit-breaker/src/window.rs\<close>): timed samples with an incremental count of the
  failures among them.  An \<^verbatim>\<open>Instant\<close> and a \<^verbatim>\<open>Duration\<close> are a number of nanoseconds, an instant
  since the earliest one the clock can represent.
\<close>

subsection \<open>Operations\<close>

definition max_window_entries :: nat where
  "max_window_entries = 10000"

record sliding_window =
  entries :: "(nat \<times> bool) list"
  failures :: nat

definition window_new :: sliding_window where
  "window_new = \<lparr>entries = [], failures = 0\<rparr>"

definition window_push :: "bool \<Rightarrow> nat \<Rightarrow> sliding_window \<Rightarrow> sliding_window" where
  "window_push is_failure at_time w =
     (let w = (if max_window_entries \<le> length (entries w) then
                 (case entries w of
                    [] \<Rightarrow> w
                  | (_, was_failure) # rest \<Rightarrow>
                      \<lparr>entries = rest,
                       failures = (if was_failure then failures w - 1 else failures w)\<rparr>)
               else w)
      in \<lparr>entries = entries w @ [(at_time, is_failure)],
          failures = (if is_failure then failures w + 1 else failures w)\<rparr>)"

text \<open>The loop of \<^verbatim>\<open>evict\<close>: the front is dropped while it is older than the cutoff.\<close>

fun evict_before :: "nat \<Rightarrow> (nat \<times> bool) list \<Rightarrow> nat \<Rightarrow> sliding_window" where
  "evict_before cutoff [] fs = \<lparr>entries = [], failures = fs\<rparr>"
| "evict_before cutoff ((ts, was_failure) # rest) fs =
     (if ts < cutoff then evict_before cutoff rest (if was_failure then fs - 1 else fs)
      else \<lparr>entries = (ts, was_failure) # rest, failures = fs\<rparr>)"

definition checked_sub :: "nat \<Rightarrow> nat \<Rightarrow> nat option" where
  "checked_sub now d = (if d \<le> now then Some (now - d) else None)"

definition window_evict :: "nat \<Rightarrow> nat \<Rightarrow> sliding_window \<Rightarrow> sliding_window" where
  "window_evict d now w =
     (case checked_sub now d of
        None \<Rightarrow> w
      | Some cutoff \<Rightarrow> evict_before cutoff (entries w) (failures w))"

definition sample_count :: "sliding_window \<Rightarrow> nat" where
  "sample_count w = length (entries w)"

definition window_clear :: "sliding_window \<Rightarrow> sliding_window" where
  "window_clear w = \<lparr>entries = [], failures = 0\<rparr>"

subsection \<open>The error rate\<close>

text \<open>
  The quotient of two small whole numbers as an IEEE double: 53 significant bits, rounded to
  nearest, ties to even.  The shift that brings the quotient to 53 bits is below 128 for all
  numerators and denominators up to \<open>2\<^sup>6\<^sup>4\<close>.
\<close>

definition shift_for :: "nat \<Rightarrow> nat \<Rightarrow> nat" where
  "shift_for a b = (case find (\<lambda>e. 2 ^ 52 \<le> a * 2 ^ e div b) [0..<128] of Some e \<Rightarrow> e | None \<Rightarrow> 0)"

definition f64_quotient :: "nat \<Rightarrow> nat \<Rightarrow> rat" where
  "f64_quotient a b =
     (if a = 0 then 0
      else (let e = shift_for a b; q = a * 2 ^ e div b; r = a * 2 ^ e mod b;
                n = (if b < 2 * r \<or> (2 * r = b \<and> odd q) then q + 1 else q)
            in of_nat n / of_nat (2 ^ e)))"

definition error_rate :: "sliding_window \<Rightarrow> rat" where
  "error_rate w =
     (if entries w = [] then 0 else f64_quotient (failures w) (length (entries w)))"

subsection \<open>The interface of a counted window\<close>

text \<open>
  What a client of the window relies on: an abstraction to the list of samples it holds, of which
  it keeps at most \<open>cap\<close>, the effect of each operation on that list, and a counter that is the
  number of failures in it.
\<close>

definition failed :: "(nat \<times> bool) list \<Rightarrow> nat" where
  "failed ss = length (filter snd ss)"

locale counted_window =
  fixes ok :: "'w \<Rightarrow> bool" and samples :: "'w \<Rightarrow> (nat \<times> bool) list" and counter :: "'w \<Rightarrow> nat"
    and fresh :: 'w and push :: "bool \<Rightarrow> nat \<Rightarrow> 'w \<Rightarrow> 'w" and evict :: "nat \<Rightarrow> nat \<Rightarrow> 'w \<Rightarrow> 'w"
    and cap :: nat
  assumes ok_fresh: "ok fresh" and ok_push: "ok w \<Longrightarrow> ok (push f t w)"
    and ok_evict: "ok w \<Longrightarrow> ok (evict d now w)"
    and samples_fresh: "samples fresh = []"
    and samples_push: "ok w \<Longrightarrow> samples (push f t w)
      = (if cap \<le> length (samples w) then tl (samples w) else samples w) @ [(t, f)]"
    and samples_evict: "ok w \<Longrightarrow> samples (evict d now w)
      = dropWhile (\<lambda>s. d \<le> now \<and> fst s < now - d) (samples w)"
    and counter_failed: "ok w \<Longrightarrow> counter w = failed (samples w)"
    and cap_pos: "0 < cap" and samples_cap: "ok w \<Longrightarrow> length (samples w) \<le> cap"
begin

text \<open>The samples of a window pushed in time order and trimmed at each push.\<close>

definition run :: "nat \<Rightarrow> (bool \<times> nat) list \<Rightarrow> 'w" where
  "run d ops = fold (\<lambda>(f, t) w. evict d t (push f t w)) ops fresh"

lemma run_snoc: "run d (ops @ [(f, t)]) = evict d t (push f t (run d ops))"
  by (simp add: run_def)

lemma ok_run: "ok (run d ops)"
  by (induction ops rule: rev_induct)
    (auto simp: run_snoc ok_push ok_evict, simp add: run_def ok_fresh)

lemma dropWhile_sorted:
  "sorted (map fst ss) \<Longrightarrow> dropWhile (\<lambda>s. fst s < c) ss = filter (\<lambda>s. c \<le> fst s) ss" for c :: nat
proof (induction ss)
  case (Cons s ss)
  show ?case
  proof (cases "fst s < c")
    case True
    with Cons show ?thesis by simp
  next
    case False
    have "filter (\<lambda>s. c \<le> fst s) ss = ss"
      using Cons.prems False by (auto intro!: filter_True)
    with False show ?thesis by simp
  qed
qed simp

lemma evict_recent:
  assumes "ok w" "sorted (map fst (samples w))"
  shows "samples (evict d now w) = filter (\<lambda>s. now \<le> fst s + d) (samples w)"
proof (cases "d \<le> now")
  case True
  then have "(\<lambda>s :: nat \<times> bool. now - d \<le> fst s) = (\<lambda>s. now \<le> fst s + d)" by auto
  with True dropWhile_sorted [OF assms(2), of "now - d"] samples_evict [OF assms(1)] show ?thesis
    by simp
next
  case False
  then have "filter (\<lambda>s :: nat \<times> bool. now \<le> fst s + d) (samples w) = samples w"
    by (intro filter_True) auto
  with False samples_evict [OF assms(1)] show ?thesis by (simp add: dropWhile_eq_self_iff)
qed

text \<open>With fewer pushes than the cap, the window holds exactly the recent ones.\<close>

lemma run_recent:
  assumes "sorted (map snd ops)" "length ops \<le> cap"
  shows "samples (run d ops)
      = map prod.swap (filter (\<lambda>(f, t). \<forall>u\<in>set (map snd ops). u \<le> t + d) ops)
    \<and> sorted (map fst (samples (run d ops))) \<and> length (samples (run d ops)) \<le> length ops"
  using assms
proof (induction ops rule: rev_induct)
  case Nil
  then show ?case by (simp add: run_def samples_fresh)
next
  case (snoc op ops)
  obtain f t where op: "op = (f, t)" by (cases op)
  have le: "u \<le> t" if "u \<in> set (map snd ops)" for u
    using snoc.prems op that by (auto simp: sorted_append)
  have prem: "sorted (map snd ops)" "length ops \<le> cap" and short: "length ops < cap"
    using snoc.prems by (auto simp: sorted_append)
  note IH = snoc.IH [OF prem]
  let ?R = "run d ops"
  have "length (samples ?R) < cap" using IH short by linarith
  then have pushed: "samples (push f t ?R) = samples ?R @ [(t, f)]"
    using samples_push [OF ok_run] by simp
  have "fst s \<le> t" if "s \<in> set (samples ?R)" for s
    using IH le that by (auto simp: rev_image_eqI)
  then have sorted: "sorted (map fst (samples (push f t ?R)))"
    unfolding pushed using IH by (auto simp: sorted_append)
  have kept: "samples (run d (ops @ [op])) = filter (\<lambda>s. t \<le> fst s + d) (samples ?R @ [(t, f)])"
    unfolding op run_snoc evict_recent [OF ok_push [OF ok_run] sorted] pushed ..
  have recent: "(\<forall>u\<in>set (map snd (ops @ [op])). u \<le> t' + d) \<longleftrightarrow> t \<le> t' + d" for t'
    using le op by fastforce
  define A where "A = (\<lambda>t'. \<forall>u\<in>set (map snd ops). u \<le> t' + d)"
  have old: "A t' \<and> t \<le> t' + d \<longleftrightarrow> t \<le> t' + d" for t'
    unfolding A_def using le le_trans by blast
  have "samples ?R = map prod.swap (filter (\<lambda>(f, t). A t) ops)"
    unfolding A_def using IH by blast
  then have "filter (\<lambda>s. t \<le> fst s + d) (samples ?R)
      = map prod.swap (filter (\<lambda>(f, t'). t \<le> t' + d) ops)"
    by (auto simp: filter_map comp_def split_beta old intro: filter_cong)
  then have "samples (run d (ops @ [op]))
      = map prod.swap (filter (\<lambda>(f, t'). \<forall>u\<in>set (map snd (ops @ [op])). u \<le> t' + d) (ops @ [op]))"
    unfolding kept recent by (simp add: op)
  moreover have "sorted (map fst (samples (run d (ops @ [op]))))"
    unfolding kept using sorted pushed by (metis sorted_filter)
  moreover have "length (samples (run d (ops @ [op]))) \<le> length (ops @ [op])"
    unfolding kept using IH by (simp add: le_SucI)
  ultimately show ?case by blast
qed

lemma run_bounds: "length (samples (run d ops)) \<le> cap \<and> counter (run d ops) \<le> length (samples (run d ops))"
  using samples_cap [OF ok_run] counter_failed [OF ok_run] by (simp add: failed_def)

end


subsection \<open>The window keeps the interface\<close>

definition window_ok :: "sliding_window \<Rightarrow> bool" where
  "window_ok w = (failures w = failed (entries w) \<and> length (entries w) \<le> max_window_entries)"

lemma failed_simps [simp]:
  "failed [] = 0" "failed ((t, f) # ss) = (if f then 1 else 0) + failed ss"
  "failed (ss @ ts) = failed ss + failed ts"
  by (simp_all add: failed_def)

lemma evict_before_ok:
  "fs = failed es \<Longrightarrow>
   entries (evict_before cutoff es fs) = dropWhile (\<lambda>s. fst s < cutoff) es
   \<and> failures (evict_before cutoff es fs) = failed (dropWhile (\<lambda>s. fst s < cutoff) es)"
proof (induction cutoff es fs rule: evict_before.induct)
  case (2 cutoff ts was rest fs)
  then show ?case by (cases was) auto
qed simp

lemma window_evict_entries:
  assumes "window_ok w"
  shows "entries (window_evict d now w) = dropWhile (\<lambda>s. d \<le> now \<and> fst s < now - d) (entries w)
    \<and> failures (window_evict d now w) = failed (entries (window_evict d now w))"
proof (cases "d \<le> now")
  case True
  with assms evict_before_ok [of "failures w" "entries w" "now - d"] show ?thesis
    by (simp add: window_evict_def checked_sub_def window_ok_def)
next
  case False
  with assms show ?thesis
    by (simp add: window_evict_def checked_sub_def window_ok_def dropWhile_eq_self_iff)
qed

lemma window_push_entries:
  "window_ok w \<Longrightarrow> entries (window_push f t w)
     = (if max_window_entries \<le> length (entries w) then tl (entries w) else entries w) @ [(t, f)]
   \<and> failures (window_push f t w) = failed (entries (window_push f t w))"
  by (auto simp: window_push_def window_ok_def Let_def split: list.splits)

lemma window_new_ok: "window_ok window_new"
  and window_clear_ok: "window_ok (window_clear w)"
  by (simp_all add: window_ok_def window_new_def window_clear_def)

lemma window_push_ok: "window_ok w \<Longrightarrow> window_ok (window_push f t w)"
  using window_push_entries [of w f t]
  by (auto simp: window_ok_def max_window_entries_def split: if_splits)

lemma window_evict_ok: "window_ok w \<Longrightarrow> window_ok (window_evict d now w)"
proof -
  assume w: "window_ok w"
  have "length (entries (window_evict d now w)) \<le> length (entries w)"
    using window_evict_entries [OF w, of d now] by (simp add: length_dropWhile_le)
  with w window_evict_entries [OF w, of d now] show ?thesis by (simp add: window_ok_def)
qed

interpretation win: counted_window window_ok entries failures window_new window_push window_evict
  max_window_entries
proof unfold_locales
  fix w :: sliding_window and f :: bool and t d now :: nat
  show "window_ok window_new" by (rule window_new_ok)
  show "entries window_new = []" by (simp add: window_new_def)
  show "0 < max_window_entries" by (simp add: max_window_entries_def)
  show "window_ok (window_push f t w)" if "window_ok w" by (rule window_push_ok [OF that])
  show "window_ok (window_evict d now w)" if "window_ok w" by (rule window_evict_ok [OF that])
  show "failures w = failed (entries w)" if "window_ok w" using that by (simp add: window_ok_def)
  show "length (entries w) \<le> max_window_entries" if "window_ok w" using that by (simp add: window_ok_def)
  show "entries (window_push f t w)
      = (if max_window_entries \<le> length (entries w) then tl (entries w) else entries w) @ [(t, f)]"
    if "window_ok w" using window_push_entries [OF that] by blast
  show "entries (window_evict d now w) = dropWhile (\<lambda>s. d \<le> now \<and> fst s < now - d) (entries w)"
    if "window_ok w" using window_evict_entries [OF that] by blast
qed

text \<open>
  The window counts what it should: after recording samples in time order (fewer than the cap
  of ten thousand), it holds exactly those within the window duration of the last one, oldest
  first, and its counter is the number of failures among them.
\<close>

lemma window_holds_recent_samples:
  assumes "sorted (map snd ops)" "length ops \<le> max_window_entries"
  shows "entries (fold (\<lambda>(f, t) w. window_evict d t (window_push f t w)) ops window_new)
      = map prod.swap (filter (\<lambda>(f, t). \<forall>u\<in>set (map snd ops). u \<le> t + d) ops)
    \<and> failures (fold (\<lambda>(f, t) w. window_evict d t (window_push f t w)) ops window_new)
      = length (filter (\<lambda>(f, t). f \<and> (\<forall>u\<in>set (map snd ops). u \<le> t + d)) ops)"
proof -
  define A where "A = (\<lambda>t. \<forall>u\<in>set (map snd ops). u \<le> t + d)"
  have entries: "entries (win.run d ops) = map prod.swap (filter (\<lambda>(f, t). A t) ops)"
    using win.run_recent [OF assms] unfolding A_def by blast
  then have "failures (win.run d ops) = length (filter (\<lambda>(f, t). f \<and> A t) ops)"
    unfolding win.counter_failed [OF win.ok_run] failed_def
    by (auto simp: filter_map comp_def split_beta conj_commute intro!: arg_cong [where f = length] filter_cong)
  with entries show ?thesis unfolding A_def win.run_def by blast
qed

lemma window_holds_recent_samples_example:
  "let ops = [(True, 0), (False, 5), (True, 12)];
       w = fold (\<lambda>(f, t) w. window_evict 10 t (window_push f t w)) ops window_new
   in entries w = [(5, False), (12, True)] \<and> failures w = 1"
proof -
  have "sorted (map snd [(True, 0 :: nat), (False, 5), (True, 12)])"
    "length [(True, 0 :: nat), (False, 5), (True, 12)] \<le> max_window_entries"
    by (simp_all add: max_window_entries_def)
  from window_holds_recent_samples [OF this, of 10] show ?thesis by simp
qed

end
