(* ===== verification/Circuit_Breaker.thy ===== *)
theory Circuit_Breaker
  imports Sliding_Window "HOL-Library.Word"
begin

text \<open>
  The circuit breaker (\<^verbatim>\<open>common/xai-circuit-breaker/src\<close>: \<^verbatim>\<open>state.rs\<close>, \<^verbatim>\<open>breaker.rs\<close>,
  \<^verbatim>\<open>registry.rs\<close>) as one caller at a time uses it; the theory \<^verbatim>\<open>Breaker_Threads\<close> takes its operations apart
  into the atomic accesses of concurrent callers.  Every atomic cell is a field of the record
  \<^verbatim>\<open>breaker\<close> at its width.  Instants and durations are nanoseconds; an operation that reads the clock
  gets its readings as arguments, in the order it takes them.
\<close>

subsection \<open>State\<close>

datatype breaker_state = Closed | Open | HalfOpen

definition to_u8 :: "breaker_state \<Rightarrow> 8 word" where
  "to_u8 s = (case s of Closed \<Rightarrow> 0 | Open \<Rightarrow> 1 | HalfOpen \<Rightarrow> 2)"

text \<open>Any other byte reads as \<^verbatim>\<open>Closed\<close> (a debug build stops at an assertion first).\<close>

definition from_u8 :: "8 word \<Rightarrow> breaker_state" where
  "from_u8 v = (if v = 0 then Closed else if v = 1 then Open else if v = 2 then HalfOpen else Closed)"

datatype outcome = Success | Failure

record breaker_open =
  retry_after :: nat

type_synonym admission = "breaker_open + unit"

text \<open>A double: the threshold is compared with a rate, which is always finite.\<close>

datatype f64 = Finite rat | PosInf | NegInf | NaN

fun rate_at_least :: "rat \<Rightarrow> f64 \<Rightarrow> bool" where
  "rate_at_least r (Finite q) = (q \<le> r)"
| "rate_at_least r PosInf = False"
| "rate_at_least r NegInf = True"
| "rate_at_least r NaN = False"

record breaker_config =
  window_duration :: nat
  min_samples :: "64 word"
  error_rate_threshold :: f64
  open_duration :: nat
  half_open_max_probes :: "64 word"
  failure_codes :: "16 word list"
  enabled :: bool

definition is_failure_status :: "breaker_config \<Rightarrow> 16 word \<Rightarrow> bool" where
  "is_failure_status c status = (status \<in> set (failure_codes c))"

text \<open>The calls of the observer, in order.\<close>

datatype observation =
  StateChange breaker_state breaker_state str
| ProbeAdmission bool
| OutcomeSeen outcome breaker_state

record breaker =
  config :: breaker_config
  state_cell :: "8 word"
  baseline :: nat
  opened_at_millis :: "64 word"
  half_open_probes :: "64 word"
  probe_claimed_at_millis :: "64 word"
  is_open_fast :: bool
  window :: sliding_window
  observations :: "observation list"

definition with_clock :: "breaker_config \<Rightarrow> nat \<Rightarrow> breaker" where
  "with_clock c now =
     \<lparr>config = c\<lparr>half_open_max_probes := max (half_open_max_probes c) 1\<rparr>,
      state_cell = to_u8 Closed, baseline = now, opened_at_millis = 0, half_open_probes = 0,
      probe_claimed_at_millis = 0, is_open_fast = False, window = window_new, observations = []\<rparr>"

subsection \<open>Operations\<close>

definition breaker_state_of :: "breaker \<Rightarrow> breaker_state" where
  "breaker_state_of b = from_u8 (state_cell b)"

definition is_open :: "breaker \<Rightarrow> bool" where
  "is_open b = is_open_fast b"

definition observe :: "observation \<Rightarrow> breaker \<Rightarrow> breaker" where
  "observe ev b = b\<lparr>observations := observations b @ [ev]\<rparr>"

definition observe_change :: "breaker_state \<Rightarrow> breaker_state \<Rightarrow> str \<Rightarrow> breaker \<Rightarrow> breaker" where
  "observe_change old new reason b = (if old \<noteq> new then observe (StateChange old new reason) b else b)"

definition millis :: nat where
  "millis = 1000000"

text \<open>\<^verbatim>\<open>as u64\<close> keeps the low 64 bits.\<close>

definition elapsed_millis :: "breaker \<Rightarrow> nat \<Rightarrow> 64 word" where
  "elapsed_millis b now = of_nat ((now - baseline b) div millis)"

definition saturating_sub :: "64 word \<Rightarrow> 64 word \<Rightarrow> 64 word" where
  "saturating_sub a b = (if b \<le> a then a - b else 0)"

definition from_millis :: "64 word \<Rightarrow> nat" where
  "from_millis m = unat m * millis"

definition lease_millis :: "breaker_config \<Rightarrow> 64 word" where
  "lease_millis c = of_nat (open_duration c div millis)"

definition half_open_probe_backoff :: nat where
  "half_open_probe_backoff = 50 * millis"

definition try_half_open_probe :: "breaker \<Rightarrow> nat \<Rightarrow> breaker \<times> admission" where
  "try_half_open_probe b t =
     (let now = elapsed_millis b t;
          prev = half_open_probes b;
          b = b\<lparr>half_open_probes := prev + 1\<rparr>
      in if prev < half_open_max_probes (config b)
         then (observe (ProbeAdmission True) (b\<lparr>probe_claimed_at_millis := now\<rparr>), Inr ())
         else
           (let b = b\<lparr>half_open_probes := half_open_probes b - 1\<rparr>;
                claimed = probe_claimed_at_millis b
            in if lease_millis (config b) \<le> saturating_sub now claimed
                  \<and> probe_claimed_at_millis b = claimed
               then (observe (ProbeAdmission True) (b\<lparr>probe_claimed_at_millis := now\<rparr>), Inr ())
               else (observe (ProbeAdmission False) b,
                     Inl \<lparr>retry_after = min half_open_probe_backoff (open_duration (config b))\<rparr>)))"

text \<open>Compare-and-exchange on the state cell.\<close>

definition cas_state :: "breaker_state \<Rightarrow> breaker_state \<Rightarrow> breaker \<Rightarrow> breaker \<times> bool" where
  "cas_state old new b =
     (if state_cell b = to_u8 old then (b\<lparr>state_cell := to_u8 new\<rparr>, True) else (b, False))"

definition shed_open :: "breaker \<Rightarrow> nat \<Rightarrow> breaker_open" where
  "shed_open b t =
     \<lparr>retry_after = open_duration (config b)
        - from_millis (saturating_sub (elapsed_millis b t) (opened_at_millis b))\<rparr>"

definition check_open :: "breaker \<Rightarrow> nat \<Rightarrow> nat \<Rightarrow> breaker \<times> admission" where
  "check_open b t1 t2 =
     (if open_duration (config b)
         \<le> from_millis (saturating_sub (elapsed_millis b t1) (opened_at_millis b))
      then (case cas_state Open HalfOpen b of
          (b, True) \<Rightarrow>
            try_half_open_probe
              (observe (StateChange Open HalfOpen ''open_elapsed'') (b\<lparr>is_open_fast := False\<rparr>)) t2
        | (b, False) \<Rightarrow>
            (case breaker_state_of b of
               Closed \<Rightarrow> (b, Inr ())
             | HalfOpen \<Rightarrow> try_half_open_probe b t2
             | Open \<Rightarrow> (b, Inl (shed_open b t2))))
      else (b, Inl (shed_open b t1)))"

definition breaker_check :: "breaker \<Rightarrow> nat \<Rightarrow> nat \<Rightarrow> breaker \<times> admission" where
  "breaker_check b t1 t2 =
     (if \<not> enabled (config b) then (b, Inr ())
      else case breaker_state_of b of
        Closed \<Rightarrow> (b, Inr ())
      | Open \<Rightarrow> check_open b t1 t2
      | HalfOpen \<Rightarrow> try_half_open_probe b t1)"

definition trip :: "breaker_state \<Rightarrow> str \<Rightarrow> nat \<Rightarrow> breaker \<Rightarrow> breaker" where
  "trip prev reason t b =
     observe_change prev Open reason
       (b\<lparr>state_cell := to_u8 Open, opened_at_millis := elapsed_millis b t, half_open_probes := 0,
          is_open_fast := True\<rparr>)"

definition close :: "breaker_state \<Rightarrow> str \<Rightarrow> breaker \<Rightarrow> breaker" where
  "close prev reason b =
     observe_change prev Closed reason
       (b\<lparr>state_cell := to_u8 Closed, window := window_clear (window b), half_open_probes := 0,
          is_open_fast := False\<rparr>)"

definition sample :: "bool \<Rightarrow> nat \<Rightarrow> breaker \<Rightarrow> breaker" where
  "sample is_failure t b =
     b\<lparr>window := window_evict (window_duration (config b)) t (window_push is_failure t (window b))\<rparr>"

definition should_trip :: "breaker \<Rightarrow> bool" where
  "should_trip b =
     (unat (min_samples (config b)) \<le> sample_count (window b)
      \<and> rate_at_least (error_rate (window b)) (error_rate_threshold (config b)))"

definition breaker_record :: "breaker \<Rightarrow> outcome \<Rightarrow> nat \<Rightarrow> nat \<Rightarrow> breaker" where
  "breaker_record b oc t1 t2 =
     (if \<not> enabled (config b) then b
      else
        (let is_failure = (oc = Failure);
             prev = breaker_state_of b;
             b = (case prev of
                Closed \<Rightarrow>
                  (let b = sample is_failure t1 b
                   in if should_trip b then trip prev ''trip'' t2 b else b)
              | HalfOpen \<Rightarrow>
                  (if is_failure then trip prev ''probe_failure'' t2 b
                   else close prev ''probe_success'' b)
              | Open \<Rightarrow> sample is_failure t1 b)
         in observe (OutcomeSeen oc (breaker_state_of b)) b))"

definition breaker_error_rate :: "breaker \<Rightarrow> nat \<Rightarrow> breaker \<times> rat" where
  "breaker_error_rate b t =
     (let b = b\<lparr>window := window_evict (window_duration (config b)) t (window b)\<rparr>
      in (b, error_rate (window b)))"

text \<open>The runs of a breaker: any operations, one after the other, while the clock goes forward.\<close>

inductive breaker_step :: "breaker \<times> nat \<Rightarrow> breaker \<times> nat \<Rightarrow> bool" where
  Check: "t \<le> t1 \<Longrightarrow> t1 \<le> t2 \<Longrightarrow> breaker_step (b, t) (fst (breaker_check b t1 t2), t2)"
| Record: "t \<le> t1 \<Longrightarrow> t1 \<le> t2 \<Longrightarrow> breaker_step (b, t) (breaker_record b oc t1 t2, t2)"
| Rate: "t \<le> t1 \<Longrightarrow> breaker_step (b, t) (fst (breaker_error_rate b t1), t1)"

definition breaker_reachable :: "breaker_config \<Rightarrow> nat \<Rightarrow> breaker \<times> nat \<Rightarrow> bool" where
  "breaker_reachable c t0 = breaker_step\<^sup>*\<^sup>* (with_clock c t0, t0)"

subsection \<open>The cells\<close>

lemma from_u8_to_u8 [simp]: "from_u8 (to_u8 s) = s"
  by (cases s) (simp_all add: from_u8_def to_u8_def)

lemma to_u8_eq [simp]: "to_u8 s = to_u8 s' \<longleftrightarrow> s = s'"
  using from_u8_to_u8 by metis

lemma unat_saturating_sub [simp]: "unat (saturating_sub a b) = unat a - unat b"
  by (simp add: saturating_sub_def unat_sub word_le_nat_alt)

lemma observe_simps [simp]:
  "config (observe ev b) = config b" "state_cell (observe ev b) = state_cell b"
  "baseline (observe ev b) = baseline b" "opened_at_millis (observe ev b) = opened_at_millis b"
  "half_open_probes (observe ev b) = half_open_probes b"
  "probe_claimed_at_millis (observe ev b) = probe_claimed_at_millis b"
  "is_open_fast (observe ev b) = is_open_fast b" "window (observe ev b) = window b"
  by (simp_all add: observe_def)

lemma observe_change_simps [simp]:
  "config (observe_change x y r b) = config b" "state_cell (observe_change x y r b) = state_cell b"
  "baseline (observe_change x y r b) = baseline b"
  "opened_at_millis (observe_change x y r b) = opened_at_millis b"
  "half_open_probes (observe_change x y r b) = half_open_probes b"
  "probe_claimed_at_millis (observe_change x y r b) = probe_claimed_at_millis b"
  "is_open_fast (observe_change x y r b) = is_open_fast b"
  "window (observe_change x y r b) = window b"
  by (simp_all add: observe_change_def)

text \<open>The milliseconds since the baseline, before they are cut to 64 bits.\<close>

definition ms_at :: "breaker \<Rightarrow> nat \<Rightarrow> nat" where
  "ms_at b t = (t - baseline b) div millis"

lemma ms_at_mono: "t \<le> t' \<Longrightarrow> ms_at b t \<le> ms_at b t'"
  by (simp add: ms_at_def div_le_mono diff_le_mono)

lemma unat_elapsed [simp]: "ms_at b t < 2 ^ 64 \<Longrightarrow> unat (elapsed_millis b t) = ms_at b t"
  by (simp add: elapsed_millis_def ms_at_def unat_of_nat take_bit_nat_eq_self)

lemma ms_at_cong: "baseline b' = baseline b \<Longrightarrow> ms_at b' t = ms_at b t"
  by (simp add: ms_at_def)

lemma elapsed_cong: "baseline b' = baseline b \<Longrightarrow> elapsed_millis b' t = elapsed_millis b t"
  by (simp add: elapsed_millis_def)

subsection \<open>The invariant\<close>

definition probes_ok :: "breaker \<Rightarrow> bool" where
  "probes_ok b =
     (1 \<le> half_open_max_probes (config b)
      \<and> half_open_probes b \<le> half_open_max_probes (config b)
      \<and> (breaker_state_of b = HalfOpen \<longleftrightarrow> half_open_probes b \<noteq> 0))"

definition stamps_ok :: "breaker \<Rightarrow> nat \<Rightarrow> bool" where
  "stamps_ok b t =
     (unat (opened_at_millis b) \<le> ms_at b t \<and> unat (probe_claimed_at_millis b) \<le> ms_at b t)"

definition cells_ok :: "breaker \<Rightarrow> bool" where
  "cells_ok b =
     (state_cell b = to_u8 (breaker_state_of b)
      \<and> (is_open_fast b \<longleftrightarrow> breaker_state_of b = Open) \<and> window_ok (window b))"

definition breaker_inv :: "breaker \<times> nat \<Rightarrow> bool" where
  "breaker_inv = (\<lambda>(b, t). cells_ok b \<and> probes_ok b \<and> (ms_at b t < 2 ^ 64 \<longrightarrow> stamps_ok b t))"

lemma elapsed_le: "unat (elapsed_millis b t) \<le> ms_at b t"
  by (simp add: elapsed_millis_def ms_at_def unat_of_nat)

lemma stamps_ok_mono: "stamps_ok b t \<Longrightarrow> t \<le> t' \<Longrightarrow> stamps_ok b t'"
  using ms_at_mono [of t t' b] by (auto simp: stamps_ok_def)

text \<open>An admission through a free slot raises the counter by one, without wrap-around.\<close>

lemma slot_free: "p < m \<Longrightarrow> p + 1 \<noteq> 0 \<and> p + 1 \<le> (m :: 'a::len word)"
proof -
  assume less: "p < m"
  then have "p \<noteq> - 1" by (metis word_order.not_eq_extremum not_less_iff_gr_or_eq)
  then have "p + 1 \<noteq> 0" by (metis add.inverse_inverse add_eq_0_iff)
  with inc_le [OF less] show ?thesis by blast
qed

lemma probe_cases:
  "half_open_probes b < half_open_max_probes (config b)
    \<and> try_half_open_probe b t
      = (observe (ProbeAdmission True) (b\<lparr>half_open_probes := half_open_probes b + 1,
           probe_claimed_at_millis := elapsed_millis b t\<rparr>), Inr ())
   \<or> half_open_max_probes (config b) \<le> half_open_probes b
    \<and> lease_millis (config b) \<le> saturating_sub (elapsed_millis b t) (probe_claimed_at_millis b)
    \<and> try_half_open_probe b t
      = (observe (ProbeAdmission True) (b\<lparr>probe_claimed_at_millis := elapsed_millis b t\<rparr>), Inr ())
   \<or> half_open_max_probes (config b) \<le> half_open_probes b
    \<and> \<not> lease_millis (config b) \<le> saturating_sub (elapsed_millis b t) (probe_claimed_at_millis b)
    \<and> try_half_open_probe b t
      = (observe (ProbeAdmission False) b,
         Inl \<lparr>retry_after = min half_open_probe_backoff (open_duration (config b))\<rparr>)"
  by (auto simp: try_half_open_probe_def Let_def)

lemma state_of_cell: "state_cell b = to_u8 s \<Longrightarrow> breaker_state_of b = s"
  by (simp add: breaker_state_of_def)

lemma state_of_cong: "state_cell b' = state_cell b \<Longrightarrow> breaker_state_of b' = breaker_state_of b"
  by (simp add: breaker_state_of_def)

lemma breaker_invI:
  "\<lbrakk>cells_ok b; probes_ok b; ms_at b t < 2 ^ 64 \<Longrightarrow> stamps_ok b t\<rbrakk> \<Longrightarrow> breaker_inv (b, t)"
  by (simp add: breaker_inv_def)

lemma probe_inv:
  assumes "cells_ok b" "breaker_state_of b = HalfOpen" "1 \<le> half_open_max_probes (config b)"
    and "half_open_probes b \<le> half_open_max_probes (config b)"
    and "ms_at b t < 2 ^ 64 \<Longrightarrow> stamps_ok b t"
  shows "breaker_inv (fst (try_half_open_probe b t), t)"
proof -
  have nonzero: "half_open_probes b \<noteq> 0" if "half_open_max_probes (config b) \<le> half_open_probes b"
    using that assms(3) by auto
  from assms show ?thesis
    using probe_cases [of b t] slot_free [of "half_open_probes b" "half_open_max_probes (config b)"]
      elapsed_le [of b t] nonzero
    by (auto simp: breaker_inv_def cells_ok_def probes_ok_def stamps_ok_def breaker_state_of_def
        ms_at_def)
qed

lemma check_open_cases:
  assumes "breaker_state_of b = Open" "cells_ok b"
  defines "b1 \<equiv> observe (StateChange Open HalfOpen ''open_elapsed'')
    (b\<lparr>state_cell := to_u8 HalfOpen, is_open_fast := False\<rparr>)"
  shows "check_open b t1 t2 =
    (if open_duration (config b)
         \<le> from_millis (saturating_sub (elapsed_millis b t1) (opened_at_millis b))
     then try_half_open_probe b1 t2 else (b, Inl (shed_open b t1)))"
  using assms by (simp add: check_open_def cas_state_def cells_ok_def)

lemma breaker_inv_later:
  "breaker_inv (b, t) \<Longrightarrow> t \<le> t' \<Longrightarrow> breaker_inv (b, t')"
  using stamps_ok_mono [of b t t'] ms_at_mono [of t t' b] by (auto simp: breaker_inv_def)

lemma breaker_inv_Pair:
  "breaker_inv (b, t) \<Longrightarrow> cells_ok b" "breaker_inv (b, t) \<Longrightarrow> probes_ok b"
  "breaker_inv (b, t) \<Longrightarrow> ms_at b t < 2 ^ 64 \<Longrightarrow> stamps_ok b t"
  by (simp_all add: breaker_inv_def)

lemma check_inv:
  assumes inv: "breaker_inv (b, t)" and le: "t \<le> t1" "t1 \<le> t2"
  shows "breaker_inv (fst (breaker_check b t1 t2), t2)"
proof -
  note at = breaker_inv_later [OF inv]
  have later: "breaker_inv (b, t2)" using at le by simp
  show ?thesis
  proof (cases "enabled (config b) \<and> breaker_state_of b \<noteq> Closed")
    case False
    with later show ?thesis by (auto simp: breaker_check_def)
  next
    case True
    note cells = breaker_inv_Pair(1) [OF inv] and probes = breaker_inv_Pair(2) [OF inv]
    consider (half) "breaker_state_of b = HalfOpen" | (opened) "breaker_state_of b = Open"
      using True by (cases "breaker_state_of b") auto
    then show ?thesis
    proof cases
      case half
      have "breaker_inv (fst (try_half_open_probe b t1), t1)"
        using probe_inv [OF cells half] probes breaker_inv_Pair(3) [OF at [OF le(1)]]
        by (simp add: probes_ok_def)
      with half True show ?thesis
        by (simp add: breaker_check_def breaker_inv_later [OF _ le(2)])
    next
      case opened
      let ?b1 = "observe (StateChange Open HalfOpen ''open_elapsed'')
        (b\<lparr>state_cell := to_u8 HalfOpen, is_open_fast := False\<rparr>)"
      have "breaker_inv (fst (try_half_open_probe ?b1 t2), t2)"
      proof (rule probe_inv)
        show "cells_ok ?b1" using cells by (simp add: cells_ok_def breaker_state_of_def)
        show "breaker_state_of ?b1 = HalfOpen" by (simp add: breaker_state_of_def)
        show "1 \<le> half_open_max_probes (config ?b1)" using probes by (simp add: probes_ok_def)
        show "half_open_probes ?b1 \<le> half_open_max_probes (config ?b1)"
          using probes by (simp add: probes_ok_def)
        show "stamps_ok ?b1 t2" if "ms_at ?b1 t2 < 2 ^ 64"
          using breaker_inv_Pair(3) [OF later] that by (simp add: stamps_ok_def ms_at_def)
      qed
      then show ?thesis
        using later opened True by (simp add: breaker_check_def check_open_cases [OF opened cells])
    qed
  qed
qed

lemma sample_simps [simp]:
  "config (sample f t b) = config b" "state_cell (sample f t b) = state_cell b"
  "baseline (sample f t b) = baseline b" "opened_at_millis (sample f t b) = opened_at_millis b"
  "half_open_probes (sample f t b) = half_open_probes b"
  "probe_claimed_at_millis (sample f t b) = probe_claimed_at_millis b"
  "is_open_fast (sample f t b) = is_open_fast b"
  "breaker_state_of (sample f t b) = breaker_state_of b"
  by (simp_all add: sample_def breaker_state_of_def)

lemma sample_window_ok: "window_ok (window b) \<Longrightarrow> window_ok (window (sample f t b))"
  by (simp add: sample_def window_evict_ok window_push_ok)

lemma trip_simps [simp]:
  "config (trip p r t b) = config b" "state_cell (trip p r t b) = to_u8 Open"
  "baseline (trip p r t b) = baseline b" "opened_at_millis (trip p r t b) = elapsed_millis b t"
  "half_open_probes (trip p r t b) = 0"
  "probe_claimed_at_millis (trip p r t b) = probe_claimed_at_millis b"
  "is_open_fast (trip p r t b)" "window (trip p r t b) = window b"
  "breaker_state_of (trip p r t b) = Open"
  by (simp_all add: trip_def breaker_state_of_def)

lemma close_simps [simp]:
  "config (close p r b) = config b" "state_cell (close p r b) = to_u8 Closed"
  "baseline (close p r b) = baseline b" "opened_at_millis (close p r b) = opened_at_millis b"
  "half_open_probes (close p r b) = 0"
  "probe_claimed_at_millis (close p r b) = probe_claimed_at_millis b"
  "\<not> is_open_fast (close p r b)" "window (close p r b) = window_new"
  "breaker_state_of (close p r b) = Closed"
  by (simp_all add: close_def breaker_state_of_def window_clear_def window_new_def)

lemma cells_ok_sample: "cells_ok b \<Longrightarrow> cells_ok (sample f t b)"
  by (simp add: cells_ok_def sample_window_ok)

lemma probes_ok_cong:
  "\<lbrakk>config b' = config b; half_open_probes b' = half_open_probes b; state_cell b' = state_cell b\<rbrakk>
   \<Longrightarrow> probes_ok b' = probes_ok b"
  by (simp add: probes_ok_def breaker_state_of_def)

lemma stamps_ok_cong:
  "\<lbrakk>baseline b' = baseline b; opened_at_millis b' = opened_at_millis b;
    probe_claimed_at_millis b' = probe_claimed_at_millis b\<rbrakk>
   \<Longrightarrow> stamps_ok b' t = stamps_ok b t"
  by (simp add: stamps_ok_def ms_at_def)

lemma breaker_inv_observe: "breaker_inv (b, t) \<Longrightarrow> breaker_inv (observe ev b, t)"
  by (simp add: breaker_inv_def cells_ok_def probes_ok_def stamps_ok_def ms_at_def breaker_state_of_def)

lemma breaker_inv_sample: "breaker_inv (b, t) \<Longrightarrow> breaker_inv (sample f u b, t)"
  by (simp add: breaker_inv_def cells_ok_sample probes_ok_cong [of "sample f u b" b]
      stamps_ok_cong [of "sample f u b" b] ms_at_cong [of "sample f u b" b])

lemma breaker_inv_trip:
  assumes "breaker_inv (b, t)" shows "breaker_inv (trip p r t b, t)"
  using assms elapsed_le [of b t]
  by (auto simp: breaker_inv_def cells_ok_def probes_ok_def stamps_ok_def ms_at_def)

lemma breaker_inv_close: "breaker_inv (b, t) \<Longrightarrow> breaker_inv (close p r b, t)"
  by (auto simp: breaker_inv_def cells_ok_def probes_ok_def stamps_ok_def ms_at_def window_new_ok)

lemma record_inv:
  assumes "breaker_inv (b, t)" "t \<le> t1" "t1 \<le> t2"
  shows "breaker_inv (breaker_record b oc t1 t2, t2)"
proof -
  have "breaker_inv (b, t2)" using breaker_inv_later assms by auto
  then show ?thesis
    by (auto simp: breaker_record_def Let_def split: breaker_state.split
        intro!: breaker_inv_observe breaker_inv_sample breaker_inv_trip breaker_inv_close)
qed

lemma rate_inv:
  assumes "breaker_inv (b, t)" "t \<le> t1"
  shows "breaker_inv (fst (breaker_error_rate b t1), t1)"
  using breaker_inv_later [OF assms]
  by (simp add: breaker_error_rate_def Let_def breaker_inv_def cells_ok_def probes_ok_def
      stamps_ok_def ms_at_def breaker_state_of_def window_evict_ok)

lemma with_clock_inv: "breaker_inv (with_clock c t0, t0)"
  by (simp add: breaker_inv_def with_clock_def cells_ok_def probes_ok_def stamps_ok_def
      breaker_state_of_def window_new_ok)

interpretation cb: invariant_of "(with_clock c t0, t0)" breaker_step breaker_inv for c t0
proof unfold_locales
  show "breaker_inv (with_clock c t0, t0)" by (rule with_clock_inv)
  show "breaker_inv s'" if "breaker_inv s" "breaker_step s s'" for s s'
    using that(2,1) by cases (auto intro: check_inv record_inv rate_inv)
qed

lemma reachable_inv: "breaker_reachable c t0 (b, t) \<Longrightarrow> breaker_inv (b, t)"
  unfolding breaker_reachable_def by (rule cb.inv_reachable)

text \<open>The configuration and the baseline never change.\<close>

lemma probe_fixed:
  "config (fst (try_half_open_probe b t)) = config b \<and> baseline (fst (try_half_open_probe b t)) = baseline b"
  using probe_cases [of b t] by auto

lemma check_fixed:
  "config (fst (breaker_check b t1 t2)) = config b \<and> baseline (fst (breaker_check b t1 t2)) = baseline b"
  using probe_fixed
  by (auto simp: breaker_check_def check_open_def cas_state_def split: breaker_state.split)

lemma record_fixed:
  "config (breaker_record b oc t1 t2) = config b \<and> baseline (breaker_record b oc t1 t2) = baseline b"
  by (auto simp: breaker_record_def Let_def split: breaker_state.split)

lemma step_fixed:
  "breaker_step s s' \<Longrightarrow> config (fst s') = config (fst s) \<and> baseline (fst s') = baseline (fst s)"
  by (induction rule: breaker_step.induct)
    (simp_all add: check_fixed record_fixed breaker_error_rate_def Let_def)

interpretation cb_fixed: invariant_of "(with_clock c t0, t0)" breaker_step
  "\<lambda>s. config (fst s) = config (with_clock c t0) \<and> baseline (fst s) = t0" for c t0
  by unfold_locales (auto simp: with_clock_def dest: step_fixed)

lemma reachable_fixed:
  assumes "breaker_reachable c t0 (b, t)"
  shows "config b = c\<lparr>half_open_max_probes := max (half_open_max_probes c) 1\<rparr>" "baseline b = t0"
  using cb_fixed.inv_reachable [OF assms [unfolded breaker_reachable_def]]
  by (simp_all add: with_clock_def)

subsection \<open>The machine the breaker implements\<close>

text \<open>
  Without cells, mirrors and word arithmetic: the breaker is shut, or tripped since a millisecond,
  or probing with a number of claimed slots and the millisecond of the last claim.
\<close>

datatype phase = Shut | Tripped nat | Probing nat nat

definition phase_of :: "breaker \<Rightarrow> phase" where
  "phase_of b = (case breaker_state_of b of
     Closed \<Rightarrow> Shut
   | Open \<Rightarrow> Tripped (unat (opened_at_millis b))
   | HalfOpen \<Rightarrow> Probing (unat (half_open_probes b)) (unat (probe_claimed_at_millis b)))"

definition slot_backoff :: "breaker_config \<Rightarrow> breaker_open" where
  "slot_backoff c = \<lparr>retry_after = min half_open_probe_backoff (open_duration c)\<rparr>"

fun phase_check :: "breaker_config \<Rightarrow> nat \<Rightarrow> nat \<Rightarrow> phase \<Rightarrow> phase \<times> admission" where
  "phase_check c m1 m2 Shut = (Shut, Inr ())"
| "phase_check c m1 m2 (Tripped since) =
     (if open_duration c \<le> (m1 - since) * millis then (Probing 1 m2, Inr ())
      else (Tripped since, Inl \<lparr>retry_after = open_duration c - (m1 - since) * millis\<rparr>))"
| "phase_check c m1 m2 (Probing claimed latest) =
     (if claimed < unat (half_open_max_probes c) then (Probing (claimed + 1) m1, Inr ())
      else if unat (lease_millis c) \<le> m1 - latest then (Probing claimed m1, Inr ())
      else (Probing claimed latest, Inl (slot_backoff c)))"

fun phase_record :: "bool \<Rightarrow> bool \<Rightarrow> nat \<Rightarrow> phase \<Rightarrow> phase" where
  "phase_record is_failure tripping m Shut = (if tripping then Tripped m else Shut)"
| "phase_record is_failure tripping m (Tripped since) = Tripped since"
| "phase_record is_failure tripping m (Probing claimed latest) =
     (if is_failure then Tripped m else Shut)"

lemma lease_test:
  "ms_at b t < 2 ^ 64 \<Longrightarrow>
   lease_millis c \<le> saturating_sub (elapsed_millis b t) claimed
     \<longleftrightarrow> unat (lease_millis c) \<le> ms_at b t - unat claimed"
  by (simp add: word_le_nat_alt)

lemma unat_slot: "p < m \<Longrightarrow> unat (p + 1) = unat p + 1" for p m :: "64 word"
  using slot_free [of p m] by (metis add.commute plus_1_eq_Suc unatSuc)

lemma probe_phase:
  assumes "breaker_state_of b = HalfOpen" "ms_at b t < 2 ^ 64"
  shows "phase_of (fst (try_half_open_probe b t)) = fst (phase_check (config b) (ms_at b t) m (phase_of b))
    \<and> snd (try_half_open_probe b t) = snd (phase_check (config b) (ms_at b t) m (phase_of b))"
  using assms probe_cases [of b t] unat_slot
  by (auto simp: phase_of_def breaker_state_of_def lease_test word_less_nat_alt word_le_nat_alt slot_backoff_def)

lemma check_phase:
  assumes inv: "breaker_inv (b, t)" and on: "enabled (config b)"
    and fits: "ms_at b t1 < 2 ^ 64" "ms_at b t2 < 2 ^ 64"
  shows "phase_of (fst (breaker_check b t1 t2))
      = fst (phase_check (config b) (ms_at b t1) (ms_at b t2) (phase_of b))
    \<and> snd (breaker_check b t1 t2) = snd (phase_check (config b) (ms_at b t1) (ms_at b t2) (phase_of b))"
proof (cases "breaker_state_of b")
  case Closed
  then show ?thesis using on by (simp add: breaker_check_def phase_of_def)
next
  case HalfOpen
  then show ?thesis using on probe_phase [OF HalfOpen fits(1)] by (simp add: breaker_check_def)
next
  case opened: Open
  let ?b1 = "observe (StateChange Open HalfOpen ''open_elapsed'')
    (b\<lparr>state_cell := to_u8 HalfOpen, is_open_fast := False\<rparr>)"
  have b: "cells_ok b" "half_open_probes b = 0" "1 \<le> half_open_max_probes (config b)"
    using inv opened by (auto simp: breaker_inv_def probes_ok_def)
  have half: "breaker_state_of ?b1 = HalfOpen" "phase_of ?b1 = Probing 0 (unat (probe_claimed_at_millis b))"
    using b by (simp_all add: breaker_state_of_def phase_of_def)
  have "0 < unat (half_open_max_probes (config b))"
    using b(3) by (simp add: word_le_nat_alt)
  then have probe: "phase_of (fst (try_half_open_probe ?b1 t2)) = Probing 1 (ms_at b t2)"
      "snd (try_half_open_probe ?b1 t2) = Inr ()"
    using probe_phase [OF half(1), of t2 undefined] fits(2) half(2) by (simp_all add: ms_at_def)
  show ?thesis
    using opened on fits probe
    by (simp add: breaker_check_def check_open_cases [OF opened b(1)] phase_of_def from_millis_def
        shed_open_def)
qed

lemma record_phase:
  assumes "enabled (config b)" "ms_at b t2 < 2 ^ 64"
  shows "phase_of (breaker_record b oc t1 t2)
      = phase_record (oc = Failure) (should_trip (sample (oc = Failure) t1 b)) (ms_at b t2) (phase_of b)"
proof -
  have "ms_at (sample f t b) t2 = ms_at b t2" for f t by (simp add: ms_at_def)
  with assms show ?thesis
    by (cases "breaker_state_of b")
      (auto simp: breaker_record_def Let_def phase_of_def breaker_state_of_def elapsed_cong [of "sample _ _ b" b])
qed

subsection \<open>Several callers, one after the other\<close>

fun run_checks :: "breaker \<Rightarrow> (nat \<times> nat) list \<Rightarrow> breaker \<times> admission list" where
  "run_checks b [] = (b, [])"
| "run_checks b ((t1, t2) # ts) =
     (let (b1, r) = breaker_check b t1 t2; (b2, rs) = run_checks b1 ts in (b2, r # rs))"

text \<open>The clock readings of a list of calls go forward from an instant.\<close>

fun clock_runs :: "nat \<Rightarrow> (nat \<times> nat) list \<Rightarrow> bool" where
  "clock_runs t [] = True"
| "clock_runs t ((t1, t2) # ts) = (t \<le> t1 \<and> t1 \<le> t2 \<and> clock_runs t2 ts)"

fun run_records :: "breaker \<Rightarrow> (outcome \<times> nat \<times> nat) list \<Rightarrow> breaker" where
  "run_records b [] = b"
| "run_records b ((oc, t1, t2) # os) = run_records (breaker_record b oc t1 t2) os"

definition admissions :: "admission list \<Rightarrow> nat" where
  "admissions rs = length (filter (\<lambda>r. r = Inr ()) rs)"

lemma admissions_simps [simp]:
  "admissions [] = 0" "admissions (Inr () # rs) = Suc (admissions rs)"
  "admissions (Inl e # rs) = admissions rs"
  by (simp_all add: admissions_def)

lemma run_checks_Cons:
  "snd (run_checks b ((t1, t2) # ts))
     = snd (breaker_check b t1 t2) # snd (run_checks (fst (breaker_check b t1 t2)) ts)"
  by (simp add: split_beta Let_def)

lemma admissions_Cons:
  "admissions (r # rs) = (if r = Inr () then 1 else 0) + admissions rs"
  by (simp add: admissions_def)

lemma clock_runs_mono: "clock_runs t ts \<Longrightarrow> s \<le> t \<Longrightarrow> clock_runs s ts"
  by (cases ts) auto

lemma clock_runs_later: "clock_runs t ts \<Longrightarrow> u \<in> set ts \<Longrightarrow> t \<le> fst u \<and> fst u \<le> snd u"
  by (induction t ts rule: clock_runs.induct) (auto intro: le_trans)

text \<open>Within the lease of the first claim, a probing breaker hands out its free slots and no more.\<close>

lemma run_checks_probing:
  assumes "breaker_inv (b, t)" "enabled (config b)" "phase_of b = Probing n latest" "m0 \<le> latest"
    and "n \<le> unat (half_open_max_probes (config b))" "clock_runs t ts" "m0 \<le> ms_at b t"
    and "\<And>u1 u2. (u1, u2) \<in> set ts \<Longrightarrow> ms_at b u2 < 2 ^ 64
      \<and> ms_at b u1 < m0 + unat (lease_millis (config b))"
  shows "admissions (snd (run_checks b ts))
    = min (length ts) (unat (half_open_max_probes (config b)) - n)"
  using assms
proof (induction ts arbitrary: b t n latest)
  case (Cons u ts)
  obtain t1 t2 where u: "u = (t1, t2)" by (cases u)
  let ?b = "fst (breaker_check b t1 t2)" and ?M = "unat (half_open_max_probes (config b))"
  have clock: "t \<le> t1" "t1 \<le> t2" "clock_runs t2 ts" using Cons.prems(6) u by auto
  have within: "ms_at b t2 < 2 ^ 64" "ms_at b t1 < m0 + unat (lease_millis (config b))"
    using Cons.prems(8) u by auto
  have grow: "ms_at b t \<le> ms_at b t1" "ms_at b t1 \<le> ms_at b t2"
    using clock ms_at_mono by blast+
  have fixed: "config ?b = config b" "ms_at ?b = ms_at b"
    using check_fixed [of b t1 t2] by (auto simp: ms_at_def fun_eq_iff)
  have inv: "breaker_inv (?b, t2)" by (rule check_inv [OF Cons.prems(1) clock(1,2)])
  have "ms_at b t1 < 2 ^ 64" using grow within by simp
  note step = check_phase [OF Cons.prems(1,2) this within(1)]
  have "\<not> unat (lease_millis (config b)) \<le> ms_at b t1 - latest"
    using within(2) Cons.prems(4,7) grow by linarith
  then consider (slot) "n < ?M" "phase_of ?b = Probing (n + 1) (ms_at b t1)"
      "snd (breaker_check b t1 t2) = Inr ()"
    | (full) "n = ?M" "phase_of ?b = Probing n latest" "snd (breaker_check b t1 t2) \<noteq> Inr ()"
    using step Cons.prems(3,5) by (auto split: if_splits)
  then show ?case
  proof cases
    case slot
    have "m0 \<le> ms_at b t1" "m0 \<le> ms_at b t2" using Cons.prems(7) grow by linarith+
    with slot Cons.IH [OF inv, of "n + 1" "ms_at b t1"] Cons.prems(2,8) clock fixed u
    have "admissions (snd (run_checks ?b ts)) = min (length ts) (?M - (n + 1))" by auto
    with slot show ?thesis by (simp add: u run_checks_Cons admissions_Cons del: run_checks.simps)
  next
    case full
    have "m0 \<le> ms_at b t2" using Cons.prems(7) grow by linarith
    with full Cons.IH [OF inv, of n latest] Cons.prems(2,4,8) clock fixed u
    have "admissions (snd (run_checks ?b ts)) = min (length ts) (?M - n)" by auto
    with full show ?thesis by (simp add: u run_checks_Cons admissions_Cons del: run_checks.simps)
  qed
qed (simp add: admissions_def)

text \<open>A refused call leaves both time stamps alone.\<close>

lemma shed_stamps:
  assumes "snd (breaker_check b t1 t2) \<noteq> Inr ()"
  shows "opened_at_millis (fst (breaker_check b t1 t2)) = opened_at_millis b
    \<and> probe_claimed_at_millis (fst (breaker_check b t1 t2)) = probe_claimed_at_millis b"
proof -
  have probe: "opened_at_millis (fst (try_half_open_probe b' t)) = opened_at_millis b'
      \<and> probe_claimed_at_millis (fst (try_half_open_probe b' t)) = probe_claimed_at_millis b'"
    if "snd (try_half_open_probe b' t) \<noteq> Inr ()" for b' t
    using probe_cases [of b' t] that by auto
  from assms show ?thesis
    by (auto simp: breaker_check_def check_open_def cas_state_def
        split: breaker_state.splits if_splits dest: probe)
qed

lemma cool_down_over:
  assumes "t0 \<le> t" "t + d + millis \<le> u" "x \<le> (t - t0) div millis"
  shows "d \<le> ((u - t0) div millis - x) * millis"
proof -
  have m: "0 < millis" by (simp add: millis_def)
  let ?B = "(u - t0) div millis"
  have "u - t0 < ?B * millis + millis"
    using dividend_less_div_times [OF m, of "u - t0"] by (simp add: add.commute)
  moreover have "x * millis \<le> t - t0"
    using assms(3) m by (metis div_times_less_eq_dividend le_trans mult_le_mono1)
  ultimately have "x * millis + d \<le> ?B * millis" using assms(1,2) by linarith
  then have "d \<le> ?B * millis - x * millis" by simp
  then show ?thesis by (simp add: diff_mult_distrib)
qed

lemma due_is_admitted:
  assumes inv: "breaker_inv (b, s)" and on: "enabled (config b)" and "stamps_ok b t"
    and le: "baseline b \<le> t" "t + open_duration (config b) + millis \<le> t1"
    and fits: "ms_at b t1 < 2 ^ 64" "ms_at b t2 < 2 ^ 64"
  shows "snd (breaker_check b t1 t2) = Inr ()"
proof -
  note step = check_phase [OF inv on fits]
  have over: "open_duration (config b) \<le> (ms_at b t1 - x) * millis" if "x \<le> ms_at b t" for x
    using cool_down_over [OF le] that unfolding ms_at_def by blast
  have "unat (lease_millis (config b)) \<le> ms_at b t1 - x" if "x \<le> ms_at b t" for x
  proof -
    have "unat (lease_millis (config b)) \<le> open_duration (config b) div millis"
      by (simp add: lease_millis_def unat_of_nat)
    also have "\<dots> \<le> (ms_at b t1 - x) * millis div millis" by (rule div_le_mono [OF over [OF that]])
    finally show ?thesis by (simp add: millis_def)
  qed
  with step over \<open>stamps_ok b t\<close> show ?thesis
    by (cases "breaker_state_of b") (auto simp: phase_of_def stamps_ok_def)
qed

lemma run_checks_due:
  assumes "breaker_inv (b, s)" "enabled (config b)" "stamps_ok b t" "baseline b \<le> t"
    and "clock_runs s ts" "ts \<noteq> []" "t + open_duration (config b) + millis \<le> fst (last ts)"
    and "ms_at b (snd (last ts)) < 2 ^ 64"
  shows "Inr () \<in> set (snd (run_checks b ts))"
  using assms
proof (induction ts arbitrary: b s)
  case (Cons u ts)
  obtain t1 t2 where u: "u = (t1, t2)" by (cases u)
  let ?b = "fst (breaker_check b t1 t2)"
  have clock: "s \<le> t1" "t1 \<le> t2" "clock_runs t2 ts" using Cons.prems(5) u by auto
  have fixed: "config ?b = config b" "baseline ?b = baseline b" "ms_at ?b = ms_at b"
    using check_fixed [of b t1 t2] by (auto simp: ms_at_def fun_eq_iff)
  show ?case
  proof (cases "snd (breaker_check b t1 t2) = Inr ()")
    case True
    then show ?thesis by (simp add: u run_checks_Cons del: run_checks.simps)
  next
    case shed: False
    have "ts \<noteq> []"
    proof
      assume "ts = []"
      with Cons.prems u have "t + open_duration (config b) + millis \<le> t1" "ms_at b t2 < 2 ^ 64" by auto
      moreover have "ms_at b t1 < 2 ^ 64" using ms_at_mono [OF clock(2), of b] calculation(2) by simp
      ultimately show False using due_is_admitted [OF Cons.prems(1-4)] shed by blast
    qed
    moreover have "stamps_ok ?b t"
      using Cons.prems(3) shed_stamps [OF shed] fixed by (simp add: stamps_ok_def)
    ultimately have "Inr () \<in> set (snd (run_checks ?b ts))"
      using Cons.IH [OF check_inv [OF Cons.prems(1) clock(1,2)]] Cons.prems u clock fixed by simp
    then show ?thesis by (simp add: u run_checks_Cons del: run_checks.simps)
  qed
qed simp

subsection \<open>The error rate against one half\<close>

lemma div_half:
  assumes "0 < b" "0 < e" "2 * a < b" "a * 2 ^ e div b = 2 ^ (e - 1) - 1"
  shows "2 ^ (e - 1) + a * 2 ^ e mod b \<le> (b :: nat)"
proof -
  have e: "(2 :: nat) ^ e = 2 * 2 ^ (e - 1)" using assms(2) by (cases e) auto
  have "a * 2 ^ e = (2 ^ (e - 1) - 1) * b + a * 2 ^ e mod b"
    using div_mult_mod_eq [of "a * 2 ^ e" b] assms(4) by simp
  moreover have "(2 * a + 1) * 2 ^ (e - 1) \<le> b * 2 ^ (e - 1)"
    using assms(3) by (intro mult_le_mono1) simp
  ultimately show ?thesis
    by (simp add: e algebra_simps diff_mult_distrib)
qed

lemma shift_found:
  assumes "0 < a" "b \<le> max_window_entries" "0 < b"
  shows "2 ^ 52 \<le> a * 2 ^ shift_for a b div b"
proof -
  have "(2 ^ 52 :: nat) * b \<le> 2 ^ 127"
    using assms(2) by (simp add: max_window_entries_def)
  then have "2 ^ 52 * b \<le> a * 2 ^ 127" using assms(1) by (metis le_trans mult_le_mono1 nat_mult_1 Suc_leI One_nat_def)
  then have "2 ^ 52 \<le> a * 2 ^ 127 div b" using assms(3) by (simp add: less_eq_div_iff_mult_less_eq)
  moreover have "(127 :: nat) \<in> set [0..<128]" by simp
  ultimately have "find (\<lambda>e. 2 ^ 52 \<le> a * 2 ^ e div b) [0..<128] \<noteq> None"
    unfolding find_None_iff by blast
  then obtain e where e: "find (\<lambda>e. 2 ^ 52 \<le> a * 2 ^ e div b) [0..<128] = Some e" by auto
  then have "2 ^ 52 \<le> a * 2 ^ e div b" by (auto simp: find_Some_iff)
  with e show ?thesis by (simp add: shift_for_def)
qed

lemma f64_quotient_half:
  assumes "a \<le> b" "0 < b" "b \<le> max_window_entries"
  shows "1 / 2 \<le> f64_quotient a b \<longleftrightarrow> b \<le> 2 * a"
proof (cases "a = 0")
  case True
  with assms show ?thesis by (simp add: f64_quotient_def)
next
  case False
  define e where "e = shift_for a b"
  define q where "q = a * 2 ^ e div b"
  define r where "r = a * 2 ^ e mod b"
  define n where "n = (if b < 2 * r \<or> (2 * r = b \<and> odd q) then q + 1 else q)"
  have q: "2 ^ 52 \<le> q" unfolding q_def e_def by (rule shift_found) (use False assms in auto)
  have "q \<le> 2 ^ e"
    unfolding q_def using assms by (metis div_le_mono div_mult_self_is_m mult.commute mult_le_mono1)
  with q have big: "(2 :: nat) ^ 52 \<le> 2 ^ e" by linarith
  then have e: "0 < e" by (cases e) auto
  have double: "(2 :: nat) ^ e = 2 * 2 ^ (e - 1)" using e by (cases e) auto
  have "f64_quotient a b = of_nat n / of_nat (2 ^ e)"
    unfolding f64_quotient_def n_def q_def r_def e_def using False by (simp add: Let_def)
  moreover have "(0 :: rat) < of_nat (2 ^ e)" by simp
  ultimately have "1 / 2 \<le> f64_quotient a b \<longleftrightarrow> of_nat (2 ^ e) \<le> (2 * of_nat n :: rat)"
    by (simp only: pos_le_divide_eq) linarith
  also have "\<dots> \<longleftrightarrow> 2 ^ e \<le> 2 * n" by (metis of_nat_le_iff of_nat_mult of_nat_numeral)
  also have "\<dots> \<longleftrightarrow> 2 ^ (e - 1) \<le> n" by (simp add: double)
  also have "\<dots> \<longleftrightarrow> b \<le> 2 * a"
  proof
    assume "b \<le> 2 * a"
    then have "2 ^ (e - 1) * b \<le> a * 2 ^ e" using double by (simp add: algebra_simps)
    then have "2 ^ (e - 1) \<le> q"
      unfolding q_def using assms(2) by (simp add: less_eq_div_iff_mult_less_eq)
    then show "2 ^ (e - 1) \<le> n" by (simp add: n_def)
  next
    assume le: "2 ^ (e - 1) \<le> n"
    show "b \<le> 2 * a"
    proof (rule ccontr)
      assume less: "\<not> b \<le> 2 * a"
      then have "a * 2 ^ e < 2 ^ (e - 1) * b" using double by (simp add: algebra_simps)
      then have "q < 2 ^ (e - 1)" unfolding q_def using assms(2) by (simp add: div_less_iff_less_mult)
      with le have up: "b \<le> 2 * r" "q = 2 ^ (e - 1) - 1" by (auto simp: n_def split: if_splits)
      have "2 ^ (e - 1) + r \<le> b"
        unfolding r_def by (rule div_half) (use assms e less up(2) q_def in auto)
      with up have "2 ^ e \<le> b" using double by linarith
      with big assms(3) show False by (simp add: max_window_entries_def)
    qed
  qed
  finally show ?thesis .
qed

lemma error_rate_half:
  assumes "window_ok w" "entries w \<noteq> []"
  shows "rate_at_least (error_rate w) (Finite (1 / 2)) \<longleftrightarrow> length (entries w) \<le> 2 * failures w"
proof -
  have "failures w \<le> length (entries w)" using assms(1) by (simp add: window_ok_def failed_def)
  with assms f64_quotient_half [of "failures w" "length (entries w)"] show ?thesis
    by (simp add: error_rate_def window_ok_def)
qed

lemma sample_grows: "window_ok (window b) \<Longrightarrow> sample_count (window (sample f t b)) \<le> Suc (sample_count (window b))"
proof -
  assume w: "window_ok (window b)"
  have "length (entries (window_push f t (window b))) \<le> Suc (length (entries (window b)))"
    using window_push_entries [OF w, of f t] by auto
  moreover have "length (entries (window_evict d t (window_push f t (window b))))
      \<le> length (entries (window_push f t (window b)))" for d
    using window_evict_entries [OF window_push_ok [OF w], of d t] by (simp add: length_dropWhile_le)
  ultimately have "length (entries (window_evict d t (window_push f t (window b))))
      \<le> Suc (length (entries (window b)))" for d
    using le_trans by blast
  then show ?thesis by (simp add: sample_def sample_count_def)
qed

lemma run_records_patient:
  assumes "cells_ok b" "breaker_state_of b = Closed"
    and "sample_count (window b) + length os < unat (min_samples (config b))"
  shows "breaker_state_of (run_records b os) = Closed"
  using assms
proof (induction b os rule: run_records.induct)
  case (2 b oc t1 t2 os)
  let ?b = "breaker_record b oc t1 t2"
  have grows: "sample_count (window (sample f t1 b)) \<le> Suc (sample_count (window b))" for f
    using sample_grows 2(2) by (simp add: cells_ok_def)
  show ?case
  proof (cases "enabled (config b)")
    case False
    then have "?b = b" by (simp add: breaker_record_def)
    with 2 show ?thesis by simp
  next
    case True
    have "\<not> should_trip (sample f t1 b)" for f
      using grows [of f] 2(4) by (simp add: should_trip_def)
    then have b: "?b = observe (OutcomeSeen oc Closed) (sample (oc = Failure) t1 b)"
      using True 2(3) by (simp add: breaker_record_def)
    have "cells_ok ?b" using cells_ok_sample [OF 2(2)] unfolding b
      by (simp add: cells_ok_def breaker_state_of_def)
    moreover have "breaker_state_of ?b = Closed" using 2(3) by (simp add: b breaker_state_of_def)
    moreover have "sample_count (window ?b) + length os < unat (min_samples (config ?b))"
      using grows [of "oc = Failure"] 2(4) by (simp add: b)
    ultimately show ?thesis using 2(1) by simp
  qed
qed simp

subsection \<open>A breaker that has tripped\<close>

definition seconds :: "nat \<Rightarrow> nat" where
  "seconds n = n * 1000 * millis"

definition example_config :: breaker_config where
  "example_config = \<lparr>window_duration = seconds 60, min_samples = 2, error_rate_threshold = Finite (1 / 2),
     open_duration = seconds 10, half_open_max_probes = 1, failure_codes = [500], enabled = True\<rparr>"

definition example_tripped :: breaker where
  "example_tripped = run_records (with_clock example_config 0)
     [(Failure, seconds 1, seconds 1), (Failure, seconds 2, seconds 2)]"

definition example_probing :: breaker where
  "example_probing = fst (breaker_check example_tripped (seconds 13) (seconds 13))"

lemma example_tripped_reachable: "breaker_reachable example_config 0 (example_tripped, seconds 2)"
proof -
  let ?b = "breaker_record (with_clock example_config 0) Failure (seconds 1) (seconds 1)"
  have "breaker_step (with_clock example_config 0, 0) (?b, seconds 1)"
    by (rule breaker_step.Record) simp_all
  moreover have "breaker_step (?b, seconds 1) (breaker_record ?b Failure (seconds 2) (seconds 2), seconds 2)"
    by (rule breaker_step.Record) (simp_all add: seconds_def)
  ultimately show ?thesis
    unfolding breaker_reachable_def example_tripped_def by (simp add: converse_rtranclp_into_rtranclp)
qed

lemma example_probing_reachable: "breaker_reachable example_config 0 (example_probing, seconds 13)"
proof -
  have "breaker_step (example_tripped, seconds 2) (example_probing, seconds 13)"
    unfolding example_probing_def by (rule breaker_step.Check) (simp_all add: seconds_def)
  with example_tripped_reachable show ?thesis
    unfolding breaker_reachable_def by (rule rtranclp.rtrancl_into_rtrancl)
qed

lemmas breaker_eval = breaker_record_def breaker_check_def check_open_def try_half_open_probe_def
  cas_state_def trip_def close_def observe_def observe_change_def breaker_state_of_def should_trip_def
  sample_def window_push_def window_evict_def checked_sub_def max_window_entries_def sample_count_def
  with_clock_def window_new_def seconds_def millis_def elapsed_millis_def saturating_sub_def
  from_millis_def lease_millis_def half_open_probe_backoff_def

lemma example_samples:
  "rate_at_least (error_rate \<lparr>entries = [(x, True)], failures = Suc 0\<rparr>) (Finite (1 / 2))"
  "rate_at_least (error_rate \<lparr>entries = [(x, True), (y, True)], failures = 2\<rparr>) (Finite (1 / 2))"
  by (rule error_rate_half [THEN iffD2]; simp add: window_ok_def max_window_entries_def)+

lemma example_tripped_eval:
  "example_tripped = \<lparr>config = example_config, state_cell = to_u8 Open, baseline = 0,
     opened_at_millis = 2000, half_open_probes = 0, probe_claimed_at_millis = 0, is_open_fast = True,
     window = \<lparr>entries = [(seconds 1, True), (seconds 2, True)], failures = 2\<rparr>,
     observations = [OutcomeSeen Failure Closed, StateChange Closed Open ''trip'', OutcomeSeen Failure Open]\<rparr>"
  using example_samples(2) [of 1000000000 2000000000]
  by (simp add: example_tripped_def example_config_def breaker_eval numeral_2_eq_2 [symmetric])

lemma example_probing_eval:
  "example_probing = \<lparr>config = example_config, state_cell = to_u8 HalfOpen, baseline = 0,
     opened_at_millis = 2000, half_open_probes = 1, probe_claimed_at_millis = 13000,
     is_open_fast = False,
     window = \<lparr>entries = [(seconds 1, True), (seconds 2, True)], failures = 2\<rparr>,
     observations = [OutcomeSeen Failure Closed, StateChange Closed Open ''trip'', OutcomeSeen Failure Open,
       StateChange Open HalfOpen ''open_elapsed'', ProbeAdmission True]\<rparr>"
  "snd (breaker_check example_tripped (seconds 13) (seconds 13)) = Inr ()"
  by (simp_all add: example_probing_def example_tripped_eval example_config_def breaker_eval)

lemma example_states:
  "breaker_state_of example_tripped = Open" "breaker_state_of example_probing = HalfOpen"
  "phase_of example_tripped = Tripped 2000" "config example_tripped = example_config"
  "enabled example_config" "config example_probing = example_config"
  by (simp_all add: example_tripped_eval example_probing_eval breaker_state_of_def phase_of_def
      example_config_def)

subsection \<open>Properties\<close>

text \<open>
  C19. The breaker is a three-phase machine.  Seen without its atomic cells, mirrors, wrapping counters
  and compare-and-exchange, every check and every record of a reachable enabled breaker is a step of
  the plain machine over milliseconds: shut, tripped since an instant, or probing with so many
  claimed slots and a last claim; and a check answers what that machine answers, retry delay
  included.
\<close>

theorem breaker_refines_phases:
  assumes "breaker_reachable c t0 (b, t)" "enabled c" "t \<le> t1" "t1 \<le> t2"
    and "(t2 - t0) div millis < 2 ^ 64"
  shows "(phase_of (fst (breaker_check b t1 t2)), snd (breaker_check b t1 t2))
      = phase_check (config b) ((t1 - t0) div millis) ((t2 - t0) div millis) (phase_of b)
    \<and> phase_of (breaker_record b oc t1 t2)
      = phase_record (oc = Failure) (should_trip (sample (oc = Failure) t1 b))
          ((t2 - t0) div millis) (phase_of b)"
proof -
  note fixed = reachable_fixed [OF assms(1)]
  have on: "enabled (config b)" using fixed assms(2) by simp
  have ms: "ms_at b u = (u - t0) div millis" for u by (simp add: ms_at_def fixed)
  have fits: "ms_at b t2 < 2 ^ 64" using assms(5) by (simp add: ms)
  moreover have "ms_at b t1 < 2 ^ 64" using ms_at_mono [OF assms(4), of b] fits by simp
  ultimately show ?thesis
    using check_phase [OF reachable_inv [OF assms(1)] on, of t1 t2] record_phase [OF on, of t2 oc t1]
    by (simp add: ms prod_eq_iff)
qed

lemma breaker_refines_phases_witness:
  "phase_of (fst (breaker_check example_tripped (seconds 13) (seconds 13))) = Probing 1 13000"
proof -
  have "seconds 2 \<le> seconds 13" "(seconds 13 - 0) div millis < 2 ^ 64"
    by (simp_all add: seconds_def millis_def)
  with breaker_refines_phases [OF example_tripped_reachable example_states(5) this(1) order_refl this(2)]
  show ?thesis
    by (simp add: example_states) (simp add: example_config_def seconds_def millis_def)
qed

text \<open>
  A reachable breaker is consistent: its state cell holds one of the three states, the lock-free
  mirror says open exactly in state Open, the probe counter is at most the configured number (at
  least one) and nonzero exactly in state HalfOpen, and the window holds at most ten thousand samples
  with the right count of failures.
\<close>

lemma reachable_breaker_is_consistent:
  assumes "breaker_reachable c t0 (b, t)"
  shows "state_cell b \<in> {0, 1, 2} \<and> (is_open b \<longleftrightarrow> breaker_state_of b = Open)
    \<and> half_open_probes b \<le> max (half_open_max_probes c) 1
    \<and> (half_open_probes b \<noteq> 0 \<longleftrightarrow> breaker_state_of b = HalfOpen)
    \<and> sample_count (window b) \<le> max_window_entries
    \<and> failures (window b) = length (filter snd (entries (window b)))"
proof -
  have inv: "breaker_inv (b, t)" by (rule reachable_inv [OF assms])
  then have "state_cell b = to_u8 (breaker_state_of b)" by (simp add: breaker_inv_def cells_ok_def)
  then have "state_cell b \<in> {0, 1, 2}" by (simp add: to_u8_def split: breaker_state.splits)
  with inv reachable_fixed(1) [OF assms] show ?thesis
    by (simp add: breaker_inv_def cells_ok_def probes_ok_def is_open_def window_ok_def failed_def
        sample_count_def)
qed

lemma reachable_breaker_is_consistent_example:
  "half_open_probes example_probing = 1 \<and> half_open_probes example_probing \<le> max 1 1
   \<and> \<not> is_open example_probing"
  using reachable_breaker_is_consistent [OF example_probing_reachable]
  by (simp add: example_states example_config_def example_probing_eval)

lemma reachable_clock: "breaker_reachable c t0 (b, t) \<Longrightarrow> t0 \<le> t"
proof -
  assume "breaker_reachable c t0 (b, t)"
  then have "t0 \<le> snd (b, t)"
    unfolding breaker_reachable_def
    by (induction rule: rtranclp_induct) (auto elim!: breaker_step.cases)
  then show ?thesis by simp
qed

text \<open>
  C25. No breaker sheds traffic for ever: whatever happened before (a lost probe that never reported
  back included), among calls that keep asking, one is admitted at the latest a cool-down and a
  millisecond later.
\<close>

theorem shed_traffic_recovers:
  assumes "breaker_reachable c t0 (b, t)" "enabled c" "clock_runs t ts" "ts \<noteq> []"
    and "t + open_duration c + millis \<le> fst (last ts)" "(snd (last ts) - t0) div millis < 2 ^ 64"
  shows "Inr () \<in> set (snd (run_checks b ts))"
proof (rule run_checks_due)
  note fixed = reachable_fixed [OF assms(1)]
  show inv: "breaker_inv (b, t)" by (rule reachable_inv [OF assms(1)])
  show "enabled (config b)" "t + open_duration (config b) + millis \<le> fst (last ts)"
    using assms(2,5) fixed by simp_all
  show base: "baseline b \<le> t" using reachable_clock [OF assms(1)] fixed by simp
  show fits: "ms_at b (snd (last ts)) < 2 ^ 64" using assms(6) fixed by (simp add: ms_at_def)
  have "t \<le> snd (last ts)" using clock_runs_later [OF assms(3) last_in_set [OF assms(4)]] by simp
  then have "ms_at b t < 2 ^ 64" using ms_at_mono [of t "snd (last ts)" b] fits by simp
  then show "stamps_ok b t" using inv by (simp add: breaker_inv_def)
  show "clock_runs t ts" "ts \<noteq> []" using assms(3,4) .
qed

lemma shed_traffic_recovers_witness:
  "Inr () \<in> set (snd (run_checks example_probing [(seconds 14, seconds 14), (seconds 30, seconds 30)]))"
  by (rule shed_traffic_recovers [OF example_probing_reachable example_states(5)])
    (simp_all add: seconds_def millis_def example_config_def)

text \<open>
  Recovery is probed with the configured number of requests: when the first call after the
  cool-down is admitted, then of it and all calls whose clock is within the lease of its claim,
  exactly the first \<^verbatim>\<open>half_open_max_probes\<close> are admitted and all others are refused.
\<close>

lemma probe_slots_are_bounded:
  assumes "breaker_reachable c t0 (b, t)" "enabled c" "breaker_state_of b = Open"
    and "clock_runs t ((t1, t2) # ts)" "snd (breaker_check b t1 t2) = Inr ()"
    and "\<forall>(u1, u2) \<in> set ((t1, t2) # ts). (u2 - t0) div millis < 2 ^ 64"
    and "\<forall>(u1, u2) \<in> set ts. (u1 - t0) div millis < (t2 - t0) div millis + unat (lease_millis c)"
  shows "admissions (snd (run_checks b ((t1, t2) # ts)))
    = min (1 + length ts) (unat (max (half_open_max_probes c) 1))"
proof -
  note fixed = reachable_fixed [OF assms(1)]
  have ms: "ms_at b u = (u - t0) div millis" for u by (simp add: ms_at_def fixed)
  let ?b = "fst (breaker_check b t1 t2)" and ?M = "unat (max (half_open_max_probes c) 1)"
  have on: "enabled (config b)" using fixed assms(2) by simp
  have clock: "t \<le> t1" "t1 \<le> t2" "clock_runs t2 ts" using assms(4) by auto
  have fits: "ms_at b t2 < 2 ^ 64" using assms(6) by (auto simp: ms)
  then have fits1: "ms_at b t1 < 2 ^ 64" using ms_at_mono [OF clock(2), of b] by simp
  have entered: "phase_of ?b = Probing 1 (ms_at b t2)"
    using check_phase [OF reachable_inv [OF assms(1)] on fits1 fits] assms(3,5)
    by (auto simp: phase_of_def split: if_splits)
  have b: "config ?b = config b" "ms_at ?b = ms_at b" and M: "?M = unat (half_open_max_probes (config ?b))"
    using check_fixed [of b t1 t2] fixed by (auto simp: ms_at_def fun_eq_iff)
  have lease: "lease_millis (config b) = lease_millis c" by (simp add: lease_millis_def fixed)
  have within: "ms_at ?b u2 < 2 ^ 64 \<and> ms_at ?b u1 < ms_at b t2 + unat (lease_millis (config ?b))"
    if "(u1, u2) \<in> set ts" for u1 u2
    using assms(6,7) that by (auto simp: b ms lease)
  have pos: "1 \<le> ?M"
    by (metis max.cobounded2 unat_1 word_le_nat_alt)
  have "admissions (snd (run_checks ?b ts)) = min (length ts) (?M - 1)"
    using run_checks_probing [OF check_inv [OF reachable_inv [OF assms(1)] clock(1,2)], of 1 "ms_at b t2" "ms_at b t2" ts]
      on entered pos clock(3) within by (simp add: b M)
  with assms(5) pos show ?thesis
    by (simp add: run_checks_Cons admissions_Cons del: run_checks.simps)
qed

lemma probe_slots_are_bounded_example:
  "admissions (snd (run_checks example_tripped
     [(seconds 13, seconds 13), (seconds 14, seconds 14), (seconds 15, seconds 15)])) = 1"
proof -
  have "clock_runs (seconds 2) [(seconds 13, seconds 13), (seconds 14, seconds 14), (seconds 15, seconds 15)]"
    by (simp add: seconds_def)
  note bound = probe_slots_are_bounded [OF example_tripped_reachable example_states(5,1) this
      example_probing_eval(2)]
  show ?thesis
    by (subst bound) (simp_all add: seconds_def millis_def lease_millis_def example_config_def)
qed

text \<open>
  A recovered breaker starts afresh: after a successful probe it is closed and stays closed
  through any run of outcomes shorter than the configured minimum of samples, however many of them
  are failures and whatever it saw before.
\<close>

lemma recovered_breaker_is_patient:
  assumes "breaker_reachable c t0 (b, t)" "enabled c" "breaker_state_of b = HalfOpen"
    and "length os < unat (min_samples c)"
  shows "breaker_state_of (run_records b ((Success, t1, t2) # os)) = Closed"
proof -
  note fixed = reachable_fixed [OF assms(1)]
  let ?b = "breaker_record b Success t1 t2"
  have b: "?b = observe (OutcomeSeen Success Closed) (close HalfOpen ''probe_success'' b)"
    using assms(2,3) fixed by (simp add: breaker_record_def)
  have "breaker_state_of (run_records ?b os) = Closed"
  proof (rule run_records_patient)
    show "breaker_state_of ?b = Closed" by (simp add: b breaker_state_of_def)
    show "cells_ok ?b" by (simp add: b cells_ok_def breaker_state_of_def window_new_ok)
    show "sample_count (window ?b) + length os < unat (min_samples (config ?b))"
      using assms(4) fixed by (simp add: b sample_count_def window_new_def)
  qed
  then show ?thesis by simp
qed

lemma recovered_breaker_is_patient_example:
  "breaker_state_of (run_records example_probing
     [(Success, seconds 14, seconds 14), (Failure, seconds 15, seconds 15)]) = Closed"
  by (rule recovered_breaker_is_patient [OF example_probing_reachable example_states(5,2)])
    (simp add: example_config_def)

end
