(* ===== verification/Machine_Words.thy ===== *)
theory Machine_Words
  imports Numerals "HOL-Library.Word"
begin

text \<open>
  Saturating arithmetic of the standard library on \<^verbatim>\<open>u32\<close>, and sums that saturate; \<^verbatim>\<open>u16\<close> from text.
\<close>

definition saturating_add_u32 :: "32 word \<Rightarrow> 32 word \<Rightarrow> 32 word" where
  "saturating_add_u32 a b = (if unat a + unat b < 2 ^ 32 then a + b else - 1)"

lemma saturating_add_u32_min: "unat (saturating_add_u32 a b) = min (unat a + unat b) (2 ^ 32 - 1)"
proof (cases "unat a + unat b < 2 ^ 32")
  case True
  then show ?thesis by (simp add: saturating_add_u32_def unat_word_ariths)
next
  case False
  have "unat (- 1 :: 32 word) = 2 ^ 32 - 1" by (simp add: unsigned_minus_1_eq_mask mask_eq_exp_minus_1)
  with False show ?thesis by (simp add: saturating_add_u32_def)
qed

text \<open>\<^verbatim>\<open>fold(0, u32::saturating_add)\<close>.\<close>

definition saturating_sum_u32 :: "32 word list \<Rightarrow> 32 word" where
  "saturating_sum_u32 ws = fold (\<lambda>w acc. saturating_add_u32 acc w) ws 0"

lemma saturating_fold_min:
  "unat (fold (\<lambda>w acc. saturating_add_u32 acc w) ws a) = min (unat a + sum_list (map unat ws)) (2 ^ 32 - 1)"
proof (induction ws arbitrary: a)
  case Nil
  have "unat a < 2 ^ 32" using unsigned_less [of a] by simp
  then show ?case by simp
next
  case (Cons w ws)
  then show ?case by (simp add: saturating_add_u32_min)
qed

lemma saturating_sum_min: "unat (saturating_sum_u32 ws) = min (sum_list (map unat ws)) (2 ^ 32 - 1)"
  by (simp add: saturating_sum_u32_def saturating_fold_min)

text \<open>\<^verbatim>\<open>str::parse::<u16>\<close>.\<close>

definition parse_u16 :: "str \<Rightarrow> 16 word option" where
  "parse_u16 s = map_option of_nat (parse_unsigned (2 ^ 16) s)"

lemma parse_u16_digits: "parse_u16 (digits (unat w)) = Some w"
proof -
  have "unat w < 2 ^ 16" by (rule order_less_le_trans [OF unsigned_less]) simp
  from parse_unsigned_digits [OF this] show ?thesis by (simp add: parse_u16_def)
qed

end
