(* ===== verification/Breaker_Config.thy ===== *)
theory Breaker_Config
  imports Circuit_Breaker Truncation Machine_Words
begin

text \<open>
  What surrounds one breaker: its configuration from presets and environment variables
  (\<^verbatim>\<open>config.rs\<close>), the retry policy by status code (\<^verbatim>\<open>retry_policy.rs\<close>) and the registry of breakers by
  key (\<^verbatim>\<open>registry.rs\<close>).
\<close>

subsection \<open>Numbers from text\<close>

definition parse_usize :: "str \<Rightarrow> 64 word option" where
  "parse_usize s = map_option of_nat (parse_unsigned (2 ^ 64) s)"

definition parse_u64 :: "str \<Rightarrow> nat option" where
  "parse_u64 s = parse_unsigned (2 ^ 64) s"

definition parse_bool :: "str \<Rightarrow> bool option" where
  "parse_bool s = (if s = ''true'' then Some True else if s = ''false'' then Some False else None)"

text \<open>
  \<^verbatim>\<open>parse\<close> of a double: the decimal value, exactly, rounded to 53 significant bits to nearest, ties
  to even, with gradual underflow and overflow to infinity.
\<close>

definition scale2 :: "rat \<Rightarrow> int \<Rightarrow> rat" where
  "scale2 q e = (if 0 \<le> e then q * 2 ^ nat e else q / 2 ^ nat (- e))"

definition scale10 :: "rat \<Rightarrow> int \<Rightarrow> rat" where
  "scale10 q e = (if 0 \<le> e then q * 10 ^ nat e else q / 10 ^ nat (- e))"

definition round_half_even :: "rat \<Rightarrow> int" where
  "round_half_even q =
     (let f = \<lfloor>q\<rfloor>; d = q - of_int f in if d < 1 / 2 \<or> (d = 1 / 2 \<and> even f) then f else f + 1)"

definition rounding_shift :: "rat \<Rightarrow> int" where
  "rounding_shift q =
     (case find (\<lambda>k. 2 ^ 52 \<le> scale2 q (int k - 971)) [0..<2046] of
        Some k \<Rightarrow> int k - 971 | None \<Rightarrow> 1074)"

definition round_f64 :: "bool \<Rightarrow> rat \<Rightarrow> f64" where
  "round_f64 negative q =
     (let e = rounding_shift q; v = scale2 (of_int (round_half_even (scale2 q e))) (- e)
      in if 2 ^ 1024 \<le> v then (if negative then NegInf else PosInf)
         else Finite (if negative then - v else v))"

definition parse_exponent :: "str \<Rightarrow> int option" where
  "parse_exponent s =
     (let (sgn, ds) = (case s of
          [] \<Rightarrow> (1, [])
        | c # r \<Rightarrow> if c = CHR ''-'' then (- 1, r) else if c = CHR ''+'' then (1, r) else (1, s))
      in if ds \<noteq> [] \<and> list_all is_ascii_digit ds then Some (sgn * int (decimal ds)) else None)"

definition parse_mantissa :: "str \<Rightarrow> rat option" where
  "parse_mantissa s =
     (let whole = takeWhile is_ascii_digit s; rest = dropWhile is_ascii_digit s;
          (fraction, rest) = (case rest of
             [] \<Rightarrow> ([], [])
           | c # r \<Rightarrow> if c = CHR ''.'' then (takeWhile is_ascii_digit r, dropWhile is_ascii_digit r)
                     else ([], rest));
          m = of_nat (decimal (whole @ fraction)) / 10 ^ length fraction
      in if whole = [] \<and> fraction = [] then None
         else case rest of
           [] \<Rightarrow> Some m
         | c # r \<Rightarrow> if c = CHR ''e'' \<or> c = CHR ''E'' then map_option (scale10 m) (parse_exponent r)
                   else None)"

definition parse_f64 :: "str \<Rightarrow> f64 option" where
  "parse_f64 s =
     (let (negative, r) = (case s of
          [] \<Rightarrow> (False, [])
        | c # r \<Rightarrow> if c = CHR ''-'' then (True, r) else if c = CHR ''+'' then (False, r) else (False, s));
          low = to_lowercase r
      in if low = ''inf'' \<or> low = ''infinity'' then Some (if negative then NegInf else PosInf)
         else if low = ''nan'' then Some NaN
         else map_option (round_f64 negative) (parse_mantissa r))"

subsection \<open>Configuration\<close>

definition default_failure_codes :: "16 word list" where
  "default_failure_codes = [429, 500, 502, 503, 504]"

definition server :: breaker_config where
  "server = \<lparr>window_duration = seconds 60, min_samples = 10, error_rate_threshold = Finite (1 / 2),
     open_duration = seconds 10, half_open_max_probes = 1, failure_codes = default_failure_codes,
     enabled = True\<rparr>"

definition client :: breaker_config where
  "client = \<lparr>window_duration = seconds 60, min_samples = 5, error_rate_threshold = Finite (1 / 2),
     open_duration = seconds 60, half_open_max_probes = 1, failure_codes = [401], enabled = True\<rparr>"

definition parse_failure_codes :: "str \<Rightarrow> 16 word list" where
  "parse_failure_codes s = List.map_filter (\<lambda>c. parse_u16 (trim c)) (split_on [CHR '',''] s)"

definition lookup_or :: "(str \<Rightarrow> 'a option) \<Rightarrow> (str \<Rightarrow> str option) \<Rightarrow> str \<Rightarrow> 'a \<Rightarrow> 'a" where
  "lookup_or parse get key dflt =
     (case get key of
        Some v \<Rightarrow> (case parse v of Some parsed \<Rightarrow> parsed | None \<Rightarrow> dflt)
      | None \<Rightarrow> dflt)"

definition from_lookup_with_prefix :: "str \<Rightarrow> (str \<Rightarrow> str option) \<Rightarrow> breaker_config" where
  "from_lookup_with_prefix pre get =
     (let key = (\<lambda>k. pre @ k);
          codes = (case get (key ''FAILURE_CODES'') of
             Some raw \<Rightarrow>
               (let cs = parse_failure_codes raw in if cs = [] then default_failure_codes else cs)
           | None \<Rightarrow> default_failure_codes)
      in \<lparr>window_duration = seconds (lookup_or parse_u64 get (key ''WINDOW_SECS'') 60),
          min_samples = lookup_or parse_usize get (key ''MIN_SAMPLES'') 10,
          error_rate_threshold =
            lookup_or parse_f64 get (key ''ERROR_RATE_THRESHOLD'') (Finite (1 / 2)),
          open_duration = seconds (lookup_or parse_u64 get (key ''OPEN_DURATION_SECS'') 10),
          half_open_max_probes = max (lookup_or parse_usize get (key ''HALF_OPEN_MAX_PROBES'') 1) 1,
          failure_codes = codes,
          enabled = lookup_or parse_bool get (key ''ENABLED'') True\<rparr>)"

subsection \<open>Retry policy\<close>

datatype disposition = Retryable | AuthRefresh | Terminal

record retry_policy =
  retryable :: "16 word list"
  auth_refresh :: "16 word list"
  terminal :: "16 word list"
  otherwise_do :: disposition

definition classify :: "retry_policy \<Rightarrow> 16 word \<Rightarrow> disposition option" where
  "classify p status =
     (if 200 \<le> status \<and> status < 300 then None
      else if status \<in> set (auth_refresh p) then Some AuthRefresh
      else if status \<in> set (terminal p) then Some Terminal
      else if status \<in> set (retryable p) \<or> 500 \<le> status \<and> status < 600 then Some Retryable
      else Some (otherwise_do p))"

definition should_retry :: "retry_policy \<Rightarrow> 16 word \<Rightarrow> bool" where
  "should_retry p status = (classify p status = Some Retryable)"

definition server_policy :: retry_policy where
  "server_policy = \<lparr>retryable = [429], auth_refresh = [], terminal = [], otherwise_do = Terminal\<rparr>"

definition client_storage :: retry_policy where
  "client_storage =
     \<lparr>retryable = [], auth_refresh = [401], terminal = [400, 403, 404], otherwise_do = Retryable\<rparr>"

subsection \<open>Registry\<close>

text \<open>
  Breakers are shared by reference: the registry maps a key to the address of its breaker in a heap of
  breakers, so that two handles are the same breaker exactly when their addresses agree.
\<close>

record registry =
  reg_config :: breaker_config
  by_key :: "str \<rightharpoonup> nat"
  heap :: "breaker list"

definition registry_new :: "breaker_config \<Rightarrow> registry" where
  "registry_new c = \<lparr>reg_config = c, by_key = Map.empty, heap = []\<rparr>"

definition registry_get :: "str \<Rightarrow> nat \<Rightarrow> registry \<Rightarrow> nat option \<times> registry" where
  "registry_get key now r =
     (if \<not> enabled (reg_config r) then (None, r)
      else case by_key r key of
        Some a \<Rightarrow> (Some a, r)
      | None \<Rightarrow>
          (Some (length (heap r)),
           r\<lparr>heap := heap r @ [with_clock (reg_config r) now], by_key := (by_key r)(key \<mapsto> length (heap r))\<rparr>))"

subsection \<open>Decimal text\<close>

text \<open>Writing status codes with commas between them and parsing them gives them back.\<close>

lemma parse_failure_codes_join:
  assumes "cs \<noteq> []"
  shows "parse_failure_codes (join [CHR '',''] (map (\<lambda>c. digits (unat c)) cs)) = cs"
proof -
  have "split_on [CHR '',''] (join [CHR '',''] (map (\<lambda>c. digits (unat c)) cs))
      = map (\<lambda>c. digits (unat c)) cs"
    by (rule split_on_join) (use assms digits_no_comma in auto)
  moreover have "List.map_filter (\<lambda>c. parse_u16 (trim c)) (map (\<lambda>c. digits (unat c)) cs) = cs"
    by (induction cs) (simp_all add: parse_u16_digits)
  ultimately show ?thesis unfolding parse_failure_codes_def by simp
qed

subsection \<open>The registry hands out one breaker per key\<close>

fun run_gets :: "(str \<times> nat) list \<Rightarrow> registry \<Rightarrow> nat option list \<times> registry" where
  "run_gets [] r = ([], r)"
| "run_gets ((key, now) # ks) r =
     (let (a, r1) = registry_get key now r; (as, r2) = run_gets ks r1 in (a # as, r2))"

definition registry_ok :: "registry \<Rightarrow> bool" where
  "registry_ok r = (inj_on (by_key r) (dom (by_key r)) \<and> ran (by_key r) \<subseteq> {..<length (heap r)})"

lemma get_ok:
  assumes "registry_ok r" "enabled (reg_config r)"
  shows "fst (registry_get k now r) = by_key (snd (registry_get k now r)) k
    \<and> by_key r \<subseteq>\<^sub>m by_key (snd (registry_get k now r))
    \<and> by_key (snd (registry_get k now r)) k \<noteq> None
    \<and> registry_ok (snd (registry_get k now r))
    \<and> reg_config (snd (registry_get k now r)) = reg_config r
    \<and> take (length (heap r)) (heap (snd (registry_get k now r))) = heap r"
proof (cases "by_key r k")
  case None
  let ?r = "snd (registry_get k now r)"
  have new: "by_key ?r = (by_key r)(k \<mapsto> length (heap r))"
    "heap ?r = heap r @ [with_clock (reg_config r) now]"
    using None assms(2) by (simp_all add: registry_get_def)
  have "by_key r x \<noteq> Some (length (heap r))" for x
    using assms(1) by (auto simp: registry_ok_def ran_def)
  then have "inj_on (by_key ?r) (dom (by_key ?r))"
    using assms(1) unfolding new registry_ok_def inj_on_def dom_def by auto
  moreover have "ran (by_key ?r) \<subseteq> {..<length (heap ?r)}"
    using assms(1) None unfolding new registry_ok_def by (auto simp: less_Suc_eq)
  moreover have "by_key r \<subseteq>\<^sub>m by_key ?r" using None unfolding new by (auto simp: map_le_def)
  ultimately show ?thesis using None assms(2) by (simp add: registry_ok_def registry_get_def)
qed (use assms in \<open>simp add: registry_get_def\<close>)

lemma run_gets_ok:
  assumes "registry_ok r" "enabled (reg_config r)"
  shows "fst (run_gets ks r) = map (\<lambda>(k, _). by_key (snd (run_gets ks r)) k) ks
    \<and> by_key r \<subseteq>\<^sub>m by_key (snd (run_gets ks r)) \<and> registry_ok (snd (run_gets ks r))
    \<and> (\<forall>(k, _) \<in> set ks. by_key (snd (run_gets ks r)) k \<noteq> None)"
  using assms
proof (induction ks arbitrary: r)
  case Nil
  then show ?case by simp
next
  case (Cons kn ks)
  obtain k now where kn: "kn = (k, now)" by (cases kn)
  let ?r1 = "snd (registry_get k now r)" and ?r2 = "snd (run_gets ks (snd (registry_get k now r)))"
  note get = get_ok [OF Cons.prems, of k now]
  have rest: "fst (run_gets ks ?r1) = map (\<lambda>(k, _). by_key ?r2 k) ks
      \<and> by_key ?r1 \<subseteq>\<^sub>m by_key ?r2 \<and> registry_ok ?r2
      \<and> (\<forall>(k, _) \<in> set ks. by_key ?r2 k \<noteq> None)"
    using Cons.IH [of ?r1] get Cons.prems by simp
  have "k \<in> dom (by_key ?r1)" using get by blast
  then have "by_key ?r2 k = by_key ?r1 k" using rest unfolding map_le_def by metis
  moreover have "by_key r \<subseteq>\<^sub>m by_key ?r2" using get rest map_le_trans by blast
  moreover have "snd (run_gets (kn # ks) r) = ?r2"
    "fst (run_gets (kn # ks) r) = fst (registry_get k now r) # fst (run_gets ks ?r1)"
    by (simp_all add: kn split_beta Let_def)
  ultimately show ?case using get rest by (simp add: kn)
qed

subsection \<open>Properties\<close>

text \<open>
  One breaker per key: among the handles that any sequence of lookups in an enabled registry
  returns, every lookup returns one, and two are the same breaker exactly when their keys are equal.
\<close>

lemma registry_isolates_keys:
  assumes "enabled c" "i < length ks" "j < length ks"
  shows "fst (run_gets ks (registry_new c)) ! i \<noteq> None
    \<and> (fst (run_gets ks (registry_new c)) ! i = fst (run_gets ks (registry_new c)) ! j
        \<longleftrightarrow> fst (ks ! i) = fst (ks ! j))"
proof -
  let ?m = "by_key (snd (run_gets ks (registry_new c)))"
  have "registry_ok (registry_new c)" "enabled (reg_config (registry_new c))"
    using assms(1) by (simp_all add: registry_ok_def registry_new_def)
  note run = run_gets_ok [OF this, of ks]
  have at: "fst (run_gets ks (registry_new c)) ! n = ?m (fst (ks ! n))" if "n < length ks" for n
    using run that by (simp add: split_beta)
  have dom: "fst (ks ! n) \<in> dom ?m" if "n < length ks" for n
    using run nth_mem [OF that] by (auto simp: split_beta)
  have "inj_on ?m (dom ?m)" using run by (simp add: registry_ok_def)
  with dom assms(2,3) have "?m (fst (ks ! i)) = ?m (fst (ks ! j)) \<longleftrightarrow> fst (ks ! i) = fst (ks ! j)"
    by (metis inj_on_eq_iff)
  with at dom assms(2,3) show ?thesis by auto
qed

lemma registry_isolates_keys_example:
  "fst (run_gets [(''a'', 0), (''b'', 1), (''a'', 2)] (registry_new server)) ! 0
     = fst (run_gets [(''a'', 0), (''b'', 1), (''a'', 2)] (registry_new server)) ! 2
   \<and> fst (run_gets [(''a'', 0), (''b'', 1), (''a'', 2)] (registry_new server)) ! 0
     \<noteq> fst (run_gets [(''a'', 0), (''b'', 1), (''a'', 2)] (registry_new server)) ! 1"
proof -
  have on: "enabled server" by (simp add: server_def)
  let ?ks = "[(''a'', 0), (''b'', 1), (''a'', 2)] :: (str \<times> nat) list"
  from registry_isolates_keys [OF on, of 0 ?ks 2] registry_isolates_keys [OF on, of 0 ?ks 1]
  show ?thesis by simp
qed

text \<open>
  What an operator writes is what the breaker uses: a number of seconds, a minimum of samples or a
  list of status codes, written in decimal (codes separated by commas) into the environment, is read
  back exactly, the number of probes is raised to at least one, and with no variables set the
  configuration is the server preset.
\<close>

lemma settings_round_trip:
  assumes "get (pre @ ''WINDOW_SECS'') = Some (digits secs)" "secs < 2 ^ 64"
    and "get (pre @ ''MIN_SAMPLES'') = Some (digits (unat n))"
    and "get (pre @ ''HALF_OPEN_MAX_PROBES'') = Some (digits (unat k))"
    and "get (pre @ ''FAILURE_CODES'') = Some (join [CHR '',''] (map (\<lambda>c. digits (unat c)) codes))"
    and "codes \<noteq> []"
  shows "window_duration (from_lookup_with_prefix pre get) = seconds secs
    \<and> min_samples (from_lookup_with_prefix pre get) = n
    \<and> half_open_max_probes (from_lookup_with_prefix pre get) = max k 1
    \<and> failure_codes (from_lookup_with_prefix pre get) = codes
    \<and> from_lookup_with_prefix pre (\<lambda>_. None) = server"
proof -
  have usize: "parse_usize (digits (unat w)) = Some w" for w
  proof -
    have "unat w < 2 ^ 64" by (rule order_less_le_trans [OF unsigned_less]) simp
    from parse_unsigned_digits [OF this] show ?thesis by (simp add: parse_usize_def)
  qed
  have "parse_u64 (digits secs) = Some secs"
    using parse_unsigned_digits [OF assms(2)] by (simp add: parse_u64_def)
  moreover have "from_lookup_with_prefix pre (\<lambda>_. None) = server"
    by (simp add: from_lookup_with_prefix_def lookup_or_def server_def)
  ultimately show ?thesis
    using assms usize parse_failure_codes_join [OF assms(6)]
    by (simp add: from_lookup_with_prefix_def lookup_or_def Let_def del: join.simps)
qed

lemma settings_round_trip_example:
  "failure_codes (from_lookup_with_prefix ''CB_''
     [''CB_WINDOW_SECS'' \<mapsto> digits 30, ''CB_MIN_SAMPLES'' \<mapsto> digits 7,
      ''CB_HALF_OPEN_MAX_PROBES'' \<mapsto> digits 0,
      ''CB_FAILURE_CODES'' \<mapsto> join [CHR '',''] (map (\<lambda>c. digits (unat c)) [401, 503 :: 16 word])]) = [401, 503]"
  by (rule settings_round_trip [of _ _ 30 7 0, THEN conjunct2, THEN conjunct2, THEN conjunct2,
        THEN conjunct1]) simp_all

text \<open>
  The trip rule of both presets: a closed breaker with the server or the client preset opens on an
  outcome exactly when, that outcome included, the window holds at least the preset's minimum of
  samples and failures make up at least half of them.  The division in floating point never shifts
  that threshold.
\<close>

lemma preset_trip_rule:
  assumes "c \<in> {server, client}" "breaker_reachable c t0 (b, t)" "breaker_state_of b = Closed"
  shows "breaker_state_of (breaker_record b oc t1 t2) = Open \<longleftrightarrow>
    unat (min_samples c) \<le> sample_count (window (sample (oc = Failure) t1 b))
    \<and> sample_count (window (sample (oc = Failure) t1 b))
        \<le> 2 * failures (window (sample (oc = Failure) t1 b))"
proof -
  note fixed = reachable_fixed [OF assms(2)]
  let ?b = "sample (oc = Failure) t1 b"
  have c: "enabled (config b)" "error_rate_threshold (config ?b) = Finite (1 / 2)"
    "min_samples (config ?b) = min_samples c" "0 < unat (min_samples c)"
    using assms(1) fixed by (auto simp: server_def client_def)
  have "window_ok (window ?b)"
    using reachable_inv [OF assms(2)] by (simp add: breaker_inv_def cells_ok_def sample_window_ok)
  then have rate: "rate_at_least (error_rate (window ?b)) (Finite (1 / 2))
      \<longleftrightarrow> sample_count (window ?b) \<le> 2 * failures (window ?b)" if "entries (window ?b) \<noteq> []"
    unfolding sample_count_def by (rule error_rate_half [OF _ that])
  have "breaker_state_of (breaker_record b oc t1 t2) = Open \<longleftrightarrow> should_trip ?b"
    using c(1) assms(3) by (auto simp: breaker_record_def Let_def breaker_state_of_def)
  also have "\<dots> \<longleftrightarrow> unat (min_samples c) \<le> sample_count (window ?b)
      \<and> sample_count (window ?b) \<le> 2 * failures (window ?b)"
    using c rate unfolding should_trip_def sample_count_def by (cases "entries (window ?b) = []") auto
  finally show ?thesis .
qed

lemma preset_trip_rule_example:
  "breaker_state_of (breaker_record (with_clock client 0) Failure 5 6) \<noteq> Open"
proof -
  have "breaker_reachable client 0 (with_clock client 0, 0)"
    by (simp add: breaker_reachable_def)
  from preset_trip_rule [OF _ this, of Failure 5 6] show ?thesis
    by (simp add: client_def breaker_eval)
qed

text \<open>
  The presets of the retry policy decide every status code: success is never classified; the
  server retries exactly 429 and the 5xx codes and never refreshes credentials; the storage client
  drops 400, 403 and 404, refreshes on 401 and retries every other error.
\<close>

lemma retry_presets_decide:
  "(classify p s = None \<longleftrightarrow> 200 \<le> unat s \<and> unat s < 300)
   \<and> (should_retry server_policy s \<longleftrightarrow> unat s = 429 \<or> 500 \<le> unat s \<and> unat s < 600)
   \<and> classify server_policy s \<noteq> Some AuthRefresh
   \<and> (classify client_storage s = Some Terminal \<longleftrightarrow> unat s \<in> {400, 403, 404})
   \<and> (classify client_storage s = Some AuthRefresh \<longleftrightarrow> unat s = 401)
   \<and> (should_retry client_storage s
        \<longleftrightarrow> unat s \<notin> {400, 401, 403, 404} \<and> (unat s < 200 \<or> 300 \<le> unat s))"
proof -
  have num: "s = numeral k \<longleftrightarrow> unat s = unat (numeral k :: 16 word)" for k
    by (simp add: word_unat_eq_iff)
  show ?thesis
    by (auto simp: classify_def should_retry_def server_policy_def client_storage_def
        word_le_nat_alt word_less_nat_alt num)
qed

end
