(* ===== verification/Breaker_Threads.thy ===== *)
theory Breaker_Threads
  imports Circuit_Breaker
begin

text \<open>
  The circuit breaker under concurrent callers (\<^verbatim>\<open>common/xai-circuit-breaker/src/breaker.rs\<close>): the
  operations of \<^verbatim>\<open>Circuit_Breaker\<close> taken apart into their accesses to the shared cells.  A thread is a
  program counter with the local values it carries; one step is one load, store, read-modify-write,
  critical section of the window's mutex or reading of the clock.  Steps interleave in any order
  (sequential consistency; the code asks for acquire and release on each cell).  The calls of the
  observer belong to the step before them.
\<close>

subsection \<open>Threads\<close>

text \<open>How a caller was let through, kept for the proofs: not guarded, in a free slot, or by taking over a lease.\<close>

datatype grant = Unguarded | Slot | Takeover

datatype pc =
  CheckStart
| CheckOpened
| CheckElapsed "64 word"
| CheckCas
| CheckFast
| CheckReload
| CheckReopened
| CheckRetry "64 word"
| ProbeClock
| ProbeAdd "64 word"
| ProbeClaim "64 word"
| ProbeSub "64 word"
| ProbeLease "64 word"
| ProbeCas "64 word" "64 word"
| Passed grant
| Refused breaker_open
| RecordClock outcome
| RecordState outcome nat
| RecordSample outcome nat
| RecordWindow outcome nat
| TripState breaker_state str outcome
| TripClock breaker_state str outcome
| TripOpened breaker_state str outcome "64 word"
| TripProbes breaker_state str outcome
| TripFast breaker_state str outcome
| CloseState breaker_state str outcome
| CloseWindow breaker_state str outcome
| CloseProbes breaker_state str outcome
| CloseFast breaker_state str outcome
| RecordEnd outcome
| Recorded

definition slot_refused :: "breaker \<Rightarrow> pc" where
  "slot_refused b =
     Refused \<lparr>retry_after = min half_open_probe_backoff (open_duration (config b))\<rparr>"

fun check_step :: "nat \<Rightarrow> pc \<Rightarrow> breaker \<Rightarrow> pc \<times> breaker" where
  "check_step t CheckStart b =
     (if \<not> enabled (config b) then (Passed Unguarded, b)
      else case breaker_state_of b of
        Closed \<Rightarrow> (Passed Unguarded, b) | Open \<Rightarrow> (CheckOpened, b) | HalfOpen \<Rightarrow> (ProbeClock, b))"
| "check_step t CheckOpened b = (CheckElapsed (opened_at_millis b), b)"
| "check_step t (CheckElapsed opened) b =
     (let elapsed = from_millis (saturating_sub (elapsed_millis b t) opened)
      in if open_duration (config b) \<le> elapsed then (CheckCas, b)
         else (Refused \<lparr>retry_after = open_duration (config b) - elapsed\<rparr>, b))"
| "check_step t CheckCas b =
     (case cas_state Open HalfOpen b of (b, True) \<Rightarrow> (CheckFast, b) | (b, False) \<Rightarrow> (CheckReload, b))"
| "check_step t CheckFast b =
     (ProbeClock, observe (StateChange Open HalfOpen ''open_elapsed'') (b\<lparr>is_open_fast := False\<rparr>))"
| "check_step t CheckReload b =
     (case breaker_state_of b of
        Closed \<Rightarrow> (Passed Unguarded, b) | HalfOpen \<Rightarrow> (ProbeClock, b) | Open \<Rightarrow> (CheckReopened, b))"
| "check_step t CheckReopened b = (CheckRetry (opened_at_millis b), b)"
| "check_step t (CheckRetry opened) b =
     (Refused \<lparr>retry_after = open_duration (config b)
        - from_millis (saturating_sub (elapsed_millis b t) opened)\<rparr>, b)"
| "check_step t ProbeClock b = (ProbeAdd (elapsed_millis b t), b)"
| "check_step t (ProbeAdd now) b =
     (if half_open_probes b < half_open_max_probes (config b) then ProbeClaim now else ProbeSub now,
      b\<lparr>half_open_probes := half_open_probes b + 1\<rparr>)"
| "check_step t (ProbeClaim now) b =
     (Passed Slot, observe (ProbeAdmission True) (b\<lparr>probe_claimed_at_millis := now\<rparr>))"
| "check_step t (ProbeSub now) b = (ProbeLease now, b\<lparr>half_open_probes := half_open_probes b - 1\<rparr>)"
| "check_step t (ProbeLease now) b =
     (if lease_millis (config b) \<le> saturating_sub now (probe_claimed_at_millis b)
      then (ProbeCas now (probe_claimed_at_millis b), b)
      else (slot_refused b, observe (ProbeAdmission False) b))"
| "check_step t (ProbeCas now claimed) b =
     (if probe_claimed_at_millis b = claimed
      then (Passed Takeover, observe (ProbeAdmission True) (b\<lparr>probe_claimed_at_millis := now\<rparr>))
      else (slot_refused b, observe (ProbeAdmission False) b))"
| "check_step t p b = (p, b)"

fun record_step :: "nat \<Rightarrow> pc \<Rightarrow> breaker \<Rightarrow> pc \<times> breaker" where
  "record_step t (RecordClock oc) b =
     (if \<not> enabled (config b) then (Recorded, b) else (RecordState oc t, b))"
| "record_step t (RecordState oc now) b =
     (case breaker_state_of b of
        Closed \<Rightarrow> (RecordSample oc now, b)
      | Open \<Rightarrow> (RecordWindow oc now, b)
      | HalfOpen \<Rightarrow> (if oc = Failure then TripState HalfOpen ''probe_failure'' oc
                    else CloseState HalfOpen ''probe_success'' oc, b))"
| "record_step t (RecordSample oc now) b =
     (let b = sample (oc = Failure) now b
      in (if should_trip b then TripState Closed ''trip'' oc else RecordEnd oc, b))"
| "record_step t (RecordWindow oc now) b = (RecordEnd oc, sample (oc = Failure) now b)"
| "record_step t (TripState prev reason oc) b = (TripClock prev reason oc, b\<lparr>state_cell := to_u8 Open\<rparr>)"
| "record_step t (TripClock prev reason oc) b = (TripOpened prev reason oc (elapsed_millis b t), b)"
| "record_step t (TripOpened prev reason oc now) b =
     (TripProbes prev reason oc, b\<lparr>opened_at_millis := now\<rparr>)"
| "record_step t (TripProbes prev reason oc) b = (TripFast prev reason oc, b\<lparr>half_open_probes := 0\<rparr>)"
| "record_step t (TripFast prev reason oc) b =
     (RecordEnd oc, observe_change prev Open reason (b\<lparr>is_open_fast := True\<rparr>))"
| "record_step t (CloseState prev reason oc) b =
     (CloseWindow prev reason oc, b\<lparr>state_cell := to_u8 Closed\<rparr>)"
| "record_step t (CloseWindow prev reason oc) b =
     (CloseProbes prev reason oc, b\<lparr>window := window_clear (window b)\<rparr>)"
| "record_step t (CloseProbes prev reason oc) b = (CloseFast prev reason oc, b\<lparr>half_open_probes := 0\<rparr>)"
| "record_step t (CloseFast prev reason oc) b =
     (RecordEnd oc, observe_change prev Closed reason (b\<lparr>is_open_fast := False\<rparr>))"
| "record_step t (RecordEnd oc) b = (Recorded, observe (OutcomeSeen oc (breaker_state_of b)) b)"
| "record_step t p b = (p, b)"

fun is_check :: "pc \<Rightarrow> bool" where
  "is_check CheckStart = True" | "is_check CheckOpened = True" | "is_check (CheckElapsed _) = True"
| "is_check CheckCas = True" | "is_check CheckFast = True" | "is_check CheckReload = True"
| "is_check CheckReopened = True" | "is_check (CheckRetry _) = True" | "is_check ProbeClock = True"
| "is_check (ProbeAdd _) = True" | "is_check (ProbeClaim _) = True" | "is_check (ProbeSub _) = True"
| "is_check (ProbeLease _) = True" | "is_check (ProbeCas _ _) = True" | "is_check (Passed _) = True"
| "is_check (Refused _) = True" | "is_check _ = False"

definition thread_step :: "nat \<Rightarrow> pc \<Rightarrow> breaker \<Rightarrow> pc \<times> breaker" where
  "thread_step t p b = (if is_check p then check_step t p b else record_step t p b)"

text \<open>A thread that runs alone, all its clock readings at the same instant.\<close>

fun run_alone :: "nat \<Rightarrow> nat \<Rightarrow> pc \<Rightarrow> breaker \<Rightarrow> pc \<times> breaker" where
  "run_alone 0 t p b = (p, b)"
| "run_alone (Suc n) t p b = (case thread_step t p b of (p, b) \<Rightarrow> run_alone n t p b)"

fun answer_of :: "pc \<Rightarrow> admission option" where
  "answer_of (Passed g) = Some (Inr ())"
| "answer_of (Refused r) = Some (Inl r)"
| "answer_of _ = None"

subsection \<open>Systems of threads\<close>

record system =
  memory :: breaker
  threads :: "pc list"
  clock :: nat

definition system_step :: "nat \<Rightarrow> nat \<Rightarrow> system \<Rightarrow> system" where
  "system_step i t s =
     (case thread_step t (threads s ! i) (memory s) of
        (p, b) \<Rightarrow> \<lparr>memory = b, threads = (threads s)[i := p], clock = t\<rparr>)"

inductive interleaves :: "system \<Rightarrow> system \<Rightarrow> bool" where
  Step: "i < length (threads s) \<Longrightarrow> clock s \<le> t \<Longrightarrow> interleaves s (system_step i t s)"

text \<open>A schedule names the thread of each step and the instant it happens at.\<close>

fun run_schedule :: "(nat \<times> nat) list \<Rightarrow> system \<Rightarrow> system option" where
  "run_schedule [] s = Some s"
| "run_schedule ((i, t) # sched) s =
     (if i < length (threads s) \<and> clock s \<le> t then run_schedule sched (system_step i t s) else None)"

lemma run_schedule_interleaves:
  "run_schedule sched s = Some s' \<Longrightarrow> interleaves\<^sup>*\<^sup>* s s'"
proof (induction sched arbitrary: s)
  case (Cons it sched)
  obtain i t where it: "it = (i, t)" by (cases it)
  with Cons.prems have "interleaves s (system_step i t s)" "run_schedule sched (system_step i t s) = Some s'"
    by (auto split: if_splits intro: interleaves.Step)
  with Cons.IH show ?case by (meson converse_rtranclp_into_rtranclp)
qed simp

inductive_cases interleavesE: "interleaves s s'"

subsection \<open>A thread alone is the sequential operation\<close>

lemma thread_step_simps [simp]:
  "is_check p \<Longrightarrow> thread_step t p b = check_step t p b"
  "\<not> is_check p \<Longrightarrow> thread_step t p b = record_step t p b"
  by (simp_all add: thread_step_def)

lemma run_alone_done [simp]:
  "run_alone n t (Passed g) b = (Passed g, b)" "run_alone n t (Refused r) b = (Refused r, b)"
  "run_alone n t Recorded b = (Recorded, b)"
  by (induction n) simp_all

lemma run_alone_add: "run_alone (m + n) t p b = (case run_alone m t p b of (p, b) \<Rightarrow> run_alone n t p b)"
  by (induction m arbitrary: p b) (simp_all add: split_beta)

lemma probe_alone:
  "answer_of (fst (run_alone 5 t ProbeClock b)) = Some (snd (try_half_open_probe b t))
   \<and> snd (run_alone 5 t ProbeClock b) = fst (try_half_open_probe b t)"
  by (auto simp: eval_nat_numeral try_half_open_probe_def Let_def slot_refused_def elapsed_millis_def)

lemma elapsed_update [simp]:
  "elapsed_millis (b\<lparr>state_cell := s\<rparr>) t = elapsed_millis b t"
  "elapsed_millis (b\<lparr>is_open_fast := f\<rparr>) t = elapsed_millis b t"
  by (simp_all add: elapsed_millis_def)

lemma check_alone:
  "answer_of (fst (run_alone 10 t CheckStart b)) = Some (snd (breaker_check b t t))
   \<and> snd (run_alone 10 t CheckStart b) = fst (breaker_check b t t)"
proof -
  have probe: "run_alone 10 t CheckStart b = run_alone 5 t ProbeClock b'"
    if "run_alone 5 t CheckStart b = (ProbeClock, b')" for b'
    using run_alone_add [of 5 5 t CheckStart b] that by simp
  have finished: "run_alone 10 t CheckStart b = (p, b')"
    if "run_alone 5 t CheckStart b = (p, b')" "run_alone 5 t p b' = (p, b')" for p b'
    using run_alone_add [of 5 5 t CheckStart b] that by simp
  show ?thesis
  proof (cases "enabled (config b)")
    case False
    then have "run_alone 5 t CheckStart b = (Passed Unguarded, b)" by (simp add: eval_nat_numeral)
    from finished [OF this] False show ?thesis by (simp add: breaker_check_def)
  next
    case on: True
    show ?thesis
    proof (cases "breaker_state_of b")
      case Closed
      with on have "run_alone 5 t CheckStart b = (Passed Unguarded, b)" by (simp add: eval_nat_numeral)
      from finished [OF this] Closed on show ?thesis by (simp add: breaker_check_def)
    next
      case HalfOpen
      with on have "run_alone 10 t CheckStart b = run_alone 9 t ProbeClock b"
        by (simp add: eval_nat_numeral)
      also have "\<dots> = (case run_alone 5 t ProbeClock b of (p, b) \<Rightarrow> run_alone 4 t p b)"
        using run_alone_add [of 5 4 t ProbeClock b] by simp
      finally have "run_alone 10 t CheckStart b = (case run_alone 5 t ProbeClock b of (p, b) \<Rightarrow> run_alone 4 t p b)" .
      moreover have "run_alone 4 t (fst (run_alone 5 t ProbeClock b)) (snd (run_alone 5 t ProbeClock b))
          = run_alone 5 t ProbeClock b"
      proof -
        have "answer_of (fst (run_alone 5 t ProbeClock b)) \<noteq> None" using probe_alone [of t b] by simp
        then show ?thesis
          by (cases "fst (run_alone 5 t ProbeClock b)") (simp_all add: prod_eq_iff)
      qed
      ultimately have "run_alone 10 t CheckStart b = run_alone 5 t ProbeClock b" by (simp add: split_beta)
      with probe_alone [of t b] HalfOpen on show ?thesis by (simp add: breaker_check_def)
    next
      case opened: Open
      then have cell: "state_cell b = to_u8 Open"
        by (auto simp: breaker_state_of_def from_u8_def to_u8_def split: if_splits)
      show ?thesis
      proof (cases "open_duration (config b)
          \<le> from_millis (saturating_sub (elapsed_millis b t) (opened_at_millis b))")
        case True
        with opened on cell have "run_alone 5 t CheckStart b = (ProbeClock,
            observe (StateChange Open HalfOpen ''open_elapsed'')
              (b\<lparr>state_cell := to_u8 HalfOpen, is_open_fast := False\<rparr>))"
          by (simp add: eval_nat_numeral cas_state_def)
        from probe [OF this] probe_alone opened on cell True show ?thesis
          by (simp add: breaker_check_def check_open_def cas_state_def)
      next
        case False
        with opened on have "run_alone 5 t CheckStart b = (Refused (shed_open b t), b)"
          by (simp add: eval_nat_numeral shed_open_def)
        from finished [OF this] opened on False show ?thesis
          by (simp add: breaker_check_def check_open_def)
      qed
    qed
  qed
qed

lemma record_alone:
  "run_alone 9 t (RecordClock oc) b = (Recorded, breaker_record b oc t t)"
  by (cases "breaker_state_of b")
    (auto simp: eval_nat_numeral breaker_record_def Let_def trip_def close_def elapsed_millis_def
      breaker_state_of_def sample_def observe_change_def observe_def)

subsection \<open>Counting threads\<close>

definition count_pcs :: "(pc \<Rightarrow> bool) \<Rightarrow> system \<Rightarrow> nat" where
  "count_pcs P s = length (filter P (threads s))"

lemma filter_update:
  "i < length xs \<Longrightarrow> length (filter P (xs[i := y])) + of_bool (P (xs ! i))
     = length (filter P xs) + of_bool (P y)"
proof (induction xs arbitrary: i)
  case (Cons x xs)
  then show ?case by (cases i) auto
qed simp

lemma count_pcs_step:
  assumes "i < length (threads s)" "thread_step t (threads s ! i) (memory s) = (p, b)"
  shows "count_pcs P (system_step i t s) + of_bool (P (threads s ! i)) = count_pcs P s + of_bool (P p)"
  using filter_update [OF assms(1), of P p] assms(2) by (simp add: count_pcs_def system_step_def)

lemma count_pcs_pos: "i < length (threads s) \<Longrightarrow> P (threads s ! i) \<Longrightarrow> 0 < count_pcs P s"
  by (auto simp: count_pcs_def filter_empty_conv)

lemma count_pcs_le: "count_pcs P s \<le> length (threads s)"
  by (simp add: count_pcs_def)

lemma count_pcs_add:
  "(\<And>p. \<not> (P p \<and> Q p)) \<Longrightarrow> count_pcs P s + count_pcs Q s = count_pcs (\<lambda>p. P p \<or> Q p) s"
proof -
  assume disj: "\<And>p. \<not> (P p \<and> Q p)"
  have "length (filter P ps) + length (filter Q ps) = length (filter (\<lambda>p. P p \<or> Q p) ps)" for ps
    using disj by (induction ps) auto
  then show ?thesis by (simp add: count_pcs_def)
qed

fun holds_slot :: "pc \<Rightarrow> bool" where
  "holds_slot (ProbeClaim _) = True"
| "holds_slot (Passed Slot) = True"
| "holds_slot _ = False"

fun gives_back :: "pc \<Rightarrow> bool" where
  "gives_back (ProbeSub _) = True"
| "gives_back _ = False"

fun takes_over :: "pc \<Rightarrow> bool" where
  "takes_over (ProbeCas _ _) = True"
| "takes_over (Passed Takeover) = True"
| "takes_over _ = False"

fun stamp_of :: "pc \<Rightarrow> 64 word option" where
  "stamp_of (ProbeAdd now) = Some now"
| "stamp_of (ProbeClaim now) = Some now"
| "stamp_of (ProbeSub now) = Some now"
| "stamp_of (ProbeLease now) = Some now"
| "stamp_of (ProbeCas now claimed) = Some now"
| "stamp_of _ = None"

subsection \<open>Concurrent checks\<close>

lemma check_step_fixed:
  "is_check p \<Longrightarrow> check_step t p b = (p', b') \<Longrightarrow>
   is_check p' \<and> config b' = config b \<and> baseline b' = baseline b"
  by (cases p) (auto simp: cas_state_def Let_def slot_refused_def split: breaker_state.splits if_splits)

lemma check_step_counter:
  assumes "is_check p" "check_step t p b = (p', b')"
    and "unat (half_open_probes b) + 1 < 2 ^ 64" "gives_back p \<Longrightarrow> 0 < unat (half_open_probes b)"
  shows "unat (half_open_probes b') + of_bool (holds_slot p) + of_bool (gives_back p)
      = unat (half_open_probes b) + of_bool (holds_slot p') + of_bool (gives_back p')
    \<and> (holds_slot p' \<longrightarrow> holds_slot p
        \<or> unat (half_open_probes b) < unat (half_open_max_probes (config b)))
    \<and> (holds_slot p \<longrightarrow> holds_slot p')"
proof -
  have up: "unat (half_open_probes b + 1) = unat (half_open_probes b) + 1"
    using unat_add_lem [of "half_open_probes b" 1] assms(3) by simp
  have down: "unat (half_open_probes b - 1) + 1 = unat (half_open_probes b)" if "gives_back p"
    using assms(4) [OF that] by (simp add: unat_minus_one unat_gt_0)
  show ?thesis
    using assms(1,2) up down
    by (cases p)
      (auto simp: cas_state_def Let_def slot_refused_def word_less_nat_alt
        split: breaker_state.splits if_splits)
qed

lemma check_step_lease:
  assumes "is_check p" "check_step t p b = (p', b')" "ms_at b t < 2 ^ 64"
    and "m0 \<le> ms_at b t" "m0 \<le> unat (probe_claimed_at_millis b)"
    and "\<And>now. stamp_of p = Some now \<Longrightarrow> m0 \<le> unat now \<and> unat now \<le> ms_at b t"
    and "takes_over p \<Longrightarrow> m0 + unat (lease_millis (config b)) \<le> ms_at b t"
  shows "m0 \<le> unat (probe_claimed_at_millis b')
    \<and> (\<forall>now. stamp_of p' = Some now \<longrightarrow> m0 \<le> unat now \<and> unat now \<le> ms_at b t)
    \<and> (takes_over p' \<longrightarrow> m0 + unat (lease_millis (config b)) \<le> ms_at b t)"
proof (cases p)
  case (ProbeLease now)
  have stamp: "m0 \<le> unat now" "unat now \<le> ms_at b t" using assms(6) ProbeLease by auto
  have "m0 + unat (lease_millis (config b)) \<le> ms_at b t"
    if "lease_millis (config b) \<le> saturating_sub now (probe_claimed_at_millis b)"
    using that stamp assms(4,5) by (simp add: word_le_nat_alt)
  with assms(2,5) stamp ProbeLease show ?thesis by (auto simp: slot_refused_def split: if_splits)
qed (use assms in \<open>auto simp: cas_state_def Let_def slot_refused_def split: breaker_state.splits if_splits\<close>)

definition slots_inv :: "breaker_config \<Rightarrow> nat \<Rightarrow> nat \<Rightarrow> system \<Rightarrow> bool" where
  "slots_inv c base n s =
     (length (threads s) = n \<and> list_all is_check (threads s) \<and> config (memory s) = c
      \<and> unat (half_open_probes (memory s)) = base + count_pcs holds_slot s + count_pcs gives_back s
      \<and> base + count_pcs holds_slot s \<le> unat (half_open_max_probes c))"

definition lease_inv :: "nat \<Rightarrow> nat \<Rightarrow> nat \<Rightarrow> system \<Rightarrow> bool" where
  "lease_inv t0 m0 lease s =
     (list_all is_check (threads s) \<and> baseline (memory s) = t0
      \<and> unat (lease_millis (config (memory s))) = lease
      \<and> (ms_at (memory s) (clock s) < 2 ^ 64 \<longrightarrow>
           m0 \<le> ms_at (memory s) (clock s) \<and> m0 \<le> unat (probe_claimed_at_millis (memory s))
           \<and> (\<forall>p\<in>set (threads s). \<forall>now. stamp_of p = Some now \<longrightarrow>
                m0 \<le> unat now \<and> unat now \<le> ms_at (memory s) (clock s))
           \<and> ((\<exists>p\<in>set (threads s). takes_over p) \<longrightarrow> m0 + lease \<le> ms_at (memory s) (clock s))))"

lemma list_all_update: "list_all P xs \<Longrightarrow> P y \<Longrightarrow> list_all P (xs[i := y])"
  using set_update_subset_insert [of xs i y] by (auto simp: list_all_iff)

lemma slots_inv_step:
  assumes inv: "slots_inv c base n s" and step: "interleaves s s'"
    and room: "n + unat (half_open_max_probes c) + 1 < 2 ^ 64"
  shows "slots_inv c base n s'"
proof -
  from step obtain i t where s': "s' = system_step i t s" and i: "i < length (threads s)"
    by (auto elim: interleavesE)
  obtain p b where pb: "check_step t (threads s ! i) (memory s) = (p, b)" by fastforce
  have chk: "is_check (threads s ! i)" using inv i by (simp add: slots_inv_def list_all_length)
  then have run: "thread_step t (threads s ! i) (memory s) = (p, b)" using pb by simp
  note holds = count_pcs_step [OF i run, of holds_slot, folded s']
    and gives = count_pcs_step [OF i run, of gives_back, folded s']
  have "count_pcs gives_back s \<le> n" using count_pcs_le [of gives_back s] inv by (simp add: slots_inv_def)
  then have "unat (half_open_probes (memory s)) + 1 < 2 ^ 64"
    using inv room unfolding slots_inv_def by linarith
  moreover have "0 < unat (half_open_probes (memory s))" if "gives_back (threads s ! i)"
    using inv count_pcs_pos [of i s gives_back, OF i that] by (simp add: slots_inv_def)
  ultimately have counter: "unat (half_open_probes b) + of_bool (holds_slot (threads s ! i))
        + of_bool (gives_back (threads s ! i))
      = unat (half_open_probes (memory s)) + of_bool (holds_slot p) + of_bool (gives_back p)"
    "holds_slot p \<Longrightarrow> \<not> holds_slot (threads s ! i) \<Longrightarrow>
      unat (half_open_probes (memory s)) < unat (half_open_max_probes (config (memory s)))"
    using check_step_counter [OF chk pb] by blast+
  have mem: "memory s' = b" "threads s' = (threads s)[i := p]"
    using run by (simp_all add: s' system_step_def)
  have fixed: "is_check p" "config b = c" using check_step_fixed [OF chk pb] inv by (auto simp: slots_inv_def)
  have "list_all is_check (threads s')"
    unfolding mem using inv fixed(1) by (simp add: slots_inv_def list_all_update)
  moreover have "unat (half_open_probes b) = base + count_pcs holds_slot s' + count_pcs gives_back s'"
    using counter(1) holds gives inv by (simp add: slots_inv_def)
  moreover have "base + count_pcs holds_slot s' \<le> unat (half_open_max_probes c)"
  proof (cases "holds_slot p \<and> \<not> holds_slot (threads s ! i)")
    case True
    then have "unat (half_open_probes (memory s)) < unat (half_open_max_probes c)"
      using counter(2) inv by (simp add: slots_inv_def)
    with holds inv True show ?thesis by (simp add: slots_inv_def)
  next
    case False
    then have "of_bool (holds_slot p) \<le> (of_bool (holds_slot (threads s ! i)) :: nat)" by auto
    with holds inv show ?thesis unfolding slots_inv_def by linarith
  qed
  ultimately show ?thesis using inv fixed(2) mem by (simp add: slots_inv_def)
qed

lemma lease_inv_step:
  assumes inv: "lease_inv t0 m0 lease s" and step: "interleaves s s'"
  shows "lease_inv t0 m0 lease s'"
proof -
  from step obtain i t where s': "s' = system_step i t s" and i: "i < length (threads s)"
    and le: "clock s \<le> t"
    by (auto elim: interleavesE)
  obtain p b where pb: "check_step t (threads s ! i) (memory s) = (p, b)" by fastforce
  have chk: "is_check (threads s ! i)" using inv i by (simp add: lease_inv_def list_all_length)
  then have run: "thread_step t (threads s ! i) (memory s) = (p, b)" using pb by simp
  have mem: "memory s' = b" "threads s' = (threads s)[i := p]" "clock s' = t"
    using run by (simp_all add: s' system_step_def)
  have fixed: "is_check p" "config b = config (memory s)" "baseline b = baseline (memory s)"
    using check_step_fixed [OF chk pb] by auto
  have ms: "ms_at b t = ms_at (memory s) t" using fixed(3) by (simp add: ms_at_def)
  have mono: "ms_at (memory s) (clock s) \<le> ms_at (memory s) t" by (rule ms_at_mono [OF le])
  have all: "list_all is_check (threads s')"
    unfolding mem using inv fixed(1) by (simp add: lease_inv_def list_all_update)
  have stays: "q \<in> set (threads s')  \<Longrightarrow> q = p \<or> q \<in> set (threads s)" for q
    unfolding mem using set_update_subset_insert by fastforce
  show ?thesis
  proof (cases "ms_at (memory s) t < 2 ^ 64")
    case False
    with inv all fixed mem ms show ?thesis by (simp add: lease_inv_def)
  next
    case True
    then have "ms_at (memory s) (clock s) < 2 ^ 64" using mono by simp
    then have old: "m0 \<le> ms_at (memory s) (clock s)" "m0 \<le> unat (probe_claimed_at_millis (memory s))"
      "\<And>q now. q \<in> set (threads s) \<Longrightarrow> stamp_of q = Some now \<Longrightarrow>
         m0 \<le> unat now \<and> unat now \<le> ms_at (memory s) (clock s)"
      "\<And>q. q \<in> set (threads s) \<Longrightarrow> takes_over q \<Longrightarrow> m0 + lease \<le> ms_at (memory s) (clock s)"
      "unat (lease_millis (config (memory s))) = lease"
      using inv unfolding lease_inv_def by blast+
    have at: "threads s ! i \<in> set (threads s)" using i by simp
    have new: "m0 \<le> unat (probe_claimed_at_millis b)"
      "\<And>now. stamp_of p = Some now \<Longrightarrow> m0 \<le> unat now \<and> unat now \<le> ms_at (memory s) t"
      "takes_over p \<Longrightarrow> m0 + lease \<le> ms_at (memory s) t"
      using check_step_lease [OF chk pb True, of m0] old(1,2) old(3) [OF at] old(4) [OF at] old(5) mono
      by (auto intro: le_trans)
    have "m0 \<le> unat now \<and> unat now \<le> ms_at b t" if "q \<in> set (threads s')" "stamp_of q = Some now" for q now
      using stays [OF that(1)] new(2) old(3) [OF _ that(2)] that(2) mono unfolding ms
      by (auto intro: le_trans)
    moreover have "m0 + lease \<le> ms_at b t" if "q \<in> set (threads s')" "takes_over q" for q
      using stays [OF that(1)] new(3) old(4) [OF _ that(2)] that(2) mono unfolding ms
      by (auto intro: le_trans)
    moreover have "m0 \<le> ms_at b t" using old(1) mono ms by simp
    ultimately show ?thesis
      using inv all fixed mem new(1) unfolding lease_inv_def by auto
  qed
qed

definition callers :: "breaker \<Rightarrow> nat \<Rightarrow> pc list \<Rightarrow> system" where
  "callers b t ps = \<lparr>memory = b, threads = ps, clock = t\<rparr>"

lemma slots_inv_from:
  assumes "interleaves\<^sup>*\<^sup>* (callers b t (replicate n CheckStart)) s"
    and "half_open_probes b \<le> half_open_max_probes (config b)"
    and "n + unat (half_open_max_probes (config b)) + 1 < 2 ^ 64"
  shows "slots_inv (config b) (unat (half_open_probes b)) n s"
  using assms(1)
proof (induction rule: rtranclp_induct)
  case base
  show ?case
    using assms(2)
    by (simp add: slots_inv_def callers_def count_pcs_def list_all_iff word_le_nat_alt filter_empty_conv)
next
  case (step y z)
  then show ?case using slots_inv_step assms(3) by blast
qed

lemma lease_inv_from:
  assumes "interleaves\<^sup>*\<^sup>* (callers b t (replicate n CheckStart)) s" "ms_at b t < 2 ^ 64 \<Longrightarrow> stamps_ok b t"
  shows "lease_inv (baseline b) (unat (probe_claimed_at_millis b)) (unat (lease_millis (config b))) s"
  using assms(1)
proof (induction rule: rtranclp_induct)
  case base
  show ?case
    using assms(2) by (auto simp: lease_inv_def callers_def list_all_iff stamps_ok_def)
next
  case (step y z)
  then show ?case using lease_inv_step by blast
qed

lemmas thread_eval = breaker_eval callers_def system_step_def slot_refused_def

subsection \<open>Properties\<close>

text \<open>
  The step-by-step threads are the sequential operations: a check or a record that runs without
  interference, all its clock readings at one instant, ends after at most ten steps with the answer
  and the breaker that the operation computes.
\<close>

lemma thread_alone_is_sequential:
  "answer_of (fst (run_alone 10 t CheckStart b)) = Some (snd (breaker_check b t t))
   \<and> snd (run_alone 10 t CheckStart b) = fst (breaker_check b t t)
   \<and> run_alone 10 t (RecordClock oc) b = (Recorded, breaker_record b oc t t)"
proof -
  have "run_alone 10 t (RecordClock oc) b = run_alone 1 t Recorded (breaker_record b oc t t)"
    using run_alone_add [of 9 1 t "RecordClock oc" b] record_alone [of t oc b] by simp
  then show ?thesis using check_alone [of t b] by simp
qed

text \<open>
  C24. Racing callers share the probe slots: however any number of concurrent checks interleave, from a
  reachable breaker whose cool-down may just be running out, no more of them get a free slot than
  there are free slots; and when the breaker is already half open and its lease has not run out, no
  caller takes over a claim, so that this is the number of all probes admitted.
\<close>

theorem concurrent_checks_share_slots:
  assumes "breaker_reachable c t0 (b, t)"
    and "n + unat (max (half_open_max_probes c) 1) + 1 < 2 ^ 64"
    and "interleaves\<^sup>*\<^sup>* (callers b t (replicate n CheckStart)) s"
  shows "unat (half_open_probes b) + count_pcs (\<lambda>p. p = Passed Slot) s
      \<le> unat (max (half_open_max_probes c) 1)
    \<and> ((clock s - t0) div millis < 2 ^ 64
        \<and> (clock s - t0) div millis < unat (probe_claimed_at_millis b) + unat (lease_millis c)
        \<longrightarrow> Passed Takeover \<notin> set (threads s))"
proof -
  note fixed = reachable_fixed [OF assms(1)]
  have inv: "breaker_inv (b, t)" by (rule reachable_inv [OF assms(1)])
  have "slots_inv (config b) (unat (half_open_probes b)) n s"
    using slots_inv_from [OF assms(3)] inv assms(2) fixed by (simp add: breaker_inv_def probes_ok_def)
  then have "unat (half_open_probes b) + count_pcs holds_slot s \<le> unat (max (half_open_max_probes c) 1)"
    using fixed by (simp add: slots_inv_def)
  moreover have "count_pcs (\<lambda>p. p = Passed Slot) s \<le> count_pcs holds_slot s"
  proof -
    have "length (filter (\<lambda>p. p = Passed Slot) ps) \<le> length (filter holds_slot ps)" for ps
      by (induction ps) auto
    then show ?thesis by (simp add: count_pcs_def)
  qed
  moreover have "Passed Takeover \<notin> set (threads s)"
    if fits: "(clock s - t0) div millis < 2 ^ 64"
      and early: "(clock s - t0) div millis < unat (probe_claimed_at_millis b) + unat (lease_millis c)"
  proof
    assume over: "Passed Takeover \<in> set (threads s)"
    have lease: "lease_inv t0 (unat (probe_claimed_at_millis b)) (unat (lease_millis c)) s"
      using lease_inv_from [OF assms(3)] inv fixed by (simp add: breaker_inv_def lease_millis_def)
    then have "ms_at (memory s) (clock s) = (clock s - t0) div millis"
      by (simp add: lease_inv_def ms_at_def)
    with lease fits early over show False
      unfolding lease_inv_def by (metis not_less takes_over.simps(2))
  qed
  ultimately show ?thesis by simp
qed

lemma concurrent_checks_share_slots_witness:
  "\<exists>s. interleaves\<^sup>*\<^sup>* (callers example_tripped (seconds 13) [CheckStart, CheckStart]) s
    \<and> threads s = [Passed Slot, Refused \<lparr>retry_after = 50 * millis\<rparr>]
    \<and> count_pcs (\<lambda>p. p = Passed Slot) s \<le> 1"
proof -
  let ?t = "seconds 13"
  let ?s0 = "callers example_tripped ?t [CheckStart, CheckStart]"
  let ?sched = "[(0, ?t), (0, ?t), (0, ?t), (0, ?t), (0, ?t), (0, ?t), (Suc 0, ?t), (0, ?t), (0, ?t),
     (Suc 0, ?t), (Suc 0, ?t), (Suc 0, ?t), (Suc 0, ?t)]"
  have "\<exists>s. run_schedule ?sched ?s0 = Some s
      \<and> threads s = [Passed Slot, Refused \<lparr>retry_after = 50 * millis\<rparr>]"
    by (simp add: example_tripped_eval example_config_def thread_eval)
  then obtain s where s: "interleaves\<^sup>*\<^sup>* ?s0 s"
    "threads s = [Passed Slot, Refused \<lparr>retry_after = 50 * millis\<rparr>]"
    using run_schedule_interleaves by blast
  have "breaker_step (example_tripped, seconds 2) (fst (breaker_error_rate example_tripped ?t), ?t)"
    by (rule breaker_step.Rate) (simp add: seconds_def)
  moreover have "fst (breaker_error_rate example_tripped ?t) = example_tripped"
    by (simp add: breaker_error_rate_def Let_def example_tripped_eval example_config_def breaker_eval)
  ultimately have reach: "breaker_reachable example_config 0 (example_tripped, ?t)"
    using example_tripped_reachable unfolding breaker_reachable_def by (metis rtranclp.rtrancl_into_rtrancl)
  have room: "2 + unat (max (half_open_max_probes example_config) 1) + 1 < 2 ^ 64"
    by (simp add: example_config_def)
  have "?s0 = callers example_tripped ?t (replicate 2 CheckStart)" by (simp add: numeral_2_eq_2)
  with concurrent_checks_share_slots [OF reach room, of s] s(1)
  have "count_pcs (\<lambda>p. p = Passed Slot) s \<le> 1"
    by (simp add: example_tripped_eval example_config_def)
  with s show ?thesis by blast
qed

subsection \<open>Two races\<close>

text \<open>
  A probe slot can be used twice.  A winner of a free slot publishes its claim only after it has
  raised the counter; a second caller that meets the full counter in between reads the claim of an
  earlier half-open period, finds its lease expired and takes it over.  From a reachable breaker with
  one probe slot, two racing checks at a single instant are both admitted.
\<close>

lemma stale_claim_admits_two_probes:
  "breaker_reachable example_config 0 (example_tripped, seconds 2)
   \<and> half_open_max_probes example_config = 1
   \<and> (\<exists>s. interleaves\<^sup>*\<^sup>* (callers example_tripped (seconds 13) [CheckStart, CheckStart]) s
        \<and> threads s = [Passed Slot, Passed Takeover] \<and> clock s = seconds 13)"
proof -
  let ?t = "seconds 13"
  let ?sched = "[(0, ?t), (0, ?t), (0, ?t), (0, ?t), (0, ?t), (0, ?t), (0, ?t),
     (Suc 0, ?t), (Suc 0, ?t), (Suc 0, ?t), (Suc 0, ?t), (Suc 0, ?t), (Suc 0, ?t), (0, ?t)]"
  have "\<exists>s. run_schedule ?sched (callers example_tripped ?t [CheckStart, CheckStart]) = Some s
      \<and> threads s = [Passed Slot, Passed Takeover] \<and> clock s = ?t"
    by (simp add: example_tripped_eval example_config_def thread_eval)
  then have "\<exists>s. interleaves\<^sup>*\<^sup>* (callers example_tripped ?t [CheckStart, CheckStart]) s
      \<and> threads s = [Passed Slot, Passed Takeover] \<and> clock s = ?t"
    using run_schedule_interleaves by blast
  moreover have "half_open_max_probes example_config = 1" by (simp add: example_config_def)
  ultimately show ?thesis using example_tripped_reachable by blast
qed

definition example_closed :: breaker where
  "example_closed = breaker_record (with_clock example_config 0) Failure (seconds 100) (seconds 100)"

text \<open>
  C40. A trip can lose its cool-down.  The breaker publishes the state Open before the instant it opened
  at; a check in between measures the cool-down from the last opening (or from the start), moves on to
  half open and is admitted at the instant of the trip.  The rest of the trip then clears its claimed
  slot and raises the lock-free mirror, which says open while the breaker is half open.
\<close>

theorem trip_race_skips_cool_down:
  "breaker_reachable example_config 0 (example_closed, seconds 100)
   \<and> (\<exists>s. interleaves\<^sup>*\<^sup>* (callers example_closed (seconds 101) [RecordClock Failure, CheckStart]) s
        \<and> threads s = [Recorded, Passed Slot] \<and> clock s = seconds 101
        \<and> breaker_state_of (memory s) = HalfOpen \<and> is_open (memory s)
        \<and> half_open_probes (memory s) = 0)"
proof -
  let ?t = "seconds 101"
  let ?sched = "[(0, ?t), (0, ?t), (0, ?t), (0, ?t), (Suc 0, ?t), (Suc 0, ?t), (Suc 0, ?t), (Suc 0, ?t),
     (Suc 0, ?t), (Suc 0, ?t), (Suc 0, ?t), (Suc 0, ?t), (0, ?t), (0, ?t), (0, ?t), (0, ?t), (0, ?t)]"
  have closed: "example_closed = (with_clock example_config 0)
      \<lparr>window := \<lparr>entries = [(seconds 100, True)], failures = Suc 0\<rparr>,
       observations := [OutcomeSeen Failure Closed]\<rparr>"
    by (simp add: example_closed_def example_config_def breaker_eval)
  have "breaker_step (with_clock example_config 0, 0) (example_closed, seconds 100)"
    unfolding example_closed_def by (rule breaker_step.Record) simp_all
  then have "breaker_reachable example_config 0 (example_closed, seconds 100)"
    unfolding breaker_reachable_def by blast
  moreover have "\<exists>s. run_schedule ?sched (callers example_closed ?t [RecordClock Failure, CheckStart]) = Some s
      \<and> threads s = [Recorded, Passed Slot] \<and> clock s = ?t
      \<and> breaker_state_of (memory s) = HalfOpen \<and> is_open (memory s) \<and> half_open_probes (memory s) = 0"
    using example_samples(2) [of 100000000000 101000000000]
    by (simp add: closed example_config_def thread_eval is_open_def
        numeral_2_eq_2 [symmetric])
  ultimately show ?thesis using run_schedule_interleaves by blast
qed

text \<open>
  The counter can even be negative: a refused caller that raised it gives its slot back after a trip has
  zeroed it, and the breaker stands open with a counter of \<open>2\<^sup>6\<^sup>4 - 1\<close>.  The next half-open period is
  then entered through a lease that has run out, not through a free slot.
\<close>

lemma late_return_underflows_counter:
  "\<exists>s. interleaves\<^sup>*\<^sup>* (callers example_probing (seconds 14) [CheckStart, RecordClock Failure]) s
     \<and> breaker_state_of (memory s) = Open \<and> half_open_probes (memory s) = - 1"
proof -
  let ?t = "seconds 14"
  let ?sched = "[(0, ?t), (0, ?t), (0, ?t), (Suc 0, ?t), (Suc 0, ?t), (Suc 0, ?t), (Suc 0, ?t),
     (Suc 0, ?t), (Suc 0, ?t), (Suc 0, ?t), (Suc 0, ?t), (0, ?t)]"
  have "\<exists>s. run_schedule ?sched (callers example_probing ?t [CheckStart, RecordClock Failure]) = Some s
      \<and> breaker_state_of (memory s) = Open \<and> half_open_probes (memory s) = - 1"
    by (simp add: example_probing_eval example_config_def thread_eval)
  then show ?thesis using run_schedule_interleaves by blast
qed

end
