(* ===== verification/Conversation.thy ===== *)
theory Conversation
  imports Numerals Externals "HOL-Library.Word"
begin

text \<open>
  The conversation the agent keeps and sends to the model
  (\<^verbatim>\<open>xai-grok-sampling-types/src/conversation.rs\<close>): its items, the request built from them with the
  removal of inline images, and the response of a turn with the test for emptiness.  A reasoning item
  and a backend tool call wrap types of the Responses API client; they have the fields the code reads.
\<close>

subsection \<open>Items\<close>

datatype synthetic_reason =
  CompactionMeta | SystemReminder | ProjectInstructions | AutoContinue | AutoRecovery | Interjection
| TaskCompleted | SubagentCompleted | NotificationDrain | GoalSummary | GoalClassifierNudge
| SchedulerFired | UnknownReason

fun starts_prompt_turn :: "synthetic_reason \<Rightarrow> bool" where
  "starts_prompt_turn TaskCompleted = True"
| "starts_prompt_turn SubagentCompleted = True"
| "starts_prompt_turn NotificationDrain = True"
| "starts_prompt_turn GoalClassifierNudge = True"
| "starts_prompt_turn SchedulerFired = True"
| "starts_prompt_turn CompactionMeta = False"
| "starts_prompt_turn SystemReminder = False"
| "starts_prompt_turn ProjectInstructions = False"
| "starts_prompt_turn AutoContinue = False"
| "starts_prompt_turn AutoRecovery = False"
| "starts_prompt_turn Interjection = False"
| "starts_prompt_turn GoalSummary = False"
| "starts_prompt_turn UnknownReason = False"

datatype prior_turn_interrupt =
  MidTurnAbort | PermissionRejected | PermissionCancelled | UnknownInterrupt

datatype content_part = TextPart str | ImagePart str

record user_item =
  user_content :: "content_part list"
  reason :: "synthetic_reason option"
  prior_interrupt :: "prior_turn_interrupt option"
  prompt_index :: "nat option"

record tool_call =
  call_id :: str
  call_name :: str
  arguments :: str

datatype reasoning_effort = NoEffort | Minimal | Low | Medium | High | Xhigh

record assistant_item =
  assistant_content :: str
  tool_calls :: "tool_call list"
  model_id :: "str option"
  model_fingerprint :: "str option"
  effort :: "reasoning_effort option"

record tool_result_item =
  tool_call_id :: str
  result_content :: str
  result_images :: "content_part list"

record reasoning_item =
  reasoning_id :: str
  summary :: "str list"
  reasoning_text :: "str list option"
  encrypted_content :: "str option"

text \<open>A tool call that the server ran itself: its id and what it serialises to.\<close>

record hosted_call =
  hosted_id :: str
  hosted_value :: "json option"

datatype backend_tool_kind =
  WebSearch hosted_call | XSearch hosted_call | CodeInterpreter hosted_call

datatype conversation_item =
  System str
| User user_item
| Assistant assistant_item
| ToolResult tool_result_item
| BackendToolCall backend_tool_kind
| Reasoning reasoning_item

fun is_tool_result :: "conversation_item \<Rightarrow> bool" where
  "is_tool_result (ToolResult _) = True"
| "is_tool_result _ = False"

text \<open>The constructors of items from text; the synthetic ones differ only in their reason.\<close>

definition user_of :: "synthetic_reason option \<Rightarrow> str \<Rightarrow> conversation_item" where
  "user_of r t = User \<lparr>user_content = [TextPart t], reason = r, prior_interrupt = None, prompt_index = None\<rparr>"

definition user :: "str \<Rightarrow> conversation_item" where
  "user = user_of None"

definition user_meta :: "str \<Rightarrow> conversation_item" where
  "user_meta = user_of (Some CompactionMeta)"

definition system_reminder :: "str \<Rightarrow> conversation_item" where
  "system_reminder = user_of (Some SystemReminder)"

definition project_instructions :: "str \<Rightarrow> conversation_item" where
  "project_instructions = user_of (Some ProjectInstructions)"

definition assistant_message :: "str \<Rightarrow> conversation_item" where
  "assistant_message t =
     Assistant \<lparr>assistant_content = t, tool_calls = [], model_id = None, model_fingerprint = None,
                effort = None\<rparr>"

definition assistant_tool_calls :: "tool_call list \<Rightarrow> conversation_item" where
  "assistant_tool_calls tcs =
     Assistant \<lparr>assistant_content = [], tool_calls = tcs, model_id = None, model_fingerprint = None,
                effort = None\<rparr>"

definition tool_result :: "str \<Rightarrow> str \<Rightarrow> conversation_item" where
  "tool_result i t = ToolResult \<lparr>tool_call_id = i, result_content = t, result_images = []\<rparr>"

definition synthesized_reasoning_item :: "str \<Rightarrow> reasoning_item" where
  "synthesized_reasoning_item t =
     \<lparr>reasoning_id = [], summary = [t], reasoning_text = None, encrypted_content = None\<rparr>"

subsection \<open>Requests and images\<close>

text \<open>
  A request is its items and the fields the loop below passes on unread (tools, headers, sampling
  parameters), which are the extension of the record.
\<close>

record conversation_request =
  items :: "conversation_item list"

definition image_placeholder :: str where
  "image_placeholder =
     ''[image removed '' @ [CHR 0xE2, CHR 0x80, CHR 0x94] @ '' conversation too large]''"

fun strip_parts :: "content_part list \<Rightarrow> nat \<times> content_part list" where
  "strip_parts [] = (0, [])"
| "strip_parts (ImagePart u # ps) =
     (let (n, qs) = strip_parts ps in (n + 1, TextPart image_placeholder # qs))"
| "strip_parts (TextPart t # ps) = (let (n, qs) = strip_parts ps in (n, TextPart t # qs))"

fun strip_item :: "conversation_item \<Rightarrow> nat \<times> conversation_item" where
  "strip_item (User u) = (let (n, qs) = strip_parts (user_content u) in (n, User (u\<lparr>user_content := qs\<rparr>)))"
| "strip_item (ToolResult t) = (length (result_images t), ToolResult (t\<lparr>result_images := []\<rparr>))"
| "strip_item i = (0, i)"

fun strip_items :: "conversation_item list \<Rightarrow> nat \<times> conversation_item list" where
  "strip_items [] = (0, [])"
| "strip_items (i # is) =
     (let (n, i') = strip_item i; (m, is') = strip_items is in (n + m, i' # is'))"

text \<open>The number of images removed, and the request without them.\<close>

definition strip_images ::
    "'a conversation_request_scheme \<Rightarrow> nat \<times> 'a conversation_request_scheme" where
  "strip_images r = (let (n, is) = strip_items (items r) in (n, r\<lparr>items := is\<rparr>))"

text \<open>What counts as an image.\<close>

fun image_count :: "conversation_item \<Rightarrow> nat" where
  "image_count (User u) = length (filter (\<lambda>p. case p of ImagePart _ \<Rightarrow> True | TextPart _ \<Rightarrow> False) (user_content u))"
| "image_count (ToolResult t) = length (result_images t)"
| "image_count _ = 0"

definition request_images :: "'a conversation_request_scheme \<Rightarrow> nat" where
  "request_images r = sum_list (map image_count (items r))"

lemma strip_parts_count:
  "fst (strip_parts ps) = length (filter (\<lambda>p. case p of ImagePart _ \<Rightarrow> True | TextPart _ \<Rightarrow> False) ps)"
  by (induction ps rule: strip_parts.induct) (auto simp: case_prod_unfold Let_def)

lemma strip_parts_no_images:
  "filter (\<lambda>p. case p of ImagePart _ \<Rightarrow> True | TextPart _ \<Rightarrow> False) (snd (strip_parts ps)) = []"
  by (induction ps rule: strip_parts.induct) (auto simp: case_prod_unfold Let_def)

lemma strip_parts_id: "fst (strip_parts ps) = 0 \<Longrightarrow> snd (strip_parts ps) = ps"
  by (induction ps rule: strip_parts.induct) (auto simp: case_prod_unfold Let_def)

lemma strip_item_count: "fst (strip_item i) = image_count i"
  by (cases i) (auto simp: case_prod_unfold Let_def strip_parts_count)

lemma strip_item_no_images: "image_count (snd (strip_item i)) = 0"
  by (cases i) (auto simp: case_prod_unfold Let_def strip_parts_no_images)

lemma strip_item_id: "fst (strip_item i) = 0 \<Longrightarrow> snd (strip_item i) = i"
  by (cases i) (auto simp: case_prod_unfold Let_def strip_parts_id)

lemma strip_items_spec:
  "fst (strip_items is) = sum_list (map image_count is) \<and>
   sum_list (map image_count (snd (strip_items is))) = 0"
  by (induction "is") (auto simp: case_prod_unfold Let_def strip_item_count strip_item_no_images)

lemma strip_items_id: "fst (strip_items is) = 0 \<Longrightarrow> snd (strip_items is) = is"
  by (induction "is") (auto simp: case_prod_unfold Let_def strip_item_id)

lemma strip_images_count [simp]: "fst (strip_images r) = request_images r"
  by (simp add: strip_images_def case_prod_unfold Let_def request_images_def strip_items_spec)

lemma strip_images_clean [simp]: "request_images (snd (strip_images r)) = 0"
  by (simp add: strip_images_def case_prod_unfold Let_def request_images_def strip_items_spec)

lemma strip_images_id: "request_images r = 0 \<Longrightarrow> snd (strip_images r) = r"
  using strip_items_id [of "items r"] strip_items_spec [of "items r"]
  by (simp add: strip_images_def case_prod_unfold Let_def request_images_def)

subsection \<open>Responses\<close>

datatype stop_reason = Stop | Length | ToolCalls | ContentFilter

fun stop_reason_str :: "stop_reason \<Rightarrow> str" where
  "stop_reason_str Stop = ''stop''"
| "stop_reason_str Length = ''length''"
| "stop_reason_str ToolCalls = ''tool_calls''"
| "stop_reason_str ContentFilter = ''content_filter''"

datatype finish_reason = FinStop | FinLength | FinToolCalls | FinContentFilter | FinFunctionCall

fun stop_of_finish :: "finish_reason \<Rightarrow> stop_reason" where
  "stop_of_finish FinStop = Stop"
| "stop_of_finish FinLength = Length"
| "stop_of_finish FinToolCalls = ToolCalls"
| "stop_of_finish FinFunctionCall = ToolCalls"
| "stop_of_finish FinContentFilter = ContentFilter"

record token_usage =
  prompt_tokens :: "32 word"
  completion_tokens :: "32 word"
  total_tokens :: "32 word"
  reasoning_tokens :: "32 word"
  cached_prompt_tokens :: "32 word"

text \<open>Wire usage of a chat completions chunk; costs are 64-bit ticks.\<close>

record wire_usage =
  wire_prompt_tokens :: "32 word"
  wire_completion_tokens :: "32 word"
  wire_total_tokens :: "32 word"
  wire_cached_tokens :: "32 word option"
  wire_reasoning_tokens :: "32 word option"
  cost_in_usd_ticks :: "int option"

definition usage_of_wire :: "wire_usage \<Rightarrow> token_usage" where
  "usage_of_wire u =
     \<lparr>prompt_tokens = wire_prompt_tokens u, completion_tokens = wire_completion_tokens u,
      total_tokens = wire_total_tokens u,
      reasoning_tokens = (case wire_reasoning_tokens u of None \<Rightarrow> 0 | Some n \<Rightarrow> n),
      cached_prompt_tokens = (case wire_cached_tokens u of None \<Rightarrow> 0 | Some n \<Rightarrow> n)\<rparr>"

definition reported_cost_ticks :: "int option \<Rightarrow> int option" where
  "reported_cost_ticks raw = filter_option (\<lambda>t. 0 < t) raw"

datatype doom_loop_signal_kind = TailRepetition "32 word" | LowLogprob | UnknownSignal str

record doom_loop_signal =
  signal_kind :: doom_loop_signal_kind
  channel :: str
  raw :: str

record conversation_response =
  resp_items :: "conversation_item list"
  stop_reason :: "stop_reason option"
  usage :: "token_usage option"
  cost_usd_ticks :: "int option"
  message_chunks_emitted :: nat
  doom_loop_signals :: "doom_loop_signal list"
  stop_message :: "str option"

definition assistant :: "'a conversation_response_scheme \<Rightarrow> assistant_item option" where
  "assistant r =
     (case find (\<lambda>i. case i of Assistant _ \<Rightarrow> True | _ \<Rightarrow> False) (rev (resp_items r)) of
        Some (Assistant a) \<Rightarrow> Some a | _ \<Rightarrow> None)"

definition assistant_text :: "'a conversation_response_scheme \<Rightarrow> str" where
  "assistant_text r = (case assistant r of None \<Rightarrow> [] | Some a \<Rightarrow> assistant_content a)"

definition reasoning_items :: "'a conversation_response_scheme \<Rightarrow> reasoning_item list" where
  "reasoning_items r =
     List.map_filter (\<lambda>i. case i of Reasoning x \<Rightarrow> Some x | _ \<Rightarrow> None) (resp_items r)"

datatype empty_reason = ReasoningOnly | NoVisibleContent

fun empty_reason_str :: "empty_reason \<Rightarrow> str" where
  "empty_reason_str ReasoningOnly = ''reasoning_only''"
| "empty_reason_str NoVisibleContent = ''no_visible_content''"

definition carries_reasoning :: "reasoning_item \<Rightarrow> bool" where
  "carries_reasoning x = (summary x \<noteq> [] \<or> reasoning_text x \<noteq> None \<or> encrypted_content x \<noteq> None)"

definition response_empty_reason :: "'a conversation_response_scheme \<Rightarrow> empty_reason option" where
  "response_empty_reason r =
     (case assistant r of
        None \<Rightarrow> Some NoVisibleContent
      | Some a \<Rightarrow>
          if assistant_content a \<noteq> [] \<or> tool_calls a \<noteq> [] then None
          else if list_ex carries_reasoning (reasoning_items r) then Some ReasoningOnly
          else Some NoVisibleContent)"

definition fallback_text :: "'a conversation_response_scheme \<Rightarrow> str option" where
  "fallback_text r =
     (if 0 < message_chunks_emitted r then None
      else if assistant_text r = [] then None else Some (assistant_text r))"

lemma response_not_empty:
  "response_empty_reason r = None \<longleftrightarrow>
     (\<exists>a. assistant r = Some a \<and> (assistant_content a \<noteq> [] \<or> tool_calls a \<noteq> []))"
  by (auto simp: response_empty_reason_def split: option.splits)

end
