(* ===== verification/History_Repair.thy ===== *)
theory History_Repair
  imports Conversation "HOL-Library.Multiset"
begin

text \<open>
  Repairing a conversation so that a provider accepts it: every tool call is answered by exactly one
  result, in the run of results right behind the assistant message that made it.  The passes are
  \<^verbatim>\<open>repair_dangling_tool_calls\<close>, \<^verbatim>\<open>has_dangling_tool_calls\<close> and \<^verbatim>\<open>dedup_duplicate_tool_results\<close>
  (\<^verbatim>\<open>xai-grok-sampling-types/src/conversation.rs\<close>), and \<^verbatim>\<open>strip_displaced_tool_results\<close>,
  \<^verbatim>\<open>repair_history\<close>, \<^verbatim>\<open>sanitize_compacted_history\<close> and \<^verbatim>\<open>validate_compacted_history\<close>
  (\<^verbatim>\<open>xai-chat-state/src/compaction_utils.rs\<close>).
\<close>

named_theorems history_simps \<open>how the scans treat the first item\<close>

subsection \<open>Items as the scans see them\<close>

definition calls_of :: "conversation_item \<Rightarrow> tool_call list" where
  "calls_of i = (case i of Assistant a \<Rightarrow> tool_calls a | _ \<Rightarrow> [])"

definition result_id :: "conversation_item \<Rightarrow> str" where
  "result_id i = (case i of ToolResult t \<Rightarrow> tool_call_id t | _ \<Rightarrow> [])"

abbreviation run :: "conversation_item list \<Rightarrow> conversation_item list" where
  "run \<equiv> takeWhile is_tool_result"

abbreviation after_run :: "conversation_item list \<Rightarrow> conversation_item list" where
  "after_run \<equiv> dropWhile is_tool_result"

lemma calls_not_result: "calls_of i \<noteq> [] \<Longrightarrow> \<not> is_tool_result i"
  by (cases i) (simp_all add: calls_of_def)

lemma result_no_calls: "is_tool_result i \<Longrightarrow> calls_of i = []"
  by (cases i) (simp_all add: calls_of_def)

lemma run_results: "list_all is_tool_result (run xs)"
  by (induction xs) auto

lemma run_append: "list_all is_tool_result rs \<Longrightarrow> run (rs @ xs) = rs @ run xs"
  by (induction rs) auto

lemma after_run_append: "list_all is_tool_result rs \<Longrightarrow> after_run (rs @ xs) = after_run xs"
  by (induction rs) auto

lemma run_after_run [simp]: "run (after_run xs) = []"
  by (induction xs) auto

lemma after_run_idem [simp]: "after_run (after_run xs) = after_run xs"
  by (induction xs) auto

lemma length_after_run: "length (after_run xs) \<le> length xs"
  by (rule length_dropWhile_le)

subsection \<open>Dangling calls\<close>

datatype dangling_reason = UserCancelled | HarnessHalted str

definition synthetic_dangling_result_text :: "str \<Rightarrow> dangling_reason \<Rightarrow> str" where
  "synthetic_dangling_result_text name r =
     (case r of
        UserCancelled \<Rightarrow>
          ''Tool execution was cancelled by the user (tool `'' @ name @ ''` was not executed).''
      | HarnessHalted cls \<Rightarrow>
          ''Tool execution was halted by the harness ('' @ cls @ ''); the tool `'' @ name
            @ ''` was not executed.'')"

definition synthetic_results ::
    "dangling_reason \<Rightarrow> tool_call list \<Rightarrow> str list \<Rightarrow> conversation_item list" where
  "synthetic_results r tcs answered =
     map (\<lambda>tc. tool_result (call_id tc) (synthetic_dangling_result_text (call_name tc) r))
       (filter (\<lambda>tc. call_id tc \<notin> set answered) tcs)"

text \<open>The first phase: where results are missing, as insert positions of the scanned list.\<close>

function repair_sites ::
    "dangling_reason \<Rightarrow> nat \<Rightarrow> conversation_item list \<Rightarrow> (nat \<times> conversation_item list) list" where
  "repair_sites r i [] = []"
| "repair_sites r i (x # xs) =
     (if calls_of x \<noteq> []
      then (let answered = map result_id (run xs);
                j = i + 1 + length (run xs);
                synthetic = synthetic_results r (calls_of x) answered
            in (if synthetic = [] then [] else [(j, synthetic)]) @ repair_sites r j (after_run xs))
      else repair_sites r (i + 1) xs)"
  by pat_completeness auto
termination
  by (relation "measure (\<lambda>(r, i, xs). length xs)") (auto simp: le_imp_less_Suc length_after_run)

definition insert_at :: "nat \<times> 'a list \<Rightarrow> 'a list \<Rightarrow> 'a list" where
  "insert_at site xs = take (fst site) xs @ snd site @ drop (fst site) xs"

text \<open>The second phase inserts from the back, so that earlier positions stay valid.\<close>

definition repair_dangling_tool_calls ::
    "dangling_reason \<Rightarrow> conversation_item list \<Rightarrow> nat \<times> conversation_item list" where
  "repair_dangling_tool_calls r conversation =
     (let repairs = repair_sites r 0 conversation
      in (sum_list (map (length \<circ> snd) repairs), fold insert_at (rev repairs) conversation))"

function has_dangling_tool_calls :: "conversation_item list \<Rightarrow> bool" where
  "has_dangling_tool_calls [] = False"
| "has_dangling_tool_calls (x # xs) =
     (if calls_of x \<noteq> []
      then list_ex (\<lambda>tc. call_id tc \<notin> set (map result_id (run xs))) (calls_of x)
             \<or> has_dangling_tool_calls (after_run xs)
      else has_dangling_tool_calls xs)"
  by pat_completeness auto
termination
  by (relation "measure length") (auto simp: le_imp_less_Suc length_after_run)

subsection \<open>Duplicate results\<close>

text \<open>The positions of the run that a later result of the same call supersedes.\<close>

fun mark_duplicates :: "nat \<Rightarrow> (str \<rightharpoonup> nat) \<Rightarrow> conversation_item list \<Rightarrow> nat list" where
  "mark_duplicates idx seen [] = []"
| "mark_duplicates idx seen (x # xs) =
     (case seen (result_id x) of None \<Rightarrow> [] | Some prev \<Rightarrow> [prev])
       @ mark_duplicates (Suc idx) (seen(result_id x \<mapsto> idx)) xs"

definition remove_at :: "nat \<Rightarrow> 'a list \<Rightarrow> 'a list" where
  "remove_at i xs = take i xs @ drop (Suc i) xs"

definition remove_marked :: "conversation_item list \<Rightarrow> conversation_item list" where
  "remove_marked xs = fold remove_at (rev (sort (mark_duplicates 0 Map.empty xs))) xs"

text \<open>What that keeps: the last result of every call.\<close>

fun keep_last :: "conversation_item list \<Rightarrow> conversation_item list" where
  "keep_last [] = []"
| "keep_last (x # xs) =
     (if result_id x \<in> result_id ` set xs then keep_last xs else x # keep_last xs)"

lemma nths_UNIV [simp]: "nths xs UNIV = xs"
  by (simp add: nths_def)

lemma remove_at_nths:
  "sorted_wrt (>) ds \<Longrightarrow> fold remove_at ds xs = nths xs (- set ds)"
proof (induction ds arbitrary: xs)
  case Nil
  then show ?case by simp
next
  case (Cons i ds)
  have small: "d < i" if "d \<in> set ds" for d using Cons.prems that by simp
  have "fold remove_at (i # ds) xs = nths (remove_at i xs) (- set ds)"
    using Cons by simp
  also have "\<dots> = nths (take i xs) (- set ds) @ nths (drop (Suc i) xs) {j. j + min (length xs) i \<notin> set ds}"
    by (simp add: remove_at_def nths_append)
  also have "nths (drop (Suc i) xs) {j. j + min (length xs) i \<notin> set ds} = drop (Suc i) xs"
  proof (cases "i < length xs")
    case True
    then have "{j. j + min (length xs) i \<notin> set ds} = UNIV" using small by fastforce
    then show ?thesis by simp
  next
    case False
    then show ?thesis by simp
  qed
  also have "nths (take i xs) (- set ds) = nths (take i xs) (- set (i # ds))"
    unfolding nths_def
    by (intro arg_cong [of _ _ "map fst"] filter_cong) (auto dest: set_zip_rightD)
  also have "nths (take i xs) (- set (i # ds)) @ drop (Suc i) xs = nths xs (- set (i # ds))"
  proof (cases "i < length xs")
    case True
    then have "nths xs (- set (i # ds))
        = nths (take i xs @ [xs ! i] @ drop (Suc i) xs) (- set (i # ds))"
      by (simp flip: id_take_nth_drop)
    also have "\<dots> = nths (take i xs) (- set (i # ds)) @ nths (drop (Suc i) xs) {j. j + Suc i \<notin> set (i # ds)}"
      using True by (simp add: nths_append nths_Cons add.commute)
    also have "{j. j + Suc i \<notin> set (i # ds)} = UNIV" using small by fastforce
    finally show ?thesis by simp
  next
    case False
    then show ?thesis by simp
  qed
  finally show ?case .
qed

lemma mark_duplicates_set:
  "set (mark_duplicates k seen xs) =
     {p. \<exists>x\<in>set xs. seen (result_id x) = Some p}
       \<union> {k + i | i. i < length xs \<and> result_id (xs ! i) \<in> result_id ` set (drop (Suc i) xs)}"
proof (induction xs arbitrary: k seen)
  case Nil
  then show ?case by simp
next
  case (Cons x xs)
  let ?S = "\<lambda>k xs. {k + i | i. i < length xs \<and> result_id (xs ! i) \<in> result_id ` set (drop (Suc i) xs)}"
  have shift: "?S k (x # xs) = (if result_id x \<in> result_id ` set xs then {k} else {}) \<union> ?S (Suc k) xs"
    (is "?l = ?r")
  proof (intro set_eqI iffI)
    fix p assume "p \<in> ?l"
    then obtain i where i: "p = k + i" "i < Suc (length xs)"
        "result_id ((x # xs) ! i) \<in> result_id ` set (drop (Suc i) (x # xs))" by auto
    then show "p \<in> ?r" by (cases i) auto
  next
    fix p assume "p \<in> ?r"
    then consider "p = k" "result_id x \<in> result_id ` set xs" | "p \<in> ?S (Suc k) xs"
      by (auto split: if_splits)
    then show "p \<in> ?l"
    proof cases
      case 1
      then have "p = k + 0 \<and> 0 < length (x # xs)
          \<and> result_id ((x # xs) ! 0) \<in> result_id ` set (drop (Suc 0) (x # xs))" by simp
      then show ?thesis by blast
    next
      case 2
      then obtain i where "p = k + Suc i \<and> Suc i < length (x # xs)
          \<and> result_id ((x # xs) ! Suc i) \<in> result_id ` set (drop (Suc (Suc i)) (x # xs))" by auto
      then show ?thesis by blast
    qed
  qed
  let ?seen = "seen(result_id x \<mapsto> k)"
  let ?here = "set (case seen (result_id x) of None \<Rightarrow> [] | Some prev \<Rightarrow> [prev])"
  have "?here \<union> {p. \<exists>y\<in>set xs. ?seen (result_id y) = Some p} =
      {p. \<exists>y\<in>set (x # xs). seen (result_id y) = Some p}
        \<union> (if result_id x \<in> result_id ` set xs then {k} else {})" (is "?l = ?r")
  proof (intro set_eqI iffI)
    fix p assume "p \<in> ?l"
    then consider "seen (result_id x) = Some p" | y where "y \<in> set xs" "?seen (result_id y) = Some p"
      by (auto split: option.splits)
    then show "p \<in> ?r"
    proof cases
      case (2 y)
      then show ?thesis by (cases "result_id y = result_id x") (auto intro: rev_image_eqI)
    qed simp
  next
    fix p assume "p \<in> ?r"
    then consider "seen (result_id x) = Some p"
      | y where "y \<in> set xs" "result_id y \<noteq> result_id x" "seen (result_id y) = Some p"
      | y where "y \<in> set xs" "result_id y = result_id x" "p = k"
      by (auto split: if_splits) (metis image_eqI)+
    then show "p \<in> ?l" by cases auto
  qed
  then show ?case unfolding shift mark_duplicates.simps set_append Cons.IH by blast
qed

lemma mark_duplicates_distinct:
  "inj_on seen (dom seen) \<Longrightarrow> (\<And>p. p \<in> ran seen \<Longrightarrow> p < k) \<Longrightarrow> distinct (mark_duplicates k seen xs)"
proof (induction xs arbitrary: k seen)
  case Nil
  then show ?case by simp
next
  case (Cons x xs)
  let ?seen = "seen(result_id x \<mapsto> k)"
  have "inj_on ?seen (dom ?seen)"
    using Cons.prems by (fastforce simp: inj_on_def ran_def dom_def)
  moreover have "p < Suc k" if "p \<in> ran ?seen" for p
    using that Cons.prems(2) by (fastforce simp: ran_def split: if_splits)
  ultimately have tail: "distinct (mark_duplicates (Suc k) ?seen xs)" by (rule Cons.IH)
  have "p \<notin> set (mark_duplicates (Suc k) ?seen xs)" if p: "seen (result_id x) = Some p" for p
  proof -
    have "p < k" using Cons.prems(2) p by (auto simp: ran_def)
    moreover have "y = result_id x" if "seen y = Some p" for y
      using Cons.prems(1) p that by (auto simp: inj_on_def dom_def)
    ultimately show ?thesis unfolding mark_duplicates_set by auto
  qed
  with tail show ?case by (auto split: option.splits)
qed

lemma keep_last_nths:
  "keep_last xs = nths xs (- {i. i < length xs \<and> result_id (xs ! i) \<in> result_id ` set (drop (Suc i) xs)})"
proof (induction xs)
  case Nil
  then show ?case by simp
next
  case (Cons x xs)
  have "{j. Suc j \<in> - {i. i < length (x # xs) \<and> result_id ((x # xs) ! i) \<in> result_id ` set (drop (Suc i) (x # xs))}}
      = - {i. i < length xs \<and> result_id (xs ! i) \<in> result_id ` set (drop (Suc i) xs)}" by auto
  with Cons show ?case by (simp add: nths_Cons)
qed

theorem remove_marked_keep_last: "remove_marked xs = keep_last xs"
proof -
  let ?ms = "mark_duplicates 0 Map.empty xs"
  have distinct: "distinct ?ms" by (rule mark_duplicates_distinct) auto
  then have "sorted_wrt (<) (sort ?ms)" by (simp add: strict_sorted_iff)
  then have "sorted_wrt (>) (rev (sort ?ms))" by (simp add: sorted_wrt_rev)
  from remove_at_nths [OF this] have "remove_marked xs = nths xs (- set ?ms)"
    by (simp add: remove_marked_def)
  then show ?thesis by (simp add: keep_last_nths mark_duplicates_set)
qed

lemma keep_last_subset: "set (keep_last xs) \<subseteq> set xs"
  by (induction xs) auto

lemma keep_last_ids [simp]: "result_id ` set (keep_last xs) = result_id ` set xs"
  by (induction xs) auto

lemma keep_last_distinct: "distinct (map result_id (keep_last xs))"
  by (induction xs) auto

lemma keep_last_id: "distinct (map result_id xs) \<Longrightarrow> keep_last xs = xs"
  by (induction xs) auto

lemma keep_last_results: "list_all is_tool_result xs \<Longrightarrow> list_all is_tool_result (keep_last xs)"
  using keep_last_subset by (auto simp: list_all_iff)

lemma length_keep_last: "length (keep_last xs) \<le> length xs"
  by (induction xs) auto

lemma marked_iff_shorter: "mark_duplicates 0 Map.empty xs \<noteq> [] \<longleftrightarrow> \<not> distinct (map result_id xs)"
proof
  assume "mark_duplicates 0 Map.empty xs \<noteq> []"
  then have "set (mark_duplicates 0 Map.empty xs) \<noteq> {}" by simp
  then obtain i where "i < length xs" "result_id (xs ! i) \<in> result_id ` set (drop (Suc i) xs)"
    unfolding mark_duplicates_set by auto
  then obtain j where "i < j" "j < length xs" "result_id (xs ! i) = result_id (xs ! j)"
    by (auto simp: set_conv_nth) (metis add_Suc_right less_add_Suc1 less_diff_conv add.commute)
  then show "\<not> distinct (map result_id xs)" by (fastforce simp: distinct_conv_nth)
next
  assume "\<not> distinct (map result_id xs)"
  then have "keep_last xs \<noteq> xs" using keep_last_distinct by metis
  then show "mark_duplicates 0 Map.empty xs \<noteq> []"
    using remove_marked_keep_last [of xs] by (auto simp: remove_marked_def)
qed

lemma keep_last_shorter: "\<not> distinct (map result_id xs) \<Longrightarrow> length (keep_last xs) < length xs"
proof (induction xs)
  case Nil
  then show ?case by simp
next
  case (Cons x xs)
  then show ?case using length_keep_last [of xs] by (auto simp: le_imp_less_Suc)
qed

text \<open>The loop scans the same message again after it removed something.\<close>

function dedup_duplicate_tool_results :: "conversation_item list \<Rightarrow> nat \<times> conversation_item list" where
  "dedup_duplicate_tool_results [] = (0, [])"
| "dedup_duplicate_tool_results (x # xs) =
     (if calls_of x \<noteq> []
      then (let to_remove = mark_duplicates 0 Map.empty (run xs)
            in if to_remove \<noteq> []
               then (let (n, ys) = dedup_duplicate_tool_results
                           (x # remove_marked (run xs) @ after_run xs)
                     in (n + length to_remove, ys))
               else (let (n, ys) = dedup_duplicate_tool_results (after_run xs)
                     in (n, x # run xs @ ys)))
      else (let (n, ys) = dedup_duplicate_tool_results xs in (n, x # ys)))"
  by pat_completeness auto
termination
proof (relation "measure length", goal_cases)
  case (2 x xs ms)
  then have "length (remove_marked (run xs)) < length (run xs)"
    by (simp add: remove_marked_keep_last keep_last_shorter marked_iff_shorter)
  moreover have "length xs = length (run xs) + length (after_run xs)"
    by (metis length_append takeWhile_dropWhile_id)
  ultimately show ?case by simp
qed (auto simp: le_imp_less_Suc length_after_run)

subsection \<open>Displaced results\<close>

text \<open>\<open>ids\<close> are the calls of the assistant message whose run of results is being scanned.\<close>

fun strip_from ::
    "str list \<Rightarrow> conversation_item list \<Rightarrow> str list \<times> conversation_item list" where
  "strip_from ids [] = ([], [])"
| "strip_from ids (Assistant a # xs) =
     (let (gone, ys) = strip_from (map call_id (tool_calls a)) xs in (gone, Assistant a # ys))"
| "strip_from ids (ToolResult t # xs) =
     (let (gone, ys) = strip_from ids xs
      in if tool_call_id t \<in> set ids then (gone, ToolResult t # ys) else (tool_call_id t # gone, ys))"
| "strip_from ids (x # xs) = (let (gone, ys) = strip_from [] xs in (gone, x # ys))"

definition strip_displaced_tool_results ::
    "conversation_item list \<Rightarrow> str list \<times> conversation_item list" where
  "strip_displaced_tool_results xs = strip_from [] xs"

subsection \<open>The whole repair\<close>

record repair_report =
  duplicates_removed :: nat
  stripped_tool_result_ids :: "str list"
  synthetic_results_inserted :: nat

definition changed :: "repair_report \<Rightarrow> bool" where
  "changed r = (0 < duplicates_removed r \<or> stripped_tool_result_ids r \<noteq> []
                 \<or> 0 < synthetic_results_inserted r)"

definition repair_history :: "conversation_item list \<Rightarrow> repair_report \<times> conversation_item list" where
  "repair_history xs =
     (let (duplicates, xs) = dedup_duplicate_tool_results xs;
          (stripped, xs) = strip_displaced_tool_results xs;
          (inserted, xs) = repair_dangling_tool_calls (HarnessHalted ''history_repair'') xs
      in (\<lparr>duplicates_removed = duplicates, stripped_tool_result_ids = stripped,
           synthetic_results_inserted = inserted\<rparr>, xs))"

subsection \<open>Sanitising a compacted history\<close>

text \<open>The weaker contract after a compaction: every result has a matching call before it.\<close>

fun validate_from :: "str list \<Rightarrow> conversation_item list \<Rightarrow> str list" where
  "validate_from ids [] = []"
| "validate_from ids (Assistant a # xs) = validate_from (map call_id (tool_calls a) @ ids) xs"
| "validate_from ids (ToolResult t # xs) =
     (if tool_call_id t \<in> set ids then [] else [tool_call_id t]) @ validate_from ids xs"
| "validate_from ids (x # xs) = validate_from ids xs"

definition validate_compacted_history :: "conversation_item list \<Rightarrow> str list" where
  "validate_compacted_history xs = validate_from [] xs"

fun sanitize_from :: "str list \<Rightarrow> conversation_item list \<Rightarrow> str list \<times> conversation_item list" where
  "sanitize_from ids [] = ([], [])"
| "sanitize_from ids (Assistant a # xs) =
     (let (gone, ys) = sanitize_from (map call_id (tool_calls a) @ ids) xs in (gone, Assistant a # ys))"
| "sanitize_from ids (ToolResult t # xs) =
     (let (gone, ys) = sanitize_from ids xs
      in if tool_call_id t \<in> set ids then (gone, ToolResult t # ys) else (tool_call_id t # gone, ys))"
| "sanitize_from ids (x # xs) = (let (gone, ys) = sanitize_from ids xs in (gone, x # ys))"

definition sanitize_compacted_history :: "conversation_item list \<Rightarrow> str list \<times> conversation_item list" where
  "sanitize_compacted_history xs = sanitize_from [] xs"

lemma sanitize_validate: "fst (sanitize_from ids xs) = validate_from ids xs"
  by (induction ids xs rule: sanitize_from.induct) (auto simp: case_prod_unfold Let_def)

lemma validate_sanitized: "validate_from ids (snd (sanitize_from ids xs)) = []"
  by (induction ids xs rule: sanitize_from.induct) (auto simp: case_prod_unfold Let_def)

lemma sanitize_id: "validate_from ids xs = [] \<Longrightarrow> snd (sanitize_from ids xs) = xs"
  by (induction ids xs rule: sanitize_from.induct) (auto simp: case_prod_unfold Let_def split: if_splits)

lemma sanitize_keeps:
  "filter (Not \<circ> is_tool_result) (snd (sanitize_from ids xs)) = filter (Not \<circ> is_tool_result) xs"
  by (induction ids xs rule: sanitize_from.induct) (auto simp: case_prod_unfold Let_def)

subsection \<open>One pass over the list\<close>

text \<open>Inserting back to front at recorded positions is inserting in one pass.\<close>

function repaired :: "dangling_reason \<Rightarrow> conversation_item list \<Rightarrow> conversation_item list" where
  "repaired r [] = []"
| "repaired r (x # xs) =
     (if calls_of x \<noteq> []
      then x # run xs @ synthetic_results r (calls_of x) (map result_id (run xs)) @ repaired r (after_run xs)
      else x # repaired r xs)"
  by pat_completeness auto
termination
  by (relation "measure (\<lambda>(r, xs). length xs)") (auto simp: le_imp_less_Suc length_after_run)

lemma insert_at_append: "length pre = i \<Longrightarrow> insert_at (i, s) (pre @ xs) = pre @ s @ xs"
  by (auto simp: insert_at_def)

lemma repairs_from:
  "foldr insert_at (repair_sites r (length pre) xs) (pre @ xs) = pre @ repaired r xs"
proof (induction r xs arbitrary: pre rule: repaired.induct)
  case (1 r)
  then show ?case by simp
next
  case (2 r x xs)
  show ?case
  proof (cases "calls_of x = []")
    case True
    with 2(2) [of "pre @ [x]"] show ?thesis by simp
  next
    case False
    let ?pre = "pre @ x # run xs"
    have "foldr insert_at (repair_sites r (length ?pre) (after_run xs)) (?pre @ after_run xs)
        = ?pre @ repaired r (after_run xs)" by (rule 2(1) [OF False])
    then have "foldr insert_at (repair_sites r (length pre + 1 + length (run xs)) (after_run xs)) (pre @ x # xs)
        = ?pre @ repaired r (after_run xs)" by (simp add: add.assoc)
    with False show ?thesis
      by (simp add: Let_def synthetic_results_def insert_at_append [of ?pre, simplified])
  qed
qed

theorem repair_dangling_one_pass: "snd (repair_dangling_tool_calls r xs) = repaired r xs"
  using repairs_from [of r "[]" xs]
  by (simp add: repair_dangling_tool_calls_def Let_def foldr_conv_fold)

lemma run_repaired: "run xs = [] \<Longrightarrow> run (repaired r xs) = []"
  by (cases xs) (auto split: if_splits)

lemma dedup_fix: "distinct (map result_id (run xs)) \<Longrightarrow> calls_of x \<noteq> [] \<Longrightarrow>
    dedup_duplicate_tool_results (x # xs) =
      (fst (dedup_duplicate_tool_results (after_run xs)),
       x # run xs @ snd (dedup_duplicate_tool_results (after_run xs)))"
  using marked_iff_shorter [of "run xs"] by (simp add: case_prod_unfold Let_def)

lemma dedup_calls [history_simps]:
  assumes "calls_of x \<noteq> []"
  shows "snd (dedup_duplicate_tool_results (x # xs))
           = x # keep_last (run xs) @ snd (dedup_duplicate_tool_results (after_run xs))"
proof (cases "distinct (map result_id (run xs))")
  case True
  with dedup_fix [OF True assms] show ?thesis by (simp add: keep_last_id)
next
  case False
  let ?ys = "keep_last (run xs) @ after_run xs"
  have results: "list_all is_tool_result (keep_last (run xs))"
    by (rule keep_last_results) (rule run_results)
  have "run ?ys = keep_last (run xs)" "after_run ?ys = after_run xs"
    using run_append [OF results] after_run_append [OF results] by simp_all
  then have "snd (dedup_duplicate_tool_results (x # ?ys))
      = x # keep_last (run xs) @ snd (dedup_duplicate_tool_results (after_run xs))"
    using dedup_fix [of ?ys x] assms by (simp add: keep_last_distinct)
  with False assms show ?thesis
    by (simp add: marked_iff_shorter remove_marked_keep_last case_prod_unfold Let_def)
qed

lemma dedup_other [history_simps]:
  "calls_of x = [] \<Longrightarrow>
     snd (dedup_duplicate_tool_results (x # xs)) = x # snd (dedup_duplicate_tool_results xs)"
  by (simp add: case_prod_unfold Let_def)

declare dedup_duplicate_tool_results.simps(2) [simp del]

lemma run_dedup: "run xs = [] \<Longrightarrow> run (snd (dedup_duplicate_tool_results xs)) = []"
proof (cases xs)
  case (Cons x ys)
  assume "run xs = []"
  with Cons show ?thesis
    by (cases "calls_of x = []") (auto simp: history_simps split: if_splits)
qed simp

lemma strip_run [history_simps]:
  "list_all is_tool_result rs \<Longrightarrow>
     snd (strip_from ids (rs @ xs)) = filter (\<lambda>r. result_id r \<in> set ids) rs @ snd (strip_from ids xs)"
proof (induction rs)
  case (Cons r rs)
  then show ?case by (cases r) (simp_all add: result_id_def case_prod_unfold Let_def)
qed simp

lemma strip_fresh: "run xs = [] \<Longrightarrow> strip_from ids xs = strip_from [] xs"
proof (cases xs)
  case (Cons x ys)
  assume "run xs = []"
  with Cons show ?thesis by (cases x) (simp_all split: if_splits)
qed simp

lemma strip_calls [history_simps]:
  "calls_of x \<noteq> [] \<Longrightarrow> snd (strip_from ids (x # xs)) = x # snd (strip_from (map call_id (calls_of x)) xs)"
  by (cases x) (simp_all add: calls_of_def case_prod_unfold Let_def)

lemma strip_other [history_simps]:
  "calls_of x = [] \<Longrightarrow> \<not> is_tool_result x \<Longrightarrow> snd (strip_from ids (x # xs)) = x # snd (strip_from [] xs)"
  by (cases x) (simp_all add: calls_of_def case_prod_unfold Let_def)

lemma strip_orphan [history_simps]:
  "is_tool_result x \<Longrightarrow> snd (strip_from [] (x # xs)) = snd (strip_from [] xs)"
  by (cases x) (simp_all add: case_prod_unfold Let_def)

lemma run_strip: "run xs = [] \<Longrightarrow> run (snd (strip_from ids xs)) = []"
proof (cases xs)
  case (Cons x ys)
  assume "run xs = []"
  with Cons show ?thesis by (cases x) (simp_all add: case_prod_unfold Let_def split: if_splits)
qed simp

text \<open>The three passes together, one message at a time.\<close>

definition cleaned :: "conversation_item list \<Rightarrow> conversation_item list" where
  "cleaned xs = snd (strip_from [] (snd (dedup_duplicate_tool_results xs)))"

abbreviation repair_reason :: dangling_reason where
  "repair_reason \<equiv> HarnessHalted ''history_repair''"

lemma repair_history_items: "snd (repair_history xs) = repaired repair_reason (cleaned xs)"
  by (simp add: repair_history_def cleaned_def strip_displaced_tool_results_def case_prod_unfold Let_def
      repair_dangling_one_pass)

lemma run_cleaned: "run xs = [] \<Longrightarrow> run (cleaned xs) = []"
  by (simp add: cleaned_def run_dedup run_strip)

text \<open>What is kept of the results behind a message with these calls.\<close>

definition own_results :: "tool_call list \<Rightarrow> conversation_item list \<Rightarrow> conversation_item list" where
  "own_results tcs rs = filter (\<lambda>r. result_id r \<in> set (map call_id tcs)) (keep_last rs)"

lemma own_results_results: "list_all is_tool_result rs \<Longrightarrow> list_all is_tool_result (own_results tcs rs)"
  using keep_last_results by (auto simp: own_results_def list_all_iff)

lemma cleaned_calls [history_simps]:
  assumes "calls_of x \<noteq> []"
  shows "cleaned (x # xs) = x # own_results (calls_of x) (run xs) @ cleaned (after_run xs)"
proof -
  have "list_all is_tool_result (keep_last (run xs))" by (rule keep_last_results) (rule run_results)
  moreover have "strip_from (map call_id (calls_of x)) (snd (dedup_duplicate_tool_results (after_run xs)))
      = strip_from [] (snd (dedup_duplicate_tool_results (after_run xs)))"
    by (rule strip_fresh) (rule run_dedup, simp)
  ultimately show ?thesis using assms
    by (simp add: cleaned_def history_simps own_results_def)
qed

lemma cleaned_other [history_simps]:
  "calls_of x = [] \<Longrightarrow> cleaned (x # xs) = (if is_tool_result x then cleaned xs else x # cleaned xs)"
  by (simp add: cleaned_def history_simps)

lemma cleaned_Nil [simp]: "cleaned [] = []"
  by (simp add: cleaned_def)

theorem repair_history_calls:
  assumes "calls_of x \<noteq> []"
  shows "snd (repair_history (x # xs)) =
           x # own_results (calls_of x) (run xs)
             @ synthetic_results repair_reason (calls_of x)
                 (map result_id (own_results (calls_of x) (run xs)))
             @ snd (repair_history (after_run xs))"
proof -
  have results: "list_all is_tool_result (own_results (calls_of x) (run xs))"
    by (rule own_results_results) (rule run_results)
  have empty: "run (cleaned (after_run xs)) = []" by (rule run_cleaned) simp
  then have "after_run (cleaned (after_run xs)) = cleaned (after_run xs)"
    by (cases "cleaned (after_run xs)") (auto split: if_splits)
  with empty show ?thesis using assms run_append [OF results] after_run_append [OF results]
    by (simp add: repair_history_items history_simps)
qed

lemma repair_history_Nil [simp]: "snd (repair_history []) = []"
  by (simp add: repair_history_items)

theorem repair_history_other:
  "calls_of x = [] \<Longrightarrow>
     snd (repair_history (x # xs)) =
       (if is_tool_result x then snd (repair_history xs) else x # snd (repair_history xs))"
  by (simp add: repair_history_items history_simps)

subsection \<open>What a provider accepts\<close>

text \<open>
  The contract: behind a message with tool calls stands a run of results that answers every call
  exactly once, and no result stands anywhere else.
\<close>

function paired :: "conversation_item list \<Rightarrow> bool" where
  "paired [] = True"
| "paired (x # xs) =
     (if calls_of x \<noteq> []
      then mset (map result_id (run xs)) = mset (map call_id (calls_of x)) \<and> paired (after_run xs)
      else \<not> is_tool_result x \<and> paired xs)"
  by pat_completeness auto
termination
  by (relation "measure length") (auto simp: le_imp_less_Suc length_after_run)

definition distinct_calls :: "conversation_item list \<Rightarrow> bool" where
  "distinct_calls xs = list_all (\<lambda>x. distinct (map call_id (calls_of x))) xs"

lemma distinct_calls_Cons [simp]:
  "distinct_calls (x # xs) \<longleftrightarrow> distinct (map call_id (calls_of x)) \<and> distinct_calls xs"
  by (simp add: distinct_calls_def)

lemma distinct_calls_after_run: "distinct_calls xs \<Longrightarrow> distinct_calls (after_run xs)"
  by (auto simp: distinct_calls_def list_all_iff dest: set_dropWhileD)

lemma run_own_results [simp]: "run (own_results tcs (run xs)) = own_results tcs (run xs)"
proof -
  have "list_all is_tool_result (own_results tcs (run xs))"
    by (rule own_results_results) (rule run_results)
  from run_append [OF this, of "[]"] show ?thesis by simp
qed

lemma synthetic_results_results: "list_all is_tool_result (synthetic_results r tcs ids)"
  by (auto simp: synthetic_results_def tool_result_def list_all_iff)

lemma synthetic_results_ids:
  "map result_id (synthetic_results r tcs ids) = filter (\<lambda>i. i \<notin> set ids) (map call_id tcs)"
  by (simp add: synthetic_results_def tool_result_def result_id_def comp_def filter_map)

lemma answers_complete:
  assumes "distinct ks" "set ks \<subseteq> set is" "distinct is"
  shows "mset (ks @ filter (\<lambda>i. i \<notin> set ks) is) = mset is"
proof -
  have "distinct (ks @ filter (\<lambda>i. i \<notin> set ks) is)" using assms by auto
  moreover have "set (ks @ filter (\<lambda>i. i \<notin> set ks) is) = set is" using assms by auto
  ultimately show ?thesis using assms(3) set_eq_iff_mset_eq_distinct by blast
qed

lemma image_filter: "f ` {x \<in> A. f x \<in> B} = B \<inter> f ` A"
  by auto

lemma own_results_ids:
  "distinct (map result_id (own_results tcs rs))"
  "set (map result_id (own_results tcs rs)) = set (map call_id tcs) \<inter> result_id ` set rs"
proof -
  show "distinct (map result_id (own_results tcs rs))"
    unfolding own_results_def by (intro distinct_map_filter keep_last_distinct)
  have "set (map result_id (own_results tcs rs))
      = set (map call_id tcs) \<inter> result_id ` set (keep_last rs)"
    unfolding own_results_def set_map set_filter image_filter ..
  then show "set (map result_id (own_results tcs rs)) = set (map call_id tcs) \<inter> result_id ` set rs"
    by simp
qed

lemma run_repair: "run xs = [] \<Longrightarrow> run (snd (repair_history xs)) = []"
  by (simp add: repair_history_items run_repaired run_cleaned)

lemma history_induct [case_names Nil Calls Other]:
  assumes "P []"
    and "\<And>x xs. calls_of x \<noteq> [] \<Longrightarrow> P (after_run xs) \<Longrightarrow> P (x # xs)"
    and "\<And>x xs. calls_of x = [] \<Longrightarrow> P xs \<Longrightarrow> P (x # xs)"
  shows "P xs"
proof (induction xs rule: paired.induct)
  case (2 x xs)
  then show ?case using assms(2,3) by (cases "calls_of x = []") blast+
qed (rule assms(1))

lemma repaired_paired:
  "distinct_calls xs \<Longrightarrow> paired (snd (repair_history xs))"
proof (induction xs rule: history_induct)
  case Nil
  show ?case by (simp add: repair_history_items)
next
  case (Calls x xs)
  let ?own = "own_results (calls_of x) (run xs)"
  let ?made = "synthetic_results repair_reason (calls_of x) (map result_id ?own)"
  let ?rest = "snd (repair_history (after_run xs))"
  have results: "list_all is_tool_result (?own @ ?made)"
    using own_results_results [OF run_results] synthetic_results_results by simp
  have "run ?rest = []" by (rule run_repair) simp
  then have run: "run ((?own @ ?made) @ ?rest) = ?own @ ?made"
    and after: "after_run ((?own @ ?made) @ ?rest) = ?rest"
    using run_append [OF results, of ?rest] after_run_append [OF results, of ?rest]
    by (simp, cases ?rest) (auto split: if_splits)
  have "mset (map result_id ?own @ filter (\<lambda>i. i \<notin> set (map result_id ?own)) (map call_id (calls_of x)))
      = mset (map call_id (calls_of x))"
    using Calls.prems own_results_ids [of "calls_of x" "run xs"] by (intro answers_complete) auto
  moreover have "paired ?rest" using Calls by (simp add: distinct_calls_after_run)
  ultimately show ?case
    using Calls(1) run after
    by (simp add: repair_history_calls synthetic_results_ids)
next
  case (Other x xs)
  then show ?case by (simp add: repair_history_other)
qed

text \<open>
  C10. A repaired history is acceptable to the provider: if no message makes two calls with one id,
  then after \<^verbatim>\<open>repair_history\<close> every tool call is answered by exactly one result directly behind its
  message, and there is no other result in the conversation.
\<close>

theorem repaired_history_is_paired:
  "distinct_calls xs \<Longrightarrow> paired (snd (repair_history xs))"
  by (rule repaired_paired)

lemma repaired_history_is_paired_witness:
  "paired (snd (repair_history
     [tool_result ''x'' ''orphan'', assistant_tool_calls [\<lparr>call_id = ''a'', call_name = ''ls'', arguments = []\<rparr>,
        \<lparr>call_id = ''b'', call_name = ''cat'', arguments = []\<rparr>], tool_result ''b'' ''old'', tool_result ''b'' ''new'',
      user ''next'']))"
  by (rule repaired_history_is_paired)
    (simp add: distinct_calls_def calls_of_def tool_result_def assistant_tool_calls_def user_def user_of_def)

subsection \<open>What the repair leaves alone\<close>

abbreviation speech :: "conversation_item list \<Rightarrow> conversation_item list" where
  "speech \<equiv> filter (\<lambda>i. \<not> is_tool_result i)"

lemma speech_results: "list_all is_tool_result rs \<Longrightarrow> speech rs = []"
  by (simp add: filter_empty_conv list_all_iff)

lemma speech_after_run [simp]: "speech (after_run xs) = speech xs"
  by (induction xs) auto

lemma repair_speech: "speech (snd (repair_history xs)) = speech xs"
proof (induction xs rule: history_induct)
  case Nil
  show ?case by (simp add: repair_history_items)
next
  case (Calls x xs)
  have "list_all is_tool_result (own_results (calls_of x) (run xs))"
    by (rule own_results_results) (rule run_results)
  with Calls show ?case
    by (simp add: repair_history_calls speech_results synthetic_results_results calls_not_result)
next
  case (Other x xs)
  then show ?case by (simp add: repair_history_other)
qed

text \<open>
  The repair loses nothing that was said: messages, reasoning and backend calls stay as they
  are and in their order; only tool results come and go.
\<close>

lemma repair_keeps_speech: "speech (snd (repair_history xs)) = speech xs"
  by (rule repair_speech)

lemma distinct_calls_speech: "distinct_calls xs \<longleftrightarrow> distinct_calls (speech xs)"
  by (induction xs) (auto simp: result_no_calls)

lemma distinct_calls_repair: "distinct_calls xs \<Longrightarrow> distinct_calls (snd (repair_history xs))"
  using distinct_calls_speech repair_speech by metis

lemma paired_run:
  assumes "paired (x # xs)" "calls_of x \<noteq> []" "distinct (map call_id (calls_of x))"
  shows "distinct (map result_id (run xs))" "result_id ` set (run xs) = call_id ` set (calls_of x)"
proof -
  have eq: "mset (map result_id (run xs)) = mset (map call_id (calls_of x))" using assms by simp
  with assms(3) show "distinct (map result_id (run xs))" using mset_eq_imp_distinct_iff by blast
  from mset_eq_setD [OF eq] show "result_id ` set (run xs) = call_id ` set (calls_of x)" by simp
qed

lemma paired_dedup:
  "paired xs \<Longrightarrow> distinct_calls xs \<Longrightarrow> dedup_duplicate_tool_results xs = (0, xs)"
proof (induction xs rule: history_induct)
  case (Calls x xs)
  then have "distinct (map result_id (run xs))" using paired_run(1) [of x xs] by simp
  from dedup_fix [OF this Calls(1)] Calls show ?case
    by (simp add: distinct_calls_after_run)
next
  case (Other x xs)
  then show ?case by (simp add: dedup_duplicate_tool_results.simps)
qed simp

lemma strip_own:
  "list_all is_tool_result rs \<Longrightarrow> result_id ` set rs \<subseteq> set ids \<Longrightarrow>
     strip_from ids (rs @ xs) = (fst (strip_from ids xs), rs @ snd (strip_from ids xs))"
proof (induction rs)
  case (Cons r rs)
  then show ?case by (cases r) (simp_all add: result_id_def case_prod_unfold Let_def)
qed simp

lemma strip_message:
  "\<not> is_tool_result x \<Longrightarrow>
     strip_from ids (x # xs) =
       (fst (strip_from (map call_id (calls_of x)) xs), x # snd (strip_from (map call_id (calls_of x)) xs))"
  by (cases x) (simp_all add: calls_of_def case_prod_unfold Let_def)

lemma paired_strip: "paired xs \<Longrightarrow> distinct_calls xs \<Longrightarrow> strip_from [] xs = ([], xs)"
proof (induction xs rule: history_induct)
  case (Calls x xs)
  then have own: "result_id ` set (run xs) \<subseteq> set (map call_id (calls_of x))"
    using paired_run(2) [of x xs] by simp
  have "strip_from (map call_id (calls_of x)) (run xs @ after_run xs)
      = (fst (strip_from (map call_id (calls_of x)) (after_run xs)),
         run xs @ snd (strip_from (map call_id (calls_of x)) (after_run xs)))"
    by (rule strip_own [OF run_results own])
  moreover have "strip_from (map call_id (calls_of x)) (after_run xs) = strip_from [] (after_run xs)"
    by (rule strip_fresh) simp
  ultimately show ?case using Calls
    by (simp add: strip_message calls_not_result distinct_calls_after_run)
next
  case (Other x xs)
  then show ?case by (simp add: strip_message)
qed simp

lemma synthetic_results_none: "call_id ` set tcs \<subseteq> set ids \<Longrightarrow> synthetic_results r tcs ids = []"
  by (auto simp: synthetic_results_def filter_empty_conv)

lemma paired_sites: "paired xs \<Longrightarrow> distinct_calls xs \<Longrightarrow> repair_sites r i xs = []"
proof (induction xs arbitrary: i rule: history_induct)
  case (Calls x xs)
  then have "result_id ` set (run xs) = call_id ` set (calls_of x)"
    using paired_run(2) [of x xs] by simp
  with Calls show ?case by (simp add: synthetic_results_none Let_def distinct_calls_after_run)
qed simp_all

theorem repair_of_paired:
  assumes "paired xs" "distinct_calls xs"
  shows "repair_history xs =
    (\<lparr>duplicates_removed = 0, stripped_tool_result_ids = [], synthetic_results_inserted = 0\<rparr>, xs)"
  using paired_dedup [OF assms] paired_strip [OF assms] paired_sites [OF assms]
  by (simp add: repair_history_def strip_displaced_tool_results_def repair_dangling_tool_calls_def)

text \<open>
  C23. The repair is idempotent where call ids are distinct: run on its own result it changes nothing
  and reports so.
\<close>

theorem repair_is_idempotent:
  "distinct_calls xs \<Longrightarrow>
     repair_history (snd (repair_history xs)) =
       (\<lparr>duplicates_removed = 0, stripped_tool_result_ids = [], synthetic_results_inserted = 0\<rparr>,
        snd (repair_history xs))"
  by (rule repair_of_paired) (rule repaired_paired, assumption, rule distinct_calls_repair)

lemma repair_is_idempotent_witness:
  "repair_history (snd (repair_history [assistant_tool_calls [\<lparr>call_id = ''a'', call_name = ''ls'', arguments = []\<rparr>]])) =
     (\<lparr>duplicates_removed = 0, stripped_tool_result_ids = [], synthetic_results_inserted = 0\<rparr>,
      snd (repair_history [assistant_tool_calls [\<lparr>call_id = ''a'', call_name = ''ls'', arguments = []\<rparr>]]))"
  by (rule repair_is_idempotent) (simp add: distinct_calls_def calls_of_def assistant_tool_calls_def)

definition twin_calls :: "conversation_item list" where
  "twin_calls =
     [assistant_tool_calls [\<lparr>call_id = ''a'', call_name = ''ls'', arguments = []\<rparr>,
                            \<lparr>call_id = ''a'', call_name = ''cat'', arguments = []\<rparr>]]"

lemma twin_calls_eval:
  "calls_of (assistant_tool_calls tcs) = tcs" "is_tool_result (tool_result i t)"
  "\<not> is_tool_result (assistant_tool_calls tcs)" "result_id (tool_result i t) = i"
  "calls_of (tool_result i t) = []"
  by (simp_all add: calls_of_def assistant_tool_calls_def tool_result_def result_id_def)

text \<open>
  The comment on \<^verbatim>\<open>repair_history\<close> calls it idempotent, which fails when one message makes two
  calls with the same id and neither is answered: the first repair inserts a result for each, so the
  history then has two results for one call (what the provider rejects), and the second repair removes
  one of them again.
\<close>

lemma repair_doubles_twin_calls:
  "map result_id (run (tl (snd (repair_history twin_calls)))) = [''a'', ''a''] \<and>
   duplicates_removed (fst (repair_history (snd (repair_history twin_calls)))) = 1"
proof -
  have once: "snd (repair_history twin_calls) =
      assistant_tool_calls [\<lparr>call_id = ''a'', call_name = ''ls'', arguments = []\<rparr>,
                            \<lparr>call_id = ''a'', call_name = ''cat'', arguments = []\<rparr>]
        # map (\<lambda>n. tool_result ''a'' (synthetic_dangling_result_text n repair_reason)) [''ls'', ''cat'']"
    by (simp add: twin_calls_def repair_history_calls twin_calls_eval own_results_def
        synthetic_results_def)
  show ?thesis unfolding once
    by (simp add: twin_calls_eval repair_history_def dedup_duplicate_tool_results.simps
        case_prod_unfold Let_def remove_marked_def remove_at_def)
qed

subsection \<open>Detecting and repairing dangling calls\<close>

lemma synthetic_results_Nil:
  "synthetic_results r tcs ids = [] \<longleftrightarrow> \<not> list_ex (\<lambda>tc. call_id tc \<notin> set ids) tcs"
  by (auto simp: synthetic_results_def list_ex_iff filter_empty_conv)

lemma sites_dangling: "repair_sites r i xs = [] \<longleftrightarrow> \<not> has_dangling_tool_calls xs"
  by (induction xs arbitrary: i rule: history_induct) (auto simp: Let_def synthetic_results_Nil)

lemma sites_not_empty: "s \<in> set (repair_sites r i xs) \<Longrightarrow> snd s \<noteq> []"
proof (induction xs arbitrary: i rule: history_induct)
  case (Calls x xs)
  then show ?case by (fastforce simp: Let_def split: if_splits)
qed auto

lemma repaired_not_dangling: "\<not> has_dangling_tool_calls (repaired r xs)"
proof (induction xs rule: history_induct)
  case (Calls x xs)
  let ?made = "synthetic_results r (calls_of x) (map result_id (run xs))"
  let ?rest = "repaired r (after_run xs)"
  have results: "list_all is_tool_result (run xs @ ?made)"
    using run_results synthetic_results_results by simp
  have "run ?rest = []" by (rule run_repaired) simp
  then have run: "run ((run xs @ ?made) @ ?rest) = run xs @ ?made"
    and after: "after_run ((run xs @ ?made) @ ?rest) = ?rest"
    using run_append [OF results, of ?rest] after_run_append [OF results, of ?rest]
    by (simp, cases ?rest) (auto split: if_splits)
  have "set (map result_id ?made) = {i \<in> call_id ` set (calls_of x). i \<notin> result_id ` set (run xs)}"
    unfolding synthetic_results_ids by auto
  then have "set (map result_id (run xs @ ?made)) = result_id ` set (run xs) \<union> call_id ` set (calls_of x)"
    by auto
  then have "\<not> list_ex (\<lambda>tc. call_id tc \<notin> set (map result_id (run xs @ ?made))) (calls_of x)"
    by (auto simp: list_ex_iff)
  with Calls run after show ?case by simp
qed simp_all

text \<open>
  Looking and repairing agree: \<^verbatim>\<open>has_dangling_tool_calls\<close> is true exactly when the repair would
  insert something, and after the repair it is false.
\<close>

lemma dangling_repair_agree:
  "(has_dangling_tool_calls xs \<longleftrightarrow> 0 < fst (repair_dangling_tool_calls r xs)) \<and>
   \<not> has_dangling_tool_calls (snd (repair_dangling_tool_calls r xs))"
proof
  have "0 < fst (repair_dangling_tool_calls r xs) \<longleftrightarrow> repair_sites r 0 xs \<noteq> []"
    using sites_not_empty [of _ r 0 xs]
    by (cases "repair_sites r 0 xs") (auto simp: repair_dangling_tool_calls_def)
  then show "has_dangling_tool_calls xs \<longleftrightarrow> 0 < fst (repair_dangling_tool_calls r xs)"
    by (simp add: sites_dangling)
  show "\<not> has_dangling_tool_calls (snd (repair_dangling_tool_calls r xs))"
    by (simp add: repair_dangling_one_pass repaired_not_dangling)
qed

text \<open>
  After a compaction the history is sanitised instead: what remains passes the validation, what passes
  it is left alone, and only results are removed, namely those the validation names.
\<close>

lemma sanitize_meets_validation:
  "validate_compacted_history (snd (sanitize_compacted_history xs)) = []
   \<and> (validate_compacted_history xs = [] \<longrightarrow> snd (sanitize_compacted_history xs) = xs)
   \<and> fst (sanitize_compacted_history xs) = validate_compacted_history xs
   \<and> speech (snd (sanitize_compacted_history xs)) = speech xs"
  using sanitize_keeps [of "[]" xs]
  by (simp add: validate_compacted_history_def sanitize_compacted_history_def sanitize_validate
      validate_sanitized sanitize_id comp_def)

end
