(* ===== verification/Rewind.thy ===== *)
theory Rewind
  imports Conversation
begin

text \<open>
  Rewinding a conversation to a prompt (\<^verbatim>\<open>conversation_truncate_for_prompt\<close> and its helpers in
  \<^verbatim>\<open>xai-grok-sampling-types/src/conversation.rs\<close>): how many items to keep so that everything from the
  given prompt turn on is dropped.
\<close>

subsection \<open>Operations\<close>

fun first_marker :: "conversation_item list \<Rightarrow> nat option" where
  "first_marker [] = None"
| "first_marker (User u # xs) =
     (case prompt_index u of Some k \<Rightarrow> Some k | None \<Rightarrow> first_marker xs)"
| "first_marker (x # xs) = first_marker xs"

text \<open>The loops return the position \<open>i\<close> of the cut; running off the end keeps everything.\<close>

fun truncate_markers_only :: "nat \<Rightarrow> nat \<Rightarrow> conversation_item list \<Rightarrow> nat" where
  "truncate_markers_only target i [] = i"
| "truncate_markers_only target i (User u # xs) =
     (case prompt_index u of
        Some idx \<Rightarrow> if target \<le> idx then i else truncate_markers_only target (i + 1) xs
      | None \<Rightarrow> truncate_markers_only target (i + 1) xs)"
| "truncate_markers_only target i (x # xs) = truncate_markers_only target (i + 1) xs"

text \<open>
  The index an unmarked user item gives its turn, if it opens one, and whether the preamble has been
  seen after it.
\<close>

definition unmarked_index :: "user_item \<Rightarrow> bool \<Rightarrow> nat \<Rightarrow> nat option \<times> bool" where
  "unmarked_index u seen_preamble next_index =
     (case reason u of
        None \<Rightarrow> if \<not> seen_preamble then (None, True) else (Some next_index, True)
      | Some r \<Rightarrow> (if starts_prompt_turn r then Some next_index else None, seen_preamble))"

fun truncate_legacy :: "nat \<Rightarrow> nat \<Rightarrow> bool \<Rightarrow> nat \<Rightarrow> conversation_item list \<Rightarrow> nat" where
  "truncate_legacy target next_index seen_preamble i [] = i"
| "truncate_legacy target next_index seen_preamble i (User u # xs) =
     (let (effective, seen) = unmarked_index u seen_preamble next_index
      in case effective of
           Some idx \<Rightarrow>
             if target \<le> idx then i else truncate_legacy target (idx + 1) seen (i + 1) xs
         | None \<Rightarrow> truncate_legacy target next_index seen (i + 1) xs)"
| "truncate_legacy target next_index seen_preamble i (x # xs) =
     truncate_legacy target next_index seen_preamble (i + 1) xs"

fun count_legacy_turns :: "nat \<Rightarrow> bool \<Rightarrow> conversation_item list \<Rightarrow> nat" where
  "count_legacy_turns turns seen_preamble [] = turns"
| "count_legacy_turns turns seen_preamble (User u # xs) =
     (if prompt_index u \<noteq> None then turns
      else (let (effective, seen) = unmarked_index u seen_preamble turns
            in count_legacy_turns (if effective = None then turns else turns + 1) seen xs))"
| "count_legacy_turns turns seen_preamble (x # xs) = count_legacy_turns turns seen_preamble xs"

fun truncate_progressive ::
    "nat \<Rightarrow> nat \<Rightarrow> bool \<Rightarrow> bool \<Rightarrow> nat \<Rightarrow> conversation_item list \<Rightarrow> nat" where
  "truncate_progressive target next_index seen_preamble seen_marker i [] = i"
| "truncate_progressive target next_index seen_preamble seen_marker i (User u # xs) =
     (case prompt_index u of
        Some idx \<Rightarrow>
          if target \<le> idx then i
          else truncate_progressive target next_index seen_preamble True (i + 1) xs
      | None \<Rightarrow>
          if seen_marker then truncate_progressive target next_index seen_preamble True (i + 1) xs
          else (let (effective, seen) = unmarked_index u seen_preamble next_index
                in case effective of
                     Some idx \<Rightarrow>
                       if target \<le> idx then i
                       else truncate_progressive target (idx + 1) seen False (i + 1) xs
                   | None \<Rightarrow> truncate_progressive target next_index seen False (i + 1) xs))"
| "truncate_progressive target next_index seen_preamble seen_marker i (x # xs) =
     truncate_progressive target next_index seen_preamble seen_marker (i + 1) xs"

definition conversation_truncate_for_prompt :: "conversation_item list \<Rightarrow> nat \<Rightarrow> nat" where
  "conversation_truncate_for_prompt conversation target =
     (case first_marker conversation of
        None \<Rightarrow> truncate_legacy target 0 False 0 conversation
      | Some k \<Rightarrow>
          if count_legacy_turns 0 False conversation \<noteq> k
          then truncate_markers_only target 0 conversation
          else truncate_progressive target 0 False False 0 conversation)"

subsection \<open>The turns of a conversation\<close>

text \<open>
  Where turns begin, and the index each gets: the position of every user item that opens one.
\<close>

fun turns_from :: "nat \<Rightarrow> bool \<Rightarrow> bool \<Rightarrow> nat \<Rightarrow> conversation_item list \<Rightarrow> (nat \<times> nat) list" where
  "turns_from n pre marker i [] = []"
| "turns_from n pre marker i (User u # xs) =
     (case prompt_index u of
        Some idx \<Rightarrow> (i, idx) # turns_from n pre True (i + 1) xs
      | None \<Rightarrow>
          if marker then turns_from n pre True (i + 1) xs
          else (case unmarked_index u pre n of
                  (Some idx, seen) \<Rightarrow> (i, idx) # turns_from (idx + 1) seen False (i + 1) xs
                | (None, seen) \<Rightarrow> turns_from n seen False (i + 1) xs))"
| "turns_from n pre marker i (x # xs) = turns_from n pre marker (i + 1) xs"

definition turns :: "conversation_item list \<Rightarrow> (nat \<times> nat) list" where
  "turns conversation = turns_from 0 False False 0 conversation"

text \<open>Prompt turns are numbered from 0 without gaps.\<close>

definition well_numbered :: "conversation_item list \<Rightarrow> bool" where
  "well_numbered conversation = (map snd (turns conversation) = [0..<length (turns conversation)])"

fun first_turn_from :: "nat \<Rightarrow> nat \<Rightarrow> (nat \<times> nat) list \<Rightarrow> nat" where
  "first_turn_from target end [] = end"
| "first_turn_from target end ((i, idx) # ts) = (if target \<le> idx then i else first_turn_from target end ts)"

lemma progressive_turns:
  "truncate_progressive target n pre marker i xs
     = first_turn_from target (i + length xs) (turns_from n pre marker i xs)"
  by (induction target n pre marker i xs rule: truncate_progressive.induct)
    (auto simp: Let_def split: option.splits prod.splits)

lemma legacy_progressive:
  "first_marker xs = None \<Longrightarrow>
     truncate_legacy target n pre i xs = truncate_progressive target n pre False i xs"
  by (induction target n pre i xs rule: truncate_legacy.induct)
    (auto simp: Let_def split: option.splits prod.splits)

lemma unmarked_index_Some: "unmarked_index u pre n = (Some k, s) \<Longrightarrow> k = n"
  by (auto simp: unmarked_index_def split: option.splits if_splits)

lemma count_legacy_ge: "n \<le> count_legacy_turns n pre xs"
  by (induction n pre xs rule: count_legacy_turns.induct)
    (fastforce simp: Let_def dest: Suc_leD split: prod.splits if_splits)+

lemma turns_before_marker:
  "first_marker xs = Some k \<Longrightarrow>
     \<exists>rest. map snd (turns_from n pre False i xs) = [n..<count_legacy_turns n pre xs] @ k # rest"
proof (induction xs arbitrary: n pre i)
  case Nil
  then show ?case by simp
next
  case (Cons x xs)
  show ?case
  proof (cases x)
    case (User u)
    obtain eff seen where e: "unmarked_index u pre n = (eff, seen)" by fastforce
    show ?thesis
    proof (cases "prompt_index u")
      case (Some idx)
      with Cons.prems User show ?thesis by simp
    next
      case None
      with Cons.prems User have marker: "first_marker xs = Some k" by simp
      show ?thesis
      proof (cases eff)
        case None: None
        with \<open>prompt_index u = None\<close> User e Cons.IH [OF marker, of n seen "Suc i"] show ?thesis by simp
      next
        case (Some m)
        then have "m = n" using unmarked_index_Some e by blast
        moreover have "Suc n \<le> count_legacy_turns (Suc n) seen xs" by (rule count_legacy_ge)
        ultimately show ?thesis
          using \<open>prompt_index u = None\<close> User e Some Cons.IH [OF marker, of "Suc n" seen "Suc i"]
          by (auto simp: upt_conv_Cons)
      qed
    qed
  qed (use Cons in simp_all)
qed

lemma well_numbered_progressive:
  assumes "well_numbered xs"
  shows "conversation_truncate_for_prompt xs target = first_turn_from target (length xs) (turns xs)"
proof (cases "first_marker xs")
  case None
  then show ?thesis
    by (simp add: conversation_truncate_for_prompt_def legacy_progressive progressive_turns turns_def)
next
  case (Some k)
  let ?c = "count_legacy_turns 0 False xs"
  obtain rest where r: "map snd (turns xs) = [0..<?c] @ k # rest"
    using turns_before_marker [OF Some, of 0 False 0] by (auto simp: turns_def)
  then have "?c < length (turns xs)" by (metis add_diff_cancel_left' length_Cons length_append length_map
        length_upt less_add_same_cancel1 minus_nat.diff_0 zero_less_Suc)
  then have "[0..<length (turns xs)] ! ?c = ?c" by simp
  moreover have "map snd (turns xs) ! ?c = k" using r by (simp add: nth_append)
  ultimately have "k = ?c" using assms by (simp add: well_numbered_def)
  with Some show ?thesis
    by (simp add: conversation_truncate_for_prompt_def progressive_turns turns_def)
qed

subsection \<open>The turns of a prefix\<close>

lemma turns_positions:
  "(p, k) \<in> set (turns_from n pre m i xs) \<Longrightarrow> i \<le> p \<and> p < i + length xs"
  by (induction n pre m i xs arbitrary: p k rule: turns_from.induct)
    (fastforce split: option.splits prod.splits if_splits)+

lemma turns_sorted: "sorted_wrt (<) (map fst (turns_from n pre m i xs))"
  by (induction n pre m i xs rule: turns_from.induct)
    (auto split: option.splits prod.splits dest!: turns_positions)

lemma turns_none: "k \<le> i \<Longrightarrow> filter (\<lambda>t. fst t < k) (turns_from n pre m i xs) = []"
  using turns_positions by (fastforce simp: filter_empty_conv)

lemma turns_take:
  "turns_from n pre m i (take k xs) = filter (\<lambda>t. fst t < i + k) (turns_from n pre m i xs)"
proof (induction xs arbitrary: n pre m i k)
  case Nil
  then show ?case by simp
next
  case (Cons x xs)
  show ?case
  proof (cases k)
    case 0
    then show ?thesis by (simp add: turns_none)
  next
    case (Suc j)
    with Cons show ?thesis by (cases x) (auto split: option.splits prod.splits)
  qed
qed

subsection \<open>Rewinding\<close>

lemma first_turn_nth:
  "map snd ts = [a..<a + length ts] \<Longrightarrow> a \<le> target \<Longrightarrow>
     first_turn_from target end ts = (if target < a + length ts then fst (ts ! (target - a)) else end)"
proof (induction ts arbitrary: a)
  case Nil
  then show ?case by simp
next
  case (Cons t ts)
  obtain i idx where t: "t = (i, idx)" by fastforce
  have "[a..<a + length (t # ts)] = a # [Suc a..<Suc a + length ts]"
    by (subst upt_conv_Cons) simp_all
  with Cons.prems t have idx: "idx = a" and rest: "map snd ts = [Suc a..<Suc a + length ts]" by simp_all
  show ?case
  proof (cases "target = a")
    case True
    with t idx show ?thesis by simp
  next
    case False
    with Cons.prems(2) have "Suc a \<le> target" by simp
    moreover from this have "target - a = Suc (target - Suc a)" by simp
    ultimately show ?thesis using t idx Cons.IH [OF rest] by simp
  qed
qed

lemma rewind_position:
  "well_numbered xs \<Longrightarrow>
     conversation_truncate_for_prompt xs target =
       (if target < length (turns xs) then fst (turns xs ! target) else length xs)"
  using first_turn_nth [of "turns xs" 0 target "length xs"]
  by (simp add: well_numbered_progressive) (simp add: well_numbered_def)

lemma rewind_turns:
  assumes "well_numbered xs"
  shows "turns (take (conversation_truncate_for_prompt xs target) xs) = take target (turns xs)"
proof -
  let ?cut = "conversation_truncate_for_prompt xs target"
  have "filter (\<lambda>t. fst t < ?cut) (turns xs) = take target (turns xs)"
  proof (cases "target < length (turns xs)")
    case True
    then have cut: "?cut = fst (turns xs ! target)" using assms by (simp add: rewind_position)
    have sorted: "sorted_wrt (<) (map fst (turns xs))" by (simp add: turns_def turns_sorted)
    have "filter (\<lambda>t. fst t < ?cut) (take target (turns xs) @ drop target (turns xs))
        = take target (turns xs)"
    proof -
      have "filter (\<lambda>t. fst t < ?cut) (take target (turns xs)) = take target (turns xs)"
        using sorted True by (simp add: cut filter_id_conv all_set_conv_all_nth sorted_wrt_iff_nth_less)
      moreover have "filter (\<lambda>t. fst t < ?cut) (drop target (turns xs)) = []"
      proof -
        have "\<not> fst (turns xs ! (target + j)) < fst (turns xs ! target)" if "target + j < length (turns xs)" for j
          using sorted that by (cases j) (auto simp: sorted_wrt_iff_nth_less dest: less_imp_not_less)
        then show ?thesis by (simp add: cut filter_empty_conv all_set_conv_all_nth)
      qed
      ultimately show ?thesis unfolding filter_append by simp
    qed
    then show ?thesis by simp
  next
    case False
    then have "?cut = length xs" using assms by (simp add: rewind_position)
    then show ?thesis using False turns_positions [of _ _ 0 False False 0 xs]
      by (auto simp: filter_id_conv turns_def)
  qed
  then show ?thesis using turns_take [of 0 False False 0 ?cut xs] by (simp add: turns_def)
qed

text \<open>
  C22. Rewinding to prompt \<open>N\<close> keeps exactly the prompts before it: if the turns of a conversation are
  numbered without gaps (however many of them carry a marker), the cut is where turn \<open>N\<close> begins, what
  is kept has the turns \<open>0\<close> to \<open>N - 1\<close>, nothing is dropped when there is no turn \<open>N\<close>, and rewinding
  further later is the same as rewinding there at once.
\<close>

theorem rewind_keeps_earlier_prompts:
  assumes "well_numbered xs"
  shows "conversation_truncate_for_prompt xs target =
           (if target < length (turns xs) then fst (turns xs ! target) else length xs)
         \<and> turns (take (conversation_truncate_for_prompt xs target) xs) = take target (turns xs)
         \<and> (earlier \<le> target \<longrightarrow>
             take (conversation_truncate_for_prompt (take (conversation_truncate_for_prompt xs target) xs) earlier)
               (take (conversation_truncate_for_prompt xs target) xs)
             = take (conversation_truncate_for_prompt xs earlier) xs)"
proof (intro conjI impI)
  let ?kept = "take (conversation_truncate_for_prompt xs target) xs"
  show cut: "conversation_truncate_for_prompt xs target =
           (if target < length (turns xs) then fst (turns xs ! target) else length xs)"
    using assms by (rule rewind_position)
  show kept: "turns ?kept = take target (turns xs)" using assms by (rule rewind_turns)
  assume "earlier \<le> target"
  have wn: "well_numbered ?kept"
    using assms by (auto simp: well_numbered_def kept take_map [symmetric] take_upt min_def)
  show "take (conversation_truncate_for_prompt ?kept earlier) ?kept
      = take (conversation_truncate_for_prompt xs earlier) xs"
  proof (cases "earlier < length (turns ?kept)")
    case True
    then have e: "earlier < target" "earlier < length (turns xs)" by (simp_all add: kept)
    have "fst (turns xs ! earlier) \<le> conversation_truncate_for_prompt xs target"
    proof (cases "target < length (turns xs)")
      case True
      have "sorted_wrt (<) (map fst (turns xs))" by (simp add: turns_def turns_sorted)
      with True e have "fst (turns xs ! earlier) < fst (turns xs ! target)"
        by (auto simp: sorted_wrt_iff_nth_less)
      with True cut show ?thesis by simp
    next
      case False
      have "turns xs ! earlier \<in> set (turns xs)" using e by simp
      then have "fst (turns xs ! earlier) < length xs"
        using turns_positions [of "fst (turns xs ! earlier)" "snd (turns xs ! earlier)" 0 False False 0 xs]
        by (simp add: turns_def)
      with False cut show ?thesis by simp
    qed
    moreover have "conversation_truncate_for_prompt ?kept earlier = fst (turns xs ! earlier)"
      using True e rewind_position [OF wn] by (simp add: kept)
    moreover have "conversation_truncate_for_prompt xs earlier = fst (turns xs ! earlier)"
      using e rewind_position [OF assms] by simp
    ultimately show ?thesis by (simp add: min_def)
  next
    case False
    then have "conversation_truncate_for_prompt ?kept earlier = length ?kept"
      using rewind_position [OF wn] by simp
    moreover have "conversation_truncate_for_prompt xs earlier = conversation_truncate_for_prompt xs target"
    proof -
      have "length (turns ?kept) = min (length (turns xs)) target" by (simp add: kept)
      then have "earlier = target \<or> \<not> earlier < length (turns xs) \<and> \<not> target < length (turns xs)"
        using False \<open>earlier \<le> target\<close> by linarith
      then show ?thesis using rewind_position [OF assms] by auto
    qed
    ultimately show ?thesis by (simp add: min_def)
  qed
qed

lemma rewind_keeps_earlier_prompts_witness:
  "conversation_truncate_for_prompt
     [System ''s'', user ''<user_info>'', user ''first'', assistant_message ''a'', user ''second''] 1 = 4"
  using rewind_keeps_earlier_prompts
    [of "[System ''s'', user ''<user_info>'', user ''first'', assistant_message ''a'', user ''second'']" 1 0]
  by (simp add: well_numbered_def turns_def user_def user_of_def unmarked_index_def assistant_message_def)

end
