(* ===== verification/Sampling_Errors.thy ===== *)
theory Sampling_Errors
  imports Conversation
begin

text \<open>
  Why a sampling request fails: the error type with its predicates
  (\<^verbatim>\<open>xai-grok-sampling-types/src/error.rs\<close>), the serialisable mirror of it that travels on the event
  channel (\<^verbatim>\<open>xai-grok-sampler/src/events.rs\<close>), the copy the retry loop makes (\<^verbatim>\<open>clone_error\<close> of
  \<^verbatim>\<open>retry.rs\<close>) and the way back from the mirror (\<^verbatim>\<open>synthesize_from_info\<close> of
  \<^verbatim>\<open>actor/request_task.rs\<close>).

  A transport error of \<^verbatim>\<open>reqwest\<close> and a parse error of \<^verbatim>\<open>serde_json\<close> are records of what the code asks
  them.  The record \<open>libraries\<close> holds two functions of those crates: the parse error with a given
  message, and the text of a status code.
\<close>

subsection \<open>Errors\<close>

record http_error =
  is_timeout :: bool
  is_connect :: bool
  is_status :: bool
  is_request :: bool
  is_body :: bool
  http_status :: "16 word option"
  http_url :: "str option"
  http_text :: str

record json_error =
  json_line :: nat
  json_column :: nat
  json_text :: str

record libraries =
  json_custom :: "str \<Rightarrow> json_error"
  status_text :: "16 word \<Rightarrow> str"

record empty_response_context =
  empty_cause :: empty_reason
  had_reasoning :: bool
  content_len :: nat
  tool_call_count :: nat
  ctx_finish_reason :: "str option"
  ctx_completion_tokens :: "32 word option"
  ctx_reasoning_tokens :: "32 word option"
  ctx_prompt_tokens :: "32 word option"
  ctx_model :: str
  ctx_first_choice_seen :: bool

definition finish_reason_str :: "empty_response_context \<Rightarrow> str" where
  "finish_reason_str c = (case ctx_finish_reason c of None \<Rightarrow> ''none'' | Some s \<Rightarrow> s)"

record response_model_metadata =
  meta_context_window :: "nat option"
  meta_max_completion_tokens :: "32 word option"
  models_etag :: "str option"

datatype sampling_error =
  Auth str
| InvalidConfiguration str
| Http http_error
| Serialization json_error
| Api (api_status: "16 word") (api_message: str) (api_metadata: "response_model_metadata option")
    (api_retry_after: "nat option") (api_should_retry: "bool option")
| EventStreamError str
| StreamError str str
| IdleTimeout nat
| EmptyResponse empty_response_context
| MaxTokensTruncation
| DoomLoopDetected "str list" "nat option"

definition serialization_prefix :: str where
  "serialization_prefix = ''serialization error: ''"

text \<open>\<^verbatim>\<open>Display\<close>.\<close>

fun error_text :: "libraries \<Rightarrow> sampling_error \<Rightarrow> str" where
  "error_text l (Auth m) = m"
| "error_text l (InvalidConfiguration m) = ''invalid client configuration: '' @ m"
| "error_text l (Http e) = ''request error: '' @ http_text e"
| "error_text l (Serialization e) = serialization_prefix @ json_text e"
| "error_text l (Api st m md ra sr) = ''API error (status '' @ status_text l st @ ''): '' @ m"
| "error_text l (EventStreamError m) = ''reqwest error stream: '' @ m"
| "error_text l (StreamError t m) = ''stream error ('' @ t @ ''): '' @ m"
| "error_text l (IdleTimeout n) = ''inference idle timeout after '' @ digits n @ ''s with no chunks''"
| "error_text l (EmptyResponse c) = ''empty response from model ('' @ empty_reason_str (empty_cause c) @ '')''"
| "error_text l MaxTokensTruncation = ''response truncated by max_tokens''"
| "error_text l (DoomLoopDetected ts at) = ''doom loop detected: '' @ join '', '' ts"

definition serialization_message :: "libraries \<Rightarrow> str \<Rightarrow> sampling_error" where
  "serialization_message l m = Serialization (json_custom l m)"

definition serialization_from_rendered :: "libraries \<Rightarrow> str \<Rightarrow> sampling_error" where
  "serialization_from_rendered l rendered =
     serialization_message l
       (case strip_prefix rendered serialization_prefix of None \<Rightarrow> rendered | Some m \<Rightarrow> m)"

fun is_auth_error :: "sampling_error \<Rightarrow> bool" where
  "is_auth_error (Auth _) = True"
| "is_auth_error (Api st _ _ _ _) = (st = 401)"
| "is_auth_error _ = False"

fun is_rate_limited :: "sampling_error \<Rightarrow> bool" where
  "is_rate_limited (Api st _ _ _ _) = (st = 429)"
| "is_rate_limited _ = False"

fun is_payload_too_large :: "sampling_error \<Rightarrow> bool" where
  "is_payload_too_large (Api st _ _ _ _) = (st = 413)"
| "is_payload_too_large _ = False"

fun is_likely_body_rejected :: "sampling_error \<Rightarrow> bool" where
  "is_likely_body_rejected (Http e) =
     ((is_request e \<or> is_body e) \<and> \<not> is_timeout e \<and> \<not> is_connect e)"
| "is_likely_body_rejected _ = False"

fun is_encrypted_content_error :: "sampling_error \<Rightarrow> bool" where
  "is_encrypted_content_error (Api st m _ _ _) = (st = 400 \<and> contains m ''encrypted_content'')"
| "is_encrypted_content_error _ = False"

fun is_image_processing_error :: "sampling_error \<Rightarrow> bool" where
  "is_image_processing_error (Api st m _ _ _) =
     ((st = 400 \<or> st = 500) \<and> contains m ''Could not process image'')"
| "is_image_processing_error _ = False"

definition is_server_error :: "16 word \<Rightarrow> bool" where
  "is_server_error st = (500 \<le> st \<and> st < 600)"

definition is_retryable_reqwest :: "http_error \<Rightarrow> bool" where
  "is_retryable_reqwest e =
     (if is_timeout e \<or> is_connect e then True
      else if is_status e
      then (case http_status e of Some st \<Rightarrow> is_server_error st \<or> st = 429 | None \<Rightarrow> False)
      else is_request e \<or> is_body e)"

definition retryable_statuses :: "16 word list" where
  "retryable_statuses = [429, 500, 502, 503, 504, 520]"

fun is_retryable :: "sampling_error \<Rightarrow> bool" where
  "is_retryable (Auth _) = False"
| "is_retryable (InvalidConfiguration _) = False"
| "is_retryable (Http e) = is_retryable_reqwest e"
| "is_retryable (Serialization _) = False"
| "is_retryable (Api st _ _ _ _) = (st \<in> set retryable_statuses)"
| "is_retryable (EventStreamError _) = True"
| "is_retryable (StreamError _ _) = True"
| "is_retryable (IdleTimeout _) = False"
| "is_retryable (EmptyResponse _) = True"
| "is_retryable MaxTokensTruncation = False"
| "is_retryable (DoomLoopDetected _ _) = True"

fun error_retry_after :: "sampling_error \<Rightarrow> nat option" where
  "error_retry_after (Api _ _ _ ra _) = ra"
| "error_retry_after _ = None"

fun should_retry_header :: "sampling_error \<Rightarrow> bool option" where
  "should_retry_header (Api _ _ _ _ sr) = sr"
| "should_retry_header _ = None"

fun model_metadata_of :: "sampling_error \<Rightarrow> response_model_metadata option" where
  "model_metadata_of (Api _ _ md _ _) = md"
| "model_metadata_of _ = None"

definition context_length_message :: "str \<Rightarrow> bool" where
  "context_length_message message =
     (let m = to_lowercase message
      in contains m ''too long for this model'' \<or> contains m ''prompt is too long''
         \<or> contains m ''maximum prompt length'' \<or> contains m ''maximum context length''
         \<or> contains m ''context_length_exceeded'')"

fun is_context_length_error :: "sampling_error \<Rightarrow> bool" where
  "is_context_length_error (Api _ m _ _ _) = context_length_message m"
| "is_context_length_error (StreamError _ m) = context_length_message m"
| "is_context_length_error _ = False"

text \<open>The copy of an error that cannot be cloned.\<close>

fun clone_error :: "libraries \<Rightarrow> sampling_error \<Rightarrow> sampling_error" where
  "clone_error l (Http e) = EventStreamError (http_text e)"
| "clone_error l (Serialization e) = serialization_message l (json_text e)"
| "clone_error l e = e"

subsection \<open>The mirror on the event channel\<close>

datatype sampling_error_kind =
  KAuth | KHttp | KApi | KSerialization | KIdleTimeout | KRateLimited | KEmptyResponse
| KMaxTokensTruncation | KDoomLoopDetected

fun kind_str :: "sampling_error_kind \<Rightarrow> str" where
  "kind_str KAuth = ''auth''"
| "kind_str KHttp = ''http''"
| "kind_str KApi = ''api''"
| "kind_str KSerialization = ''serialization''"
| "kind_str KIdleTimeout = ''idle_timeout''"
| "kind_str KRateLimited = ''rate_limited''"
| "kind_str KEmptyResponse = ''empty_response''"
| "kind_str KMaxTokensTruncation = ''max_tokens_truncation''"
| "kind_str KDoomLoopDetected = ''doom_loop_detected''"

record sampling_error_info =
  info_kind :: sampling_error_kind
  info_status :: "16 word option"
  info_message :: str
  info_retryable :: bool
  info_retry_after :: "nat option"
  info_metadata :: "response_model_metadata option"
  info_empty_context :: "empty_response_context option"
  info_doom_triggers :: "str list option"
  info_doom_chunk :: "nat option"

fun kind_of_error :: "sampling_error \<Rightarrow> sampling_error_kind" where
  "kind_of_error (Auth _) = KAuth"
| "kind_of_error (InvalidConfiguration _) = KApi"
| "kind_of_error (Http _) = KHttp"
| "kind_of_error (Serialization _) = KSerialization"
| "kind_of_error (Api st _ _ _ _) = (if st = 429 then KRateLimited else KApi)"
| "kind_of_error (EventStreamError _) = KHttp"
| "kind_of_error (StreamError _ _) = KApi"
| "kind_of_error (IdleTimeout _) = KIdleTimeout"
| "kind_of_error (EmptyResponse _) = KEmptyResponse"
| "kind_of_error MaxTokensTruncation = KMaxTokensTruncation"
| "kind_of_error (DoomLoopDetected _ _) = KDoomLoopDetected"

definition info_of :: "libraries \<Rightarrow> sampling_error \<Rightarrow> sampling_error_info" where
  "info_of l e =
     \<lparr>info_kind = kind_of_error e,
      info_status = (case e of Api st _ _ _ _ \<Rightarrow> Some st | _ \<Rightarrow> None),
      info_message = error_text l e,
      info_retryable = is_retryable e,
      info_retry_after = (case e of Api _ _ _ ra _ \<Rightarrow> ra | _ \<Rightarrow> None),
      info_metadata = (case e of Api _ _ md _ _ \<Rightarrow> md | _ \<Rightarrow> None),
      info_empty_context = (case e of EmptyResponse c \<Rightarrow> Some c | _ \<Rightarrow> None),
      info_doom_triggers = (case e of DoomLoopDetected ts _ \<Rightarrow> Some ts | _ \<Rightarrow> None),
      info_doom_chunk = (case e of DoomLoopDetected _ at \<Rightarrow> at | _ \<Rightarrow> None)\<rparr>"

subsection \<open>Back from the mirror\<close>

text \<open>\<^verbatim>\<open>str::split_whitespace\<close>.\<close>

fun pieces :: "str list \<Rightarrow> str list" where
  "pieces [] = [[]]"
| "pieces (c # cs) = (if is_whitespace c then [] # pieces cs
     else (case pieces cs of [] \<Rightarrow> [c] | w # ws \<Rightarrow> (c @ w) # ws))"

definition split_whitespace :: "str \<Rightarrow> str list" where
  "split_whitespace s = filter (\<lambda>w. w \<noteq> []) (pieces (chars s))"

fun find_map :: "('a \<Rightarrow> 'b option) \<Rightarrow> 'a list \<Rightarrow> 'b option" where
  "find_map f [] = None"
| "find_map f (x # xs) = (case f x of Some y \<Rightarrow> Some y | None \<Rightarrow> find_map f xs)"

definition seconds_token :: "str \<Rightarrow> nat option" where
  "seconds_token tok = Option.bind (strip_suffix tok ''s'') (parse_unsigned (2 ^ 64))"

text \<open>\<^verbatim>\<open>StatusCode::from_u16\<close> accepts three-digit codes.\<close>

definition status_from_u16 :: "16 word \<Rightarrow> 16 word option" where
  "status_from_u16 c = (if 100 \<le> c \<and> c < 1000 then Some c else None)"

definition synthesize_from_info :: "libraries \<Rightarrow> sampling_error_info \<Rightarrow> sampling_error" where
  "synthesize_from_info l i =
     (case info_kind i of
        KIdleTimeout \<Rightarrow>
          IdleTimeout (case find_map seconds_token (split_whitespace (info_message i)) of
                         None \<Rightarrow> 0 | Some n \<Rightarrow> n)
      | KAuth \<Rightarrow> Auth (info_message i)
      | KSerialization \<Rightarrow> serialization_from_rendered l (info_message i)
      | KHttp \<Rightarrow> EventStreamError (info_message i)
      | KApi \<Rightarrow>
          Api (case Option.bind (info_status i) status_from_u16 of None \<Rightarrow> 500 | Some c \<Rightarrow> c)
            (info_message i) (info_metadata i) (info_retry_after i) None
      | KRateLimited \<Rightarrow>
          Api (case Option.bind (info_status i) status_from_u16 of None \<Rightarrow> 500 | Some c \<Rightarrow> c)
            (info_message i) (info_metadata i) (info_retry_after i) None
      | KEmptyResponse \<Rightarrow>
          (case info_empty_context i of
             Some c \<Rightarrow> EmptyResponse c | None \<Rightarrow> EventStreamError (info_message i))
      | KMaxTokensTruncation \<Rightarrow> MaxTokensTruncation
      | KDoomLoopDetected \<Rightarrow>
          DoomLoopDetected (case info_doom_triggers i of None \<Rightarrow> [] | Some ts \<Rightarrow> ts) (info_doom_chunk i))"

subsection \<open>Reading the seconds back\<close>

lemma pieces_nonempty [simp]: "pieces cs \<noteq> []"
  by (induction cs) (auto split: list.splits)

lemma pieces_space: "is_whitespace w \<Longrightarrow> pieces (xs @ w # ys) = pieces xs @ pieces ys"
proof (induction xs)
  case (Cons x xs)
  then show ?case by (cases "pieces xs") (auto split: list.splits)
qed simp

lemma pieces_word: "list_all (\<lambda>c. \<not> is_whitespace c) cs \<Longrightarrow> pieces cs = [concat cs]"
  by (induction cs) auto

definition ascii :: "str \<Rightarrow> bool" where
  "ascii s = list_all (\<lambda>c. (of_char c :: nat) < 128) s"

lemma chars_ascii: "ascii s \<Longrightarrow> chars s = map (\<lambda>c. [c]) s"
  by (induction s) (simp_all add: ascii_def utf8_len_def Let_def)

lemma digit_ascii: "is_ascii_digit c \<Longrightarrow> (of_char c :: nat) < 128 \<and> \<not> is_whitespace [c]"
proof -
  assume "is_ascii_digit c"
  then have "c \<in> set digit_letters" by (simp add: is_ascii_digit_def)
  moreover have "\<forall>c\<in>set digit_letters. (of_char c :: nat) < 128 \<and> \<not> is_whitespace [c]"
    by code_simp
  ultimately show ?thesis by blast
qed

lemma digits_ascii: "ascii (digits n)" "list_all (\<lambda>c. \<not> is_whitespace [c]) (digits n)"
  using digits_digits [of n] digit_ascii by (auto simp: ascii_def list_all_iff)

lemma ascii_append [simp]: "ascii (a @ b) \<longleftrightarrow> ascii a \<and> ascii b"
  by (simp add: ascii_def)

definition single :: "str \<Rightarrow> str list" where
  "single s = map (\<lambda>c. [c]) s"

lemma pieces_text:
  "list_all (\<lambda>c. \<not> is_whitespace [c]) w \<Longrightarrow> pieces (single (w @ CHR '' '' # s)) = w # pieces (single s)"
proof -
  assume w: "list_all (\<lambda>c. \<not> is_whitespace [c]) w"
  have blank: "is_whitespace [CHR '' '']" by code_simp
  have "pieces (single w) = [w]"
    using w pieces_word [of "single w"] by (simp add: single_def list_all_iff comp_def)
  with blank show ?thesis by (simp add: single_def pieces_space)
qed

lemma timeout_message_pieces:
  "find_map seconds_token (split_whitespace (''inference idle timeout after '' @ digits n @ ''s with no chunks''))
     = Some n"
  if "n < 2 ^ 64"
proof -
  let ?after = "digits n @ ''s with no chunks''"
  have "ascii (''inference idle timeout after '' @ ?after)"
  proof -
    have "ascii ''inference idle timeout after ''" "ascii ''s with no chunks''" by code_simp+
    with digits_ascii show ?thesis unfolding ascii_append by blast
  qed
  then have c: "chars (''inference idle timeout after '' @ ?after) = single (''inference idle timeout after '' @ ?after)"
    by (simp only: chars_ascii single_def)
  have words: "list_all (\<lambda>c. \<not> is_whitespace [c]) ''inference''" "list_all (\<lambda>c. \<not> is_whitespace [c]) ''idle''"
    "list_all (\<lambda>c. \<not> is_whitespace [c]) ''timeout''" "list_all (\<lambda>c. \<not> is_whitespace [c]) ''after''"
    "list_all (\<lambda>c. \<not> is_whitespace [c]) ''s''" by code_simp+
  have secs: "list_all (\<lambda>c. \<not> is_whitespace [c]) (digits n @ ''s'')"
    using digits_ascii(2) words(5) by simp
  have "pieces (single (''inference idle timeout after '' @ ?after)) =
      ''inference'' # ''idle'' # ''timeout'' # ''after'' # (digits n @ ''s'') # pieces (single ''with no chunks'')"
    using pieces_text [OF words(1), of "''idle timeout after '' @ ?after"]
      pieces_text [OF words(2), of "''timeout after '' @ ?after"]
      pieces_text [OF words(3), of "''after '' @ ?after"] pieces_text [OF words(4), of ?after]
      pieces_text [OF secs, of "''with no chunks''"] by simp
  moreover have "seconds_token ''inference'' = None" "seconds_token ''idle'' = None"
    "seconds_token ''timeout'' = None" "seconds_token ''after'' = None" by code_simp+
  moreover have "seconds_token (digits n @ ''s'') = Some n"
    using parse_unsigned_digits [OF that] strip_suffix_Some [of "digits n @ ''s''" "''s''" "digits n"]
    by (simp add: seconds_token_def)
  ultimately show ?thesis unfolding split_whitespace_def c by simp
qed

subsection \<open>What survives the copy and the mirror\<close>

text \<open>
  Of a copied error only a transport error that must not be retried changes its nature: it becomes a
  retryable stream error.
\<close>

lemma clone_keeps_class:
  "is_retryable (clone_error l e) = (is_retryable e \<or> (\<exists>h. e = Http h))
   \<and> is_auth_error (clone_error l e) = is_auth_error e
   \<and> is_rate_limited (clone_error l e) = is_rate_limited e
   \<and> kind_of_error (clone_error l e) = kind_of_error e"
  by (cases e) (simp_all add: serialization_message_def)

text \<open>The messages a parse error is built from are what it displays.\<close>

definition displays_custom :: "libraries \<Rightarrow> bool" where
  "displays_custom l = (\<forall>m. json_text (json_custom l m) = m)"

text \<open>
  The errors whose mirror determines them: \<open>exact\<close> holds of those that come back as they were, up to
  the record of a parse error, of which the text comes back.
\<close>

fun exact :: "sampling_error \<Rightarrow> bool" where
  "exact (Auth _) = True"
| "exact (Serialization _) = True"
| "exact (IdleTimeout n) = (n < 2 ^ 64)"
| "exact (EmptyResponse _) = True"
| "exact MaxTokensTruncation = True"
| "exact (DoomLoopDetected _ _) = True"
| "exact _ = False"

lemma strip_prefix_append [simp]: "strip_prefix (p @ s) p = Some s"
  by (simp add: strip_prefix_Some)

text \<open>
  C39. The mirror of an error on the event channel says enough to act on: rebuilt from it, an error has
  the same kind, is an authentication or rate-limit error exactly when it was one, and an error that
  was retryable stays so.  Timeouts, empty responses, truncations, doom loops, authentication and
  parse errors come back with the same text.  What was not retryable stays so, but for configuration
  errors and transport errors.
\<close>

theorem mirror_keeps_meaning:
  assumes "displays_custom l" "\<And>n. e = IdleTimeout n \<Longrightarrow> n < 2 ^ 64"
    "\<And>st m md ra sr. e = Api st m md ra sr \<Longrightarrow> 100 \<le> st \<and> st < 1000"
  shows "kind_of_error (synthesize_from_info l (info_of l e)) = kind_of_error e
    \<and> is_auth_error (synthesize_from_info l (info_of l e)) = is_auth_error e
    \<and> is_rate_limited (synthesize_from_info l (info_of l e)) = is_rate_limited e
    \<and> is_retryable (synthesize_from_info l (info_of l e))
        = (is_retryable e \<or> (\<exists>m. e = InvalidConfiguration m) \<or> (\<exists>h. e = Http h))
    \<and> (exact e \<longrightarrow> error_text l (synthesize_from_info l (info_of l e)) = error_text l e)"
proof (cases e)
  case (Api st m md ra sr)
  then have "status_from_u16 st = Some st" using assms(3) by (simp add: status_from_u16_def)
  with Api show ?thesis
    by (cases "st = 429") (simp_all add: synthesize_from_info_def info_of_def retryable_statuses_def)
next
  case (IdleTimeout n)
  then have n: "n < 2 ^ 64" using assms(2) by blast
  have "info_message (info_of l e) = ''inference idle timeout after '' @ digits n @ ''s with no chunks''"
    using IdleTimeout by (simp only: info_of_def error_text.simps sampling_error_info.simps)
  then have "find_map seconds_token (split_whitespace (info_message (info_of l e))) = Some n"
    by (simp only: timeout_message_pieces [OF n])
  then have "synthesize_from_info l (info_of l e) = IdleTimeout n"
    using IdleTimeout by (simp add: synthesize_from_info_def info_of_def)
  with IdleTimeout show ?thesis by simp
qed (use assms(1) in \<open>simp_all add: synthesize_from_info_def info_of_def serialization_from_rendered_def
      serialization_message_def displays_custom_def retryable_statuses_def\<close>)

definition example_libraries :: libraries where
  "example_libraries =
     \<lparr>json_custom = (\<lambda>m. \<lparr>json_line = 0, json_column = 0, json_text = m\<rparr>),
      status_text = (\<lambda>st. digits (unat st))\<rparr>"

lemma mirror_keeps_meaning_witness:
  "kind_of_error (synthesize_from_info example_libraries
     (info_of example_libraries (IdleTimeout 240))) = KIdleTimeout"
proof -
  have "displays_custom example_libraries"
    by (simp add: displays_custom_def example_libraries_def)
  from mirror_keeps_meaning [OF this, of "IdleTimeout 240"] show ?thesis by simp
qed

end
