(* ===== verification/Responses_Model.thy ===== *)
theory Responses_Model
  imports Sampling_Errors
begin

text \<open>
  The wire model of the Responses API as far as the code reads it: events, output items and the response
  object (types of the API's client library, so only the fields in use), the conversion of a response
  into conversation items (\<^verbatim>\<open>response_to_conversation_items\<close> and
  \<^verbatim>\<open>inject_streaming_reasoning_fallback\<close> of \<^verbatim>\<open>xai-grok-sampling-types/src/conversation.rs\<close>), and which
  events count as progress (\<^verbatim>\<open>xai-grok-sampler/src/stream/responses.rs\<close>).
\<close>

subsection \<open>Output items\<close>

datatype message_part = OutputText str | RefusalText str

datatype output_item =
  OutputMessage "message_part list"
| FunctionCall tool_call
| OutputReasoning reasoning_item
| WebSearchCall hosted_call
| CustomToolCall hosted_call
| CodeInterpreterCall hosted_call
| McpCall
| OtherOutput

datatype response_status = RsCompleted | RsFailed | RsInProgress | RsCancelled | RsQueued | RsIncomplete

datatype wire_effort = WireNone | WireMinimal | WireLow | WireMedium | WireHigh | WireXhigh

fun effort_of_wire :: "wire_effort \<Rightarrow> reasoning_effort" where
  "effort_of_wire WireNone = NoEffort"
| "effort_of_wire WireMinimal = Minimal"
| "effort_of_wire WireLow = Low"
| "effort_of_wire WireMedium = Medium"
| "effort_of_wire WireHigh = High"
| "effort_of_wire WireXhigh = Xhigh"

record responses_usage =
  input_tokens :: "32 word"
  output_tokens :: "32 word"
  wire_total :: "32 word"
  output_reasoning_tokens :: "32 word"
  input_cached_tokens :: "32 word"

text \<open>Metadata is a hash map of strings; the reasoning configuration is present with or without effort.\<close>

record wire_response =
  resp_output :: "output_item list"
  resp_model :: str
  resp_metadata :: "(str \<rightharpoonup> str) option"
  resp_effort :: "wire_effort option option"
  resp_status :: response_status
  resp_error :: "(str \<times> str) option"
  resp_usage :: "responses_usage option"

subsection \<open>From a response to conversation items\<close>

record gathered =
  gathered_items :: "conversation_item list"
  gathered_content :: str
  gathered_calls :: "tool_call list"

fun gather_part :: "message_part \<Rightarrow> str \<Rightarrow> str" where
  "gather_part (OutputText t) content = (if content \<noteq> [] then content @ [CHR 0x0A] else content) @ t"
| "gather_part (RefusalText t) content = content"

fun gather_item :: "output_item \<Rightarrow> gathered \<Rightarrow> gathered" where
  "gather_item (OutputMessage parts) g = g\<lparr>gathered_content := fold gather_part parts (gathered_content g)\<rparr>"
| "gather_item (FunctionCall c) g = g\<lparr>gathered_calls := gathered_calls g @ [c]\<rparr>"
| "gather_item (OutputReasoning r) g = g\<lparr>gathered_items := gathered_items g @ [Reasoning r]\<rparr>"
| "gather_item (WebSearchCall c) g =
     g\<lparr>gathered_items := gathered_items g @ [BackendToolCall (WebSearch c)]\<rparr>"
| "gather_item (CustomToolCall c) g =
     g\<lparr>gathered_items := gathered_items g @ [BackendToolCall (XSearch c)]\<rparr>"
| "gather_item (CodeInterpreterCall c) g =
     g\<lparr>gathered_items := gathered_items g @ [BackendToolCall (CodeInterpreter c)]\<rparr>"
| "gather_item McpCall g = g"
| "gather_item OtherOutput g = g"

definition response_fingerprint :: "wire_response \<Rightarrow> str option" where
  "response_fingerprint r =
     filter_option (\<lambda>s. s \<noteq> [])
       (Option.bind (resp_metadata r) (\<lambda>m. m ''system_fingerprint''))"

definition response_to_conversation_items :: "wire_response \<Rightarrow> conversation_item list" where
  "response_to_conversation_items r =
     (let g = fold gather_item (resp_output r)
                \<lparr>gathered_items = [], gathered_content = [], gathered_calls = []\<rparr>
      in gathered_items g
           @ [Assistant \<lparr>assistant_content = gathered_content g, tool_calls = gathered_calls g,
                         model_id = Some (resp_model r), model_fingerprint = response_fingerprint r,
                         effort = map_option effort_of_wire (Option.bind (resp_effort r) id)\<rparr>])"

subsection \<open>Reasoning that arrived only as deltas\<close>

fun is_reasoning :: "conversation_item \<Rightarrow> bool" where
  "is_reasoning (Reasoning _) = True"
| "is_reasoning _ = False"

fun is_assistant :: "conversation_item \<Rightarrow> bool" where
  "is_assistant (Assistant _) = True"
| "is_assistant _ = False"

fun has_summary_text :: "conversation_item \<Rightarrow> bool" where
  "has_summary_text (Reasoning r) = list_ex (\<lambda>t. t \<noteq> []) (summary r)"
| "has_summary_text _ = False"

fun add_to_first_reasoning :: "str \<Rightarrow> conversation_item list \<Rightarrow> conversation_item list" where
  "add_to_first_reasoning t [] = []"
| "add_to_first_reasoning t (Reasoning r # xs) = Reasoning (r\<lparr>summary := summary r @ [t]\<rparr>) # xs"
| "add_to_first_reasoning t (i # xs) = i # add_to_first_reasoning t xs"

text \<open>The position of the last assistant item, or the end.\<close>

definition splice_position :: "conversation_item list \<Rightarrow> nat" where
  "splice_position xs =
     (case last_opt (filter (\<lambda>n. is_assistant (xs ! n)) [0..<length xs]) of
        Some n \<Rightarrow> n | None \<Rightarrow> length xs)"

definition inject_streaming_reasoning_fallback ::
    "conversation_item list \<Rightarrow> str \<Rightarrow> conversation_item list" where
  "inject_streaming_reasoning_fallback xs t =
     (if t = [] then xs
      else if list_ex has_summary_text xs then xs
      else if list_ex is_reasoning xs then add_to_first_reasoning t xs
      else take (splice_position xs) xs @ Reasoning (synthesized_reasoning_item t)
             # drop (splice_position xs) xs)"

subsection \<open>Events\<close>

text \<open>
  An event carries what the code reads of it: a delta or a finished text, the output index of a function
  call, an item, a response.  \<open>OtherProgress\<close> stands for the 23 further kinds, which count as progress
  and lead to nothing else.
\<close>

datatype response_event =
  ResponseCreated | ResponseInProgress | ResponseQueued
| OutputTextDelta str | OutputTextDone str
| RefusalDelta str | RefusalDone str
| ArgumentsDelta "32 word" str | ArgumentsDone "str option" str
| SummaryTextDelta str | SummaryTextDone str
| ReasoningTextDelta str | ReasoningTextDone str
| McpArgumentsDelta str | McpArgumentsDone str
| CodeDelta str | CodeDone str
| CustomInputDelta str | CustomInputDone str str
| ResponseCompleted wire_response | ResponseFailed wire_response | ResponseIncomplete wire_response
| ResponseError "str option" str
| OutputItemAdded "32 word" output_item | OutputItemDone output_item
| WebSearchInProgress str
| OtherProgress

fun responses_event_has_meaningful_content :: "response_event \<Rightarrow> bool" where
  "responses_event_has_meaningful_content ResponseCreated = False"
| "responses_event_has_meaningful_content ResponseInProgress = False"
| "responses_event_has_meaningful_content ResponseQueued = False"
| "responses_event_has_meaningful_content (OutputTextDelta t) = (t \<noteq> [])"
| "responses_event_has_meaningful_content (OutputTextDone t) = (t \<noteq> [])"
| "responses_event_has_meaningful_content (RefusalDelta t) = (t \<noteq> [])"
| "responses_event_has_meaningful_content (RefusalDone t) = (t \<noteq> [])"
| "responses_event_has_meaningful_content (ArgumentsDelta i t) = (t \<noteq> [])"
| "responses_event_has_meaningful_content (ArgumentsDone n t) =
     (t \<noteq> [] \<or> (case n of Some m \<Rightarrow> m \<noteq> [] | None \<Rightarrow> False))"
| "responses_event_has_meaningful_content (SummaryTextDelta t) = (t \<noteq> [])"
| "responses_event_has_meaningful_content (SummaryTextDone t) = (t \<noteq> [])"
| "responses_event_has_meaningful_content (ReasoningTextDelta t) = (t \<noteq> [])"
| "responses_event_has_meaningful_content (ReasoningTextDone t) = (t \<noteq> [])"
| "responses_event_has_meaningful_content (McpArgumentsDelta t) = (t \<noteq> [])"
| "responses_event_has_meaningful_content (McpArgumentsDone t) = (t \<noteq> [])"
| "responses_event_has_meaningful_content (CodeDelta t) = (t \<noteq> [])"
| "responses_event_has_meaningful_content (CodeDone t) = (t \<noteq> [])"
| "responses_event_has_meaningful_content (CustomInputDelta t) = (t \<noteq> [])"
| "responses_event_has_meaningful_content (CustomInputDone i t) = (t \<noteq> [])"
| "responses_event_has_meaningful_content (ResponseCompleted r) = True"
| "responses_event_has_meaningful_content (ResponseFailed r) = True"
| "responses_event_has_meaningful_content (ResponseIncomplete r) = True"
| "responses_event_has_meaningful_content (ResponseError c m) = True"
| "responses_event_has_meaningful_content (OutputItemAdded k i) = True"
| "responses_event_has_meaningful_content (OutputItemDone i) = True"
| "responses_event_has_meaningful_content (WebSearchInProgress i) = True"
| "responses_event_has_meaningful_content OtherProgress = True"

subsection \<open>Nothing of a response is lost\<close>

text \<open>What an output item becomes beside the assistant item, and the call it is of the assistant.\<close>

fun sibling :: "output_item \<Rightarrow> conversation_item option" where
  "sibling (OutputReasoning r) = Some (Reasoning r)"
| "sibling (WebSearchCall c) = Some (BackendToolCall (WebSearch c))"
| "sibling (CustomToolCall c) = Some (BackendToolCall (XSearch c))"
| "sibling (CodeInterpreterCall c) = Some (BackendToolCall (CodeInterpreter c))"
| "sibling _ = None"

fun function_call :: "output_item \<Rightarrow> tool_call option" where
  "function_call (FunctionCall c) = Some c"
| "function_call _ = None"

lemma gather_items:
  "gathered_items (fold gather_item os g) = gathered_items g @ List.map_filter sibling os
   \<and> gathered_calls (fold gather_item os g) = gathered_calls g @ List.map_filter function_call os"
proof (induction os arbitrary: g)
  case (Cons i os)
  then show ?case by (cases i) (simp_all add: List.map_filter_def)
qed (simp add: List.map_filter_def)

lemma response_items_shape:
  "\<exists>a. response_to_conversation_items r = List.map_filter sibling (resp_output r) @ [Assistant a]
     \<and> tool_calls a = List.map_filter function_call (resp_output r) \<and> model_id a = Some (resp_model r)"
  using gather_items [of "resp_output r" "\<lparr>gathered_items = [], gathered_content = [], gathered_calls = []\<rparr>"]
  by (simp add: response_to_conversation_items_def Let_def)

lemma siblings_no_assistant: "\<not> is_assistant x" if "x \<in> set (List.map_filter sibling os)"
proof -
  from that obtain i where "sibling i = Some x" by (auto simp: List.map_filter_def)
  then show ?thesis by (cases i) auto
qed

lemma splice_before_assistant:
  assumes "\<And>x. x \<in> set xs \<Longrightarrow> \<not> is_assistant x"
  shows "splice_position (xs @ [Assistant a]) = length xs"
proof -
  have "filter (\<lambda>n. is_assistant ((xs @ [Assistant a]) ! n)) [0..<length (xs @ [Assistant a])]
      = filter (\<lambda>n. is_assistant ((xs @ [Assistant a]) ! n)) [0..<length xs] @ [length xs]"
    by simp
  also have "filter (\<lambda>n. is_assistant ((xs @ [Assistant a]) ! n)) [0..<length xs] = []"
    using assms by (auto simp: filter_empty_conv nth_append)
  finally show ?thesis by (simp add: splice_position_def last_opt_def)
qed

lemma add_to_first_others:
  "filter (\<lambda>i. \<not> is_reasoning i) (add_to_first_reasoning t xs) = filter (\<lambda>i. \<not> is_reasoning i) xs"
  by (induction t xs rule: add_to_first_reasoning.induct) auto

lemma add_to_first_text:
  "t \<noteq> [] \<Longrightarrow> list_ex is_reasoning xs \<Longrightarrow> list_ex has_summary_text (add_to_first_reasoning t xs)"
  by (induction t xs rule: add_to_first_reasoning.induct) auto

lemma inject_others:
  "filter (\<lambda>i. \<not> is_reasoning i) (inject_streaming_reasoning_fallback xs t)
     = filter (\<lambda>i. \<not> is_reasoning i) xs"
proof -
  have "filter P xs = filter P (take n xs) @ filter P (drop n xs)" for P n
    by (metis append_take_drop_id filter_append)
  then show ?thesis by (simp add: inject_streaming_reasoning_fallback_def add_to_first_others)
qed

lemma inject_speaks: "t \<noteq> [] \<Longrightarrow> list_ex has_summary_text (inject_streaming_reasoning_fallback xs t)"
  by (simp add: inject_streaming_reasoning_fallback_def add_to_first_text synthesized_reasoning_item_def)

lemma inject_idem:
  "inject_streaming_reasoning_fallback (inject_streaming_reasoning_fallback xs t) t
     = inject_streaming_reasoning_fallback xs t"
proof (cases "t = []")
  case False
  then show ?thesis
    using inject_speaks [OF False, of xs]
    by (simp add: inject_streaming_reasoning_fallback_def [of "inject_streaming_reasoning_fallback xs t"])
qed (simp add: inject_streaming_reasoning_fallback_def)

end
