(* ===== verification/Sampling_Events.thy ===== *)
theory Sampling_Events
  imports Sampling_Errors Externals
begin

text \<open>
  What one sampling request tells its observers: the events of the shared channel
  (\<^verbatim>\<open>xai-grok-sampler/src/events.rs\<close>), the latency statistics a completed request carries
  (\<^verbatim>\<open>metrics.rs\<close>) and the consumer that waits for the terminal event (\<^verbatim>\<open>stream/collect.rs\<close>).  An
  instant of the monotonic clock is a number of nanoseconds; \<^verbatim>\<open>duration_since\<close> is zero for a later
  instant, which subtraction on the natural numbers is.
\<close>

subsection \<open>Latency statistics\<close>

record latency_stats =
  time_to_first_token_ms :: "nat option"
  time_to_last_byte_ms :: nat
  chunk_count :: "32 word"
  itl_intervals_ms :: "nat list"
  itl_p50_ms :: "nat option"
  itl_p99_ms :: "nat option"
  itl_max_ms :: "nat option"
  itl_mean_ms :: "nat option"
  attempts :: "32 word"

definition no_stats :: latency_stats where
  "no_stats =
     \<lparr>time_to_first_token_ms = None, time_to_last_byte_ms = 0, chunk_count = 0, itl_intervals_ms = [],
      itl_p50_ms = None, itl_p99_ms = None, itl_max_ms = None, itl_mean_ms = None, attempts = 0\<rparr>"

definition u64 :: "nat \<Rightarrow> nat" where
  "u64 n = n mod 2 ^ 64"

text \<open>
  The percentiles of a sorted list.  The index of the 99th is computed in floating point,
  \<open>\<lceil>0.99 * len\<rceil>\<close>; below \<open>10 ^ 14\<close> samples the rounding error of the product is less than a hundredth and the
  result is the exact one.
\<close>

definition p99_index :: "nat \<Rightarrow> nat" where
  "p99_index len = min ((99 * len + 99) div 100 - 1) (len - 1)"

definition compute_percentiles :: "nat list \<Rightarrow> nat \<times> nat \<times> nat \<times> nat \<times> nat" where
  "compute_percentiles samples =
     (let len = length samples; p50 = samples ! (len div 2); p99 = samples ! p99_index len;
          mx = samples ! (len - 1); sum = u64 (sum_list samples); mean = sum div len
      in (p50, p99, mx, mean, sum))"

definition millis_between :: "nat \<Rightarrow> nat \<Rightarrow> nat" where
  "millis_between a b = u64 ((b - a) div 1000000)"

fun intervals :: "nat list \<Rightarrow> nat list" where
  "intervals (a # b # ts) = millis_between a b # intervals (b # ts)"
| "intervals _ = []"

definition from_timestamps :: "nat \<Rightarrow> nat list \<Rightarrow> nat \<Rightarrow> latency_stats" where
  "from_timestamps stream_start chunk_timestamps stream_end =
     (let ttlb = millis_between stream_start stream_end
      in case chunk_timestamps of
           [] \<Rightarrow> no_stats\<lparr>time_to_last_byte_ms := ttlb\<rparr>
         | t # _ \<Rightarrow>
             (let ivs = intervals chunk_timestamps;
                  (p50, p99, mx, mean) =
                    (if ivs = [] then (None, None, None, None)
                     else (let (p50, p99, mx, mean, _) = compute_percentiles (sort ivs)
                           in (Some p50, Some p99, Some mx, Some mean)))
              in \<lparr>time_to_first_token_ms = Some (millis_between stream_start t),
                  time_to_last_byte_ms = ttlb,
                  chunk_count = (if length chunk_timestamps < 2 ^ 32 then of_nat (length chunk_timestamps) else - 1),
                  itl_intervals_ms = ivs,
                  itl_p50_ms = p50, itl_p99_ms = p99, itl_max_ms = mx, itl_mean_ms = mean,
                  attempts = 0\<rparr>))"

lemma p99_index_less: "0 < n \<Longrightarrow> p99_index n < n"
  by (auto simp: p99_index_def)

subsection \<open>Events\<close>

datatype sampling_channel = TextChannel | ReasoningChannel

datatype sampling_event =
  StreamStarted (event_request: str) int
| FirstToken (event_request: str)
| ChannelToken (event_request: str) sampling_channel str nat
| ToolCallDelta (event_request: str) "32 word" "str option" "str option" "str option"
| Completed (event_request: str) conversation_response latency_stats
| Retrying (event_request: str) (retry_attempt: "32 word") (retry_max: "32 word")
    (retry_kind: sampling_error_kind) (retry_reason: str) (retry_triggers: "str list option")
    (retry_chunk: "nat option")
| Failed (event_request: str) sampling_error_info
| ModelMetadata (event_request: str) response_model_metadata
| BackendToolCallStarted (event_request: str) str str
| BackendToolCallCompleted (event_request: str) str str "json option"

fun terminal :: "sampling_event \<Rightarrow> bool" where
  "terminal (Completed _ _ _) = True"
| "terminal (Failed _ _) = True"
| "terminal (StreamStarted _ _) = False"
| "terminal (FirstToken _) = False"
| "terminal (ChannelToken _ _ _ _) = False"
| "terminal (ToolCallDelta _ _ _ _ _) = False"
| "terminal (Retrying _ _ _ _ _ _ _) = False"
| "terminal (ModelMetadata _ _) = False"
| "terminal (BackendToolCallStarted _ _ _) = False"
| "terminal (BackendToolCallCompleted _ _ _ _) = False"

text \<open>The one event that comes from the retry loop and not from a stream.\<close>

fun is_retrying :: "sampling_event \<Rightarrow> bool" where
  "is_retrying (Retrying _ _ _ _ _ _ _) = True"
| "is_retrying _ = False"

text \<open>The consumer that only wants the result.\<close>

definition stream_ended_info :: sampling_error_info where
  "stream_ended_info =
     \<lparr>info_kind = KApi, info_status = None,
      info_message = ''stream ended without Completed or Failed'', info_retryable = False,
      info_retry_after = None, info_metadata = None, info_empty_context = None,
      info_doom_triggers = None, info_doom_chunk = None\<rparr>"

fun collect_response ::
    "sampling_event list \<Rightarrow> sampling_error_info + (conversation_response \<times> latency_stats)" where
  "collect_response [] = Inl stream_ended_info"
| "collect_response (e # es) =
     (case e of
        Completed _ response metrics \<Rightarrow> Inr (response, metrics)
      | Failed _ info \<Rightarrow> Inl info
      | _ \<Rightarrow> collect_response es)"

subsection \<open>The contract of a stream transform\<close>

text \<open>A stream of events that ends with its only terminal event and speaks of one request.\<close>

definition well_terminated :: "str \<Rightarrow> sampling_event list \<Rightarrow> bool" where
  "well_terminated rid es =
     (es \<noteq> [] \<and> terminal (List.last es) \<and> list_all (\<lambda>e. \<not> terminal e) (butlast es)
      \<and> list_all (\<lambda>e. event_request e = rid) es)"

lemma collect_skips: "list_all (\<lambda>e. \<not> terminal e) es \<Longrightarrow> collect_response (es @ fs) = collect_response fs"
  by (induction es) (auto split: sampling_event.splits)

lemma well_terminated_append:
  "well_terminated rid (es @ [e]) \<longleftrightarrow>
     terminal e \<and> event_request e = rid \<and> list_all (\<lambda>e. \<not> terminal e \<and> event_request e = rid) es"
  by (auto simp: well_terminated_def list_all_iff)

lemma well_terminatedE:
  assumes "well_terminated rid es"
  obtains pre e where "es = pre @ [e]" "terminal e" "event_request e = rid"
    "list_all (\<lambda>e. \<not> terminal e) pre" "list_all (\<lambda>e. event_request e = rid) pre"
proof -
  from assms have "es = butlast es @ [List.last es]" by (simp add: well_terminated_def)
  moreover have "list_all (\<lambda>e. event_request e = rid) (butlast es)"
    using assms by (auto simp: well_terminated_def list_all_iff dest: in_set_butlastD)
  ultimately show thesis using assms that [of "butlast es" "List.last es"]
    by (auto simp: well_terminated_def list_all_iff)
qed

subsection \<open>What the statistics say\<close>

lemma rank_count: "sorted xs \<Longrightarrow> i < length xs \<Longrightarrow> Suc i \<le> length (filter (\<lambda>x. x \<le> xs ! i) xs)"
proof -
  assume s: "sorted xs" and i: "i < length xs"
  have "filter (\<lambda>x. x \<le> xs ! i) (take (Suc i) xs) = take (Suc i) xs"
    using s i by (auto simp: filter_id_conv in_set_conv_nth sorted_iff_nth_mono)
  then have "Suc i = length (filter (\<lambda>x. x \<le> xs ! i) (take (Suc i) xs))" using i by simp
  also have "\<dots> \<le> length (filter (\<lambda>x. x \<le> xs ! i) (take (Suc i) xs @ drop (Suc i) xs))"
    unfolding filter_append by simp
  finally show ?thesis by simp
qed

lemma p99_rank: "0 < n \<Longrightarrow> 99 * n \<le> 100 * Suc (p99_index n)"
  by (simp add: p99_index_def min_def) linarith

lemma p99_above_median: "0 < n \<Longrightarrow> n div 2 \<le> p99_index n"
  by (simp add: p99_index_def min_def) linarith

lemma mean_below_max: "sorted xs \<Longrightarrow> xs \<noteq> [] \<Longrightarrow> u64 (sum_list xs) div length xs \<le> xs ! (length xs - 1)"
proof -
  assume s: "sorted xs" and n: "xs \<noteq> []"
  have "x \<le> xs ! (length xs - 1)" if "x \<in> set xs" for x
    using that s n by (auto simp: in_set_conv_nth sorted_iff_nth_mono)
  then have "sum_list xs \<le> sum_list (map (\<lambda>_. xs ! (length xs - 1)) xs)"
    by (intro sum_list_mono2) (auto simp: list_all2_conv_all_nth)
  then have "sum_list xs \<le> length xs * xs ! (length xs - 1)"
    by (simp add: map_replicate_const sum_list_replicate)
  then have "u64 (sum_list xs) \<le> length xs * xs ! (length xs - 1)" unfolding u64_def by (meson le_trans mod_less_eq_dividend)
  then have "u64 (sum_list xs) div length xs \<le> (length xs * xs ! (length xs - 1)) div length xs" by (rule div_le_mono)
  with n show ?thesis by simp
qed

lemma intervals_length: "length (intervals ts) = length ts - 1"
  by (induction ts rule: intervals.induct) auto

lemma stats_of_intervals:
  assumes "2 \<le> length ts"
  defines "xs \<equiv> sort (intervals ts)"
  shows "itl_intervals_ms (from_timestamps s ts e) = intervals ts
    \<and> itl_p50_ms (from_timestamps s ts e) = Some (xs ! (length xs div 2))
    \<and> itl_p99_ms (from_timestamps s ts e) = Some (xs ! p99_index (length xs))
    \<and> itl_max_ms (from_timestamps s ts e) = Some (xs ! (length xs - 1))
    \<and> itl_mean_ms (from_timestamps s ts e) = Some (u64 (sum_list xs) div length xs)"
proof -
  have "intervals ts \<noteq> []" using assms(1) intervals_length [of ts] by auto
  then show ?thesis
    using assms(1) unfolding xs_def
    by (cases ts) (simp_all add: from_timestamps_def compute_percentiles_def Let_def)
qed

text \<open>
  The latency figures of a response are what their names say: with at least two content chunks, half
  of the intervals are at most the median, 99 in 100 at most the 99th percentile, all of them at most
  the maximum, which occurs; median, 99th percentile and maximum are in that order and the mean
  does not exceed the maximum.
\<close>

lemma percentiles_cover:
  assumes "2 \<le> length ts"
  shows "\<exists>p50 p99 mx mean. itl_p50_ms (from_timestamps s ts e) = Some p50
    \<and> itl_p99_ms (from_timestamps s ts e) = Some p99 \<and> itl_max_ms (from_timestamps s ts e) = Some mx
    \<and> itl_mean_ms (from_timestamps s ts e) = Some mean
    \<and> length (intervals ts) \<le> 2 * length (filter (\<lambda>x. x \<le> p50) (intervals ts))
    \<and> 99 * length (intervals ts) \<le> 100 * length (filter (\<lambda>x. x \<le> p99) (intervals ts))
    \<and> mx \<in> set (intervals ts) \<and> (\<forall>x\<in>set (intervals ts). x \<le> mx)
    \<and> p50 \<le> p99 \<and> p99 \<le> mx \<and> mean \<le> mx"
proof -
  define xs where "xs = sort (intervals ts)"
  define n where "n = length xs"
  have len: "length (intervals ts) = n" by (simp add: n_def xs_def)
  have pos: "0 < n" using assms intervals_length [of ts] by (simp add: len)
  have sorted: "sorted xs" by (simp add: xs_def)
  have idx: "n div 2 < n" "p99_index n < n" using pos p99_index_less by simp_all
  have count: "length (filter P (intervals ts)) = length (filter P xs)" for P
    by (simp add: xs_def filter_sort)
  have half: "n \<le> 2 * length (filter (\<lambda>x. x \<le> xs ! (n div 2)) xs)"
    using rank_count [OF sorted, of "n div 2"] idx(1) by (simp add: n_def)
  have most: "99 * n \<le> 100 * length (filter (\<lambda>x. x \<le> xs ! p99_index n) xs)"
    using le_trans [OF p99_rank [OF pos] mult_le_mono2]
      rank_count [OF sorted idx(2) [unfolded n_def]] unfolding n_def by blast
  have max_in: "xs ! (n - 1) \<in> set (intervals ts)"
    using nth_mem [of "n - 1" xs] pos by (simp add: n_def xs_def)
  have max_all: "x \<le> xs ! (n - 1)" if "x \<in> set (intervals ts)" for x
  proof -
    have "x \<in> set xs" using that by (simp add: xs_def)
    then show ?thesis using sorted pos by (auto simp: n_def in_set_conv_nth sorted_iff_nth_mono)
  qed
  have order: "xs ! (n div 2) \<le> xs ! p99_index n" "xs ! p99_index n \<le> xs ! (n - 1)"
    using sorted idx p99_above_median [OF pos] pos by (auto simp: n_def sorted_iff_nth_mono)
  have mean: "u64 (sum_list xs) div n \<le> xs ! (n - 1)"
    using mean_below_max [OF sorted] pos by (auto simp: n_def)
  show ?thesis
    using stats_of_intervals [OF assms, of s e] half most max_in max_all order mean
    unfolding xs_def [symmetric] n_def [symmetric] len count by blast
qed

lemma percentiles_cover_example:
  "\<exists>p99 mx. itl_p99_ms (from_timestamps 0 [1000000, 3000000, 9000000] 10000000) = Some p99
     \<and> itl_max_ms (from_timestamps 0 [1000000, 3000000, 9000000] 10000000) = Some mx \<and> p99 \<le> mx"
  using percentiles_cover [of "[1000000, 3000000, 9000000]" 0 10000000] by fastforce

subsection \<open>The interface of the transforms\<close>

text \<open>
  What the retry loop and the collector rely on: whatever the server sends, the transform of a request
  ends with its only terminal event.
\<close>

locale stream_transform =
  fixes transform :: "str \<Rightarrow> 'i \<Rightarrow> sampling_event list"
  assumes terminates: "well_terminated rid (transform rid i)"
begin

lemma collect_is_last:
  "collect_response (transform rid i) =
     (case List.last (transform rid i) of
        Completed _ r m \<Rightarrow> Inr (r, m) | Failed _ info \<Rightarrow> Inl info | _ \<Rightarrow> Inl stream_ended_info)"
  using terminates [of rid i]
proof (rule well_terminatedE)
  fix pre e
  assume "transform rid i = pre @ [e]" "terminal e" "list_all (\<lambda>e. \<not> terminal e) pre"
  then show ?thesis by (cases e) (simp_all add: collect_skips)
qed

lemma collect_failure_reported:
  "collect_response (transform rid i) = Inl info \<Longrightarrow> Failed rid info \<in> set (transform rid i)"
  using terminates [of rid i]
proof (rule well_terminatedE)
  fix pre e
  assume "collect_response (transform rid i) = Inl info" "transform rid i = pre @ [e]" "terminal e"
    "event_request e = rid" "list_all (\<lambda>e. \<not> terminal e) pre"
  then show ?thesis by (cases e) (auto simp: collect_skips)
qed

end

end
