(* ===== verification/Stream_Common.thy ===== *)
theory Stream_Common
  imports Sampling_Events
begin

text \<open>
  What the three transforms of \<^verbatim>\<open>xai-grok-sampler/src/stream/\<close> have in common: the loop that awaits the next
  item of the server's stream, the variables that number and count tokens, and what the events
  yielded so far satisfy.  What awaiting the next item gives is a value of type \<open>pull\<close>, and the stream
  is the list of pulls, whose end is the end of the stream; the n-th reading of the monotonic clock is
  \<open>clock n\<close>.  A generator is a function that carries its variables in a record, together with the
  events yielded so far.
\<close>

subsection \<open>The loop\<close>

datatype 'c pull = TimedOut | Raised sampling_error | Arrived 'c

text \<open>
  How the loop ends: the stream is over, nothing came (or nothing but keep-alives) for too long, the
  stream raised an error, or the transform gave up for a reason of its own.
\<close>

datatype ending = EndOfStream | IdleFor nat | Broken sampling_error | GivenUp sampling_error

text \<open>
  What handling one item leads to; an item that decodes to an error breaks the loop like a raised one.
\<close>

datatype 's step_result =
  Go 's | Leave 's | Stalled 's | Break sampling_error 's | GiveUp sampling_error 's

fun state_of :: "'s step_result \<Rightarrow> 's" where
  "state_of (Go s) = s"
| "state_of (Leave s) = s"
| "state_of (Stalled s) = s"
| "state_of (Break e s) = s"
| "state_of (GiveUp e s) = s"

fun pump :: "('c \<Rightarrow> 's \<Rightarrow> 's step_result) \<Rightarrow> nat \<Rightarrow> 'c pull list \<Rightarrow> 's \<Rightarrow> 's \<times> ending" where
  "pump step idle_timeout [] s = (s, EndOfStream)"
| "pump step idle_timeout (TimedOut # ps) s = (s, IdleFor idle_timeout)"
| "pump step idle_timeout (Raised e # ps) s = (s, Broken e)"
| "pump step idle_timeout (Arrived c # ps) s =
     (case step c s of
        Go s' \<Rightarrow> pump step idle_timeout ps s'
      | Leave s' \<Rightarrow> (s', EndOfStream)
      | Stalled s' \<Rightarrow> (s', IdleFor idle_timeout)
      | Break e s' \<Rightarrow> (s', Broken e)
      | GiveUp e s' \<Rightarrow> (s', GivenUp e))"

text \<open>The error an ending fails with; a duration is in nanoseconds.\<close>

fun ending_error :: "ending \<Rightarrow> sampling_error option" where
  "ending_error EndOfStream = None"
| "ending_error (IdleFor t) = Some (IdleTimeout (t div 1000000000))"
| "ending_error (Broken e) = Some e"
| "ending_error (GivenUp e) = Some e"

text \<open>
  The cell of \<^verbatim>\<open>tee_errors\<close> (\<^verbatim>\<open>actor/request_task.rs\<close>): the copy of the first error pulled from the raw
  stream.  The loops stop at that error, so it is the one that broke them.
\<close>

fun captured :: "libraries \<Rightarrow> ending \<Rightarrow> sampling_error option" where
  "captured l (Broken e) = Some (clone_error l e)"
| "captured l EndOfStream = None"
| "captured l (IdleFor t) = None"
| "captured l (GivenUp e) = None"

text \<open>A property that every step keeps holds when the loop ends.\<close>

locale stream_step =
  fixes step :: "'c \<Rightarrow> 's \<Rightarrow> 's step_result" and keeps :: "'s \<Rightarrow> bool"
  assumes step_keeps: "keeps s \<Longrightarrow> keeps (state_of (step c s))"
begin

lemma pump_keeps: "keeps s \<Longrightarrow> keeps (fst (pump step idle ps s))"
proof (induction ps arbitrary: s)
  case (Cons p ps)
  show ?case
  proof (cases p)
    case (Arrived c)
    with Cons step_keeps [of s c] show ?thesis by (cases "step c s") auto
  qed (use Cons.prems in auto)
qed simp

text \<open>What holds of every error a step gives up with holds of the one the loop gave up with.\<close>

lemma pump_given_up:
  assumes "\<And>c s e s'. keeps s \<Longrightarrow> step c s = GiveUp e s' \<Longrightarrow> P e"
  shows "keeps s \<Longrightarrow> snd (pump step idle ps s) = GivenUp e \<Longrightarrow> P e"
proof (induction ps arbitrary: s)
  case (Cons p ps)
  show ?case
  proof (cases p)
    case (Arrived c)
    with Cons step_keeps [of s c] assms [of s c] show ?thesis by (cases "step c s") auto
  qed (use Cons.prems in auto)
qed simp

end

text \<open>Likewise for the errors that break the loop.\<close>

lemma pump_broken:
  assumes "\<And>c s e s'. step c s = Break e s' \<Longrightarrow> P e" "\<And>e. Raised e \<in> set ps \<Longrightarrow> P e"
    "snd (pump step idle ps s) = Broken e"
  shows "P e"
  using assms(2,3)
proof (induction ps arbitrary: s)
  case (Cons p ps)
  show ?case
  proof (cases p)
    case (Arrived c)
    with Cons assms(1) [of c s] show ?thesis by (cases "step c s") auto
  qed (use Cons.prems in auto)
qed simp

text \<open>What the steps on the items of the stream keep holds when the loop ends.\<close>

lemma pump_keeps_on:
  assumes "\<And>c s. Arrived c \<in> set ps \<Longrightarrow> keeps s \<Longrightarrow> keeps (state_of (step c s))"
  shows "keeps s \<Longrightarrow> keeps (fst (pump step idle ps s))"
  using assms
proof (induction ps arbitrary: s)
  case (Cons p ps)
  show ?case
  proof (cases p)
    case (Arrived c)
    then have "keeps (state_of (step c s))" using Cons.prems by simp
    with Cons Arrived show ?thesis by (cases "step c s") auto
  qed (use Cons.prems in auto)
qed simp

subsection \<open>The variables of a generator\<close>

record emitter =
  readings :: nat
  out :: "sampling_event list"
  chunk_timestamps :: "nat list"
  first_token_emitted :: bool
  chunk_index :: nat
  message_chunk_count :: nat
  last_content_chunk_at :: nat

definition emit :: "sampling_event \<Rightarrow> 'a emitter_scheme \<Rightarrow> 'a emitter_scheme" where
  "emit e s = s\<lparr>out := out s @ [e]\<rparr>"

definition tick :: "'a emitter_scheme \<Rightarrow> 'a emitter_scheme" where
  "tick s = s\<lparr>readings := Suc (readings s)\<rparr>"

definition prelude_events :: "str \<Rightarrow> int \<Rightarrow> response_model_metadata option \<Rightarrow> sampling_event list" where
  "prelude_events rid utc metadata =
     StreamStarted rid utc # (case metadata of Some m \<Rightarrow> [ModelMetadata rid m] | None \<Rightarrow> [])"

definition emit_first_token :: "str \<Rightarrow> 'a emitter_scheme \<Rightarrow> 'a emitter_scheme" where
  "emit_first_token rid s =
     (if first_token_emitted s then s else emit (FirstToken rid) (s\<lparr>first_token_emitted := True\<rparr>))"

definition text_token :: "(nat \<Rightarrow> nat) \<Rightarrow> str \<Rightarrow> str \<Rightarrow> 'a emitter_scheme \<Rightarrow> 'a emitter_scheme" where
  "text_token clock rid t s =
     (let s = emit_first_token rid s;
          s = tick (s\<lparr>chunk_timestamps := chunk_timestamps s @ [clock (readings s)]\<rparr>);
          s = s\<lparr>chunk_index := chunk_index s + 1, message_chunk_count := message_chunk_count s + 1\<rparr>
      in emit (ChannelToken rid TextChannel t (chunk_index s)) s)"

definition reasoning_token :: "str \<Rightarrow> str \<Rightarrow> 'a emitter_scheme \<Rightarrow> 'a emitter_scheme" where
  "reasoning_token rid t s =
     (let s = emit_first_token rid s; s = s\<lparr>chunk_index := chunk_index s + 1\<rparr>
      in emit (ChannelToken rid ReasoningChannel t (chunk_index s)) s)"

text \<open>The timer that content resets and that keep-alives run against.\<close>

definition idle_check ::
    "(nat \<Rightarrow> nat) \<Rightarrow> nat \<Rightarrow> bool \<Rightarrow> 'a emitter_scheme \<Rightarrow> 'a emitter_scheme step_result" where
  "idle_check clock idle_timeout has_content s =
     (let t = clock (readings s); s = tick s
      in if has_content then Go (s\<lparr>last_content_chunk_at := t\<rparr>)
         else if idle_timeout < t - last_content_chunk_at s then Stalled s
         else Go s)"

text \<open>The events of a stream: those of the loop and the terminal one.\<close>

definition close_stream ::
    "libraries \<Rightarrow> str \<Rightarrow> ('a emitter_scheme \<Rightarrow> sampling_event) \<Rightarrow> 'a emitter_scheme \<times> ending
       \<Rightarrow> sampling_event list" where
  "close_stream l rid finished p =
     (case p of (s, ending) \<Rightarrow>
        out s @ [case ending_error ending of
                   None \<Rightarrow> finished s | Some e \<Rightarrow> Failed rid (info_of l e)])"

subsection \<open>The ordered map of tool calls\<close>

text \<open>\<^verbatim>\<open>BTreeMap::entry(k).or_insert(d)\<close> followed by an update of the entry; the list is in key order.\<close>

fun upsert :: "'k::linorder \<Rightarrow> 'v \<Rightarrow> ('v \<Rightarrow> 'v) \<Rightarrow> ('k \<times> 'v) list \<Rightarrow> ('k \<times> 'v) list" where
  "upsert k d f [] = [(k, f d)]"
| "upsert k d f ((j, v) # m) =
     (if k < j then (k, f d) # (j, v) # m
      else if k = j then (j, f v) # m
      else (j, v) # upsert k d f m)"

definition ordered :: "('k::linorder \<times> 'v) list \<Rightarrow> bool" where
  "ordered m = sorted_wrt (<) (map fst m)"

lemma set_upsert: "fst ` set (upsert k d f m) = insert k (fst ` set m)"
  by (induction m rule: upsert.induct) auto

lemma upsert_ordered: "ordered m \<Longrightarrow> ordered (upsert k d f m)"
proof (induction k d f m rule: upsert.induct)
  case (2 k d f j v m)
  then show ?case
    using set_upsert [of k d f m] by (auto simp: ordered_def simp flip: image_set)
qed (simp add: ordered_def)

lemma ordered_fresh: "ordered ((j, v) # m) \<Longrightarrow> k \<le> j \<Longrightarrow> map_of m k = None"
  by (auto simp: ordered_def map_of_eq_None_iff)

lemma map_of_upsert:
  "ordered m \<Longrightarrow> map_of (upsert k d f m) = (map_of m)(k \<mapsto> f (case map_of m k of None \<Rightarrow> d | Some v \<Rightarrow> v))"
proof (induction k d f m rule: upsert.induct)
  case (2 k d f j v m)
  then show ?case
    using ordered_fresh [of j v m k]
    by (cases k j rule: linorder_cases) (auto simp: ordered_def fun_upd_twist split: option.splits)
qed simp

text \<open>What a delta does to its entry: an id and a name replace, arguments append.\<close>

type_synonym tool_entry = "str \<times> str \<times> str"

definition apply_delta :: "str option \<Rightarrow> str option \<Rightarrow> str option \<Rightarrow> tool_entry \<Rightarrow> tool_entry" where
  "apply_delta i n a e =
     (case e of (i0, n0, a0) \<Rightarrow>
        (case i of Some x \<Rightarrow> x | None \<Rightarrow> i0, case n of Some x \<Rightarrow> x | None \<Rightarrow> n0,
         case a of Some x \<Rightarrow> a0 @ x | None \<Rightarrow> a0))"

subsection \<open>Reading the events\<close>

text \<open>
  What an observer of the events can put together: the text and the reasoning that were streamed, the
  indices of the tokens, and for every tool call its last id, its last name and its arguments.
\<close>

fun token_text :: "sampling_channel \<Rightarrow> sampling_event \<Rightarrow> str" where
  "token_text c (ChannelToken _ c' t _) = (if c' = c then t else [])"
| "token_text c _ = []"

definition said :: "sampling_channel \<Rightarrow> sampling_event list \<Rightarrow> str" where
  "said c es = concat (map (token_text c) es)"

fun token_index :: "sampling_event \<Rightarrow> nat list" where
  "token_index (ChannelToken _ _ _ i) = [i]"
| "token_index _ = []"

definition token_indices :: "sampling_event list \<Rightarrow> nat list" where
  "token_indices es = concat (map token_index es)"

fun is_text_token :: "sampling_event \<Rightarrow> bool" where
  "is_text_token (ChannelToken _ c _ _) = (c = TextChannel)"
| "is_text_token _ = False"

definition text_tokens :: "sampling_event list \<Rightarrow> nat" where
  "text_tokens es = length (filter is_text_token es)"

fun delta_for :: "32 word \<Rightarrow> sampling_event \<Rightarrow> (str option \<times> str option \<times> str option) list" where
  "delta_for k (ToolCallDelta _ j i n a) = (if j = k then [(i, n, a)] else [])"
| "delta_for k _ = []"

definition deltas_for :: "32 word \<Rightarrow> sampling_event list \<Rightarrow> (str option \<times> str option \<times> str option) list" where
  "deltas_for k es = concat (map (delta_for k) es)"

definition latest :: "str option list \<Rightarrow> str" where
  "latest xs = fold (\<lambda>x r. case x of Some y \<Rightarrow> y | None \<Rightarrow> r) xs []"

definition pasted :: "str option list \<Rightarrow> str" where
  "pasted xs = concat (List.map_filter id xs)"

definition streamed_call :: "32 word \<Rightarrow> sampling_event list \<Rightarrow> tool_entry option" where
  "streamed_call k es =
     (if deltas_for k es = [] then None
      else Some (latest (map fst (deltas_for k es)), latest (map (fst \<circ> snd) (deltas_for k es)),
                 pasted (map (snd \<circ> snd) (deltas_for k es))))"

text \<open>The first token is announced once, before every token.\<close>

fun is_first_token :: "sampling_event \<Rightarrow> bool" where
  "is_first_token (FirstToken _) = True"
| "is_first_token _ = False"

definition is_token :: "sampling_event \<Rightarrow> bool" where
  "is_token e = (token_index e \<noteq> [])"

fun announced :: "sampling_event list \<Rightarrow> bool" where
  "announced [] = True"
| "announced (e # es) =
     (if is_first_token e then list_all (\<lambda>f. \<not> is_first_token f) es
      else \<not> is_token e \<and> announced es)"

lemma latest_snoc: "latest (xs @ [x]) = (case x of Some y \<Rightarrow> y | None \<Rightarrow> latest xs)"
  by (cases x) (simp_all add: latest_def)

lemma deltas_for_snoc: "deltas_for k (es @ [e]) = deltas_for k es @ delta_for k e"
  by (simp add: deltas_for_def)

lemma pasted_snoc: "pasted (xs @ [x]) = (case x of Some y \<Rightarrow> pasted xs @ y | None \<Rightarrow> pasted xs)"
  by (simp add: pasted_def List.map_filter_def split: option.splits)

lemma streamed_call_snoc:
  "streamed_call k (es @ [ToolCallDelta rid j i n a]) =
     (if j = k then Some (apply_delta i n a (case streamed_call k es of None \<Rightarrow> ([], [], []) | Some e \<Rightarrow> e))
      else streamed_call k es)"
proof -
  have none: "latest [] = []" "pasted [] = []" by (simp_all add: latest_def pasted_def List.map_filter_def)
  show ?thesis
    by (cases "deltas_for k es = []")
      (simp_all add: streamed_call_def deltas_for_snoc apply_delta_def latest_snoc pasted_snoc none
        latest_snoc [of "[]", simplified] pasted_snoc [of "[]", simplified] split: option.splits)
qed

lemma announced_snoc:
  "announced (es @ [e]) \<longleftrightarrow>
     announced es \<and>
     (if list_ex is_first_token es then \<not> is_first_token e else is_first_token e \<or> \<not> is_token e)"
  by (induction es) (auto simp: is_token_def list_all_iff list_ex_iff elim: is_first_token.elims)

named_theorems reads

lemma said_snoc [reads]: "said c (es @ [e]) = said c es @ token_text c e"
  by (simp add: said_def)

lemma token_indices_snoc [reads]: "token_indices (es @ [e]) = token_indices es @ token_index e"
  by (simp add: token_indices_def)

lemma text_tokens_snoc [reads]: "text_tokens (es @ [e]) = text_tokens es + (if is_text_token e then 1 else 0)"
  by (simp add: text_tokens_def)

lemma streamed_call_other [reads]:
  "(\<And>k. delta_for k e = []) \<Longrightarrow> (\<lambda>k. streamed_call k (es @ [e])) = (\<lambda>k. streamed_call k es)"
  by (rule ext) (simp add: streamed_call_def deltas_for_snoc)

lemma silent: "text_tokens es = 0 \<Longrightarrow> said TextChannel es = []"
proof (induction es)
  case (Cons e es)
  then show ?case by (cases e) (auto simp: text_tokens_def said_def split: if_splits)
qed (simp add: said_def)


subsection \<open>What every generator keeps\<close>

text \<open>
  The tokens are numbered from 1 and the text tokens counted; the first token is announced; no event is
  terminal or of the retry loop; all name the request, and the first is the start of the stream.
\<close>

definition told :: "str \<Rightarrow> 'a emitter_scheme \<Rightarrow> bool" where
  "told rid s =
     (token_indices (out s) = [1..<Suc (chunk_index s)] \<and> message_chunk_count s = text_tokens (out s)
      \<and> announced (out s) \<and> (first_token_emitted s \<longleftrightarrow> list_ex is_first_token (out s))
      \<and> list_all (\<lambda>e. \<not> terminal e \<and> \<not> is_retrying e \<and> event_request e = rid) (out s)
      \<and> out s \<noteq> [] \<and> (\<exists>ts. hd (out s) = StreamStarted rid ts))"

lemma told_fields:
  "told rid (s\<lparr>last_content_chunk_at := t\<rparr>) = told rid s"
  "told rid (s\<lparr>readings := n\<rparr>) = told rid s"
  "told rid (s\<lparr>chunk_timestamps := ts\<rparr>) = told rid s"
  by (simp_all add: told_def)

lemma told_plain_event:
  "told rid s \<Longrightarrow> \<not> terminal e \<Longrightarrow> event_request e = rid \<Longrightarrow> \<not> is_first_token e \<Longrightarrow> \<not> is_token e
     \<Longrightarrow> \<not> is_retrying e \<Longrightarrow> told rid (emit e s)"
  by (auto simp: told_def emit_def reads announced_snoc is_token_def elim: is_text_token.elims)

lemma told_first_token:
  "told rid s \<Longrightarrow> told rid (emit_first_token rid s) \<and> first_token_emitted (emit_first_token rid s)"
  by (auto simp: emit_first_token_def told_def emit_def reads announced_snoc is_token_def)

lemma told_text_token: "told rid s \<Longrightarrow> told rid (text_token clock rid t s)"
  using told_first_token [of rid s]
  by (auto simp: text_token_def Let_def told_def emit_def tick_def reads announced_snoc is_token_def)

lemma told_reasoning_token: "told rid s \<Longrightarrow> told rid (reasoning_token rid t s)"
  using told_first_token [of rid s]
  by (auto simp: reasoning_token_def Let_def told_def emit_def reads announced_snoc is_token_def)

lemma told_idle_check: "told rid s \<Longrightarrow> told rid (state_of (idle_check clock idle b s))"
  by (simp add: idle_check_def Let_def tick_def told_fields)

lemma told_start:
  "out s = prelude_events rid utc md \<Longrightarrow> chunk_index s = 0 \<Longrightarrow> message_chunk_count s = 0
     \<Longrightarrow> \<not> first_token_emitted s \<Longrightarrow> told rid s"
  by (auto simp: told_def prelude_events_def token_indices_def text_tokens_def is_token_def split: option.splits)

text \<open>The two token steps in closed form, and what an observer reads after them.\<close>

lemma text_token_eq:
  "text_token clock rid t s =
     s\<lparr>readings := Suc (readings s),
       out := out s @ (if first_token_emitted s then [] else [FirstToken rid])
                @ [ChannelToken rid TextChannel t (Suc (chunk_index s))],
       chunk_timestamps := chunk_timestamps s @ [clock (readings s)],
       first_token_emitted := True,
       chunk_index := Suc (chunk_index s),
       message_chunk_count := Suc (message_chunk_count s)\<rparr>"
  by (cases s) (simp add: text_token_def emit_first_token_def emit_def tick_def Let_def)

lemma reasoning_token_eq:
  "reasoning_token rid t s =
     s\<lparr>out := out s @ (if first_token_emitted s then [] else [FirstToken rid])
                @ [ChannelToken rid ReasoningChannel t (Suc (chunk_index s))],
       first_token_emitted := True,
       chunk_index := Suc (chunk_index s)\<rparr>"
  by (cases s) (simp add: reasoning_token_def emit_first_token_def emit_def Let_def)

lemma token_reads:
  "said c (out (text_token clock rid t s)) = said c (out s) @ (if c = TextChannel then t else [])"
  "said c (out (reasoning_token rid t s)) = said c (out s) @ (if c = ReasoningChannel then t else [])"
  "streamed_call k (out (text_token clock rid t s)) = streamed_call k (out s)"
  "streamed_call k (out (reasoning_token rid t s)) = streamed_call k (out s)"
  by (auto simp: text_token_eq reasoning_token_eq said_def streamed_call_def deltas_for_def)

lemma told_events: "told rid s \<Longrightarrow> list_all (\<lambda>e. \<not> terminal e \<and> event_request e = rid) (out s)"
  by (simp add: told_def list_all_iff)

lemma close_well_terminated:
  "told rid (fst p) \<Longrightarrow> (\<And>s. terminal (finished s) \<and> event_request (finished s) = rid)
     \<Longrightarrow> well_terminated rid (close_stream l rid finished p)"
  using told_events [of rid "fst p"]
  by (cases p) (auto simp: close_stream_def well_terminated_append split: option.splits)

lemma close_protocol:
  assumes "told rid (fst p)" "\<And>s. terminal (finished s) \<and> event_request (finished s) = rid"
  shows "\<exists>pre e ts n. close_stream l rid finished p = pre @ [e]
       \<and> pre \<noteq> [] \<and> hd pre = StreamStarted rid ts
       \<and> terminal e \<and> list_all (\<lambda>e. \<not> terminal e \<and> event_request e = rid) pre \<and> event_request e = rid
       \<and> announced pre \<and> token_indices pre = [1..<Suc n]"
proof -
  obtain s ending where p: "p = (s, ending)" by (cases p)
  let ?e = "case ending_error ending of None \<Rightarrow> finished s | Some e \<Rightarrow> Failed rid (info_of l e)"
  from assms(1) obtain ts where "out s \<noteq> [] \<and> hd (out s) = StreamStarted rid ts \<and> announced (out s)
      \<and> token_indices (out s) = [1..<Suc (chunk_index s)]"
    by (auto simp: p told_def simp del: upt_Suc)
  moreover have "terminal ?e \<and> event_request ?e = rid" using assms(2) by (simp split: option.splits)
  moreover have "close_stream l rid finished p = out s @ [?e]" by (simp add: p close_stream_def)
  ultimately show ?thesis using told_events [OF assms(1)] unfolding p fst_conv by blast
qed

lemma close_completed:
  assumes "List.last (close_stream l rid finished p) = Completed rid' r m"
  shows "ending_error (snd p) = None \<and> finished (fst p) = Completed rid' r m
    \<and> butlast (close_stream l rid finished p) = out (fst p)"
  using assms by (cases p) (auto simp: close_stream_def split: option.splits)

end
