(* ===== verification/Chat_Stream.thy ===== *)
theory Chat_Stream
  imports Stream_Common
begin

text \<open>
  The transform of a Chat Completions stream into events (\<^verbatim>\<open>xai-grok-sampler/src/stream/chat_completions.rs\<close>
  with the chunk types of \<^verbatim>\<open>xai-grok-sampling-types/src/types.rs\<close>).
\<close>

subsection \<open>Chunks\<close>

record function_delta =
  fn_name :: "str option"
  fn_arguments :: "str option"

record tool_call_delta =
  delta_index :: "32 word"
  delta_id :: "str option"
  delta_function :: "function_delta option"

record chat_delta =
  delta_content :: "str option"
  delta_reasoning :: "str option"
  delta_tool_calls :: "tool_call_delta list"

record chat_choice =
  choice_delta :: chat_delta
  choice_finish :: "finish_reason option"

record chat_chunk =
  chunk_model :: str
  chunk_choices :: "chat_choice list"
  chunk_usage :: "wire_usage option"
  system_fingerprint :: "str option"

subsection \<open>The generator\<close>

record chat_state = emitter +
  first_chunk_seen :: bool
  first_choice_seen :: bool
  st_model :: str
  st_fingerprint :: "str option"
  st_usage :: "token_usage option"
  st_cost :: "int option"
  st_finish :: "stop_reason option"
  content_acc :: str
  reasoning_acc :: str
  tool_call_acc :: "(32 word \<times> tool_entry) list"
  chunk_has_content :: bool

definition text_step :: "(nat \<Rightarrow> nat) \<Rightarrow> str \<Rightarrow> str option \<Rightarrow> chat_state \<Rightarrow> chat_state" where
  "text_step clock rid content s =
     (case filter_option (\<lambda>t. t \<noteq> []) content of
        None \<Rightarrow> s
      | Some t \<Rightarrow>
          text_token clock rid t (s\<lparr>chunk_has_content := True, content_acc := content_acc s @ t\<rparr>))"

definition reasoning_step :: "str \<Rightarrow> str option \<Rightarrow> chat_state \<Rightarrow> chat_state" where
  "reasoning_step rid thought s =
     (case filter_option (\<lambda>t. t \<noteq> []) thought of
        None \<Rightarrow> s
      | Some t \<Rightarrow>
          reasoning_token rid t (s\<lparr>chunk_has_content := True, reasoning_acc := reasoning_acc s @ t\<rparr>))"

definition tool_step :: "str \<Rightarrow> tool_call_delta \<Rightarrow> chat_state \<Rightarrow> chat_state" where
  "tool_step rid d s =
     (let n = Option.bind (delta_function d) fn_name; a = Option.bind (delta_function d) fn_arguments
      in emit (ToolCallDelta rid (delta_index d) (delta_id d) n a)
           (s\<lparr>chunk_has_content := True,
              tool_call_acc :=
                upsert (delta_index d) ([], [], []) (apply_delta (delta_id d) n a) (tool_call_acc s)\<rparr>))"

definition choice_step :: "(nat \<Rightarrow> nat) \<Rightarrow> str \<Rightarrow> chat_choice \<Rightarrow> chat_state \<Rightarrow> chat_state" where
  "choice_step clock rid c s =
     (let s = s\<lparr>first_choice_seen := True\<rparr>;
          s = (case choice_finish c of
                 Some fr \<Rightarrow> s\<lparr>st_finish := Some (stop_of_finish fr), chunk_has_content := True\<rparr>
               | None \<Rightarrow> s);
          delta = choice_delta c;
          s = text_step clock rid (delta_content delta) s;
          s = reasoning_step rid (delta_reasoning delta) s
      in fold (tool_step rid) (delta_tool_calls delta) s)"

text \<open>What the head of a chunk sets: the model of the first one, the usage of every one that has it.\<close>

definition note_chunk :: "chat_chunk \<Rightarrow> chat_state \<Rightarrow> chat_state" where
  "note_chunk c s =
     (let s = (if first_chunk_seen s then s
               else s\<lparr>st_model := chunk_model c,
                      st_fingerprint := filter_option (\<lambda>f. f \<noteq> []) (system_fingerprint c),
                      first_chunk_seen := True\<rparr>)
      in case chunk_usage c of
           None \<Rightarrow> s
         | Some u \<Rightarrow>
             s\<lparr>st_cost := or_else (reported_cost_ticks (cost_in_usd_ticks u)) (st_cost s),
               st_usage := Some (usage_of_wire u)\<rparr>)"

definition chunk_step ::
    "(nat \<Rightarrow> nat) \<Rightarrow> str \<Rightarrow> nat \<Rightarrow> chat_chunk \<Rightarrow> chat_state \<Rightarrow> chat_state step_result" where
  "chunk_step clock rid idle_timeout c s =
     (let s = (note_chunk c s)\<lparr>chunk_has_content := False\<rparr>;
          s = fold (choice_step clock rid) (chunk_choices c) s
      in idle_check clock idle_timeout (chunk_has_content s) s)"

definition calls_of :: "(32 word \<times> tool_entry) list \<Rightarrow> tool_call list" where
  "calls_of m = map (\<lambda>(_, i, n, a). \<lparr>call_id = i, call_name = n, arguments = a\<rparr>) m"

definition chat_response :: "chat_state \<Rightarrow> conversation_response" where
  "chat_response s =
     (let calls = calls_of (tool_call_acc s);
          finish = (if calls \<noteq> [] then Some ToolCalls else st_finish s);
          items =
            (if first_choice_seen s
             then (if reasoning_acc s \<noteq> []
                   then [Reasoning (synthesized_reasoning_item (reasoning_acc s))] else [])
                  @ [Assistant \<lparr>assistant_content = content_acc s, tool_calls = calls,
                                model_id = Some (st_model s), model_fingerprint = st_fingerprint s,
                                effort = None\<rparr>]
             else [assistant_message []])
      in \<lparr>resp_items = items, stop_reason = finish, usage = st_usage s, cost_usd_ticks = st_cost s,
          message_chunks_emitted = message_chunk_count s, doom_loop_signals = [], stop_message = None\<rparr>)"

definition chat_completed :: "(nat \<Rightarrow> nat) \<Rightarrow> str \<Rightarrow> chat_state \<Rightarrow> sampling_event" where
  "chat_completed clock rid s =
     Completed rid (chat_response s)
       (from_timestamps (clock 0) (chunk_timestamps s) (clock (readings s)))"

definition chat_start :: "(nat \<Rightarrow> nat) \<Rightarrow> int \<Rightarrow> str \<Rightarrow> response_model_metadata option \<Rightarrow> chat_state" where
  "chat_start clock utc rid metadata =
     \<lparr>readings = 2, out = prelude_events rid utc metadata, chunk_timestamps = [],
      first_token_emitted = False, chunk_index = 0, message_chunk_count = 0,
      last_content_chunk_at = clock 1,
      first_chunk_seen = False, first_choice_seen = False, st_model = [], st_fingerprint = None,
      st_usage = None, st_cost = None, st_finish = None, content_acc = [], reasoning_acc = [],
      tool_call_acc = [], chunk_has_content = False\<rparr>"

text \<open>The state and the ending of the loop, and the events of the stream.\<close>

definition chat_run ::
    "(nat \<Rightarrow> nat) \<Rightarrow> int \<Rightarrow> chat_chunk pull list \<Rightarrow> response_model_metadata option \<Rightarrow> str \<Rightarrow> nat
       \<Rightarrow> chat_state \<times> ending" where
  "chat_run clock utc raw_stream metadata rid idle_timeout =
     pump (chunk_step clock rid idle_timeout) idle_timeout raw_stream (chat_start clock utc rid metadata)"

definition stream_chat_completions ::
    "libraries \<Rightarrow> (nat \<Rightarrow> nat) \<Rightarrow> int \<Rightarrow> chat_chunk pull list \<Rightarrow> response_model_metadata option \<Rightarrow> str
       \<Rightarrow> nat \<Rightarrow> sampling_event list" where
  "stream_chat_completions l clock utc raw_stream metadata rid idle_timeout =
     close_stream l rid (chat_completed clock rid)
       (chat_run clock utc raw_stream metadata rid idle_timeout)"

subsection \<open>What the state reflects\<close>

text \<open>The accumulators are what the events yielded so far say.\<close>

definition reflects :: "str \<Rightarrow> chat_state \<Rightarrow> bool" where
  "reflects rid s =
     (told rid s
      \<and> content_acc s = said TextChannel (out s) \<and> reasoning_acc s = said ReasoningChannel (out s)
      \<and> ordered (tool_call_acc s) \<and> map_of (tool_call_acc s) = (\<lambda>k. streamed_call k (out s))
      \<and> (\<not> first_choice_seen s \<longrightarrow>
            content_acc s = [] \<and> reasoning_acc s = [] \<and> tool_call_acc s = []))"

lemma text_reflects:
  assumes "reflects rid s" "first_choice_seen s"
  shows "reflects rid (text_step clock rid content s) \<and> first_choice_seen (text_step clock rid content s)"
proof (cases "filter_option (\<lambda>t. t \<noteq> []) content")
  case None
  with assms show ?thesis by (simp add: text_step_def)
next
  case (Some t)
  let ?s = "s\<lparr>chunk_has_content := True, content_acc := content_acc s @ t\<rparr>"
  have "told rid ?s" using assms by (simp add: reflects_def told_def)
  then have "told rid (text_token clock rid t ?s)" by (rule told_text_token)
  with Some assms show ?thesis
    by (auto simp: reflects_def text_step_def token_reads) (simp_all add: text_token_eq)
qed

lemma reasoning_reflects:
  assumes "reflects rid s" "first_choice_seen s"
  shows "reflects rid (reasoning_step rid thought s) \<and> first_choice_seen (reasoning_step rid thought s)"
proof (cases "filter_option (\<lambda>t. t \<noteq> []) thought")
  case None
  with assms show ?thesis by (simp add: reasoning_step_def)
next
  case (Some t)
  let ?s = "s\<lparr>chunk_has_content := True, reasoning_acc := reasoning_acc s @ t\<rparr>"
  have "told rid ?s" using assms by (simp add: reflects_def told_def)
  then have "told rid (reasoning_token rid t ?s)" by (rule told_reasoning_token)
  with Some assms show ?thesis
    by (auto simp: reflects_def reasoning_step_def token_reads) (simp_all add: reasoning_token_eq)
qed

lemma tool_reflects:
  assumes "reflects rid s" "first_choice_seen s"
  shows "reflects rid (tool_step rid d s) \<and> first_choice_seen (tool_step rid d s)"
proof -
  let ?n = "Option.bind (delta_function d) fn_name" and ?a = "Option.bind (delta_function d) fn_arguments"
  let ?e = "ToolCallDelta rid (delta_index d) (delta_id d) ?n ?a"
  let ?acc = "upsert (delta_index d) ([], [], []) (apply_delta (delta_id d) ?n ?a) (tool_call_acc s)"
  have "told rid (s\<lparr>chunk_has_content := True, tool_call_acc := ?acc\<rparr>)"
    using assms by (simp add: reflects_def told_def)
  then have "told rid (tool_step rid d s)"
    unfolding tool_step_def Let_def by (rule told_plain_event) (simp_all add: is_token_def)
  moreover have "map_of (tool_call_acc (tool_step rid d s)) = (\<lambda>k. streamed_call k (out (tool_step rid d s)))"
    using assms(1)
    by (auto simp: reflects_def tool_step_def emit_def Let_def map_of_upsert streamed_call_snoc fun_eq_iff)
  ultimately show ?thesis
    using assms by (auto simp: reflects_def tool_step_def emit_def Let_def reads upsert_ordered)
qed

lemma tools_reflect:
  "reflects rid s \<and> first_choice_seen s \<Longrightarrow>
     reflects rid (fold (tool_step rid) ds s) \<and> first_choice_seen (fold (tool_step rid) ds s)"
  by (induction ds arbitrary: s) (auto dest: tool_reflects)

lemma choice_reflects: "reflects rid s \<Longrightarrow> reflects rid (choice_step clock rid c s)"
proof -
  assume r: "reflects rid s"
  define s1 where "s1 = (case choice_finish c of
       Some fr \<Rightarrow> s\<lparr>first_choice_seen := True, st_finish := Some (stop_of_finish fr), chunk_has_content := True\<rparr>
     | None \<Rightarrow> s\<lparr>first_choice_seen := True\<rparr>)"
  have "reflects rid s1 \<and> first_choice_seen s1"
    using r by (auto simp: s1_def reflects_def told_def split: option.splits)
  then have "reflects rid (reasoning_step rid (delta_reasoning (choice_delta c))
        (text_step clock rid (delta_content (choice_delta c)) s1))
      \<and> first_choice_seen (reasoning_step rid (delta_reasoning (choice_delta c))
        (text_step clock rid (delta_content (choice_delta c)) s1))"
    by (intro reasoning_reflects) (auto dest: text_reflects)
  from tools_reflect [OF this] show ?thesis
    by (simp add: choice_step_def Let_def s1_def split: option.splits)
qed

lemma choices_reflect: "reflects rid s \<Longrightarrow> reflects rid (fold (choice_step clock rid) cs s)"
  by (induction cs arbitrary: s) (auto dest: choice_reflects)

lemma reflects_other_fields [simp]:
  "reflects rid (s\<lparr>chunk_has_content := b\<rparr>) = reflects rid s"
  "reflects rid (s\<lparr>last_content_chunk_at := t\<rparr>) = reflects rid s"
  "reflects rid (s\<lparr>readings := n\<rparr>) = reflects rid s"
  by (simp_all add: reflects_def told_def)

lemma note_chunk_reflects [simp]: "reflects rid (note_chunk c s) = reflects rid s"
  by (simp add: reflects_def told_def note_chunk_def Let_def split: option.splits)

lemma chunk_reflects: "reflects rid s \<Longrightarrow> reflects rid (state_of (chunk_step clock rid idle c s))"
  using choices_reflect [of rid "(note_chunk c s)\<lparr>chunk_has_content := False\<rparr>" clock "chunk_choices c"]
  by (simp add: chunk_step_def idle_check_def Let_def tick_def)

interpretation chat_steps: stream_step "chunk_step clock rid idle" "reflects rid"
  by unfold_locales (rule chunk_reflects)

lemma start_reflects: "reflects rid (chat_start clock utc rid metadata)"
  using told_start [of "chat_start clock utc rid metadata" rid utc metadata]
  by (auto simp: reflects_def chat_start_def prelude_events_def said_def ordered_def
      streamed_call_def deltas_for_def split: option.splits)

subsection \<open>What a stream tells\<close>

lemma run_reflects: "reflects rid (fst (chat_run clock utc chunks md rid idle))"
  unfolding chat_run_def by (intro chat_steps.pump_keeps start_reflects)

lemma run_told: "told rid (fst (chat_run clock utc chunks md rid idle))"
  using run_reflects by (simp add: reflects_def)

interpretation chat: stream_transform
  "\<lambda>rid (l, clock, utc, chunks, md, idle). stream_chat_completions l clock utc chunks md rid idle"
  by unfold_locales
    (auto simp: stream_chat_completions_def chat_completed_def intro: close_well_terminated run_told)

lemma assistant_of_response:
  "assistant (chat_response s) =
     Some (if first_choice_seen s
           then \<lparr>assistant_content = content_acc s, tool_calls = calls_of (tool_call_acc s),
                 model_id = Some (st_model s), model_fingerprint = st_fingerprint s, effort = None\<rparr>
           else \<lparr>assistant_content = [], tool_calls = [], model_id = None, model_fingerprint = None,
                 effort = None\<rparr>)"
  by (simp add: chat_response_def Let_def assistant_def assistant_message_def)

lemma reasoning_of_response:
  "reasoning_items (chat_response s) =
     (if first_choice_seen s \<and> reasoning_acc s \<noteq> []
      then [synthesized_reasoning_item (reasoning_acc s)] else [])"
  by (simp add: chat_response_def Let_def reasoning_items_def assistant_message_def List.map_filter_def)

text \<open>
  C20. Whatever chunks, errors and silences the server produces, the events of a request start with the
  start of the stream, end with their only terminal event and all name the request; the first token
  is announced once, before every token, and the tokens are numbered from 1 without a gap.
\<close>

theorem chat_stream_protocol:
  "\<exists>pre e ts n. stream_chat_completions l clock utc chunks md rid idle = pre @ [e]
     \<and> pre \<noteq> [] \<and> hd pre = StreamStarted rid ts
     \<and> terminal e \<and> list_all (\<lambda>e. \<not> terminal e \<and> event_request e = rid) pre \<and> event_request e = rid
     \<and> announced pre \<and> token_indices pre = [1..<Suc n]"
  unfolding stream_chat_completions_def
  by (rule close_protocol [OF run_told]) (simp add: chat_completed_def)

text \<open>
  C12. A completed response is exactly what was streamed: its text and its reasoning are the tokens of the
  two channels, its tool calls are, in index order, the deltas of each index put together, and the
  number of text tokens is right, so that no text is ever shown a second time as lost.
\<close>

theorem chat_response_is_streamed:
  assumes "List.last (stream_chat_completions l clock utc chunks md rid idle) = Completed rid r m"
  defines "es \<equiv> butlast (stream_chat_completions l clock utc chunks md rid idle)"
  shows "assistant_text r = said TextChannel es \<and> message_chunks_emitted r = text_tokens es
    \<and> fallback_text r = None
    \<and> reasoning_items r =
        (if said ReasoningChannel es = [] then [] else [synthesized_reasoning_item (said ReasoningChannel es)])
    \<and> (\<exists>a calls. assistant r = Some a \<and> tool_calls a = calls_of calls \<and> ordered calls
         \<and> (\<forall>k. map_of calls k = streamed_call k es))"
proof -
  define s where "s = fst (chat_run clock utc chunks md rid idle)"
  have s: "reflects rid s" unfolding s_def by (rule run_reflects)
  have es: "es = out s" and r: "r = chat_response s"
    using close_completed [OF assms(1) [unfolded stream_chat_completions_def]]
    by (simp_all add: es_def s_def stream_chat_completions_def chat_completed_def)
  have a: "\<exists>a. assistant r = Some a \<and> assistant_content a = said TextChannel es
      \<and> tool_calls a = calls_of (tool_call_acc s)"
    using s unfolding r es assistant_of_response by (auto simp: reflects_def calls_of_def)
  have count: "message_chunks_emitted r = text_tokens es"
    using s unfolding r es by (simp add: chat_response_def Let_def reflects_def told_def)
  have "ordered (tool_call_acc s) \<and> (\<forall>k. map_of (tool_call_acc s) k = streamed_call k es)"
    using s unfolding es by (simp add: reflects_def)
  moreover have "reasoning_items r =
      (if said ReasoningChannel es = [] then [] else [synthesized_reasoning_item (said ReasoningChannel es)])"
    using s unfolding r es reasoning_of_response by (auto simp: reflects_def)
  ultimately show ?thesis
    using a count silent [of es] by (fastforce simp: assistant_text_def fallback_text_def)
qed

text \<open>A stream used in the examples: a tool call whose arguments the server cut at its token limit.\<close>

definition cut_tool_call :: "chat_chunk pull list" where
  "cut_tool_call =
     [Arrived
        \<lparr>chunk_model = ''m'',
         chunk_choices =
           [\<lparr>choice_delta =
               \<lparr>delta_content = None, delta_reasoning = None,
                delta_tool_calls =
                  [\<lparr>delta_index = 0, delta_id = Some ''c1'',
                    delta_function = Some \<lparr>fn_name = Some ''write'', fn_arguments = Some ''{path''\<rparr>\<rparr>]\<rparr>,
             choice_finish = Some FinLength\<rparr>],
         chunk_usage = None, system_fingerprint = None\<rparr>]"

lemma cut_tool_call_events:
  "stream_chat_completions l (\<lambda>n. n) 0 cut_tool_call None ''r'' 1000000000 =
     [StreamStarted ''r'' 0, ToolCallDelta ''r'' 0 (Some ''c1'') (Some ''write'') (Some ''{path''),
      Completed ''r''
        \<lparr>resp_items =
           [Assistant \<lparr>assistant_content = [],
              tool_calls = [\<lparr>call_id = ''c1'', call_name = ''write'', arguments = ''{path''\<rparr>],
              model_id = Some ''m'', model_fingerprint = None, effort = None\<rparr>],
         stop_reason = Some ToolCalls, usage = None, cost_usd_ticks = None, message_chunks_emitted = 0,
         doom_loop_signals = [], stop_message = None\<rparr>
        (from_timestamps 0 [] 3)]"
  by (simp add: stream_chat_completions_def chat_run_def close_stream_def chat_completed_def
      cut_tool_call_def chat_start_def prelude_events_def chunk_step_def note_chunk_def
      choice_step_def text_step_def reasoning_step_def tool_step_def emit_def tick_def idle_check_def Let_def
      apply_delta_def chat_response_def calls_of_def filter_option_def)

lemma chat_response_is_streamed_witness:
  "\<exists>r m. List.last (stream_chat_completions example_libraries (\<lambda>n. n) 0 cut_tool_call None ''r'' 1000000000) = Completed ''r'' r m
     \<and> fallback_text r = None"
proof -
  obtain r m where final: "List.last (stream_chat_completions example_libraries (\<lambda>n. n) 0 cut_tool_call None ''r'' 1000000000)
      = Completed ''r'' r m"
    unfolding cut_tool_call_events by simp
  from chat_response_is_streamed [OF this] final show ?thesis by blast
qed

end
