(* ===== verification/Messages_Stream.thy ===== *)
theory Messages_Stream
  imports Stream_Common Machine_Words
begin

text \<open>
  The transform of an Anthropic Messages stream into events
  (\<^verbatim>\<open>xai-grok-sampler/src/stream/messages.rs\<close> with the wire types of
  \<^verbatim>\<open>xai-grok-sampling-types/src/messages.rs\<close>).  Fields that the transform does not read are left out of the
  wire types.
\<close>

subsection \<open>Wire events\<close>

datatype content_block =
  TextBlock str | ImageBlock | ToolUseBlock str str | ToolResultBlock | ThinkingBlock str str

datatype wire_stop =
  EndTurn | MaxTokens | ToolUse | StopSequence | Refusal | PauseTurn | ModelContextWindowExceeded
| UnknownStop str

fun stop_of_wire :: "wire_stop \<Rightarrow> stop_reason" where
  "stop_of_wire EndTurn = Stop"
| "stop_of_wire MaxTokens = Length"
| "stop_of_wire StopSequence = Stop"
| "stop_of_wire ToolUse = ToolCalls"
| "stop_of_wire Refusal = ContentFilter"
| "stop_of_wire PauseTurn = Stop"
| "stop_of_wire ModelContextWindowExceeded = Length"
| "stop_of_wire (UnknownStop w) = Stop"

record message_head =
  head_model :: str
  head_input_tokens :: "32 word"
  head_cache_read :: "32 word"
  head_cache_creation :: "32 word"

record message_delta =
  delta_stop :: "wire_stop option"
  stop_explanation :: "str option option"
  delta_output_tokens :: "32 word"
  delta_input_tokens :: "32 word option"
  delta_cache_read :: "32 word option"
  delta_cache_creation :: "32 word option"

datatype stream_delta =
  TextDelta str | InputJsonDelta str | ThinkingDelta str | SignatureDelta str

datatype message_event =
  MessageStart message_head
| MessageDelta message_delta
| MessageStop
| ContentBlockStart "32 word" content_block
| ContentBlockDelta "32 word" stream_delta
| ContentBlockStop "32 word"
| Ping
| ErrorEvent str str

definition has_meaningful_content :: "message_event \<Rightarrow> bool" where
  "has_meaningful_content e = (e \<noteq> Ping)"

subsection \<open>The generator\<close>

datatype block_type = BText | BToolUse | BThinking

record block_state =
  block_type :: block_type
  text_acc :: str
  tool_name :: str
  tool_id :: str
  args_acc :: str
  thinking_acc :: str
  signature :: str

definition new_block :: "block_type \<Rightarrow> block_state" where
  "new_block t =
     \<lparr>block_type = t, text_acc = [], tool_name = [], tool_id = [], args_acc = [], thinking_acc = [],
      signature = []\<rparr>"

record messages_state = emitter +
  blocks :: "32 word \<rightharpoonup> block_state"
  final_model :: "str option"
  final_input_tokens :: "32 word"
  final_cache_read :: "32 word"
  final_cache_creation :: "32 word"
  final_output_tokens :: "32 word"
  final_stop_reason :: "stop_reason option"
  final_stop_message :: "str option"
  response_text :: str
  response_calls :: "tool_call list"
  response_reasoning :: "reasoning_item option"
  next_tool_index :: "32 word"
  block_to_tool_index :: "32 word \<rightharpoonup> 32 word"

definition put_block :: "32 word \<Rightarrow> block_state \<Rightarrow> messages_state \<Rightarrow> messages_state" where
  "put_block i b s = s\<lparr>blocks := (blocks s)(i \<mapsto> b)\<rparr>"

definition start_message :: "message_head \<Rightarrow> messages_state \<Rightarrow> messages_state" where
  "start_message h s =
     s\<lparr>final_model := Some (head_model h), final_input_tokens := head_input_tokens h,
       final_cache_read := head_cache_read h, final_cache_creation := head_cache_creation h\<rparr>"

fun start_block :: "str \<Rightarrow> 32 word \<Rightarrow> content_block \<Rightarrow> messages_state \<Rightarrow> messages_state" where
  "start_block rid i (ThinkingBlock t sg) s =
     emit_first_token rid (put_block i ((new_block BThinking)\<lparr>thinking_acc := t, signature := sg\<rparr>) s)"
| "start_block rid i (TextBlock t) s =
     emit_first_token rid (put_block i ((new_block BText)\<lparr>text_acc := t\<rparr>) s)"
| "start_block rid i (ToolUseBlock tid name) s =
     (let k = next_tool_index s;
          s = s\<lparr>next_tool_index := k + 1, block_to_tool_index := (block_to_tool_index s)(i \<mapsto> k)\<rparr>;
          s = put_block i ((new_block BToolUse)\<lparr>tool_name := name, tool_id := tid\<rparr>) s
      in emit (ToolCallDelta rid k (Some tid) (Some name) None) s)"
| "start_block rid i ImageBlock s = s"
| "start_block rid i ToolResultBlock s = s"

fun extend_block ::
    "(nat \<Rightarrow> nat) \<Rightarrow> str \<Rightarrow> 32 word \<Rightarrow> block_state \<Rightarrow> stream_delta \<Rightarrow> messages_state \<Rightarrow> messages_state" where
  "extend_block clock rid i b (ThinkingDelta t) s =
     (if t = [] then s
      else reasoning_token rid t (put_block i (b\<lparr>thinking_acc := thinking_acc b @ t\<rparr>) s))"
| "extend_block clock rid i b (SignatureDelta sg) s = put_block i (b\<lparr>signature := sg\<rparr>) s"
| "extend_block clock rid i b (TextDelta t) s =
     (if t = [] then s
      else text_token clock rid t (put_block i (b\<lparr>text_acc := text_acc b @ t\<rparr>) s))"
| "extend_block clock rid i b (InputJsonDelta j) s =
     (let s = put_block i (b\<lparr>args_acc := args_acc b @ j\<rparr>) s
      in case block_to_tool_index s i of
           Some k \<Rightarrow> emit (ToolCallDelta rid k None None (Some j)) s
         | None \<Rightarrow> s)"

definition thinking_item :: "str \<Rightarrow> str \<Rightarrow> reasoning_item" where
  "thinking_item t sg =
     \<lparr>reasoning_id = [], summary = (if t = [] then [] else [t]), reasoning_text = None,
      encrypted_content = (if sg = [] then None else Some sg)\<rparr>"

definition finish_block :: "block_state \<Rightarrow> messages_state \<Rightarrow> messages_state" where
  "finish_block b s =
     (case block_type b of
        BText \<Rightarrow>
          (if text_acc b = [] then s
           else s\<lparr>response_text :=
                    response_text s @ (if response_text s = [] then [] else [CHR 0x0A]) @ text_acc b\<rparr>)
      | BThinking \<Rightarrow>
          (if thinking_acc b = [] \<and> signature b = [] then s
           else s\<lparr>response_reasoning := Some (thinking_item (thinking_acc b) (signature b))\<rparr>)
      | BToolUse \<Rightarrow>
          s\<lparr>response_calls :=
              response_calls s @ [\<lparr>call_id = tool_id b, call_name = tool_name b, arguments = args_acc b\<rparr>]\<rparr>)"

definition apply_message_delta :: "message_delta \<Rightarrow> messages_state \<Rightarrow> messages_state" where
  "apply_message_delta d s =
     s\<lparr>final_stop_message := (case stop_explanation d of Some x \<Rightarrow> x | None \<Rightarrow> final_stop_message s),
       final_stop_reason := map_option stop_of_wire (delta_stop d),
       final_output_tokens := delta_output_tokens d,
       final_input_tokens := (case delta_input_tokens d of Some n \<Rightarrow> n | None \<Rightarrow> final_input_tokens s),
       final_cache_read := (case delta_cache_read d of Some n \<Rightarrow> n | None \<Rightarrow> final_cache_read s),
       final_cache_creation :=
         (case delta_cache_creation d of Some n \<Rightarrow> n | None \<Rightarrow> final_cache_creation s)\<rparr>"

text \<open>An error of the server inside a stream is an API error with status 500.\<close>

definition server_error :: "str \<Rightarrow> sampling_error" where
  "server_error m = Api 500 m None None None"

definition message_step ::
    "(nat \<Rightarrow> nat) \<Rightarrow> str \<Rightarrow> nat \<Rightarrow> message_event \<Rightarrow> messages_state \<Rightarrow> messages_state step_result" where
  "message_step clock rid idle_timeout e s =
     (let go = idle_check clock idle_timeout (has_meaningful_content e)
      in case e of
           MessageStart h \<Rightarrow> go (start_message h s)
         | ContentBlockStart i b \<Rightarrow> go (start_block rid i b s)
         | ContentBlockDelta i d \<Rightarrow>
             go (case blocks s i of Some b \<Rightarrow> extend_block clock rid i b d s | None \<Rightarrow> s)
         | ContentBlockStop i \<Rightarrow>
             go (case blocks s i of
                   Some b \<Rightarrow> finish_block b (s\<lparr>blocks := (blocks s)(i := None)\<rparr>)
                 | None \<Rightarrow> s)
         | MessageDelta d \<Rightarrow> go (apply_message_delta d s)
         | MessageStop \<Rightarrow> go s
         | Ping \<Rightarrow> go s
         | ErrorEvent t m \<Rightarrow> GiveUp (server_error (t @ '': '' @ m)) s)"

definition messages_usage :: "messages_state \<Rightarrow> token_usage option" where
  "messages_usage s =
     (let prompt = saturating_add_u32 (saturating_add_u32 (final_input_tokens s) (final_cache_read s))
                     (final_cache_creation s)
      in if 0 < prompt \<or> 0 < final_output_tokens s
         then Some \<lparr>prompt_tokens = prompt, completion_tokens = final_output_tokens s,
                    total_tokens = saturating_add_u32 prompt (final_output_tokens s),
                    reasoning_tokens = 0, cached_prompt_tokens = final_cache_read s\<rparr>
         else None)"

definition messages_response :: "messages_state \<Rightarrow> conversation_response" where
  "messages_response s =
     \<lparr>resp_items =
        (case response_reasoning s of Some r \<Rightarrow> [Reasoning r] | None \<Rightarrow> [])
          @ [Assistant \<lparr>assistant_content = response_text s, tool_calls = response_calls s,
                        model_id = Some (case final_model s of Some m \<Rightarrow> m | None \<Rightarrow> []),
                        model_fingerprint = None, effort = None\<rparr>],
      stop_reason = (if response_calls s \<noteq> [] then Some ToolCalls else final_stop_reason s),
      usage = messages_usage s, cost_usd_ticks = None,
      message_chunks_emitted = message_chunk_count s, doom_loop_signals = [],
      stop_message = final_stop_message s\<rparr>"

definition messages_finished :: "libraries \<Rightarrow> (nat \<Rightarrow> nat) \<Rightarrow> str \<Rightarrow> messages_state \<Rightarrow> sampling_event" where
  "messages_finished l clock rid s =
     (if final_stop_reason s = Some Length then Failed rid (info_of l MaxTokensTruncation)
      else Completed rid (messages_response s)
             (from_timestamps (clock 0) (chunk_timestamps s) (clock (readings s))))"

definition messages_start :: "(nat \<Rightarrow> nat) \<Rightarrow> int \<Rightarrow> str \<Rightarrow> response_model_metadata option \<Rightarrow> messages_state" where
  "messages_start clock utc rid metadata =
     \<lparr>readings = 2, out = prelude_events rid utc metadata, chunk_timestamps = [],
      first_token_emitted = False, chunk_index = 0, message_chunk_count = 0,
      last_content_chunk_at = clock 1,
      blocks = Map.empty, final_model = None, final_input_tokens = 0, final_cache_read = 0,
      final_cache_creation = 0, final_output_tokens = 0, final_stop_reason = None,
      final_stop_message = None, response_text = [], response_calls = [], response_reasoning = None,
      next_tool_index = 0, block_to_tool_index = Map.empty\<rparr>"

definition messages_run ::
    "(nat \<Rightarrow> nat) \<Rightarrow> int \<Rightarrow> message_event pull list \<Rightarrow> response_model_metadata option \<Rightarrow> str \<Rightarrow> nat
       \<Rightarrow> messages_state \<times> ending" where
  "messages_run clock utc raw_stream metadata rid idle_timeout =
     pump (message_step clock rid idle_timeout) idle_timeout raw_stream
       (messages_start clock utc rid metadata)"

definition stream_messages ::
    "libraries \<Rightarrow> (nat \<Rightarrow> nat) \<Rightarrow> int \<Rightarrow> message_event pull list \<Rightarrow> response_model_metadata option \<Rightarrow> str
       \<Rightarrow> nat \<Rightarrow> sampling_event list" where
  "stream_messages l clock utc raw_stream metadata rid idle_timeout =
     close_stream l rid (messages_finished l clock rid)
       (messages_run clock utc raw_stream metadata rid idle_timeout)"

subsection \<open>The events of a stream\<close>

lemma told_other_fields [simp]:
  "told rid (put_block i b s) = told rid s"
  "told rid (s\<lparr>blocks := bs\<rparr>) = told rid s"
  "told rid (s\<lparr>next_tool_index := k, block_to_tool_index := m\<rparr>) = told rid s"
  "told rid (start_message h s) = told rid s"
  "told rid (apply_message_delta d s) = told rid s"
  "told rid (finish_block b s) = told rid s"
  by (simp_all add: told_def put_block_def start_message_def apply_message_delta_def finish_block_def
      split: block_type.splits)

lemma told_start_block: "told rid s \<Longrightarrow> told rid (start_block rid i b s)"
  by (cases b) (auto simp: Let_def is_token_def intro: told_plain_event dest: told_first_token
      [of rid "put_block i c s" for c, simplified])

lemma told_extend_block: "told rid s \<Longrightarrow> told rid (extend_block clock rid i b d s)"
  by (cases d) (auto simp: Let_def is_token_def split: option.splits
      intro: told_plain_event told_text_token told_reasoning_token)

lemma told_message_step: "told rid s \<Longrightarrow> told rid (state_of (message_step clock rid idle e s))"
  by (auto simp: message_step_def Let_def told_start_block told_extend_block
      intro!: told_idle_check split: message_event.splits option.splits)

interpretation message_steps: stream_step "message_step clock rid idle" "told rid"
  by unfold_locales (rule told_message_step)

lemma messages_told: "told rid (fst (messages_run clock utc chunks md rid idle))"
  unfolding messages_run_def
  by (rule message_steps.pump_keeps, rule told_start) (simp_all add: messages_start_def)

interpretation messages: stream_transform
  "\<lambda>rid (l, clock, utc, chunks, md, idle). stream_messages l clock utc chunks md rid idle"
  by unfold_locales
    (auto simp: stream_messages_def messages_finished_def intro: close_well_terminated messages_told)

subsection \<open>Tool calls\<close>

text \<open>The block indices a stream starts.\<close>

fun started :: "message_event pull list \<Rightarrow> 32 word list" where
  "started (Arrived (ContentBlockStart i b) # ps) = i # started ps"
| "started (_ # ps) = started ps"
| "started [] = []"

definition call_entry :: "tool_call \<Rightarrow> tool_entry" where
  "call_entry c = (call_id c, call_name c, arguments c)"

definition block_entry :: "block_state \<Rightarrow> tool_entry" where
  "block_entry b = (tool_id b, tool_name b, args_acc b)"

text \<open>
  Every open tool block and every finished call has a tool index of its own, under which the events have
  told exactly its id, its name and its arguments so far; other blocks have none.  \<open>U\<close> is the set of
  block indices used so far.
\<close>

definition tracked :: "32 word list \<Rightarrow> messages_state \<Rightarrow> 32 word \<Rightarrow> block_state \<Rightarrow> bool" where
  "tracked ks s i b =
     (if block_type b = BToolUse
      then \<exists>k. block_to_tool_index s i = Some k \<and> k \<notin> set ks
             \<and> streamed_call k (out s) = Some (block_entry b)
      else block_to_tool_index s i = None)"

definition in_step :: "32 word set \<Rightarrow> 32 word list \<Rightarrow> messages_state \<Rightarrow> bool" where
  "in_step U ks s =
     (finite U \<and> dom (blocks s) \<subseteq> U \<and> dom (block_to_tool_index s) \<subseteq> U
      \<and> (\<forall>i b. blocks s i = Some b \<longrightarrow> tracked ks s i b)
      \<and> (\<forall>i j k. block_to_tool_index s i = Some k \<longrightarrow> block_to_tool_index s j = Some k \<longrightarrow> i = j)
      \<and> (\<forall>i k. block_to_tool_index s i = Some k \<longrightarrow> k < next_tool_index s)
      \<and> distinct ks \<and> (\<forall>k\<in>set ks. k < next_tool_index s)
      \<and> (\<forall>k\<ge>next_tool_index s. streamed_call k (out s) = None)
      \<and> list_all2 (\<lambda>c k. streamed_call k (out s) = Some (call_entry c)) (response_calls s) ks
      \<and> unat (next_tool_index s) \<le> card U)"

lemma in_stepI:
  assumes "finite U" "dom (blocks s) \<subseteq> U" "dom (block_to_tool_index s) \<subseteq> U"
    "\<And>i b. blocks s i = Some b \<Longrightarrow> tracked ks s i b"
    "\<And>i j k. block_to_tool_index s i = Some k \<Longrightarrow> block_to_tool_index s j = Some k \<Longrightarrow> i = j"
    "\<And>i k. block_to_tool_index s i = Some k \<Longrightarrow> k < next_tool_index s"
    "distinct ks" "\<And>k. k \<in> set ks \<Longrightarrow> k < next_tool_index s"
    "\<And>k. next_tool_index s \<le> k \<Longrightarrow> streamed_call k (out s) = None"
    "list_all2 (\<lambda>c k. streamed_call k (out s) = Some (call_entry c)) (response_calls s) ks"
    "unat (next_tool_index s) \<le> card U"
  shows "in_step U ks s"
  using assms unfolding in_step_def by blast

lemma in_stepD:
  assumes "in_step U ks s"
  shows "finite U" "dom (blocks s) \<subseteq> U" "dom (block_to_tool_index s) \<subseteq> U"
    "blocks s i = Some b \<Longrightarrow> tracked ks s i b"
    "block_to_tool_index s i = Some k \<Longrightarrow> block_to_tool_index s j = Some k \<Longrightarrow> i = j"
    "block_to_tool_index s i = Some k \<Longrightarrow> k < next_tool_index s"
    "distinct ks" "k \<in> set ks \<Longrightarrow> k < next_tool_index s"
    "next_tool_index s \<le> k \<Longrightarrow> streamed_call k (out s) = None"
    "list_all2 (\<lambda>c k. streamed_call k (out s) = Some (call_entry c)) (response_calls s) ks"
    "unat (next_tool_index s) \<le> card U"
  using assms unfolding in_step_def by blast+

lemma tracked_tool:
  "tracked ks s i b \<Longrightarrow> block_type b = BToolUse \<Longrightarrow>
     \<exists>k. block_to_tool_index s i = Some k \<and> k \<notin> set ks \<and> streamed_call k (out s) = Some (block_entry b)"
  by (simp add: tracked_def)

text \<open>What the invariant depends on.\<close>

lemma in_step_frame:
  assumes "in_step U ks s"
    "blocks s' = blocks s" "block_to_tool_index s' = block_to_tool_index s"
    "next_tool_index s' = next_tool_index s" "response_calls s' = response_calls s"
    "\<And>k. streamed_call k (out s') = streamed_call k (out s)"
  shows "in_step U ks s'"
  using assms unfolding in_step_def tracked_def by simp

lemma first_token_calls: "streamed_call k (out (emit_first_token rid s)) = streamed_call k (out s)"
  by (simp add: emit_first_token_def emit_def streamed_call_def deltas_for_snoc)

lemma emit_first_token_fields [simp]:
  "blocks (emit_first_token rid s) = blocks s"
  "block_to_tool_index (emit_first_token rid s) = block_to_tool_index s"
  "next_tool_index (emit_first_token rid s) = next_tool_index s"
  "response_calls (emit_first_token rid s) = response_calls s"
  by (simp_all add: emit_first_token_def emit_def)

lemma token_fields [simp]:
  "blocks (text_token clock rid t s) = blocks s" "blocks (reasoning_token rid t s) = blocks s"
  "block_to_tool_index (text_token clock rid t s) = block_to_tool_index s"
  "block_to_tool_index (reasoning_token rid t s) = block_to_tool_index s"
  "next_tool_index (text_token clock rid t s) = next_tool_index s"
  "next_tool_index (reasoning_token rid t s) = next_tool_index s"
  "response_calls (text_token clock rid t s) = response_calls s"
  "response_calls (reasoning_token rid t s) = response_calls s"
  by (simp_all add: text_token_eq reasoning_token_eq)

lemma in_step_idle: "in_step U ks s \<Longrightarrow> in_step U ks (state_of (idle_check clock idle b s))"
  by (rule in_step_frame [of U ks s]) (simp_all add: idle_check_def tick_def Let_def)

text \<open>A block that is no tool call may be put at an unused index.\<close>

lemma in_step_plain_block:
  assumes s: "in_step U ks s" and b: "block_type b \<noteq> BToolUse" and i: "i \<notin> U"
  shows "in_step (insert i U) ks (put_block i b s)"
proof (rule in_stepI)
  note d = in_stepD [OF s]
  have none: "block_to_tool_index s i = None" using d(3) i by blast
  show "finite (insert i U)" using d(1) by simp
  show "dom (blocks (put_block i b s)) \<subseteq> insert i U" using d(2) by (auto simp: put_block_def)
  show "dom (block_to_tool_index (put_block i b s)) \<subseteq> insert i U" using d(3) by (auto simp: put_block_def)
  show "tracked ks (put_block i b s) j c" if "blocks (put_block i b s) j = Some c" for j c
    using that b none d(4) [of j c] by (auto simp: put_block_def tracked_def split: if_splits)
  show "unat (next_tool_index (put_block i b s)) \<le> card (insert i U)"
    using d(11) card_insert_le [of U i] by (simp add: put_block_def)
qed (use in_stepD [OF s] in \<open>auto simp: put_block_def\<close>)

text \<open>A tool block may change what is not its id, its name and its arguments.\<close>

lemma in_step_same_entry:
  assumes s: "in_step U ks s" and b: "blocks s i = Some b" and "block_type b' = block_type b"
    "block_entry b' = block_entry b \<or> block_type b \<noteq> BToolUse"
  shows "in_step U ks (put_block i b' s)"
proof (rule in_stepI)
  have old: "tracked ks s i b'"
    using in_stepD(4) [OF s b] assms(3,4) unfolding tracked_def by auto
  show "tracked ks (put_block i b' s) j c" if "blocks (put_block i b' s) j = Some c" for j c
  proof (cases "j = i")
    case True
    with that old show ?thesis by (simp add: put_block_def tracked_def)
  next
    case False
    with that in_stepD(4) [OF s, of j c] show ?thesis by (simp add: put_block_def tracked_def)
  qed
  show "dom (blocks (put_block i b' s)) \<subseteq> U"
    using in_stepD(2) [OF s] b by (auto simp: put_block_def)
qed (use in_stepD [OF s] in \<open>simp_all add: put_block_def\<close>)

lemma in_step_start_tool:
  assumes s: "in_step U ks s" and i: "i \<notin> U" and room: "card U < 2 ^ 32 - 1"
  shows "in_step (insert i U) ks (start_block rid i (ToolUseBlock tid name) s)" (is "in_step _ _ ?s")
proof (rule in_stepI)
  note d = in_stepD [OF s]
  let ?k = "next_tool_index s" and ?b = "(new_block BToolUse)\<lparr>tool_name := name, tool_id := tid\<rparr>"
  have next_val: "unat (?k + 1) = unat ?k + 1" using d(11) room by (simp add: unat_word_ariths)
  then have less: "j < ?k + 1 \<longleftrightarrow> j \<le> ?k" for j
    by (simp add: word_less_nat_alt word_le_nat_alt less_Suc_eq_le)
  have calls: "streamed_call j (out ?s) =
      (if ?k = j then Some (tid, name, []) else streamed_call j (out s))" for j
    using d(9) [of ?k] by (auto simp: emit_def put_block_def Let_def streamed_call_snoc apply_delta_def)
  have fields: "blocks ?s = (blocks s)(i \<mapsto> ?b)"
      "block_to_tool_index ?s = (block_to_tool_index s)(i \<mapsto> ?k)" "next_tool_index ?s = ?k + 1"
      "response_calls ?s = response_calls s"
    by (simp_all add: emit_def put_block_def Let_def)
  have used: "\<not> (block_to_tool_index s j = Some ?k)" "?k \<notin> set ks" for j
    using d(6) [of j ?k] d(8) [of ?k] by auto
  show "finite (insert i U)" using d(1) by simp
  show "dom (blocks ?s) \<subseteq> insert i U" "dom (block_to_tool_index ?s) \<subseteq> insert i U"
    using d(2,3) unfolding fields by auto
  show "tracked ks ?s j c" if "blocks ?s j = Some c" for j c
  proof (cases "j = i")
    case True
    then show ?thesis
      using that used(2) unfolding tracked_def fields calls by (auto simp: new_block_def block_entry_def)
  next
    case False
    then have "tracked ks s j c" using that d(4) unfolding fields by simp
    with False used show ?thesis unfolding tracked_def fields calls by (auto split: if_splits)
  qed
  show "j = m" if "block_to_tool_index ?s j = Some k" "block_to_tool_index ?s m = Some k" for j m k
    using that used d(5) [of j k m] unfolding fields by (auto split: if_splits)
  show "k < next_tool_index ?s" if "block_to_tool_index ?s j = Some k" for j k
    using that d(6) [of j k] unfolding fields less by (auto split: if_splits)
  show "distinct ks" by (rule d(7))
  show "k < next_tool_index ?s" if "k \<in> set ks" for k
    using d(8) [OF that] unfolding fields less by simp
  show "streamed_call k (out ?s) = None" if "next_tool_index ?s \<le> k" for k
  proof -
    have "\<not> k < ?k + 1" using that unfolding fields by simp
    then have "?k < k" unfolding less by simp
    then show ?thesis using d(9) [of k] unfolding calls by auto
  qed
  show "list_all2 (\<lambda>c k. streamed_call k (out ?s) = Some (call_entry c)) (response_calls ?s) ks"
    using d(10) used(2) unfolding fields calls
    by (auto simp: list_all2_conv_all_nth)
  show "unat (next_tool_index ?s) \<le> card (insert i U)"
    using d(1,11) i unfolding fields next_val by simp
qed

lemma in_step_arguments:
  assumes s: "in_step U ks s" and b: "blocks s i = Some b"
  shows "in_step U ks (extend_block clock rid i b (InputJsonDelta j) s)" (is "in_step _ _ ?s")
proof (cases "block_type b = BToolUse")
  case False
  then have none: "block_to_tool_index s i = None" using in_stepD(4) [OF s b] by (simp add: tracked_def)
  from in_step_same_entry [OF s b, of "b\<lparr>args_acc := args_acc b @ j\<rparr>"] False none
  show ?thesis by (simp add: put_block_def)
next
  case True
  note d = in_stepD [OF s]
  obtain k where k: "block_to_tool_index s i = Some k" "k \<notin> set ks"
      "streamed_call k (out s) = Some (block_entry b)"
    using tracked_tool [OF d(4) [OF b] True] by blast
  let ?b = "b\<lparr>args_acc := args_acc b @ j\<rparr>"
  define t where "t = ?s"
  have fields: "blocks t = (blocks s)(i \<mapsto> ?b)" "block_to_tool_index t = block_to_tool_index s"
      "next_tool_index t = next_tool_index s" "response_calls t = response_calls s"
    using k(1) by (simp_all add: t_def put_block_def emit_def)
  have calls: "streamed_call m (out t) = (if k = m then Some (block_entry ?b) else streamed_call m (out s))" for m
    using k by (auto simp: t_def put_block_def emit_def streamed_call_snoc apply_delta_def block_entry_def)
  have "in_step U ks t"
  proof (rule in_stepI)
    show "dom (blocks t) \<subseteq> U" using d(2) b unfolding fields by auto
    show "tracked ks t m c" if "blocks t m = Some c" for m c
    proof (cases "m = i")
      case True
      with that k \<open>block_type b = BToolUse\<close> show ?thesis unfolding tracked_def fields calls by auto
    next
      case False
      then have t: "tracked ks s m c" using that d(4) unfolding fields by simp
      have "block_to_tool_index s m \<noteq> Some k" using False k(1) d(5) by blast
      with t show ?thesis unfolding tracked_def fields calls by (auto split: if_splits)
    qed
    show "streamed_call m (out t) = None" if "next_tool_index t \<le> m" for m
      using that d(9) [of m] d(6) [OF k(1)] unfolding fields calls by auto
    show "list_all2 (\<lambda>c m. streamed_call m (out t) = Some (call_entry c)) (response_calls t) ks"
      using d(10) k(2) unfolding fields calls by (auto simp: list_all2_conv_all_nth)
  qed (use d in \<open>simp_all add: fields\<close>)
  then show ?thesis unfolding t_def .
qed

lemma in_step_extend:
  "in_step U ks s \<Longrightarrow> blocks s i = Some b \<Longrightarrow> in_step U ks (extend_block clock rid i b d s)"
proof (cases d)
  case (TextDelta t)
  assume "in_step U ks s" "blocks s i = Some b"
  from in_step_same_entry [OF this, of "b\<lparr>text_acc := text_acc b @ t\<rparr>"]
  have "in_step U ks (put_block i (b\<lparr>text_acc := text_acc b @ t\<rparr>) s)" by (simp add: block_entry_def)
  then have "in_step U ks (text_token clock rid t (put_block i (b\<lparr>text_acc := text_acc b @ t\<rparr>) s))"
    by (rule in_step_frame) (simp_all add: token_reads)
  with \<open>in_step U ks s\<close> TextDelta show ?thesis by simp
next
  case (ThinkingDelta t)
  assume "in_step U ks s" "blocks s i = Some b"
  from in_step_same_entry [OF this, of "b\<lparr>thinking_acc := thinking_acc b @ t\<rparr>"]
  have "in_step U ks (put_block i (b\<lparr>thinking_acc := thinking_acc b @ t\<rparr>) s)" by (simp add: block_entry_def)
  then have "in_step U ks (reasoning_token rid t (put_block i (b\<lparr>thinking_acc := thinking_acc b @ t\<rparr>) s))"
    by (rule in_step_frame) (simp_all add: token_reads)
  with \<open>in_step U ks s\<close> ThinkingDelta show ?thesis by simp
next
  case (SignatureDelta sg)
  assume "in_step U ks s" "blocks s i = Some b"
  from in_step_same_entry [OF this, of "b\<lparr>signature := sg\<rparr>"] SignatureDelta
  show ?thesis by (simp add: block_entry_def)
next
  case (InputJsonDelta j)
  assume "in_step U ks s" "blocks s i = Some b"
  then show ?thesis unfolding InputJsonDelta by (rule in_step_arguments)
qed

text \<open>A finished tool block becomes a call with the same tool index.\<close>

lemma in_step_close:
  "in_step U ks s \<Longrightarrow> in_step U ks (s\<lparr>blocks := (blocks s)(i := None)\<rparr>)"
  by (rule in_stepI) (auto dest: in_stepD simp: tracked_def split: if_splits)

lemma in_step_finish:
  assumes s: "in_step U ks s" and b: "blocks s i = Some b"
  shows "\<exists>ks'. in_step U ks' (finish_block b (s\<lparr>blocks := (blocks s)(i := None)\<rparr>))"
proof (cases "block_type b = BToolUse")
  case False
  from in_step_close [OF s, of i]
  have "in_step U ks (finish_block b (s\<lparr>blocks := (blocks s)(i := None)\<rparr>))"
    by (rule in_step_frame) (use False in \<open>auto simp: finish_block_def split: block_type.splits\<close>)
  then show ?thesis ..
next
  case True
  note d = in_stepD [OF s]
  obtain k where k: "block_to_tool_index s i = Some k" "k \<notin> set ks"
      "streamed_call k (out s) = Some (block_entry b)"
    using tracked_tool [OF d(4) [OF b] True] by blast
  let ?s = "finish_block b (s\<lparr>blocks := (blocks s)(i := None)\<rparr>)"
  have fields: "blocks ?s = (blocks s)(i := None)" "block_to_tool_index ?s = block_to_tool_index s"
      "next_tool_index ?s = next_tool_index s" "out ?s = out s"
      "response_calls ?s = response_calls s @ [\<lparr>call_id = tool_id b, call_name = tool_name b, arguments = args_acc b\<rparr>]"
    using True by (simp_all add: finish_block_def)
  have "in_step U (ks @ [k]) ?s"
  proof (rule in_stepI)
    show "dom (blocks ?s) \<subseteq> U" using d(2) unfolding fields by auto
    show "tracked (ks @ [k]) ?s m c" if "blocks ?s m = Some c" for m c
    proof -
      have m: "m \<noteq> i" "blocks s m = Some c" using that unfolding fields by (auto split: if_splits)
      then have "block_to_tool_index s m \<noteq> Some k" using k(1) d(5) by blast
      with d(4) [OF m(2)] show ?thesis unfolding tracked_def fields by (auto split: if_splits)
    qed
    show "list_all2 (\<lambda>c k. streamed_call k (out ?s) = Some (call_entry c)) (response_calls ?s) (ks @ [k])"
      using d(10) k(3) unfolding fields
      by (auto simp: call_entry_def block_entry_def intro!: list_all2_appendI)
    show "distinct (ks @ [k])" using d(7) k(2) by simp
    show "m < next_tool_index ?s" if "m \<in> set (ks @ [k])" for m
      using that d(8) [of m] d(6) [OF k(1)] unfolding fields by auto
  qed (use d in \<open>auto simp: fields\<close>)
  then show ?thesis ..
qed

lemma in_step_wider: "in_step U ks s \<Longrightarrow> in_step (insert i U) ks s"
proof -
  assume s: "in_step U ks s"
  have "unat (next_tool_index s) \<le> card (insert i U)"
    using in_stepD(11) [OF s] card_insert_le [of U i] by linarith
  with s show ?thesis unfolding in_step_def by blast
qed

lemma in_step_start_block:
  assumes s: "in_step U ks s" and i: "i \<notin> U" and room: "card U < 2 ^ 32 - 1"
  shows "in_step (insert i U) ks (start_block rid i b s)"
proof (cases b)
  case (ToolUseBlock tid name)
  with in_step_start_tool [OF assms] show ?thesis by simp
next
  case (TextBlock t)
  from in_step_plain_block [OF s _ i, of "(new_block BText)\<lparr>text_acc := t\<rparr>"]
  have "in_step (insert i U) ks (put_block i ((new_block BText)\<lparr>text_acc := t\<rparr>) s)"
    by (simp add: new_block_def)
  then show ?thesis unfolding TextBlock start_block.simps
    by (rule in_step_frame) (simp_all add: first_token_calls)
next
  case (ThinkingBlock t sg)
  from in_step_plain_block [OF s _ i, of "(new_block BThinking)\<lparr>thinking_acc := t, signature := sg\<rparr>"]
  have "in_step (insert i U) ks (put_block i ((new_block BThinking)\<lparr>thinking_acc := t, signature := sg\<rparr>) s)"
    by (simp add: new_block_def)
  then show ?thesis unfolding ThinkingBlock start_block.simps
    by (rule in_step_frame) (simp_all add: first_token_calls)
next
  case ImageBlock
  from in_step_wider [OF s, of i] ImageBlock show ?thesis by simp
next
  case ToolResultBlock
  from in_step_wider [OF s, of i] ToolResultBlock show ?thesis by simp
qed

text \<open>The block index an event starts.\<close>

definition starts_of :: "message_event \<Rightarrow> 32 word set" where
  "starts_of e = (case e of ContentBlockStart i b \<Rightarrow> {i} | _ \<Rightarrow> {})"

lemma in_step_event:
  assumes s: "in_step U ks s" and fresh: "starts_of e \<inter> U = {}" and room: "card U < 2 ^ 32 - 1"
  shows "\<exists>ks'. in_step (starts_of e \<union> U) ks' (state_of (message_step clock rid idle e s))"
proof (cases e)
  case (MessageStart h)
  from s have "in_step U ks (start_message h s)"
    by (rule in_step_frame) (simp_all add: start_message_def)
  from in_step_idle [OF this] MessageStart show ?thesis
    by (auto simp: message_step_def starts_of_def Let_def)
next
  case (MessageDelta d)
  from s have "in_step U ks (apply_message_delta d s)"
    by (rule in_step_frame) (simp_all add: apply_message_delta_def)
  from in_step_idle [OF this] MessageDelta show ?thesis
    by (auto simp: message_step_def starts_of_def Let_def)
next
  case (ContentBlockStart i b)
  then have "i \<notin> U" using fresh by (simp add: starts_of_def)
  from in_step_idle [OF in_step_start_block [OF s this room]]
  have "in_step (insert i U) ks (state_of (message_step clock rid idle e s))"
    by (simp add: message_step_def ContentBlockStart Let_def)
  then show ?thesis by (auto simp: starts_of_def ContentBlockStart)
next
  case (ContentBlockDelta i d)
  have "in_step U ks (case blocks s i of Some b \<Rightarrow> extend_block clock rid i b d s | None \<Rightarrow> s)"
    using in_step_extend [OF s] s by (auto split: option.splits)
  from in_step_idle [OF this] ContentBlockDelta show ?thesis
    by (auto simp: message_step_def starts_of_def Let_def)
next
  case (ContentBlockStop i)
  have "\<exists>ks'. in_step U ks' (case blocks s i of
      Some b \<Rightarrow> finish_block b (s\<lparr>blocks := (blocks s)(i := None)\<rparr>) | None \<Rightarrow> s)"
    using in_step_finish [OF s] s by (auto split: option.splits)
  with ContentBlockStop show ?thesis
    by (auto simp: message_step_def starts_of_def Let_def dest: in_step_idle)
qed (use s in_step_idle [OF s] in \<open>auto simp: message_step_def starts_of_def Let_def\<close>)

lemma started_Cons: "started (Arrived e # ps) = (case e of ContentBlockStart i b \<Rightarrow> [i] | _ \<Rightarrow> []) @ started ps"
  by (cases e) simp_all

lemma in_step_pump:
  assumes "in_step U ks s" "distinct (started ps)" "set (started ps) \<inter> U = {}"
    "card U + length (started ps) < 2 ^ 32 - 1"
  shows "\<exists>U' ks'. in_step U' ks' (fst (pump (message_step clock rid idle) idle ps s))"
  using assms
proof (induction ps arbitrary: U ks s)
  case Nil
  then show ?case by auto
next
  case (Cons p ps)
  show ?case
  proof (cases p)
    case (Arrived e)
    have U: "starts_of e \<inter> U = {}" "set (started ps) \<inter> (starts_of e \<union> U) = {}" "distinct (started ps)"
        "card (starts_of e \<union> U) + length (started ps) < 2 ^ 32 - 1" "card U < 2 ^ 32 - 1"
      using Cons.prems in_stepD(1) [OF Cons.prems(1)] unfolding Arrived started_Cons starts_of_def
      by (auto simp: card_insert_if split: message_event.splits)
    from in_step_event [OF Cons.prems(1) U(1,5), of clock rid idle]
    obtain ks' where "in_step (starts_of e \<union> U) ks' (state_of (message_step clock rid idle e s))" by blast
    with Cons.IH [OF _ U(3,2,4)] Arrived show ?thesis
      by (cases "message_step clock rid idle e s") auto
  qed (use Cons.prems in auto)
qed

lemma in_step_start: "in_step {} [] (messages_start clock utc rid md)"
  by (rule in_stepI) (auto simp: messages_start_def prelude_events_def streamed_call_def deltas_for_def
      split: option.splits)


text \<open>A stream with one tool call and one text block.\<close>

definition example_messages :: "message_event pull list" where
  "example_messages =
     [Arrived (ContentBlockStart 0 (TextBlock [])), Arrived (ContentBlockDelta 0 (TextDelta ''on it'')),
      Arrived (ContentBlockStop 0), Arrived (ContentBlockStart 1 (ToolUseBlock ''c1'' ''read'')),
      Arrived (ContentBlockDelta 1 (InputJsonDelta ''{}'')), Arrived (ContentBlockStop 1)]"


end
