(* ===== verification/Doom_Loop.thy ===== *)
theory Doom_Loop
  imports Sampling_Errors Externals
begin

text \<open>
  Doom-loop signals of the server: their labels and the recovery policy
  (\<^verbatim>\<open>xai-grok-sampling-types/src/doom_loop.rs\<close>), and the collector that one request attempt shares between
  the decoder of the byte stream and the stream transform (\<^verbatim>\<open>xai-grok-sampler/src/doom_loop.rs\<close>).  The
  JSON parser is the field \<open>json_parse\<close> of the world.  The mutex of the collector is held for single
  operations that do not panic, so its poisoned case does not occur.
\<close>

subsection \<open>Labels\<close>

definition doom_loop_check_event_type :: str where
  "doom_loop_check_event_type = ''response.doom_loop_check''"

definition thinking_channel :: str where
  "thinking_channel = ''thinking''"

text \<open>The kind a label has by the part before its channel.\<close>

definition signal_kind_of :: "str \<Rightarrow> doom_loop_signal_kind" where
  "signal_kind_of head =
     (case split_once head '':'' of
        Some (w, threshold) \<Rightarrow>
          if w = ''tail_repetition''
          then (case parse_unsigned (2 ^ 32) threshold of
                  Some t \<Rightarrow> TailRepetition (of_nat t) | None \<Rightarrow> UnknownSignal head)
          else UnknownSignal head
      | None \<Rightarrow> if head = ''low_logprob'' then LowLogprob else UnknownSignal head)"

definition parse_signal :: "str \<Rightarrow> doom_loop_signal" where
  "parse_signal label =
     (let (head, ch) = (case split_once label ''@'' of Some p \<Rightarrow> p | None \<Rightarrow> (label, []))
      in \<lparr>signal_kind = signal_kind_of head, channel = ch, raw = label\<rparr>)"

text \<open>The loop of \<^verbatim>\<open>tightest\<close> with its two variables.\<close>

fun tightest_from :: "str option \<Rightarrow> (32 word \<times> str) option \<Rightarrow> str list \<Rightarrow> str option" where
  "tightest_from first best [] = or_else (map_option snd best) first"
| "tightest_from first best (label # labels) =
     tightest_from (or_else first (Some label))
       (case signal_kind (parse_signal label) of
          TailRepetition t \<Rightarrow>
            if (case best of None \<Rightarrow> True | Some (bt, _) \<Rightarrow> t < bt) then Some (t, label) else best
        | _ \<Rightarrow> best)
       labels"

definition tightest :: "str list \<Rightarrow> str option" where
  "tightest labels = tightest_from None None labels"

subsection \<open>Policy\<close>

record recovery_policy =
  max_threshold :: "32 word"
  doom_retries :: "32 word"

definition default_policy :: recovery_policy where
  "default_policy = \<lparr>max_threshold = 8, doom_retries = 2\<rparr>"

definition clamp :: "32 word \<Rightarrow> 32 word \<Rightarrow> 32 word \<Rightarrow> 32 word" where
  "clamp lo hi v = (if v < lo then lo else if hi < v then hi else v)"

definition clamp_max_threshold :: "32 word \<Rightarrow> 32 word" where
  "clamp_max_threshold v = clamp 2 64 v"

definition clamp_max_retries :: "32 word \<Rightarrow> 32 word" where
  "clamp_max_retries v = clamp 0 5 v"

definition is_confident :: "recovery_policy \<Rightarrow> doom_loop_signal \<Rightarrow> bool" where
  "is_confident p s =
     (channel s = thinking_channel
      \<and> (case signal_kind s of TailRepetition t \<Rightarrow> t \<le> max_threshold p | _ \<Rightarrow> False))"

definition confident_triggers :: "recovery_policy \<Rightarrow> doom_loop_signal list \<Rightarrow> str list" where
  "confident_triggers p ss = map raw (filter (is_confident p) ss)"

subsection \<open>Frames\<close>

datatype doom_loop_peek =
  CheckEvent "doom_loop_signal list" | ResponseField "doom_loop_signal list" | NoDoomLoop

fun json_strings :: "json list \<Rightarrow> str list" where
  "json_strings [] = []"
| "json_strings (v # vs) = (case as_str v of Some s \<Rightarrow> s # json_strings vs | None \<Rightarrow> json_strings vs)"

definition parse_triggers :: "json option \<Rightarrow> doom_loop_signal list" where
  "parse_triggers t = (case t of Some (JArr vs) \<Rightarrow> map parse_signal (json_strings vs) | _ \<Rightarrow> [])"

text \<open>\<^verbatim>\<open>Value::pointer\<close> for keys that are not array indices.\<close>

fun json_pointer :: "json \<Rightarrow> str list \<Rightarrow> json option" where
  "json_pointer v [] = Some v"
| "json_pointer v (k # ks) = Option.bind (json_get v k) (\<lambda>u. json_pointer u ks)"

definition has_check_type :: "json \<Rightarrow> bool" where
  "has_check_type v = (Option.bind (json_get v ''type'') as_str = Some doom_loop_check_event_type)"

definition peek_doom_loop :: "'w world_scheme \<Rightarrow> str \<Rightarrow> doom_loop_peek" where
  "peek_doom_loop w data =
     (if \<not> contains data ''doom_loop_check'' then NoDoomLoop
      else case json_parse w data of
        None \<Rightarrow> NoDoomLoop
      | Some value \<Rightarrow>
          if has_check_type value
          then CheckEvent (parse_triggers (json_pointer value [''doom_loop_check'', ''triggers'']))
          else (case json_pointer value [''response'', ''doom_loop_check'', ''triggers''] of
                  Some triggers \<Rightarrow> ResponseField (parse_triggers (Some triggers))
                | None \<Rightarrow> NoDoomLoop))"

definition is_check_event :: "'w world_scheme \<Rightarrow> str \<Rightarrow> str \<Rightarrow> bool" where
  "is_check_event w event_name data =
     (event_name = doom_loop_check_event_type
      \<or> contains data doom_loop_check_event_type
          \<and> (case json_parse w data of None \<Rightarrow> False | Some v \<Rightarrow> has_check_type v))"

subsection \<open>The collector of an attempt\<close>

record collector =
  signals :: "doom_loop_signal list"
  malformed_logged :: bool
  policy :: recovery_policy
  abort_disarmed :: bool

definition collector_new :: "recovery_policy \<Rightarrow> collector" where
  "collector_new p = \<lparr>signals = [], malformed_logged = False, policy = p, abort_disarmed = False\<rparr>"

definition disarm_abort :: "collector \<Rightarrow> collector" where
  "disarm_abort c = c\<lparr>abort_disarmed := True\<rparr>"

definition abort_triggers :: "collector \<Rightarrow> str list option" where
  "abort_triggers c =
     (if abort_disarmed c then None
      else (let confident = confident_triggers (policy c) (signals c)
            in then_some (confident \<noteq> []) confident))"

fun record_signals :: "doom_loop_signal list \<Rightarrow> doom_loop_signal list \<Rightarrow> doom_loop_signal list" where
  "record_signals old [] = old"
| "record_signals old (s # ss) =
     record_signals (if list_ex (\<lambda>t. raw t = raw s) old then old else old @ [s]) ss"

definition collector_record :: "doom_loop_signal list \<Rightarrow> collector \<Rightarrow> collector" where
  "collector_record ss c = c\<lparr>signals := record_signals (signals c) ss\<rparr>"

definition log_malformed_once :: "collector \<Rightarrow> collector" where
  "log_malformed_once c = c\<lparr>malformed_logged := True\<rparr>"

text \<open>The new state and whether the caller must swallow the frame.\<close>

definition absorb :: "'w world_scheme \<Rightarrow> str \<Rightarrow> str \<Rightarrow> collector \<Rightarrow> bool \<times> collector" where
  "absorb w event_name data c =
     (let named = (event_name = doom_loop_check_event_type);
          note_signals = (\<lambda>ss. if ss = [] then log_malformed_once c else collector_record ss c)
      in case peek_doom_loop w data of
           CheckEvent ss \<Rightarrow> (True, note_signals ss)
         | ResponseField ss \<Rightarrow> (named, note_signals ss)
         | NoDoomLoop \<Rightarrow> (named, if named then log_malformed_once c else c))"

definition take_signals :: "collector \<Rightarrow> doom_loop_signal list \<times> collector" where
  "take_signals c = (signals c, c\<lparr>signals := []\<rparr>)"

text \<open>The frames of one stream, absorbed one after the other.\<close>

definition absorb_all :: "'w world_scheme \<Rightarrow> (str \<times> str) list \<Rightarrow> collector \<Rightarrow> collector" where
  "absorb_all w frames c = fold (\<lambda>(name, data) c. snd (absorb w name data c)) frames c"

subsection \<open>Labels round trip\<close>

lemma find_sub_single: "c \<notin> set w \<Longrightarrow> find_sub (w @ c # s) [c] = Some (length w)"
  by (induction w) auto

lemma split_once_single: "c \<notin> set w \<Longrightarrow> split_once (w @ c # s) [c] = Some (w, s)"
  by (simp add: split_once_def find_sub_single)

lemma digits_no_char: "\<not> is_ascii_digit c \<Longrightarrow> c \<notin> set (digits n)"
  using digits_digits [of n] by (auto simp: list_all_iff)

text \<open>
  Labels mean what the grammar says: \<open>tail_repetition:t@channel\<close> reads as that threshold on that
  channel for every 32-bit threshold, so it is acted on exactly when the channel is the thinking one
  and the threshold is within the policy; \<open>low_logprob@channel\<close> never is.
\<close>

lemma label_round_trip:
  "signal_kind (parse_signal (''tail_repetition:'' @ digits (unat t) @ ''@'' @ ch)) = TailRepetition t
   \<and> channel (parse_signal (''tail_repetition:'' @ digits (unat t) @ ''@'' @ ch)) = ch
   \<and> (is_confident p (parse_signal (''tail_repetition:'' @ digits (unat t) @ ''@'' @ ch))
        \<longleftrightarrow> ch = ''thinking'' \<and> t \<le> max_threshold p)
   \<and> \<not> is_confident p (parse_signal (''low_logprob@'' @ ch))"
proof -
  have no_at: "CHR ''@'' \<notin> set (digits (unat t))" by (rule digits_no_char) code_simp
  let ?head = "''tail_repetition:'' @ digits (unat t)"
  have "CHR ''@'' \<notin> set ?head" using no_at by simp
  from split_once_single [OF this, of ch]
  have split: "split_once (''tail_repetition:'' @ digits (unat t) @ ''@'' @ ch) ''@'' = Some (?head, ch)"
    by simp
  have "split_once ?head '':'' = Some (''tail_repetition'', digits (unat t))"
    using split_once_single [of "CHR '':''" "''tail_repetition''" "digits (unat t)"] by simp
  moreover have "parse_unsigned (2 ^ 32) (digits (unat t)) = Some (unat t)"
    by (rule parse_unsigned_digits) (use unsigned_less [of t] in simp)
  ultimately have kind: "signal_kind_of ?head = TailRepetition t"
    by (simp add: signal_kind_of_def)
  have low: "split_once (''low_logprob@'' @ ch) ''@'' = Some (''low_logprob'', ch)"
    using split_once_single [of "CHR ''@''" "''low_logprob''" ch] by simp
  have "signal_kind_of ''low_logprob'' = LowLogprob" by code_simp
  with split kind low show ?thesis
    unfolding parse_signal_def by (auto simp: is_confident_def thinking_channel_def)
qed

subsection \<open>The tightest label\<close>

abbreviation tail_threshold :: "str \<Rightarrow> 32 word \<Rightarrow> bool" where
  "tail_threshold label t \<equiv> signal_kind (parse_signal label) = TailRepetition t"

lemma tightest_from_best:
  "\<exists>t label. tightest_from first (Some (bt, b)) labels = Some label
     \<and> (label = b \<and> t = bt \<or> label \<in> set labels \<and> tail_threshold label t)
     \<and> t \<le> bt \<and> (\<forall>l\<in>set labels. \<forall>u. tail_threshold l u \<longrightarrow> t \<le> u)"
proof (induction labels arbitrary: first bt b)
  case Nil
  then show ?case by (simp add: or_else_def)
next
  case (Cons l labels)
  let ?first = "or_else first (Some l)"
  show ?case
  proof (cases "\<exists>u. tail_threshold l u \<and> u < bt")
    case True
    then obtain u where u: "tail_threshold l u" "u < bt" by blast
    then have step: "tightest_from first (Some (bt, b)) (l # labels) = tightest_from ?first (Some (u, l)) labels"
      by simp
    obtain t label where t: "tightest_from ?first (Some (u, l)) labels = Some label"
        "label = l \<and> t = u \<or> label \<in> set labels \<and> tail_threshold label t" "t \<le> u"
        "\<forall>m\<in>set labels. \<forall>v. tail_threshold m v \<longrightarrow> t \<le> v"
      using Cons.IH [of ?first u l] by blast
    moreover have "t \<le> bt" using t(3) u(2) by simp
    moreover have "label \<in> set (l # labels) \<and> tail_threshold label t" using t(2) u(1) by auto
    moreover have "\<forall>m\<in>set (l # labels). \<forall>v. tail_threshold m v \<longrightarrow> t \<le> v"
      using t(3,4) u(1) by simp
    ultimately show ?thesis unfolding step by blast
  next
    case False
    then have "tightest_from first (Some (bt, b)) (l # labels) = tightest_from ?first (Some (bt, b)) labels"
      by (auto split: doom_loop_signal_kind.splits)
    moreover obtain t label where t: "tightest_from ?first (Some (bt, b)) labels = Some label"
        "label = b \<and> t = bt \<or> label \<in> set labels \<and> tail_threshold label t" "t \<le> bt"
        "\<forall>m\<in>set labels. \<forall>v. tail_threshold m v \<longrightarrow> t \<le> v"
      using Cons.IH [of ?first bt b] by blast
    moreover have "\<forall>m\<in>set (l # labels). \<forall>v. tail_threshold m v \<longrightarrow> t \<le> v"
      using t(3,4) False by (auto simp: not_less)
    ultimately show ?thesis by (metis list.set_intros(2))
  qed
qed

lemma tightest_from_none:
  "\<forall>l\<in>set labels. \<forall>u. \<not> tail_threshold l u \<Longrightarrow>
     tightest_from first None labels = or_else first (first_opt labels)"
proof (induction labels arbitrary: first)
  case Nil
  then show ?case by (simp add: or_else_def first_opt_def split: option.splits)
next
  case (Cons l labels)
  then show ?case
    by (auto simp: or_else_def first_opt_def split: doom_loop_signal_kind.splits option.splits list.splits)
qed

lemma tightest_from_skip:
  "\<forall>u. \<not> tail_threshold l u \<Longrightarrow>
     tightest_from first None (l # labels) = tightest_from (or_else first (Some l)) None labels"
  by (auto split: doom_loop_signal_kind.splits)

lemma tightest_from_some:
  "\<exists>l\<in>set labels. \<exists>u. tail_threshold l u \<Longrightarrow>
     \<exists>t label. tightest_from first None labels = Some label \<and> label \<in> set labels
       \<and> tail_threshold label t \<and> (\<forall>l\<in>set labels. \<forall>u. tail_threshold l u \<longrightarrow> t \<le> u)"
proof (induction labels arbitrary: first)
  case (Cons l labels)
  show ?case
  proof (cases "\<exists>u. tail_threshold l u")
    case True
    then obtain u where "tail_threshold l u" by blast
    with tightest_from_best [of "or_else first (Some l)" u l labels] show ?thesis by fastforce
  next
    case False
    then have "tightest_from first None (l # labels) = tightest_from (or_else first (Some l)) None labels"
      by (intro tightest_from_skip) blast
    with False Cons show ?thesis by fastforce
  qed
qed simp

text \<open>
  The label reported for a doom loop is a tail repetition with the lowest threshold if there is one, and
  the first label otherwise.
\<close>

lemma tightest_spec:
  "if \<exists>l\<in>set labels. \<exists>u. tail_threshold l u
   then \<exists>t label. tightest labels = Some label \<and> label \<in> set labels \<and> tail_threshold label t
          \<and> (\<forall>l\<in>set labels. \<forall>u. tail_threshold l u \<longrightarrow> t \<le> u)
   else tightest labels = first_opt labels"
  using tightest_from_some [of labels None] tightest_from_none [of labels None]
  by (simp add: tightest_def or_else_def)

subsection \<open>What the collector holds\<close>

definition reported :: "'w world_scheme \<Rightarrow> str \<Rightarrow> doom_loop_signal list" where
  "reported w data =
     (case peek_doom_loop w data of CheckEvent ss \<Rightarrow> ss | ResponseField ss \<Rightarrow> ss | NoDoomLoop \<Rightarrow> [])"

lemma parse_signal_raw [simp]: "raw (parse_signal label) = label"
  by (simp add: parse_signal_def case_prod_unfold Let_def)

lemma triggers_parsed: "s \<in> set (parse_triggers t) \<Longrightarrow> s = parse_signal (raw s)"
  by (auto simp: parse_triggers_def split: option.splits json.splits)

lemma reported_parsed: "s \<in> set (reported w data) \<Longrightarrow> s = parse_signal (raw s)"
  by (auto simp: reported_def peek_doom_loop_def split: option.splits if_splits dest: triggers_parsed)

lemma absorb_record: "signals (snd (absorb w name data c)) = record_signals (signals c) (reported w data)"
  by (simp add: absorb_def reported_def Let_def collector_record_def log_malformed_once_def
      split: doom_loop_peek.splits)

lemma absorb_policy [simp]:
  "policy (snd (absorb w name data c)) = policy c"
  "abort_disarmed (snd (absorb w name data c)) = abort_disarmed c"
  by (simp_all add: absorb_def Let_def collector_record_def log_malformed_once_def split: doom_loop_peek.splits)

lemma record_distinct: "distinct (map raw old) \<Longrightarrow> distinct (map raw (record_signals old ss))"
proof (induction old ss rule: record_signals.induct)
  case (2 old s ss)
  show ?case
  proof (cases "list_ex (\<lambda>t. raw t = raw s) old")
    case True
    with 2 show ?thesis by simp
  next
    case False
    then have "raw s \<notin> raw ` set old" by (auto simp: list_ex_iff)
    with 2 False show ?thesis by simp
  qed
qed simp

lemma record_set:
  "(\<And>s. s \<in> set old \<union> set ss \<Longrightarrow> s = parse_signal (raw s)) \<Longrightarrow>
     set (record_signals old ss) = set old \<union> set ss"
proof (induction old ss rule: record_signals.induct)
  case (1 old)
  then show ?case by simp
next
  case (2 old s ss)
  show ?case
  proof (cases "list_ex (\<lambda>t. raw t = raw s) old")
    case True
    then obtain t where "t \<in> set old" "raw t = raw s" by (auto simp: list_ex_iff)
    then have "s \<in> set old" using 2(2) [of s] 2(2) [of t] by simp
    with True 2 show ?thesis by auto
  next
    case False
    with 2 show ?thesis by auto
  qed
qed

lemma absorb_all_Cons:
  "absorb_all w (frame # frames) c = absorb_all w frames (snd (absorb w (fst frame) (snd frame) c))"
  by (simp add: absorb_all_def case_prod_unfold)

lemma absorb_all_from:
  assumes "distinct (map raw (signals c))" "\<And>s. s \<in> set (signals c) \<Longrightarrow> s = parse_signal (raw s)"
  shows "distinct (map raw (signals (absorb_all w frames c)))
    \<and> set (signals (absorb_all w frames c)) = set (signals c) \<union> (\<Union>f\<in>set frames. set (reported w (snd f)))
    \<and> policy (absorb_all w frames c) = policy c
    \<and> abort_disarmed (absorb_all w frames c) = abort_disarmed c"
  using assms
proof (induction frames arbitrary: c)
  case Nil
  then show ?case by (simp add: absorb_all_def)
next
  case (Cons f frames)
  let ?c = "snd (absorb w (fst f) (snd f) c)"
  have set: "set (signals ?c) = set (signals c) \<union> set (reported w (snd f))"
    unfolding absorb_record using Cons.prems(2) reported_parsed by (intro record_set) blast
  have "distinct (map raw (signals ?c))"
    unfolding absorb_record using Cons.prems(1) by (rule record_distinct)
  moreover have "s = parse_signal (raw s)" if "s \<in> set (signals ?c)" for s
    using that Cons.prems(2) reported_parsed unfolding set by blast
  ultimately show ?case using Cons.IH [of ?c] set by (simp add: absorb_all_Cons Un_assoc)
qed

text \<open>
  The collector reports every trigger once and acts on the confident ones only: after any frames it
  holds exactly the signals they reported, no label twice although the server resends the whole set;
  the stream is to be aborted exactly when the collector is armed and one of them is confident under
  the policy; once disarmed it never aborts.
\<close>

lemma collector_holds_reported:
  "distinct (map raw (signals (absorb_all w frames (collector_new p))))
   \<and> set (signals (absorb_all w frames (collector_new p))) = (\<Union>f\<in>set frames. set (reported w (snd f)))
   \<and> (abort_triggers (absorb_all w frames (collector_new p)) \<noteq> None \<longleftrightarrow>
        (\<exists>f\<in>set frames. \<exists>s\<in>set (reported w (snd f)). is_confident p s))
   \<and> abort_triggers (absorb_all w frames (disarm_abort (collector_new p))) = None"
proof -
  let ?c = "absorb_all w frames (collector_new p)"
  have c: "distinct (map raw (signals ?c))"
      "set (signals ?c) = (\<Union>f\<in>set frames. set (reported w (snd f)))" "policy ?c = p" "\<not> abort_disarmed ?c"
    using absorb_all_from [of "collector_new p" w frames] by (simp_all add: collector_new_def)
  have "abort_triggers ?c \<noteq> None \<longleftrightarrow> (\<exists>s\<in>set (signals ?c). is_confident p s)"
    using c by (auto simp: abort_triggers_def Let_def then_some_def confident_triggers_def filter_empty_conv)
  moreover have "abort_disarmed (absorb_all w frames (disarm_abort (collector_new p)))"
    using absorb_all_from [of "disarm_abort (collector_new p)" w frames]
    by (simp add: collector_new_def disarm_abort_def)
  ultimately show ?thesis using c by (simp add: abort_triggers_def)
qed

text \<open>
  Whatever \<^verbatim>\<open>is_check_event\<close> calls a check event is swallowed by a collector too, so that opting in and
  not opting in hide the same frames from the typed parser.
\<close>

lemma contains_trans: "contains data p \<Longrightarrow> contains p q \<Longrightarrow> contains data q"
  unfolding contains_iff by (metis append.assoc)

lemma check_event_swallowed: "is_check_event w name data \<Longrightarrow> fst (absorb w name data c)"
proof -
  assume e: "is_check_event w name data"
  show ?thesis
  proof (cases "name = doom_loop_check_event_type")
    case True
    then show ?thesis by (simp add: absorb_def Let_def split: doom_loop_peek.splits)
  next
    case False
    with e have "contains data doom_loop_check_event_type" by (simp add: is_check_event_def)
    moreover have "contains doom_loop_check_event_type ''doom_loop_check''" by code_simp
    ultimately have "contains data ''doom_loop_check''" by (rule contains_trans)
    with e False show ?thesis
      by (auto simp: is_check_event_def absorb_def peek_doom_loop_def Let_def split: option.splits)
  qed
qed

end
