(* ===== verification/Sse_Decoding.thy ===== *)
theory Sse_Decoding
  imports Responses_Model Chat_Stream Messages_Stream Doom_Loop
begin

text \<open>
  From the frames of the byte stream to the items of the three transforms: the decoders at the end of
  \<^verbatim>\<open>conversation_stream\<close>, \<^verbatim>\<open>conversation_stream_responses\<close> and \<^verbatim>\<open>conversation_stream_messages\<close>
  (\<^verbatim>\<open>xai-grok-sampler/src/client.rs\<close>) and the recognition of error frames
  (\<^verbatim>\<open>xai-grok-sampling-types/src/error.rs\<close>).  The parsers that \<^verbatim>\<open>serde\<close> derives for the wire types are
  parameters, the fields of the record \<open>wire_formats\<close>; parsing to a JSON value is a field of the world.
\<close>

subsection \<open>Frames\<close>

text \<open>
  A frame has an event name and data; the transport may fail, or nothing may come for longer than the
  consumer waits.
\<close>

datatype sse = Frame str str | TransportError str | Quiet

record wire_formats =
  error_response :: "str \<Rightarrow> (str option \<times> str option) option"
  flat_error_response :: "str \<Rightarrow> (str \<times> str option) option"
  chat_chunk_of :: "str \<Rightarrow> json_error + chat_chunk"
  message_event_of :: "str \<Rightarrow> json_error + message_event"
  response_event_of :: "str \<Rightarrow> json_error + response_event"
  response_event_of_value :: "json \<Rightarrow> response_event option"
  tool_parses :: "json \<Rightarrow> bool"

text \<open>An error body has a message and a type, a flat one an error and a code.\<close>

definition try_parse_error :: "wire_formats \<Rightarrow> str \<Rightarrow> (str \<times> str) option" where
  "try_parse_error fmt data =
     (case error_response fmt data of
        Some (message, ty) \<Rightarrow>
          Some (case ty of None \<Rightarrow> ''unknown'' | Some k \<Rightarrow> k,
                case message of None \<Rightarrow> ''unknown error'' | Some m \<Rightarrow> m)
      | None \<Rightarrow>
          (case flat_error_response fmt data of
             Some (error, code) \<Rightarrow> Some (case code of None \<Rightarrow> ''server_error'' | Some c \<Rightarrow> c, error)
           | None \<Rightarrow> None))"

definition try_parse_stream_error :: "wire_formats \<Rightarrow> str \<Rightarrow> sampling_error option" where
  "try_parse_stream_error fmt data =
     map_option (\<lambda>(ty, message). StreamError ty message) (try_parse_error fmt data)"

definition done_marker :: str where
  "done_marker = ''[DONE]''"

text \<open>The \<^verbatim>\<open>scan\<close> of the Chat Completions and the Messages API.\<close>

fun decode_frames :: "wire_formats \<Rightarrow> (str \<Rightarrow> json_error + 'c) \<Rightarrow> sse list \<Rightarrow> 'c pull list" where
  "decode_frames fmt parse [] = []"
| "decode_frames fmt parse (Quiet # fs) = TimedOut # decode_frames fmt parse fs"
| "decode_frames fmt parse (TransportError t # fs) = [Raised (EventStreamError t)]"
| "decode_frames fmt parse (Frame name data # fs) =
     (if data = done_marker then []
      else (case try_parse_stream_error fmt data of
              Some e \<Rightarrow> Raised e
            | None \<Rightarrow> (case parse data of Inl e \<Rightarrow> Raised (Serialization e) | Inr c \<Rightarrow> Arrived c))
           # decode_frames fmt parse fs)"

subsection \<open>Events of the Responses API\<close>

fun as_u64 :: "json \<Rightarrow> nat option" where
  "as_u64 (JInt i) = (if 0 \<le> i \<and> i < 2 ^ 64 then Some (nat i) else None)"
| "as_u64 _ = None"

fun as_i64 :: "json \<Rightarrow> int option" where
  "as_i64 (JInt i) = (if - (2 ^ 63) \<le> i \<and> i < 2 ^ 63 then Some i else None)"
| "as_i64 _ = None"

definition u32_of :: "nat \<Rightarrow> 32 word option" where
  "u32_of n = then_some (n < 2 ^ 32) (of_nat n)"

text \<open>\<^verbatim>\<open>str::parse\<close> for \<^verbatim>\<open>i64\<close>.\<close>

definition parse_i64 :: "str \<Rightarrow> int option" where
  "parse_i64 s =
     (case s of
        CHR ''-'' # ds \<Rightarrow>
          then_some (ds \<noteq> [] \<and> list_all is_ascii_digit ds \<and> decimal ds \<le> 2 ^ 63) (- int (decimal ds))
      | _ \<Rightarrow> map_option int (parse_unsigned (2 ^ 63) s))"

definition cost_usd_ticks_metadata_key :: str where
  "cost_usd_ticks_metadata_key = ''xai.cost_usd_ticks''"

definition extract_context_total :: "json \<Rightarrow> 32 word option" where
  "extract_context_total v =
     Option.bind (json_pointer v [''response'', ''usage'', ''context_details'']) (\<lambda>cd.
     Option.bind (Option.bind (Option.bind (json_get cd ''input_tokens'') as_u64) u32_of) (\<lambda>i.
     Option.bind (Option.bind (Option.bind (json_get cd ''output_tokens'') as_u64) u32_of) (\<lambda>out.
     Some (saturating_add_u32 i out))))"

definition stash_cost :: "json \<Rightarrow> wire_response \<Rightarrow> wire_response" where
  "stash_cost v r =
     (case reported_cost_ticks
             (Option.bind (json_pointer v [''response'', ''usage'', ''cost_in_usd_ticks'']) as_i64) of
        None \<Rightarrow> r
      | Some ticks \<Rightarrow>
          r\<lparr>resp_metadata :=
              Some ((case resp_metadata r of None \<Rightarrow> Map.empty | Some m \<Rightarrow> m)
                      (cost_usd_ticks_metadata_key \<mapsto> digits (nat ticks)))\<rparr>)"

definition context_override :: "json \<Rightarrow> wire_response \<Rightarrow> wire_response" where
  "context_override v r =
     (case (resp_usage r, extract_context_total v) of
        (Some u, Some live) \<Rightarrow> r\<lparr>resp_usage := Some (u\<lparr>wire_total := live\<rparr>)\<rparr>
      | _ \<Rightarrow> r)"

definition override_response :: "'w world_scheme \<Rightarrow> str \<Rightarrow> wire_response \<Rightarrow> wire_response" where
  "override_response w data r =
     (case json_parse w data of None \<Rightarrow> r | Some v \<Rightarrow> context_override v (stash_cost v r))"

fun apply_terminal_event_overrides ::
    "'w world_scheme \<Rightarrow> str \<Rightarrow> response_event \<Rightarrow> response_event" where
  "apply_terminal_event_overrides w data (ResponseCompleted r) = ResponseCompleted (override_response w data r)"
| "apply_terminal_event_overrides w data (ResponseIncomplete r) = ResponseIncomplete (override_response w data r)"
| "apply_terminal_event_overrides w data e = e"

text \<open>\<^verbatim>\<open>pointer_mut\<close> and an update of the value there.\<close>

fun json_update :: "str list \<Rightarrow> (json \<Rightarrow> json) \<Rightarrow> json \<Rightarrow> json" where
  "json_update [] f v = f v"
| "json_update (k # ks) f (JObj kvs) =
     JObj (map (\<lambda>(k', u). (k', if k' = k then json_update ks f u else u)) kvs)"
| "json_update (k # ks) f v = v"

definition strip_unknown_tools :: "wire_formats \<Rightarrow> json \<Rightarrow> json" where
  "strip_unknown_tools fmt =
     json_update [''response'', ''tools'']
       (\<lambda>v. case v of JArr ts \<Rightarrow> JArr (filter (tool_parses fmt) ts) | _ \<Rightarrow> v)"

definition deserialize_response_event ::
    "'w world_scheme \<Rightarrow> wire_formats \<Rightarrow> str \<Rightarrow> sampling_error + response_event" where
  "deserialize_response_event w fmt data =
     (case response_event_of fmt data of
        Inr e \<Rightarrow> Inr (apply_terminal_event_overrides w data e)
      | Inl err \<Rightarrow>
          (case Option.bind (json_parse w data) (\<lambda>v. response_event_of_value fmt (strip_unknown_tools fmt v)) of
             Some e \<Rightarrow> Inr (apply_terminal_event_overrides w data e)
           | None \<Rightarrow> Inl (Serialization err)))"

subsection \<open>What the decoders produce\<close>

text \<open>A decoder raises transport errors, error frames and parse errors, and nothing else.\<close>

fun decoder_error :: "sampling_error \<Rightarrow> bool" where
  "decoder_error (EventStreamError _) = True"
| "decoder_error (StreamError _ _) = True"
| "decoder_error (Serialization _) = True"
| "decoder_error _ = False"

lemma stream_error_is_decoder_error: "try_parse_stream_error fmt data = Some e \<Longrightarrow> decoder_error e"
  by (auto simp: try_parse_stream_error_def)

lemma decode_frames_errors: "Raised e \<in> set (decode_frames fmt parse fs) \<Longrightarrow> decoder_error e"
  by (induction fmt parse fs rule: decode_frames.induct)
    (auto split: if_splits option.splits sum.splits dest: stream_error_is_decoder_error)

lemma deserialize_errors: "deserialize_response_event w fmt data = Inl e \<Longrightarrow> decoder_error e"
  by (auto simp: deserialize_response_event_def split: sum.splits option.splits)

text \<open>The cost survives its way through the metadata.\<close>

lemma parse_i64_digits: "n < 2 ^ 63 \<Longrightarrow> parse_i64 (digits n) = Some (int n)"
proof -
  assume n: "n < 2 ^ 63"
  obtain c r where d: "digits n = c # r" using digits_digits [of n] by (cases "digits n") auto
  then have "is_ascii_digit c" using digits_digits [of n] by simp
  moreover have "\<not> is_ascii_digit CHR ''-''" by code_simp
  ultimately have "c \<noteq> CHR ''-''" by auto
  then have "parse_i64 (digits n) = map_option int (parse_unsigned (2 ^ 63) (digits n))"
    unfolding parse_i64_def d by (auto split: list.splits char.splits bool.splits)
  then show ?thesis using n by (simp add: parse_unsigned_digits)
qed

lemma as_i64_bound: "as_i64 v = Some t \<Longrightarrow> t < 2 ^ 63"
  by (cases v) (auto split: if_splits)

lemma stashed_cost:
  assumes "reported_cost_ticks
      (Option.bind (json_pointer v [''response'', ''usage'', ''cost_in_usd_ticks'']) as_i64) = Some t"
  shows "Option.bind (Option.bind (resp_metadata (context_override v (stash_cost v r)))
      (\<lambda>m. m cost_usd_ticks_metadata_key)) parse_i64 = Some t"
proof -
  have "0 < t" "t < 2 ^ 63"
    using assms by (auto simp: reported_cost_ticks_def filter_option_def bind_eq_Some_conv
        dest!: as_i64_bound split: option.splits if_splits)
  then have "nat t < 2 ^ 63" by simp
  then have "parse_i64 (digits (nat t)) = Some t" using \<open>0 < t\<close> parse_i64_digits [of "nat t"] by simp
  then show ?thesis using assms
    by (auto simp: stash_cost_def context_override_def split: option.splits prod.splits)
qed

end
