(* ===== verification/Responses_Stream.thy ===== *)
theory Responses_Stream
  imports Sse_Decoding
begin

text \<open>
  The transform of a Responses API stream into events (\<^verbatim>\<open>xai-grok-sampler/src/stream/responses.rs\<close>),
  together with the decoder in front of it (\<^verbatim>\<open>conversation_stream_responses\<close> in \<^verbatim>\<open>client.rs\<close>): the two share
  the doom-loop collector, so a step of the loop takes a frame, lets the collector absorb it, decodes it
  and handles the event.
\<close>

subsection \<open>The generator\<close>

record responses_state = emitter +
  doom :: "collector option"
  final_response :: "wire_response option"
  streamed_reasoning :: str
  output_to_tool_index :: "32 word \<rightharpoonup> 32 word"
  next_index :: "32 word"

definition internal_error :: "str \<Rightarrow> sampling_error" where
  "internal_error message = Api 500 message None None None"

definition failed_message :: "wire_response \<Rightarrow> str" where
  "failed_message r =
     (case resp_error r of
        Some (code, message) \<Rightarrow> code @ '': '' @ message
      | None \<Rightarrow> ''Response failed with unknown error'')"

fun start_item :: "str \<Rightarrow> 32 word \<Rightarrow> output_item \<Rightarrow> responses_state \<Rightarrow> responses_state" where
  "start_item rid k (FunctionCall c) s =
     emit (ToolCallDelta rid (next_index s) (Some (call_id c)) (Some (call_name c)) None)
       (s\<lparr>next_index := next_index s + 1,
          output_to_tool_index := (output_to_tool_index s)(k \<mapsto> next_index s)\<rparr>)"
| "start_item rid k _ s = s"

fun finish_item :: "str \<Rightarrow> output_item \<Rightarrow> responses_state \<Rightarrow> responses_state" where
  "finish_item rid (WebSearchCall c) s =
     emit (BackendToolCallCompleted rid (hosted_id c) ''web_search'' (hosted_value c)) s"
| "finish_item rid (CustomToolCall c) s =
     emit (BackendToolCallCompleted rid (hosted_id c) ''x_search'' (hosted_value c)) s"
| "finish_item rid _ s = s"

text \<open>The \<^verbatim>\<open>match event\<close> of the loop for the events that do not end it.\<close>

fun apply_event :: "(nat \<Rightarrow> nat) \<Rightarrow> str \<Rightarrow> response_event \<Rightarrow> responses_state \<Rightarrow> responses_state" where
  "apply_event clock rid (OutputTextDelta t) s = (if t = [] then s else text_token clock rid t s)"
| "apply_event clock rid (SummaryTextDelta t) s = (if t = [] then s else reasoning_token rid t s)"
| "apply_event clock rid (ReasoningTextDelta t) s =
     (if t = [] then s
      else reasoning_token rid t (s\<lparr>streamed_reasoning := streamed_reasoning s @ t\<rparr>))"
| "apply_event clock rid (OutputItemAdded k i) s = start_item rid k i s"
| "apply_event clock rid (ArgumentsDelta k t) s =
     (case output_to_tool_index s k of
        Some index \<Rightarrow> if t = [] then s else emit (ToolCallDelta rid index None None (Some t)) s
      | None \<Rightarrow> s)"
| "apply_event clock rid (ResponseCompleted r) s = s\<lparr>final_response := Some r\<rparr>"
| "apply_event clock rid (ResponseIncomplete r) s = s\<lparr>final_response := Some r\<rparr>"
| "apply_event clock rid (WebSearchInProgress i) s = emit (BackendToolCallStarted rid i ''web_search'') s"
| "apply_event clock rid (OutputItemDone i) s = finish_item rid i s"
| "apply_event clock rid (CustomInputDone i t) s = emit (BackendToolCallStarted rid i ''x_search'') s"
| "apply_event clock rid _ s = s"

fun is_incomplete :: "response_event \<Rightarrow> bool" where
  "is_incomplete (ResponseIncomplete r) = True"
| "is_incomplete _ = False"

text \<open>An event that fails the attempt.\<close>

fun event_failure :: "response_event \<Rightarrow> sampling_error option" where
  "event_failure (ResponseFailed r) = Some (internal_error (failed_message r))"
| "event_failure (ResponseError code message) =
     Some (internal_error ((case code of Some c \<Rightarrow> c | None \<Rightarrow> ''error'') @ '': '' @ message))"
| "event_failure _ = None"

definition armed_triggers :: "responses_state \<Rightarrow> str list option" where
  "armed_triggers s = Option.bind (doom s) abort_triggers"

definition event_step ::
    "(nat \<Rightarrow> nat) \<Rightarrow> str \<Rightarrow> nat \<Rightarrow> response_event \<Rightarrow> responses_state \<Rightarrow> responses_state step_result" where
  "event_step clock rid idle_timeout e s =
     (case armed_triggers s of
        Some triggers \<Rightarrow> GiveUp (DoomLoopDetected triggers (Some (chunk_index s))) s
      | None \<Rightarrow>
          (case event_failure e of
             Some err \<Rightarrow> GiveUp err s
           | None \<Rightarrow>
               (case idle_check clock idle_timeout (responses_event_has_meaningful_content e)
                       (apply_event clock rid e s) of
                  Go s' \<Rightarrow> if is_incomplete e then Leave s' else Go s'
                | other \<Rightarrow> other)))"

text \<open>The decoder's part: the end marker, check events, error frames, and only then the parser.\<close>

definition absorb_frame ::
    "'w world_scheme \<Rightarrow> str \<Rightarrow> str \<Rightarrow> responses_state \<Rightarrow> bool \<times> responses_state" where
  "absorb_frame w name data s =
     (case doom s of
        Some c \<Rightarrow> (case absorb w name data c of (swallow, c') \<Rightarrow> (swallow, s\<lparr>doom := Some c'\<rparr>))
      | None \<Rightarrow> (is_check_event w name data, s))"

fun frame_step ::
    "'w world_scheme \<Rightarrow> wire_formats \<Rightarrow> (nat \<Rightarrow> nat) \<Rightarrow> str \<Rightarrow> nat \<Rightarrow> str \<times> str \<Rightarrow> responses_state
       \<Rightarrow> responses_state step_result" where
  "frame_step w fmt clock rid idle_timeout (name, data) s =
     (if data = done_marker then Leave s
      else (case absorb_frame w name data s of (swallow, s) \<Rightarrow>
        if swallow then Go s
        else (case try_parse_stream_error fmt data of
                Some e \<Rightarrow> Break e s
              | None \<Rightarrow>
                  (case deserialize_response_event w fmt data of
                     Inl e \<Rightarrow> Break e s
                   | Inr e \<Rightarrow> event_step clock rid idle_timeout e s))))"

fun arrival :: "sse \<Rightarrow> (str \<times> str) pull" where
  "arrival (Frame name data) = Arrived (name, data)"
| "arrival (TransportError t) = Raised (EventStreamError t)"
| "arrival Quiet = TimedOut"

definition responses_usage :: "wire_response \<Rightarrow> token_usage option" where
  "responses_usage r =
     map_option (\<lambda>u. \<lparr>prompt_tokens = input_tokens u, completion_tokens = output_tokens u,
                      total_tokens = wire_total u, reasoning_tokens = output_reasoning_tokens u,
                      cached_prompt_tokens = input_cached_tokens u\<rparr>) (resp_usage r)"

definition responses_cost :: "wire_response \<Rightarrow> int option" where
  "responses_cost r =
     Option.bind (Option.bind (resp_metadata r) (\<lambda>m. m cost_usd_ticks_metadata_key)) parse_i64"

definition without_cost :: "wire_response \<Rightarrow> wire_response" where
  "without_cost r =
     r\<lparr>resp_metadata := map_option (\<lambda>m. m(cost_usd_ticks_metadata_key := None)) (resp_metadata r)\<rparr>"

fun calls_tools :: "conversation_item \<Rightarrow> bool" where
  "calls_tools (Assistant a) = (tool_calls a \<noteq> [])"
| "calls_tools _ = False"

definition responses_stop :: "conversation_item list \<Rightarrow> response_status \<Rightarrow> stop_reason option" where
  "responses_stop xs st =
     (if list_ex calls_tools xs then Some ToolCalls
      else case st of RsCompleted \<Rightarrow> Some Stop | RsIncomplete \<Rightarrow> Some Length | _ \<Rightarrow> None)"

definition responses_response :: "wire_response \<Rightarrow> responses_state \<Rightarrow> conversation_response" where
  "responses_response r s =
     (let xs = inject_streaming_reasoning_fallback (response_to_conversation_items (without_cost r))
                 (streamed_reasoning s)
      in \<lparr>resp_items = xs, stop_reason = responses_stop xs (resp_status r), usage = responses_usage r,
          cost_usd_ticks = responses_cost r, message_chunks_emitted = message_chunk_count s,
          doom_loop_signals = (case doom s of Some c \<Rightarrow> fst (take_signals c) | None \<Rightarrow> []),
          stop_message = None\<rparr>)"

definition responses_finished ::
    "libraries \<Rightarrow> (nat \<Rightarrow> nat) \<Rightarrow> str \<Rightarrow> responses_state \<Rightarrow> sampling_event" where
  "responses_finished l clock rid s =
     (case final_response s of
        None \<Rightarrow>
          Failed rid (info_of l (internal_error
            ''No ResponseCompleted or ResponseIncomplete event received from Responses API''))
      | Some r \<Rightarrow>
          Completed rid (responses_response r s)
            (from_timestamps (clock 0) (chunk_timestamps s) (clock (readings s))))"

definition responses_start ::
    "(nat \<Rightarrow> nat) \<Rightarrow> int \<Rightarrow> str \<Rightarrow> response_model_metadata option \<Rightarrow> collector option \<Rightarrow> responses_state" where
  "responses_start clock utc rid metadata c =
     \<lparr>readings = 2, out = prelude_events rid utc metadata, chunk_timestamps = [],
      first_token_emitted = False, chunk_index = 0, message_chunk_count = 0,
      last_content_chunk_at = clock 1,
      doom = c, final_response = None, streamed_reasoning = [], output_to_tool_index = Map.empty,
      next_index = 0\<rparr>"

definition responses_run ::
    "'w world_scheme \<Rightarrow> wire_formats \<Rightarrow> (nat \<Rightarrow> nat) \<Rightarrow> int \<Rightarrow> sse list \<Rightarrow> response_model_metadata option
       \<Rightarrow> str \<Rightarrow> nat \<Rightarrow> collector option \<Rightarrow> responses_state \<times> ending" where
  "responses_run w fmt clock utc frames metadata rid idle_timeout c =
     pump (frame_step w fmt clock rid idle_timeout) idle_timeout (map arrival frames)
       (responses_start clock utc rid metadata c)"

definition stream_responses ::
    "libraries \<Rightarrow> 'w world_scheme \<Rightarrow> wire_formats \<Rightarrow> (nat \<Rightarrow> nat) \<Rightarrow> int \<Rightarrow> sse list
       \<Rightarrow> response_model_metadata option \<Rightarrow> str \<Rightarrow> nat \<Rightarrow> collector option \<Rightarrow> sampling_event list" where
  "stream_responses l w fmt clock utc frames metadata rid idle_timeout c =
     close_stream l rid (responses_finished l clock rid)
       (responses_run w fmt clock utc frames metadata rid idle_timeout c)"

subsection \<open>What the generator keeps\<close>

lemma told_responses_fields:
  "told rid (s\<lparr>doom := c\<rparr>) = told rid s"
  "told rid (s\<lparr>final_response := r\<rparr>) = told rid s"
  "told rid (s\<lparr>streamed_reasoning := t\<rparr>) = told rid s"
  "told rid (s\<lparr>next_index := n, output_to_tool_index := m\<rparr>) = told rid s"
  by (simp_all add: told_def)

lemma told_apply_event: "told rid s \<Longrightarrow> told rid (apply_event clock rid e s)"
proof (cases e)
  case (OutputItemAdded k i)
  assume "told rid s"
  then show ?thesis unfolding OutputItemAdded
    by (cases i) (auto intro!: told_plain_event simp: told_responses_fields is_token_def)
next
  case (OutputItemDone i)
  assume "told rid s"
  then show ?thesis unfolding OutputItemDone
    by (cases i) (auto intro!: told_plain_event simp: is_token_def)
qed (auto intro!: told_text_token told_reasoning_token told_plain_event
       simp: told_responses_fields is_token_def split: option.splits)

lemma told_event_step: "told rid s \<Longrightarrow> told rid (state_of (event_step clock rid idle e s))"
  using told_idle_check [OF told_apply_event [of rid s clock e], of clock idle
      "responses_event_has_meaningful_content e"]
  by (auto simp: event_step_def split: option.splits step_result.splits)

lemma told_frame_step: "told rid s \<Longrightarrow> told rid (state_of (frame_step w fmt clock rid idle f s))"
  by (cases f)
    (auto simp: absorb_frame_def told_responses_fields told_event_step split: option.splits sum.splits prod.splits)

interpretation response_steps: stream_step "frame_step w fmt clock rid idle" "told rid"
  by unfold_locales (rule told_frame_step)

lemma responses_told: "told rid (fst (responses_run w fmt clock utc frames md rid idle c))"
  unfolding responses_run_def
  by (rule response_steps.pump_keeps, rule told_start) (simp_all add: responses_start_def)

interpretation responses: stream_transform
  "\<lambda>rid (l, w, fmt, clock, utc, frames, md, idle, c). stream_responses l w fmt clock utc frames md rid idle c"
  by unfold_locales
    (auto simp: stream_responses_def responses_finished_def split: option.splits
      intro: close_well_terminated responses_told)

subsection \<open>The collector during a stream\<close>

text \<open>A step touches the collector only by absorbing its frame.\<close>

lemma apply_event_doom: "doom (apply_event clock rid e s) = doom s"
proof (cases e)
  case (OutputItemAdded k i)
  then show ?thesis by (cases i) (simp_all add: emit_def)
next
  case (OutputItemDone i)
  then show ?thesis by (cases i) (simp_all add: emit_def)
qed (auto simp: text_token_eq reasoning_token_eq emit_def split: option.splits)

lemma idle_check_doom: "doom (state_of (idle_check clock idle b s)) = doom s"
  by (simp add: idle_check_def Let_def tick_def)

lemma event_step_doom: "doom (state_of (event_step clock rid idle e s)) = doom s"
  using idle_check_doom [of clock idle "responses_event_has_meaningful_content e" "apply_event clock rid e s"]
  by (auto simp: event_step_def apply_event_doom split: option.splits step_result.splits)

definition harmless :: "responses_state \<Rightarrow> bool" where
  "harmless s = (case doom s of Some c \<Rightarrow> abort_disarmed c | None \<Rightarrow> True)"

lemma absorb_disarmed: "absorb w name data c = (b, c') \<Longrightarrow> abort_disarmed c' = abort_disarmed c"
  by (auto simp: absorb_def Let_def log_malformed_once_def collector_record_def
      split: doom_loop_peek.splits if_splits)

lemma absorb_frame_harmless: "harmless s \<Longrightarrow> harmless (snd (absorb_frame w name data s))"
  by (auto simp: harmless_def absorb_frame_def absorb_disarmed split: option.splits prod.splits)

lemma harmless_frame_step:
  assumes "harmless s"
  shows "harmless (state_of (frame_step w fmt clock rid idle f s))"
proof (cases f)
  case (Pair name data)
  obtain b s1 where a: "absorb_frame w name data s = (b, s1)" by fastforce
  then have "harmless s1" using absorb_frame_harmless [OF assms, of w name data] by simp
  moreover from this have "harmless (state_of (event_step clock rid idle e s1))" for e
    by (simp add: harmless_def event_step_doom)
  ultimately show ?thesis using assms a by (simp add: Pair split: option.splits sum.splits)
qed

interpretation disarmed_steps: stream_step "frame_step w fmt clock rid idle" harmless
  by unfold_locales (rule harmless_frame_step)

subsection \<open>The accepted response\<close>

text \<open>The response a stream completes with arrived in one of its frames.\<close>

definition came_in ::
    "'w world_scheme \<Rightarrow> wire_formats \<Rightarrow> (str \<times> str) set \<Rightarrow> responses_state \<Rightarrow> bool" where
  "came_in w fmt fs s =
     (\<forall>r. final_response s = Some r \<longrightarrow>
        (\<exists>name data. (name, data) \<in> fs
           \<and> deserialize_response_event w fmt data \<in> {Inr (ResponseCompleted r), Inr (ResponseIncomplete r)}))"

lemma apply_event_final:
  "final_response (apply_event clock rid e s)
     = (case e of ResponseCompleted r \<Rightarrow> Some r | ResponseIncomplete r \<Rightarrow> Some r | _ \<Rightarrow> final_response s)"
proof (cases e)
  case (OutputItemAdded k i)
  then show ?thesis by (cases i) (simp_all add: emit_def)
next
  case (OutputItemDone i)
  then show ?thesis by (cases i) (simp_all add: emit_def)
qed (auto simp: text_token_eq reasoning_token_eq emit_def split: option.splits)

lemma event_step_final:
  assumes "final_response (state_of (event_step clock rid idle e s)) = Some r"
  shows "final_response s = Some r \<or> e = ResponseCompleted r \<or> e = ResponseIncomplete r"
proof -
  have "final_response (state_of (event_step clock rid idle e s))
      \<in> {final_response s, final_response (apply_event clock rid e s)}"
    by (auto simp: event_step_def idle_check_def tick_def Let_def split: option.splits)
  with assms show ?thesis unfolding apply_event_final by (auto split: response_event.splits)
qed

lemma frame_step_came_in:
  assumes "(name, data) \<in> fs" "came_in w fmt fs s"
  shows "came_in w fmt fs (state_of (frame_step w fmt clock rid idle (name, data) s))"
proof -
  obtain b s1 where a: "absorb_frame w name data s = (b, s1)" by fastforce
  then have same: "final_response s1 = final_response s"
    by (auto simp: absorb_frame_def split: option.splits prod.splits)
  have "came_in w fmt fs (state_of (event_step clock rid idle e s1))"
    if "deserialize_response_event w fmt data = Inr e" for e
    using assms that same by (force simp: came_in_def dest: event_step_final)
  moreover have "came_in w fmt fs s1" using assms(2) by (simp add: came_in_def same)
  ultimately show ?thesis using assms(2) a by (simp split: option.splits sum.splits)
qed

lemma responses_came_in:
  assumes "final_response (fst (responses_run w fmt clock utc frames md rid idle c)) = Some r"
  shows "\<exists>name data. Frame name data \<in> set frames
    \<and> deserialize_response_event w fmt data \<in> {Inr (ResponseCompleted r), Inr (ResponseIncomplete r)}"
proof -
  let ?fs = "{(name, data). Frame name data \<in> set frames}"
  have arrived: "x \<in> ?fs" if "Arrived x \<in> set (map arrival frames)" for x
  proof -
    from that obtain f where "f \<in> set frames" "arrival f = Arrived x" by auto
    then show ?thesis by (cases f rule: sse.exhaust; cases x) auto
  qed
  have "came_in w fmt ?fs (fst (responses_run w fmt clock utc frames md rid idle c))"
    unfolding responses_run_def
  proof (rule pump_keeps_on)
    show "came_in w fmt ?fs (state_of (frame_step w fmt clock rid idle x s))"
      if "Arrived x \<in> set (map arrival frames)" "came_in w fmt ?fs s" for x s
      using frame_step_came_in [of "fst x" "snd x", OF _ that(2)] arrived [OF that(1)] by simp
  qed (simp add: came_in_def responses_start_def)
  with assms show ?thesis by (auto simp: came_in_def)
qed

lemma calls_tools_others: "list_ex calls_tools xs = list_ex calls_tools (filter (\<lambda>i. \<not> is_reasoning i) xs)"
proof (induction xs)
  case (Cons x xs)
  then show ?case by (cases x) auto
qed simp

lemma siblings_no_calls: "\<not> list_ex calls_tools (List.map_filter sibling os)"
proof -
  have "\<not> calls_tools x" if "x \<in> set (List.map_filter sibling os)" for x
    using siblings_no_assistant [OF that] by (cases x) auto
  then show ?thesis by (auto simp: list_ex_iff)
qed


text \<open>A response with one reasoning item and one function call, in one frame.\<close>

definition example_call :: tool_call where
  "example_call = \<lparr>call_id = ''c1'', call_name = ''read'', arguments = ''{}''\<rparr>"

definition example_wire_response :: wire_response where
  "example_wire_response =
     \<lparr>resp_output = [FunctionCall example_call], resp_model = ''m'', resp_metadata = None, resp_effort = None,
      resp_status = RsCompleted, resp_error = None, resp_usage = None\<rparr>"

definition response_formats :: wire_formats where
  "response_formats =
     \<lparr>error_response = (\<lambda>_. None), flat_error_response = (\<lambda>_. None), 
      chat_chunk_of = (\<lambda>_. Inr \<lparr>chunk_model = ''m'', chunk_choices = [], chunk_usage = None,
                                 system_fingerprint = None\<rparr>),
      message_event_of = (\<lambda>_. Inr Ping), response_event_of = (\<lambda>_. Inr (ResponseCompleted example_wire_response)),
      response_event_of_value = (\<lambda>_. None), tool_parses = (\<lambda>_. True)\<rparr>"

lemma example_response_completes:
  "\<exists>r m. List.last (stream_responses example_libraries example_world response_formats (\<lambda>_. 0) 0
            [Frame ''response.completed'' ''{}''] None ''r'' 1 None) = Completed ''r'' r m"
  by (simp add: stream_responses_def responses_run_def close_stream_def responses_start_def
      absorb_frame_def is_check_event_def doom_loop_check_event_type_def example_world_def done_marker_def
      try_parse_stream_error_def try_parse_error_def
      response_formats_def deserialize_response_event_def override_response_def event_step_def
      armed_triggers_def idle_check_def tick_def Let_def responses_finished_def)


end
