(* ===== verification/Sampler_Retry.thy ===== *)
theory Sampler_Retry
  imports Sampling_Errors
begin

text \<open>
  Retry classification, backoff and messages of the sampler (\<^verbatim>\<open>xai-grok-sampler/src/retry.rs\<close>).  A
  duration is a number of milliseconds.  The output of the hasher, seeded with a counter and the
  thread, is an argument \<open>h\<close> of the definitions that use it.
\<close>

unbundle bit_operations_syntax

subsection \<open>Budgets\<close>

definition rate_limit_retry_threshold_default :: "32 word" where
  "rate_limit_retry_threshold_default = 2"

definition default_max_retries :: "32 word" where
  "default_max_retries = 15"

definition parse_u32 :: "str \<Rightarrow> 32 word option" where
  "parse_u32 s = map_option of_nat (parse_unsigned (2 ^ 32) s)"

definition resolve_max_retries_with_env :: "str option \<Rightarrow> 32 word option \<Rightarrow> 32 word" where
  "resolve_max_retries_with_env env_override model =
     (case or_else (Option.bind env_override parse_u32) model of
        Some n \<Rightarrow> n | None \<Rightarrow> default_max_retries)"

subsection \<open>Backoff\<close>

definition doom_loop_backoff :: "64 word \<Rightarrow> nat" where
  "doom_loop_backoff h = unat (h mod 251)"

definition u32_saturating_sub :: "32 word \<Rightarrow> 32 word \<Rightarrow> 32 word" where
  "u32_saturating_sub a b = (if b \<le> a then a - b else 0)"

text \<open>\<^verbatim>\<open>u64::checked_shl\<close> checks the shift amount only; bits shifted out are lost.\<close>

definition checked_shl :: "64 word \<Rightarrow> 32 word \<Rightarrow> 64 word option" where
  "checked_shl a n = (if n < 64 then Some (push_bit (unat n) a) else None)"

definition base_ms :: "32 word \<Rightarrow> 64 word" where
  "base_ms retry_count =
     min (case checked_shl 2000 (u32_saturating_sub retry_count 1) of Some v \<Rightarrow> v | None \<Rightarrow> - 1) 30000"

definition retry_backoff_with_jitter :: "64 word \<Rightarrow> 32 word \<Rightarrow> nat" where
  "retry_backoff_with_jitter h retry_count =
     (let base = base_ms retry_count; jitter_range = base div 5;
          jitter = h mod (jitter_range * 2 + 1)
      in unat (base - jitter_range + jitter))"

subsection \<open>Decisions\<close>

datatype retry_decision =
  Retry nat
| RetryWithBackoff nat bool
| RetryWithImageStrip
| RetryWithClientRebuild nat
| EmitToSession sampling_error
| Fatal sampling_error

definition backoff_for :: "64 word \<Rightarrow> sampling_error \<Rightarrow> 32 word \<Rightarrow> nat" where
  "backoff_for h e next_attempt =
     (case error_retry_after e of
        Some secs \<Rightarrow> secs * 1000 | None \<Rightarrow> retry_backoff_with_jitter h next_attempt)"

definition is_doom_loop :: "sampling_error \<Rightarrow> bool" where
  "is_doom_loop e = (case e of DoomLoopDetected _ _ \<Rightarrow> True | _ \<Rightarrow> False)"

definition classify_error ::
    "libraries \<Rightarrow> 64 word \<Rightarrow> sampling_error \<Rightarrow> 32 word \<Rightarrow> 32 word \<Rightarrow> 32 word \<Rightarrow> retry_decision" where
  "classify_error l h e retry_count max_retries rate_limit_threshold =
     (if is_auth_error e then EmitToSession (clone_error l e)
      else if is_encrypted_content_error e then EmitToSession (clone_error l e)
      else if is_payload_too_large e then RetryWithImageStrip
      else if is_image_processing_error e then RetryWithImageStrip
      else if should_retry_header e = Some False then Fatal (clone_error l e)
      else if is_context_length_error e then Fatal (clone_error l e)
      else if is_doom_loop e then Retry (doom_loop_backoff h)
      else if is_rate_limited e
      then (let next_attempt = retry_count + 1;
                effective_cap = min max_retries rate_limit_threshold
            in if effective_cap \<le> next_attempt then Fatal (clone_error l e)
               else RetryWithBackoff (backoff_for h e next_attempt) True)
      else if is_retryable e
      then (let next_attempt = retry_count + 1
            in if max_retries \<le> next_attempt then Fatal (clone_error l e)
               else if next_attempt = 1 then RetryWithClientRebuild (backoff_for h e next_attempt)
               else Retry (backoff_for h e next_attempt))
      else Fatal (clone_error l e))"

subsection \<open>Messages\<close>

definition retry_prefix :: "32 word option \<Rightarrow> str" where
  "retry_prefix retry_count =
     (case retry_count of
        Some count \<Rightarrow> ''Request failed after '' @ digits (unat count) @ '' retries. ''
      | None \<Rightarrow> [])"

definition http_details :: "libraries \<Rightarrow> http_error \<Rightarrow> str list" where
  "http_details l e =
     (if is_timeout e then [''timeout''] else [])
       @ (if is_connect e then [''connection failed''] else [])
       @ (case http_status e of Some st \<Rightarrow> [''status '' @ status_text l st] | None \<Rightarrow> [])
       @ (case http_url e of Some url \<Rightarrow> [''url: '' @ url] | None \<Rightarrow> [])"

definition status_hint :: "16 word \<Rightarrow> str" where
  "status_hint st =
     (if st = 400 then '' (bad request - check your input)''
      else if st = 401 \<or> st = 403 then '' (authentication issue - check your API key)''
      else if st = 404 then '' (endpoint not found - check model configuration)''
      else if st = 413 then '' (request too large - try /compact or start new session)''
      else if st = 429 then '' (rate limited - please wait and retry)''
      else if st = 500 then '' (server internal error)''
      else if st = 502 \<or> st = 503 \<or> st = 504 then '' (server unavailable - please retry)''
      else [])"

definition bool_text :: "bool \<Rightarrow> str" where
  "bool_text b = (if b then ''true'' else ''false'')"

fun format_error_body :: "libraries \<Rightarrow> sampling_error \<Rightarrow> str" where
  "format_error_body l (Auth m) =
     ''Authentication failed: '' @ m @ ''. Please check your API key configuration.''"
| "format_error_body l (InvalidConfiguration m) =
     ''Invalid configuration: '' @ m @ ''. Please check your model settings.''"
| "format_error_body l (Http e) =
     ''HTTP request failed: ''
       @ (if http_details l e = [] then http_text e
          else http_text e @ '' ('' @ join '', '' (http_details l e) @ '')'')
       @ ''. This may be a network issue or the API endpoint may be unavailable.''"
| "format_error_body l (Serialization e) =
     ''Failed to parse API response at line '' @ digits (json_line e) @ '' column '' @ digits (json_column e)
       @ '': '' @ json_text e @ ''. This indicates an unexpected response format from the server.''"
| "format_error_body l (Api st m md ra sr) =
     ''API error (HTTP '' @ digits (unat st) @ status_hint st @ ''): '' @ m"
| "format_error_body l (EventStreamError m) =
     ''Event stream error: '' @ m @ ''. The connection to the server was interrupted.''"
| "format_error_body l (StreamError t m) =
     ''Server stream error ('' @ t @ ''): '' @ m
       @ ''. The server encountered an error while streaming the response.''"
| "format_error_body l (IdleTimeout n) =
     ''Model stopped responding after '' @ digits n
       @ ''s. The model may be overloaded or stuck. Try again or use a different model.''"
| "format_error_body l (EmptyResponse c) =
     ''Empty response from model ('' @ empty_reason_str (empty_cause c) @ ''): model='' @ ctx_model c
       @ '', had_reasoning='' @ bool_text (had_reasoning c) @ '', finish_reason='' @ finish_reason_str c
       @ '', completion_tokens=''
       @ digits (case ctx_completion_tokens c of Some n \<Rightarrow> unat n | None \<Rightarrow> 0)"
| "format_error_body l MaxTokensTruncation = ''Response truncated by max_tokens.''"
| "format_error_body l (DoomLoopDetected ts at) =
     ''Server detected a reasoning loop ('' @ join '', '' ts @ ''); resampling the response.''"

definition format_sampling_error :: "libraries \<Rightarrow> sampling_error \<Rightarrow> 32 word option \<Rightarrow> str" where
  "format_sampling_error l e retry_count = retry_prefix retry_count @ format_error_body l e"

subsection \<open>Bounds of the backoff\<close>

text \<open>The intended delay: 2 s, 4 s, 8 s, \<open>\<dots>\<close>, at most 30 s.\<close>

definition intended_ms :: "nat \<Rightarrow> nat" where
  "intended_ms n = min (2000 * 2 ^ (n - 1)) 30000"

lemma base_ms_small: "unat n \<le> 60 \<Longrightarrow> unat (base_ms n) = intended_ms (unat n)"
proof -
  assume n: "unat n \<le> 60"
  have eval: "list_all (\<lambda>k. unat (base_ms (word_of_nat k)) = intended_ms k) [2..<61]"
    by (simp add: base_ms_def checked_shl_def u32_saturating_sub_def intended_ms_def)
  consider "unat n = 0" | "unat n = 1" | "unat n \<in> set [2..<61]"
    using n unfolding set_upt atLeastLessThan_iff by linarith
  then show ?thesis
  proof cases
    case 1
    then have "n = 0" by (simp add: unat_eq_zero)
    then show ?thesis by (simp add: base_ms_def checked_shl_def u32_saturating_sub_def intended_ms_def)
  next
    case 2
    then have "word_of_nat (unat n) = (1 :: 32 word)" by simp
    then have "n = 1" by simp
    then show ?thesis by (simp add: base_ms_def checked_shl_def u32_saturating_sub_def intended_ms_def)
  next
    case 3
    with eval have "unat (base_ms (word_of_nat (unat n))) = intended_ms (unat n)"
      unfolding list_all_iff by blast
    then show ?thesis by simp
  qed
qed

lemma base_ms_gap: "61 \<le> unat n \<Longrightarrow> unat n \<le> 64 \<Longrightarrow> base_ms n = 0"
proof -
  assume "61 \<le> unat n" "unat n \<le> 64"
  then have "unat n \<in> set [61..<65]" unfolding set_upt atLeastLessThan_iff by linarith
  moreover have "list_all (\<lambda>k. base_ms (word_of_nat k) = 0) [61..<65]"
    by (simp add: base_ms_def checked_shl_def u32_saturating_sub_def)
  ultimately have "base_ms (word_of_nat (unat n)) = 0" unfolding list_all_iff by blast
  then show ?thesis by simp
qed

lemma base_ms_large: "64 < unat n \<Longrightarrow> base_ms n = 30000"
proof -
  assume n: "64 < unat n"
  have "unat (n - 1) = unat n - 1" using n by (subst unat_sub) (auto simp: word_le_nat_alt)
  with n have "\<not> n - 1 < 64" by (simp add: word_less_nat_alt)
  moreover have "1 \<le> n" using n by (simp add: word_le_nat_alt)
  moreover have "min (- 1) (30000 :: 64 word) = 30000" by simp
  ultimately show ?thesis by (simp add: base_ms_def checked_shl_def u32_saturating_sub_def)
qed

lemma base_ms_cap: "unat (base_ms n) \<le> 30000"
proof -
  have "base_ms n \<le> 30000" unfolding base_ms_def by simp
  then show ?thesis by (simp add: word_le_nat_alt)
qed

lemma backoff_around_base:
  "unat (base_ms n) - unat (base_ms n) div 5 \<le> retry_backoff_with_jitter h n
   \<and> retry_backoff_with_jitter h n \<le> unat (base_ms n) + unat (base_ms n) div 5"
proof -
  define b where "b = base_ms n"
  define B where "B = unat b"
  have B: "B \<le> 30000" unfolding B_def b_def by (rule base_ms_cap)
  have r: "unat (b div 5) = B div 5" by (simp add: unat_div B_def)
  have width: "unat (b div 5 * 2 + 1) = B div 5 * 2 + 1"
    using B r by (simp add: unat_word_ariths)
  have j: "unat (h mod (b div 5 * 2 + 1)) = unat h mod (B div 5 * 2 + 1)"
    by (simp only: unat_mod width)
  have "b div 5 \<le> b" by (simp add: word_le_nat_alt r B_def [symmetric])
  then have sub: "unat (b - b div 5) = B - B div 5" by (simp add: unat_sub r B_def)
  have small: "unat h mod (B div 5 * 2 + 1) \<le> B div 5 * 2" by (simp add: less_Suc_eq_le [symmetric])
  have "unat (b - b div 5 + h mod (b div 5 * 2 + 1)) = (B - B div 5) + unat h mod (B div 5 * 2 + 1)"
  proof -
    have "(B - B div 5) + unat h mod (B div 5 * 2 + 1) \<le> 90000" using B small by linarith
    also have "\<dots> < 2 ^ 64" by simp
    finally show ?thesis by (subst unat_word_ariths(1)) (simp only: sub j, simp)
  qed
  then have "retry_backoff_with_jitter h n = (B - B div 5) + unat h mod (B div 5 * 2 + 1)"
    by (simp add: retry_backoff_with_jitter_def b_def Let_def)
  moreover have "B div 5 \<le> B" by simp
  ultimately show ?thesis using small unfolding b_def [symmetric] B_def [symmetric] by linarith
qed

lemma backoff_vanishes: "61 \<le> unat n \<Longrightarrow> unat n \<le> 64 \<Longrightarrow> retry_backoff_with_jitter h n = 0"
  using backoff_around_base [of n h] by (simp add: base_ms_gap)

text \<open>
  C38. The backoff is the documented one up to 60 retries: 2 s, 4 s, 8 s and so on, at most 30 s, each
  give or take a fifth; beyond 64 retries it is 30 s, give or take a fifth.  In between there is no
  backoff at all: the shift of 2000 by 60 to 63 places loses every bit although its amount is in
  range, so the delay that should be capped at 30 s is zero.
\<close>

theorem backoff_within_a_fifth:
  "(unat n \<le> 60 \<longrightarrow>
      4 * intended_ms (unat n) \<le> 5 * retry_backoff_with_jitter h n
      \<and> 5 * retry_backoff_with_jitter h n \<le> 6 * intended_ms (unat n))
   \<and> (61 \<le> unat n \<and> unat n \<le> 64 \<longrightarrow> retry_backoff_with_jitter h n = 0)
   \<and> (64 < unat n \<longrightarrow>
      24000 \<le> retry_backoff_with_jitter h n \<and> retry_backoff_with_jitter h n \<le> 36000)"
proof (intro conjI impI)
  have fifth: "4 * B \<le> 5 * (B - B div 5)" "5 * (B + B div 5) \<le> 6 * B" for B :: nat by presburger+
  assume "unat n \<le> 60"
  then have B: "unat (base_ms n) = intended_ms (unat n)" by (rule base_ms_small)
  show "4 * intended_ms (unat n) \<le> 5 * retry_backoff_with_jitter h n"
    using backoff_around_base [of n h] fifth(1) [of "intended_ms (unat n)"] unfolding B by linarith
  show "5 * retry_backoff_with_jitter h n \<le> 6 * intended_ms (unat n)"
    using backoff_around_base [of n h] fifth(2) [of "intended_ms (unat n)"] unfolding B by linarith
next
  assume "61 \<le> unat n \<and> unat n \<le> 64"
  then show "retry_backoff_with_jitter h n = 0" by (simp add: backoff_vanishes)
next
  assume "64 < unat n"
  then have "unat (base_ms n) = 30000" by (simp add: base_ms_large)
  then show "24000 \<le> retry_backoff_with_jitter h n" "retry_backoff_with_jitter h n \<le> 36000"
    using backoff_around_base [of n h] by simp_all
qed

lemma backoff_within_a_fifth_witness:
  "24000 \<le> retry_backoff_with_jitter 7 15 \<and> retry_backoff_with_jitter 7 15 \<le> 36000
   \<and> retry_backoff_with_jitter 12345 62 = 0"
  using backoff_within_a_fifth [of 15 7] backoff_within_a_fifth [of 62 12345]
  by (simp add: intended_ms_def)

subsection \<open>What is retried\<close>

fun retries :: "retry_decision \<Rightarrow> bool" where
  "retries (Retry _) = True"
| "retries (RetryWithBackoff _ _) = True"
| "retries (RetryWithClientRebuild _) = True"
| "retries RetryWithImageStrip = False"
| "retries (EmitToSession _) = False"
| "retries (Fatal _) = False"

definition strips_images :: "sampling_error \<Rightarrow> bool" where
  "strips_images e = (is_payload_too_large e \<or> is_image_processing_error e)"

definition for_session :: "sampling_error \<Rightarrow> bool" where
  "for_session e = (is_auth_error e \<or> is_encrypted_content_error e)"

definition within_budget :: "sampling_error \<Rightarrow> 32 word \<Rightarrow> 32 word \<Rightarrow> 32 word \<Rightarrow> bool" where
  "within_budget e n m t =
     (is_doom_loop e \<or> n + 1 < m \<and> (is_rate_limited e \<longrightarrow> n + 1 < t))"

text \<open>The error a decision hands back.\<close>

fun handed_back :: "retry_decision \<Rightarrow> sampling_error option" where
  "handed_back (EmitToSession e) = Some e"
| "handed_back (Fatal e) = Some e"
| "handed_back _ = None"

lemma session_not_retryable: "for_session e \<Longrightarrow> \<not> is_retryable e"
  by (cases e) (auto simp: for_session_def retryable_statuses_def)

lemma too_large_not_retryable: "is_payload_too_large e \<Longrightarrow> \<not> is_retryable e \<and> \<not> for_session e"
  by (cases e) (auto simp: for_session_def retryable_statuses_def)

lemma doom_loop_plain:
  "is_doom_loop e \<Longrightarrow> is_retryable e \<and> \<not> is_rate_limited e \<and> should_retry_header e = None"
  by (cases e) (auto simp: is_doom_loop_def)

lemma rate_limited_retryable: "is_rate_limited e \<Longrightarrow> is_retryable e"
  by (cases e) (auto simp: retryable_statuses_def)

lemma classify_retries:
  "retries (classify_error l h e n m t) \<longleftrightarrow>
     is_retryable e \<and> \<not> is_image_processing_error e \<and> should_retry_header e \<noteq> Some False
     \<and> \<not> is_context_length_error e \<and> within_budget e n m t"
  using session_not_retryable [of e] too_large_not_retryable [of e] doom_loop_plain [of e]
    rate_limited_retryable [of e]
  by (auto simp: classify_error_def for_session_def within_budget_def Let_def not_le min_le_iff_disj)

lemma classify_strips:
  "classify_error l h e n m t = RetryWithImageStrip \<longleftrightarrow> \<not> for_session e \<and> strips_images e"
  by (auto simp: classify_error_def for_session_def strips_images_def Let_def)

lemma classify_emits:
  "classify_error l h e n m t = EmitToSession x \<longleftrightarrow> for_session e \<and> x = clone_error l e"
  by (auto simp: classify_error_def for_session_def Let_def)

lemma classify_hands_back:
  "handed_back (classify_error l h e n m t) = Some x \<Longrightarrow> x = clone_error l e"
  by (auto simp: classify_error_def Let_def split: if_splits)

text \<open>
  C21. The decision table.  An error goes to the session exactly when it is an authentication error or
  concerns encrypted content; the images are stripped exactly when the request was too large or the
  server could not process an image; the request is repeated exactly when the error is retryable, is
  no image or context-length error, the server did not forbid it and the budget has room; every
  other error is fatal, and what is handed back is the copy of the error.
\<close>

theorem classification_table:
  "(\<forall>x. classify_error l h e n m t = EmitToSession x \<longleftrightarrow> for_session e \<and> x = clone_error l e)
   \<and> (classify_error l h e n m t = RetryWithImageStrip \<longleftrightarrow> \<not> for_session e \<and> strips_images e)
   \<and> (retries (classify_error l h e n m t) \<longleftrightarrow>
        is_retryable e \<and> \<not> is_image_processing_error e \<and> should_retry_header e \<noteq> Some False
        \<and> \<not> is_context_length_error e \<and> within_budget e n m t)
   \<and> (\<forall>x. classify_error l h e n m t = Fatal x \<longrightarrow> x = clone_error l e)"
  using classify_hands_back [of l h e n m t]
  by (auto simp: classify_emits classify_strips classify_retries)

lemma classification_table_witness:
  "retries (classify_error example_libraries 0 (EventStreamError ''reset'') 0 15 2)
   \<and> classify_error example_libraries 0 (Auth ''no key'') 0 15 2 = EmitToSession (Auth ''no key'')"
proof
  show "retries (classify_error example_libraries 0 (EventStreamError ''reset'') 0 15 2)"
    using classification_table [of example_libraries 0 "EventStreamError ''reset''" 0 15 2]
    by (simp add: within_budget_def is_doom_loop_def)
  show "classify_error example_libraries 0 (Auth ''no key'') 0 15 2 = EmitToSession (Auth ''no key'')"
    using classification_table [of example_libraries 0 "Auth ''no key''" 0 15 2]
    by (simp add: for_session_def)
qed

text \<open>
  Of \<open>m\<close> retries the budget names one is never made: after \<open>m - 1\<close> of them a retryable error is
  fatal, and after \<open>t - 1\<close> rate-limit retries so is a rate limit; with the default threshold of 2 a
  rate-limited request is repeated once.
\<close>

lemma last_retry_is_never_made:
  "(\<not> is_doom_loop e \<longrightarrow> \<not> retries (classify_error l h e (m - 1) m t))
   \<and> (is_rate_limited e \<longrightarrow>
        \<not> retries (classify_error l h e 1 m rate_limit_retry_threshold_default))"
  using doom_loop_plain [of e]
  by (auto simp: classify_retries within_budget_def rate_limit_retry_threshold_default_def)

lemma last_retry_is_never_made_example:
  "\<not> retries (classify_error example_libraries 0 (EventStreamError ''reset'') (15 - 1) 15 2)"
  using last_retry_is_never_made [of "EventStreamError ''reset''" example_libraries 0 15 2]
  by (simp add: is_doom_loop_def)

end
