(* ===== verification/Sampler_Task.thy ===== *)
theory Sampler_Task
  imports Responses_Stream Sampler_Retry
begin

text \<open>
  The task of one sampling request (\<^verbatim>\<open>xai-grok-sampler/src/actor/request_task.rs\<close>): it sends the request,
  follows the stream of the reply, forwards its events, and on failure classifies the error and tries
  again, until there is a response, a fatal error or a cancellation.

  The rest of the world is the record \<open>sampler_env\<close>: the libraries, the value of the environment variable
  \<^verbatim>\<open>GROK_MAX_RETRIES\<close>, whether a client can be built from a configuration, and what the \<open>n\<close>-th attempt meets
  when a client sends a request.  A client is the configuration it was built from.  Cancellation is seen
  at the head of the loop and before every event of a stream; when it arrives is part of what an attempt
  meets.
\<close>

subsection \<open>Configuration and surroundings\<close>

datatype api_backend = ChatCompletions | ResponsesApi | MessagesApi

record sampler_config =
  backend :: api_backend
  config_max_retries :: "32 word option"
  idle_timeout_secs :: "nat option"
  doom_loop_recovery :: "recovery_policy option"
  force_http1 :: bool

record retry_settings =
  policy_max_retries :: "32 word"
  rate_limit_retry_threshold :: "32 word"

datatype connection = Refused sampling_error | Streaming "response_model_metadata option" "sse list"

record attempt_env =
  cancelled_before :: bool
  connects :: connection
  cancelled_at :: "nat option"
  attempt_clock :: "nat \<Rightarrow> nat"
  attempt_utc :: int
  attempt_hash :: "64 word"

record sampler_env =
  env_libraries :: libraries
  env_formats :: wire_formats
  env_world :: world
  env_max_retries :: "str option"
  build_client :: "sampler_config \<Rightarrow> sampling_error option"
  serve :: "nat \<Rightarrow> sampler_config \<Rightarrow> conversation_request \<Rightarrow> attempt_env"

definition default_idle_timeout_secs :: nat where
  "default_idle_timeout_secs = 300"

subsection \<open>One attempt\<close>

datatype attempt_outcome =
  OutcomeCompleted conversation_response latency_stats
| OutcomeEmpty empty_response_context
| OutcomeFailed sampling_error
| OutcomeCancelled
| OutcomeInitFailed sampling_error

definition build_empty_context :: "empty_reason \<Rightarrow> conversation_response \<Rightarrow> empty_response_context" where
  "build_empty_context cause r =
     \<lparr>empty_cause = cause, had_reasoning = list_ex carries_reasoning (reasoning_items r),
      content_len = (case assistant r of Some a \<Rightarrow> length (assistant_content a) | None \<Rightarrow> 0),
      tool_call_count = (case assistant r of Some a \<Rightarrow> length (tool_calls a) | None \<Rightarrow> 0),
      ctx_finish_reason = map_option stop_reason_str (stop_reason r),
      ctx_completion_tokens = map_option completion_tokens (usage r),
      ctx_reasoning_tokens = map_option reasoning_tokens (usage r),
      ctx_prompt_tokens = map_option prompt_tokens (usage r),
      ctx_model =
        (case assistant r of Some a \<Rightarrow> (case model_id a of Some m \<Rightarrow> m | None \<Rightarrow> []) | None \<Rightarrow> []),
      ctx_first_choice_seen = (case assistant r of Some a \<Rightarrow> model_id a \<noteq> None | None \<Rightarrow> False)\<rparr>"

text \<open>What becomes of a completed response: doom outranks truncation, truncation outranks emptiness.\<close>

definition judge_response ::
    "recovery_policy option \<Rightarrow> conversation_response \<Rightarrow> latency_stats \<Rightarrow> attempt_outcome" where
  "judge_response check r m =
     (let triggers = (case check of Some p \<Rightarrow> confident_triggers p (doom_loop_signals r) | None \<Rightarrow> [])
      in if triggers \<noteq> [] then OutcomeFailed (DoomLoopDetected triggers None)
         else if stop_reason r = Some Length then OutcomeFailed MaxTokensTruncation
         else case (if stop_reason r = Some ContentFilter then None else response_empty_reason r) of
                Some cause \<Rightarrow> OutcomeEmpty (build_empty_context cause r)
              | None \<Rightarrow> OutcomeCompleted r m)"

text \<open>
  The events forwarded and the outcome; \<open>n\<close> is the number of events after which the cancellation is seen,
  \<open>cell\<close> the error that the tee captured.
\<close>

fun drive_l2 ::
    "libraries \<Rightarrow> recovery_policy option \<Rightarrow> sampling_error option \<Rightarrow> nat option \<Rightarrow> sampling_event list
       \<Rightarrow> sampling_event list \<times> attempt_outcome" where
  "drive_l2 l check cell n [] =
     ([], if n = Some 0 then OutcomeCancelled
          else OutcomeFailed (EventStreamError ''stream dropped without terminal event''))"
| "drive_l2 l check cell n (e # es) =
     (if n = Some 0 then ([], OutcomeCancelled)
      else case e of
             Completed _ r m \<Rightarrow> ([], judge_response check r m)
           | Failed _ info \<Rightarrow>
               ([], OutcomeFailed (case cell of Some x \<Rightarrow> x | None \<Rightarrow> synthesize_from_info l info))
           | _ \<Rightarrow> (case drive_l2 l check cell (map_option (\<lambda>k. k - 1) n) es of
                     (fs, outcome) \<Rightarrow> (e # fs, outcome)))"

definition run_one_attempt ::
    "sampler_env \<Rightarrow> attempt_env \<Rightarrow> sampler_config \<Rightarrow> str \<Rightarrow> nat \<Rightarrow> recovery_policy option
       \<Rightarrow> sampling_event list \<times> attempt_outcome" where
  "run_one_attempt env a client rid idle_timeout doom_check =
     (let l = env_libraries env; fmt = env_formats env; clock = attempt_clock a; utc = attempt_utc a
      in case connects a of
           Refused e \<Rightarrow> ([], OutcomeInitFailed e)
         | Streaming md frames \<Rightarrow>
             (case backend client of
                ChatCompletions \<Rightarrow>
                  (let chunks = decode_frames fmt (chat_chunk_of fmt) frames
                   in drive_l2 l None (captured l (snd (chat_run clock utc chunks md rid idle_timeout)))
                        (cancelled_at a) (stream_chat_completions l clock utc chunks md rid idle_timeout))
              | ResponsesApi \<Rightarrow>
                  (let c = map_option collector_new (doom_loop_recovery client);
                       c = (if doom_check = None then map_option disarm_abort c else c);
                       w = env_world env
                   in drive_l2 l doom_check
                        (captured l (snd (responses_run w fmt clock utc frames md rid idle_timeout c)))
                        (cancelled_at a) (stream_responses l w fmt clock utc frames md rid idle_timeout c))
              | MessagesApi \<Rightarrow>
                  (let events = decode_frames fmt (message_event_of fmt) frames
                   in drive_l2 l None (captured l (snd (messages_run clock utc events md rid idle_timeout)))
                        (cancelled_at a) (stream_messages l clock utc events md rid idle_timeout))))"

subsection \<open>The loop\<close>

type_synonym completion_result = "sampling_error + conversation_response \<times> latency_stats"

text \<open>
  The variables of the task, with what it has sent: the events, the completion if a receiver waits for
  one, and the milliseconds it slept.
\<close>

record task =
  request :: conversation_request
  client :: sampler_config
  retry_count :: "32 word"
  doom_retry_count :: "32 word"
  attempt_no :: nat
  sent :: "sampling_event list"
  completion_tx :: bool
  completion :: "completion_result option"
  slept :: "nat list"

definition send :: "sampling_event \<Rightarrow> task \<Rightarrow> task" where
  "send e s = s\<lparr>sent := sent s @ [e]\<rparr>"

definition sleep :: "nat \<Rightarrow> task \<Rightarrow> task" where
  "sleep ms s = s\<lparr>slept := slept s @ [ms]\<rparr>"

definition send_completion :: "completion_result \<Rightarrow> task \<Rightarrow> task" where
  "send_completion result s =
     (if completion_tx s then s\<lparr>completion_tx := False, completion := Some result\<rparr> else s)"

definition emit_failed :: "libraries \<Rightarrow> str \<Rightarrow> sampling_error \<Rightarrow> task \<Rightarrow> task" where
  "emit_failed l rid e = send (Failed rid (info_of l e))"

definition emit_retrying ::
    "libraries \<Rightarrow> str \<Rightarrow> 32 word \<Rightarrow> 32 word \<Rightarrow> sampling_error \<Rightarrow> task \<Rightarrow> task" where
  "emit_retrying l rid attempt max_retries e =
     (let info = info_of l e
      in send (Retrying rid attempt max_retries (info_kind info) (error_text l e)
                 (info_doom_triggers info) (info_doom_chunk info)))"

definition cancelled_info :: sampling_error_info where
  "cancelled_info =
     \<lparr>info_kind = KApi, info_status = None, info_message = ''request cancelled'', info_retryable = False,
      info_retry_after = None, info_metadata = None, info_empty_context = None,
      info_doom_triggers = None, info_doom_chunk = None\<rparr>"

definition handle_cancellation :: "str \<Rightarrow> task \<Rightarrow> task" where
  "handle_cancellation rid s =
     send_completion (Inl (Auth ''request cancelled'')) (send (Failed rid cancelled_info) s)"

text \<open>A failed request: the error that is shown and the one that is returned.\<close>

definition fail_with :: "libraries \<Rightarrow> str \<Rightarrow> sampling_error \<Rightarrow> sampling_error \<Rightarrow> task \<Rightarrow> task" where
  "fail_with l rid shown returned s = send_completion (Inl returned) (emit_failed l rid shown s)"

definition count_retry :: "libraries \<Rightarrow> str \<Rightarrow> 32 word \<Rightarrow> sampling_error \<Rightarrow> task \<Rightarrow> task" where
  "count_retry l rid max_retries e s =
     (let s = s\<lparr>retry_count := retry_count s + 1\<rparr> in emit_retrying l rid (retry_count s) max_retries e s)"

definition effective_threshold :: "retry_settings \<Rightarrow> 32 word" where
  "effective_threshold p =
     (if rate_limit_retry_threshold p = 0 then rate_limit_retry_threshold_default
      else rate_limit_retry_threshold p)"

text \<open>The left value ends the task, the right one goes round the loop again.\<close>

definition apply_retry_decision ::
    "sampler_env \<Rightarrow> retry_settings \<Rightarrow> sampler_config \<Rightarrow> str \<Rightarrow> 32 word \<Rightarrow> 64 word \<Rightarrow> sampling_error \<Rightarrow> task
       \<Rightarrow> task + task" where
  "apply_retry_decision env rp config rid max_retries h err s =
     (let l = env_libraries env;
          decision = classify_error l h err (retry_count s) max_retries (effective_threshold rp);
          s = (if is_likely_body_rejected err then s\<lparr>request := snd (strip_images (request s))\<rparr> else s)
      in case decision of
           Retry backoff \<Rightarrow> Inr (sleep backoff (count_retry l rid max_retries err s))
         | RetryWithBackoff backoff _ \<Rightarrow> Inr (sleep backoff (count_retry l rid max_retries err s))
         | RetryWithImageStrip \<Rightarrow>
             (case strip_images (request s) of
                (stripped, req) \<Rightarrow>
                  if stripped = 0 then Inl (fail_with l rid err (clone_error l err) s)
                  else Inr (count_retry l rid max_retries err (s\<lparr>request := req\<rparr>)))
         | RetryWithClientRebuild backoff \<Rightarrow>
             (let s = sleep backoff (count_retry l rid max_retries err s);
                  http1_config = config\<lparr>force_http1 := True\<rparr>
              in Inr (case build_client env http1_config of
                        None \<Rightarrow> s\<lparr>client := http1_config\<rparr> | Some e \<Rightarrow> s))
         | EmitToSession e \<Rightarrow> Inl (fail_with l rid e e s)
         | Fatal e \<Rightarrow> Inl (fail_with l rid e e s))"

definition doom_max_retries :: "sampler_config \<Rightarrow> 32 word" where
  "doom_max_retries config = (case doom_loop_recovery config of Some p \<Rightarrow> doom_retries p | None \<Rightarrow> 0)"

definition resample ::
    "sampler_env \<Rightarrow> sampler_config \<Rightarrow> str \<Rightarrow> 64 word \<Rightarrow> sampling_error \<Rightarrow> task \<Rightarrow> task" where
  "resample env config rid h err s =
     (let s = s\<lparr>doom_retry_count := doom_retry_count s + 1\<rparr>
      in sleep (doom_loop_backoff h)
           (emit_retrying (env_libraries env) rid (doom_retry_count s) (doom_max_retries config) err s))"

definition accept_response :: "str \<Rightarrow> conversation_response \<Rightarrow> latency_stats \<Rightarrow> task \<Rightarrow> task" where
  "accept_response rid r m s =
     (let m = m\<lparr>attempts := retry_count s + doom_retry_count s + 1\<rparr>
      in send_completion (Inr (r, m)) (send (Completed rid r m) s))"

definition one_round ::
    "sampler_env \<Rightarrow> retry_settings \<Rightarrow> sampler_config \<Rightarrow> str \<Rightarrow> 32 word \<Rightarrow> nat \<Rightarrow> task \<Rightarrow> task + task" where
  "one_round env rp config rid max_retries idle_timeout s =
     (let a = serve env (attempt_no s) (client s) (request s);
          retry = apply_retry_decision env rp config rid max_retries (attempt_hash a)
      in if cancelled_before a then Inl (handle_cancellation rid s)
         else (case run_one_attempt env a (client s) rid idle_timeout
                      (filter_option (\<lambda>_. doom_retry_count s < doom_max_retries config)
                         (doom_loop_recovery config)) of
                 (events, outcome) \<Rightarrow>
                   (let s = s\<lparr>attempt_no := Suc (attempt_no s), sent := sent s @ events\<rparr>
                    in case outcome of
                         OutcomeCompleted r m \<Rightarrow> Inl (accept_response rid r m s)
                       | OutcomeEmpty context \<Rightarrow> retry (EmptyResponse context) s
                       | OutcomeFailed e \<Rightarrow>
                           (if is_doom_loop e then Inr (resample env config rid (attempt_hash a) e s)
                            else retry e s)
                       | OutcomeCancelled \<Rightarrow> Inl (handle_cancellation rid s)
                       | OutcomeInitFailed e \<Rightarrow> retry e s)))"

text \<open>The loop itself, which may not end.\<close>

partial_function (option) iterate :: "('s \<Rightarrow> 't + 's) \<Rightarrow> 's \<Rightarrow> 't option" where
  "iterate step s = (case step s of Inl t \<Rightarrow> Some t | Inr s' \<Rightarrow> iterate step s')"

text \<open>
  What the rounds keep, what holds when they end, and a rank that falls with every further round: a
  loop that keeps the one ends in the other, and with a rank it does end.
\<close>

locale rounds =
  fixes step :: "'s \<Rightarrow> 't + 's" and keeps :: "'s \<Rightarrow> bool" and ends :: "'t \<Rightarrow> bool"
  assumes goes_on: "keeps s \<Longrightarrow> step s = Inr s' \<Longrightarrow> keeps s'"
    and stops: "keeps s \<Longrightarrow> step s = Inl t \<Longrightarrow> ends t"
begin

lemma iterate_ends: "iterate step s = Some t \<Longrightarrow> keeps s \<Longrightarrow> ends t"
proof -
  have "(\<forall>s s'. keeps s \<longrightarrow> f s = Inr s' \<longrightarrow> keeps s') \<and> (\<forall>s t. keeps s \<longrightarrow> f s = Inl t \<longrightarrow> ends t)
      \<longrightarrow> keeps s \<longrightarrow> ends t" if "iterate f s = Some t" for f s t
    using that
  proof (rule iterate.raw_induct [rotated])
    fix iterate f s t
    assume "\<And>f s t. iterate f s = Some t \<Longrightarrow>
        (\<forall>s s'. keeps s \<longrightarrow> f s = Inr s' \<longrightarrow> keeps s') \<and> (\<forall>s t. keeps s \<longrightarrow> f s = Inl t \<longrightarrow> ends t)
          \<longrightarrow> keeps s \<longrightarrow> ends t"
      and "(case f s of Inl t \<Rightarrow> Some t | Inr s' \<Rightarrow> iterate f s') = Some t"
    then show "(\<forall>s s'. keeps s \<longrightarrow> f s = Inr s' \<longrightarrow> keeps s') \<and> (\<forall>s t. keeps s \<longrightarrow> f s = Inl t \<longrightarrow> ends t)
          \<longrightarrow> keeps s \<longrightarrow> ends t"
      by (cases "f s") auto
  qed
  then show "iterate step s = Some t \<Longrightarrow> keeps s \<Longrightarrow> ends t" using goes_on stops by blast
qed

end

locale ranked_rounds = rounds step keeps ends
  for step :: "'s \<Rightarrow> 't + 's" and keeps ends +
  fixes rank :: "'s \<Rightarrow> nat"
  assumes falls: "keeps s \<Longrightarrow> step s = Inr s' \<Longrightarrow> rank s' < rank s"
begin

lemma iterate_returns: "keeps s \<Longrightarrow> \<exists>t. iterate step s = Some t"
proof (induction "rank s" arbitrary: s rule: less_induct)
  case less
  show ?case
  proof (cases "step s")
    case (Inl t)
    then show ?thesis by (simp add: iterate.simps)
  next
    case (Inr s')
    then obtain t where "iterate step s' = Some t"
      using less.hyps [of s'] falls [OF less.prems Inr] goes_on [OF less.prems Inr] by blast
    with Inr show ?thesis by (simp add: iterate.simps [of step s])
  qed
qed

end

definition initial_task :: "sampler_config \<Rightarrow> conversation_request \<Rightarrow> bool \<Rightarrow> task" where
  "initial_task config req waiting =
     \<lparr>request = req, client = config, retry_count = 0, doom_retry_count = 0, attempt_no = 0, sent = [],
      completion_tx = waiting, completion = None, slept = []\<rparr>"

definition task_max_retries :: "sampler_env \<Rightarrow> retry_settings \<Rightarrow> sampler_config \<Rightarrow> 32 word" where
  "task_max_retries env rp config =
     resolve_max_retries_with_env (env_max_retries env)
       (or_else (config_max_retries config) (Some (policy_max_retries rp)))"

definition run_request_task ::
    "sampler_env \<Rightarrow> retry_settings \<Rightarrow> sampler_config \<Rightarrow> str \<Rightarrow> conversation_request \<Rightarrow> bool \<Rightarrow> task option" where
  "run_request_task env rp config rid req waiting =
     (let idle_timeout =
            1000000000 * (case idle_timeout_secs config of Some n \<Rightarrow> n | None \<Rightarrow> default_idle_timeout_secs);
          s = initial_task config req waiting
      in case build_client env config of
           Some err \<Rightarrow> Some (fail_with (env_libraries env) rid err err s)
         | None \<Rightarrow>
             iterate (one_round env rp config rid (task_max_retries env rp config) idle_timeout) s)"

subsection \<open>What an attempt yields\<close>

text \<open>The outcome that the terminal event of a stream leads to.\<close>

fun terminal_outcome ::
    "libraries \<Rightarrow> recovery_policy option \<Rightarrow> sampling_error option \<Rightarrow> sampling_event \<Rightarrow> attempt_outcome" where
  "terminal_outcome l check cell (Completed _ r m) = judge_response check r m"
| "terminal_outcome l check cell (Failed _ info) =
     OutcomeFailed (case cell of Some x \<Rightarrow> x | None \<Rightarrow> synthesize_from_info l info)"
| "terminal_outcome l check cell _ = OutcomeCancelled"

lemma drive_l2_append:
  assumes "list_all (\<lambda>e. \<not> terminal e) pre" "terminal e"
  shows "drive_l2 l check cell n (pre @ [e]) =
    (if \<exists>k. n = Some k \<and> k \<le> length pre then (take (the n) pre, OutcomeCancelled)
     else (pre, terminal_outcome l check cell e))"
  using assms
proof (induction pre arbitrary: n)
  case Nil
  then show ?case by (cases e) auto
next
  case (Cons f pre)
  show ?case
  proof (cases n)
    case None
    with Cons show ?thesis by (cases f) auto
  next
    case (Some k)
    with Cons Cons.IH [of "map_option (\<lambda>k. k - 1) n"] show ?thesis by (cases k; cases f) auto
  qed
qed

text \<open>The stream of a transform, driven: events that are not terminal, and the judgement of the last.\<close>

lemma drive_close_stream:
  assumes "told rid (fst p)" "terminal (finished (fst p))"
    "drive_l2 l check cell n (close_stream l rid finished p) = (es, outcome)"
  shows "list_all (\<lambda>e. \<not> terminal e \<and> \<not> is_retrying e \<and> event_request e = rid) es
    \<and> (outcome = OutcomeCancelled
       \<or> outcome = terminal_outcome l check cell
           (case ending_error (snd p) of None \<Rightarrow> finished (fst p) | Some e \<Rightarrow> Failed rid (info_of l e)))"
proof -
  obtain s ending where p: "p = (s, ending)" by (cases p)
  have all: "list_all (\<lambda>e. \<not> terminal e \<and> \<not> is_retrying e \<and> event_request e = rid) (out s)"
    using assms(1) by (simp add: p told_def)
  have "list_all (\<lambda>e. \<not> terminal e) (out s)" using all by (simp add: list_all_iff)
  moreover have "terminal (case ending_error ending of None \<Rightarrow> finished s | Some e \<Rightarrow> Failed rid (info_of l e))"
    using assms(2) by (simp add: p split: option.splits)
  moreover have "list_all P (take k xs)" if "list_all P xs" for P k and xs :: "sampling_event list"
    using that by (auto simp: list_all_iff dest: in_set_takeD)
  ultimately show ?thesis using assms(3) all unfolding p fst_conv snd_conv
    by (auto simp: close_stream_def drive_l2_append split: if_splits)
qed

lemma judge_accepts:
  assumes "judge_response check r m = OutcomeCompleted r' m'"
  shows "r' = r \<and> stop_reason r \<noteq> Some Length
    \<and> (stop_reason r = Some ContentFilter \<or> response_empty_reason r = None)
    \<and> (\<forall>p. check = Some p \<longrightarrow> confident_triggers p (doom_loop_signals r) = [])"
  using assms by (auto simp: judge_response_def Let_def split: if_splits option.splits)

lemma judge_doom:
  "judge_response check r m = OutcomeFailed e \<Longrightarrow> is_doom_loop e \<Longrightarrow> check \<noteq> None"
  by (auto simp: judge_response_def Let_def is_doom_loop_def split: if_splits option.splits)

lemma judge_outcomes: "judge_response check r m \<noteq> OutcomeInitFailed e" "judge_response check r m \<noteq> OutcomeCancelled"
  by (auto simp: judge_response_def Let_def split: if_splits option.splits)

text \<open>No error is mistaken for a doom loop.\<close>

lemma synthesized_doom: "is_doom_loop (synthesize_from_info l (info_of l e)) = is_doom_loop e"
proof (cases e)
  case (Api st m md ra sr)
  then show ?thesis
    by (auto simp: synthesize_from_info_def info_of_def is_doom_loop_def split: if_splits)
qed (auto simp: synthesize_from_info_def info_of_def is_doom_loop_def serialization_from_rendered_def
      serialization_message_def split: option.splits)

lemma cloned_doom: "is_doom_loop (clone_error l e) = is_doom_loop e"
  by (cases e) (simp_all add: is_doom_loop_def serialization_message_def)

lemma decoder_error_plain: "decoder_error e \<Longrightarrow> \<not> is_doom_loop e"
  by (cases e) (simp_all add: is_doom_loop_def)

definition quiet_ending :: "ending \<Rightarrow> bool" where
  "quiet_ending ending = (\<forall>e. ending_error ending = Some e \<longrightarrow> \<not> is_doom_loop e)"

text \<open>
  The error a driven stream fails with is a doom loop only if the response was judged one, or the loop
  over the stream gave up for one.
\<close>

lemma drive_doom:
  assumes "told rid (fst p)" "terminal (finished (fst p))" "quiet_ending (snd p)"
    "\<And>r info. finished (fst p) = Failed r info \<Longrightarrow> \<exists>e. info = info_of l e \<and> \<not> is_doom_loop e"
    "drive_l2 l check (captured l (snd p)) n (close_stream l rid finished p) = (es, OutcomeFailed e)"
    "is_doom_loop e"
  shows "check \<noteq> None"
proof (cases "ending_error (snd p)")
  case None
  then have "captured l (snd p) = None" by (cases "snd p") simp_all
  moreover have "OutcomeFailed e = terminal_outcome l check (captured l (snd p)) (finished (fst p))"
    using drive_close_stream [OF assms(1,2,5)] None by auto
  ultimately show ?thesis using assms(2,4,6) judge_doom [of check]
    by (cases "finished (fst p)") (auto simp: synthesized_doom, metis)
next
  case (Some e0)
  then have "e = (case captured l (snd p) of Some x \<Rightarrow> x | None \<Rightarrow> synthesize_from_info l (info_of l e0))"
    using drive_close_stream [OF assms(1,2,5)] by auto
  moreover have "\<not> is_doom_loop e0" using assms(3) Some by (simp add: quiet_ending_def)
  ultimately have "\<not> is_doom_loop e" using Some
    by (cases "snd p") (auto simp: synthesized_doom cloned_doom)
  with assms(6) show ?thesis by simp
qed

text \<open>
  What every attempt guarantees: it forwards no terminal event, it fails for a doom loop only while the
  check is on, and a response it hands out is neither cut off nor empty nor, while the check is on,
  caught in a loop.
\<close>

definition good_response :: "recovery_policy option \<Rightarrow> conversation_response \<Rightarrow> bool" where
  "good_response check r =
     (stop_reason r \<noteq> Some Length
      \<and> (stop_reason r = Some ContentFilter \<or> response_empty_reason r = None)
      \<and> (\<forall>p. check = Some p \<longrightarrow> confident_triggers p (doom_loop_signals r) = []))"

fun sound_attempt :: "str \<Rightarrow> recovery_policy option \<Rightarrow> sampling_event list \<times> attempt_outcome \<Rightarrow> bool" where
  "sound_attempt rid check (es, outcome) =
     (list_all (\<lambda>e. \<not> terminal e \<and> \<not> is_retrying e \<and> event_request e = rid) es
      \<and> (\<forall>e. outcome = OutcomeFailed e \<and> is_doom_loop e \<longrightarrow> check \<noteq> None)
      \<and> (\<forall>r m. outcome = OutcomeCompleted r m \<longrightarrow> good_response check r))"

lemma drive_sound:
  assumes "told rid (fst p)" "terminal (finished (fst p))"
    "check = None \<Longrightarrow> quiet_ending (snd p)" "used \<noteq> None \<Longrightarrow> check \<noteq> None"
    "\<And>r info. finished (fst p) = Failed r info \<Longrightarrow> \<exists>e. info = info_of l e \<and> \<not> is_doom_loop e"
    "\<And>i r m. finished (fst p) = Completed i r m \<Longrightarrow> used = check \<or> doom_loop_signals r = []"
  shows "sound_attempt rid check
    (drive_l2 l used (captured l (snd p)) n (close_stream l rid finished p))"
proof -
  obtain es outcome where d: "drive_l2 l used (captured l (snd p)) n (close_stream l rid finished p) = (es, outcome)"
    by fastforce
  note drive_close_stream [OF assms(1,2) d]
  moreover have "check \<noteq> None" if "outcome = OutcomeFailed e" "is_doom_loop e" for e
  proof
    assume none: "check = None"
    from assms(1,2) assms(3) [OF none] assms(5) d [unfolded that(1)] that(2)
    have "used \<noteq> None" by (rule drive_doom)
    with assms(4) none show False by blast
  qed
  moreover have "good_response check r" if "outcome = OutcomeCompleted r m" for r m
  proof -
    let ?last = "case ending_error (snd p) of None \<Rightarrow> finished (fst p) | Some e \<Rightarrow> Failed rid (info_of l e)"
    have o: "terminal_outcome l used (captured l (snd p)) ?last = OutcomeCompleted r m"
      using drive_close_stream [OF assms(1,2) d] that by auto
    then obtain i r0 m0 where f: "finished (fst p) = Completed i r0 m0"
        and j: "judge_response used r0 m0 = OutcomeCompleted r m"
      using assms(2) by (cases "finished (fst p)"; cases "ending_error (snd p)") auto
    show ?thesis using judge_accepts [OF j] assms(6) [OF f]
      by (auto simp: good_response_def confident_triggers_def)
  qed
  ultimately show ?thesis unfolding d by auto
qed

lemma idle_check_calm:
  "idle_check clock idle b s \<noteq> GiveUp e s'" "idle_check clock idle b s \<noteq> Break e s'"
  by (simp_all add: idle_check_def Let_def)

lemma calm_ending:
  assumes "\<And>e. ending = Broken e \<Longrightarrow> \<not> is_doom_loop e" "\<And>e. ending = GivenUp e \<Longrightarrow> \<not> is_doom_loop e"
  shows "quiet_ending ending"
  using assms by (cases ending) (simp_all add: quiet_ending_def is_doom_loop_def)

lemma decoded_pulls_plain: "Raised e \<in> set (decode_frames fmt parse frames) \<Longrightarrow> \<not> is_doom_loop e"
  by (rule decoder_error_plain) (rule decode_frames_errors)

lemma chat_quiet:
  "quiet_ending (snd (chat_run clock utc (decode_frames fmt parse frames) md rid idle))"
proof (rule calm_ending)
  fix e
  show "\<not> is_doom_loop e" if "snd (chat_run clock utc (decode_frames fmt parse frames) md rid idle) = Broken e"
    using that unfolding chat_run_def
    by (rule pump_broken [rotated 2]) (auto simp: chunk_step_def Let_def idle_check_calm decoded_pulls_plain)
  show "\<not> is_doom_loop e" if "snd (chat_run clock utc (decode_frames fmt parse frames) md rid idle) = GivenUp e"
    using start_reflects that unfolding chat_run_def
    by (rule chat_steps.pump_given_up [rotated]) (auto simp: chunk_step_def Let_def idle_check_calm)
qed

lemma messages_quiet:
  "quiet_ending (snd (messages_run clock utc (decode_frames fmt parse frames) md rid idle))"
proof (rule calm_ending)
  fix e
  show "\<not> is_doom_loop e" if "snd (messages_run clock utc (decode_frames fmt parse frames) md rid idle) = Broken e"
    using that unfolding messages_run_def
    by (rule pump_broken [rotated 2])
      (auto simp: message_step_def Let_def idle_check_calm decoded_pulls_plain split: message_event.splits)
  have start: "told rid (messages_start clock utc rid md)" by (rule told_start) (simp_all add: messages_start_def)
  show "\<not> is_doom_loop e" if "snd (messages_run clock utc (decode_frames fmt parse frames) md rid idle) = GivenUp e"
    using start that unfolding messages_run_def
    by (rule message_steps.pump_given_up [rotated])
      (auto simp: message_step_def Let_def idle_check_calm server_error_def is_doom_loop_def
        split: message_event.splits)
qed

lemma event_failure_plain: "event_failure e = Some err \<Longrightarrow> \<not> is_doom_loop err"
  by (cases e) (auto simp: internal_error_def is_doom_loop_def)

lemma event_step_calm:
  "event_step clock rid idle e s \<noteq> Break err s'"
  "harmless s \<Longrightarrow> event_step clock rid idle e s = GiveUp err s' \<Longrightarrow> \<not> is_doom_loop err"
  using idle_check_calm [of clock idle "responses_event_has_meaningful_content e" "apply_event clock rid e s"]
  by (auto simp: event_step_def harmless_def armed_triggers_def abort_triggers_def event_failure_plain
      split: option.splits step_result.splits if_splits)

lemma frame_step_break: "frame_step w fmt clock rid idle f s = Break e s' \<Longrightarrow> \<not> is_doom_loop e"
  by (cases f)
    (auto simp: event_step_calm decoder_error_plain stream_error_is_decoder_error deserialize_errors
      split: if_splits prod.splits option.splits sum.splits)

lemma frame_step_give_up:
  assumes "harmless s" "frame_step w fmt clock rid idle f s = GiveUp e s'"
  shows "\<not> is_doom_loop e"
proof -
  obtain name data where f: "f = (name, data)" by fastforce
  obtain b s1 where a: "absorb_frame w name data s = (b, s1)" by fastforce
  then have "harmless s1" using absorb_frame_harmless [OF assms(1), of w name data] by simp
  then show ?thesis using assms(2) event_step_calm(2) [of s1]
    by (auto simp: f a split: if_splits option.splits sum.splits)
qed

lemma arrival_raised: "Raised e \<in> arrival ` F \<Longrightarrow> \<not> is_doom_loop e"
proof -
  assume "Raised e \<in> arrival ` F"
  then obtain f where "arrival f = Raised e" by force
  then show ?thesis by (cases f) (auto simp: is_doom_loop_def)
qed

lemma responses_quiet:
  assumes "harmless (responses_start clock utc rid md c)"
  shows "quiet_ending (snd (responses_run w fmt clock utc frames md rid idle c))"
proof (rule calm_ending)
  fix e
  show "\<not> is_doom_loop e" if "snd (responses_run w fmt clock utc frames md rid idle c) = Broken e"
    using that unfolding responses_run_def
    by (rule pump_broken [rotated 2]) (auto simp: arrival_raised dest: frame_step_break)
  show "\<not> is_doom_loop e" if "snd (responses_run w fmt clock utc frames md rid idle c) = GivenUp e"
    using assms that unfolding responses_run_def
    by (rule disarmed_steps.pump_given_up [rotated]) (rule frame_step_give_up)
qed

lemma disarmed_start:
  "harmless (responses_start clock utc rid md (map_option disarm_abort c))"
  by (cases c) (simp_all add: harmless_def responses_start_def disarm_abort_def)

lemma attempt_sound: "sound_attempt rid check (run_one_attempt env a c rid idle check)"
proof (cases "connects a")
  case (Refused e)
  then show ?thesis by (simp add: run_one_attempt_def Let_def)
next
  case (Streaming md frames)
  let ?l = "env_libraries env" and ?fmt = "env_formats env" and ?clock = "attempt_clock a"
  show ?thesis
  proof (cases "backend c")
    case ChatCompletions
    show ?thesis
      unfolding run_one_attempt_def Let_def Streaming ChatCompletions connection.case api_backend.case
        stream_chat_completions_def
      by (rule drive_sound) (simp_all add: run_told chat_quiet chat_completed_def chat_response_def Let_def)
  next
    case ResponsesApi
    have fin: "responses_finished ?l ?clock rid s = Failed r info
        \<Longrightarrow> \<exists>e. info = info_of ?l e \<and> \<not> is_doom_loop e" for s r info
      by (auto simp: responses_finished_def internal_error_def is_doom_loop_def split: option.splits)
    have last_terminal: "terminal (responses_finished ?l ?clock rid s)" for s
      by (simp add: responses_finished_def split: option.splits)
    show ?thesis
      unfolding run_one_attempt_def Let_def Streaming ResponsesApi connection.case api_backend.case
        stream_responses_def
      by (rule drive_sound) (auto simp: responses_told last_terminal fin responses_quiet disarmed_start)
  next
    case MessagesApi
    have fin: "messages_finished ?l ?clock rid s = Failed r info
        \<Longrightarrow> \<exists>e. info = info_of ?l e \<and> \<not> is_doom_loop e" for s r info
      by (auto simp: messages_finished_def is_doom_loop_def split: if_splits)
    have ok: "messages_finished ?l ?clock rid s = Completed i r m \<Longrightarrow> doom_loop_signals r = []" for s i r m
      by (auto simp: messages_finished_def messages_response_def split: if_splits)
    show ?thesis
      unfolding run_one_attempt_def Let_def Streaming MessagesApi connection.case api_backend.case
        stream_messages_def
      by (rule drive_sound) (auto simp: messages_told messages_quiet fin ok messages_finished_def)
  qed
qed

subsection \<open>What a round does\<close>

lemma task_steps [simp]:
  "sent (send e s) = sent s @ [e]" "request (send e s) = request s" "client (send e s) = client s"
  "retry_count (send e s) = retry_count s" "doom_retry_count (send e s) = doom_retry_count s"
  "attempt_no (send e s) = attempt_no s" "completion_tx (send e s) = completion_tx s"
  "completion (send e s) = completion s"
  "sent (sleep ms s) = sent s" "request (sleep ms s) = request s" "client (sleep ms s) = client s"
  "retry_count (sleep ms s) = retry_count s" "doom_retry_count (sleep ms s) = doom_retry_count s"
  "attempt_no (sleep ms s) = attempt_no s" "completion_tx (sleep ms s) = completion_tx s"
  "completion (sleep ms s) = completion s"
  "sent (send_completion r s) = sent s" "request (send_completion r s) = request s"
  "retry_count (send_completion r s) = retry_count s"
  "doom_retry_count (send_completion r s) = doom_retry_count s"
  "attempt_no (send_completion r s) = attempt_no s"
  "completion (send_completion r s) = (if completion_tx s then Some r else completion s)"
  by (simp_all add: send_def sleep_def send_completion_def)

text \<open>The repeated attempt is announced under the new count; the request is the same or without images.\<close>

lemma retry_goes_on:
  assumes "apply_retry_decision env rp config rid max_retries h err s = Inr t"
  shows "retry_count t = retry_count s + 1 \<and> doom_retry_count t = doom_retry_count s
    \<and> attempt_no t = attempt_no s \<and> completion_tx t = completion_tx s \<and> completion t = completion s
    \<and> (\<exists>ty why ts n. sent t = sent s @ [Retrying rid (retry_count s + 1) max_retries ty why ts n])
    \<and> (request t = request s \<or> request t = snd (strip_images (request s)))
    \<and> (retries (classify_error (env_libraries env) h err (retry_count s) max_retries (effective_threshold rp))
       \<or> request_images (request s) \<noteq> 0 \<and> request_images (request t) = 0)"
  using assms
  by (auto simp: apply_retry_decision_def Let_def count_retry_def emit_retrying_def case_prod_unfold
      split: retry_decision.splits if_splits option.splits)

lemma retry_stops:
  assumes "apply_retry_decision env rp config rid max_retries h err s = Inl t"
  obtains shown returned s' where "returned = shown \<or> returned = clone_error (env_libraries env) shown"
    "s' = s \<or> s' = s\<lparr>request := snd (strip_images (request s))\<rparr>"
    "t = fail_with (env_libraries env) rid shown returned s'"
  using assms
  by (auto simp: apply_retry_decision_def Let_def case_prod_unfold split: retry_decision.splits if_splits)

subsection \<open>What the loop keeps and how it ends\<close>

text \<open>
  Before every round: no terminal event and no completion has been sent; as many retries were announced
  as attempts were made, which is what the two counters count together; the request is the original one
  or the same without its images.
\<close>

definition under_way ::
    "sampler_config \<Rightarrow> str \<Rightarrow> conversation_request \<Rightarrow> bool \<Rightarrow> task \<Rightarrow> bool" where
  "under_way config rid req waiting s =
     (list_all (\<lambda>e. \<not> terminal e \<and> event_request e = rid) (sent s)
      \<and> length (filter is_retrying (sent s)) = attempt_no s
      \<and> of_nat (attempt_no s) = retry_count s + doom_retry_count s
      \<and> completion s = None \<and> completion_tx s = waiting
      \<and> (request s = req \<or> request s = snd (strip_images req)))"

text \<open>The policy the check of an attempt runs under.\<close>

definition armed_policy :: "sampler_config \<Rightarrow> task \<Rightarrow> recovery_policy option" where
  "armed_policy config s =
     filter_option (\<lambda>_. doom_retry_count s < doom_max_retries config) (doom_loop_recovery config)"

text \<open>The terminal event of a request and what the receiver of the completion gets with it.\<close>

inductive verdict ::
    "libraries \<Rightarrow> sampler_config \<Rightarrow> str \<Rightarrow> task \<Rightarrow> sampling_event \<Rightarrow> completion_result \<Rightarrow> bool"
    for l config rid t where
  accepted: "good_response (armed_policy config t) r \<Longrightarrow> attempts m = of_nat (attempt_no t)
    \<Longrightarrow> attempt_no t = Suc (length (filter is_retrying (sent t)))
    \<Longrightarrow> verdict l config rid t (Completed rid r m) (Inr (r, m))"
| failed: "returned = shown \<or> returned = clone_error l shown
    \<Longrightarrow> verdict l config rid t (Failed rid (info_of l shown)) (Inl returned)"
| cancelled: "verdict l config rid t (Failed rid cancelled_info) (Inl (Auth ''request cancelled''))"

definition concluded ::
    "libraries \<Rightarrow> sampler_config \<Rightarrow> str \<Rightarrow> conversation_request \<Rightarrow> bool \<Rightarrow> task \<Rightarrow> bool" where
  "concluded l config rid req waiting t =
     (\<exists>pre e result. sent t = pre @ [e] \<and> list_all (\<lambda>e. \<not> terminal e \<and> event_request e = rid) pre
        \<and> verdict l config rid t e result \<and> completion t = (if waiting then Some result else None)
        \<and> attempt_no t \<le> Suc (length (filter is_retrying pre))
        \<and> length (filter is_retrying pre) \<le> attempt_no t
        \<and> (request t = req \<or> request t = snd (strip_images req)))"

text \<open>Between the end of an attempt and what is done about it one attempt is not yet accounted for.\<close>

definition undecided :: "str \<Rightarrow> conversation_request \<Rightarrow> bool \<Rightarrow> task \<Rightarrow> bool" where
  "undecided rid req waiting s =
     (list_all (\<lambda>e. \<not> terminal e \<and> event_request e = rid) (sent s)
      \<and> attempt_no s = Suc (length (filter is_retrying (sent s)))
      \<and> of_nat (length (filter is_retrying (sent s))) = retry_count s + doom_retry_count s
      \<and> completion s = None \<and> completion_tx s = waiting
      \<and> (request s = req \<or> request s = snd (strip_images req)))"

lemma after_attempt:
  assumes "under_way config rid req waiting s" "sound_attempt rid check (events, outcome)"
  shows "undecided rid req waiting (s\<lparr>attempt_no := Suc (attempt_no s), sent := sent s @ events\<rparr>)"
proof -
  have "filter is_retrying events = []" "list_all (\<lambda>e. \<not> terminal e \<and> event_request e = rid) events"
    using assms(2) by (auto simp: list_all_iff filter_empty_conv)
  with assms(1) show ?thesis by (simp add: under_way_def undecided_def)
qed

lemma strip_images_twice: "snd (strip_images (snd (strip_images r))) = snd (strip_images r)"
  by (rule strip_images_id) simp

lemma retry_under_way:
  assumes "undecided rid req waiting s" "apply_retry_decision env rp config rid max_retries h err s = Inr t"
  shows "under_way config rid req waiting t"
  using assms(1) retry_goes_on [OF assms(2)] strip_images_twice [of req]
  by (auto simp: undecided_def under_way_def)

lemma concludedI:
  assumes "under_way config rid req waiting s \<or> undecided rid req waiting s"
    "sent t = sent s @ [e]" "attempt_no t = attempt_no s" "request t = request s"
    "verdict l config rid t e result" "completion t = (if waiting then Some result else None)"
  shows "concluded l config rid req waiting t"
  unfolding concluded_def
proof (intro exI conjI)
  show "sent t = sent s @ [e]" "verdict l config rid t e result"
    "completion t = (if waiting then Some result else None)" by fact+
qed (use assms in \<open>auto simp: undecided_def under_way_def\<close>)

lemma concluded_failed:
  assumes "undecided rid req waiting s" "returned = shown \<or> returned = clone_error l shown"
  shows "concluded l config rid req waiting (fail_with l rid shown returned s)"
proof (rule concludedI)
  show "verdict l config rid (fail_with l rid shown returned s) (Failed rid (info_of l shown)) (Inl returned)"
    using assms(2) by (rule verdict.failed)
qed (use assms(1) in \<open>auto simp: fail_with_def emit_failed_def undecided_def\<close>)

lemma retry_concluded:
  assumes "undecided rid req waiting s" "apply_retry_decision env rp config rid max_retries h err s = Inl t"
  shows "concluded (env_libraries env) config rid req waiting t"
proof -
  obtain shown returned s' where r: "returned = shown \<or> returned = clone_error (env_libraries env) shown"
    and s': "s' = s \<or> s' = s\<lparr>request := snd (strip_images (request s))\<rparr>"
    and t: "t = fail_with (env_libraries env) rid shown returned s'"
    using assms(2) by (rule retry_stops)
  have "undecided rid req waiting s'"
    using assms(1) s' strip_images_twice [of req] by (auto simp: undecided_def)
  then show ?thesis unfolding t using r by (rule concluded_failed)
qed

lemma concluded_cancelled:
  assumes "under_way config rid req waiting s \<or> undecided rid req waiting s"
  shows "concluded l config rid req waiting (handle_cancellation rid s)"
  using assms
proof (rule concludedI)
  show "verdict l config rid (handle_cancellation rid s) (Failed rid cancelled_info)
      (Inl (Auth ''request cancelled''))" by (rule verdict.cancelled)
qed (use assms in \<open>auto simp: handle_cancellation_def undecided_def under_way_def\<close>)

lemma concluded_accepted:
  assumes "undecided rid req waiting s" "good_response (armed_policy config s) r"
  shows "concluded l config rid req waiting (accept_response rid r m s)"
proof (rule concludedI)
  let ?m = "m\<lparr>attempts := retry_count s + doom_retry_count s + 1\<rparr>" and ?t = "accept_response rid r m s"
  have "attempt_no ?t = attempt_no s" "armed_policy config ?t = armed_policy config s"
    "sent ?t = sent s @ [Completed rid r ?m]"
    by (simp_all add: accept_response_def Let_def armed_policy_def)
  then show "verdict l config rid ?t (Completed rid r ?m) (Inr (r, ?m))"
    using assms by (intro verdict.accepted) (simp_all add: undecided_def)
qed (use assms(1) in \<open>auto simp: accept_response_def Let_def undecided_def\<close>)

lemma resample_under_way:
  assumes "undecided rid req waiting s"
  shows "under_way config rid req waiting (resample env config rid h err s)"
  using assms by (simp add: resample_def emit_retrying_def Let_def undecided_def under_way_def)

lemma round_goes_on:
  assumes "under_way config rid req waiting s" "one_round env rp config rid max_retries idle s = Inr t"
  shows "under_way config rid req waiting t"
proof -
  define a where "a = serve env (attempt_no s) (client s) (request s)"
  obtain events outcome where run:
      "run_one_attempt env a (client s) rid idle (armed_policy config s) = (events, outcome)" by fastforce
  then have "undecided rid req waiting (s\<lparr>attempt_no := Suc (attempt_no s), sent := sent s @ events\<rparr>)"
    using after_attempt [OF assms(1)] attempt_sound [of rid "armed_policy config s"] by metis
  then show ?thesis using assms(2) run
    by (auto simp: one_round_def Let_def simp flip: a_def armed_policy_def
        intro: retry_under_way resample_under_way split: if_splits attempt_outcome.splits)
qed

lemma round_stops:
  assumes "under_way config rid req waiting s" "one_round env rp config rid max_retries idle s = Inl t"
  shows "concluded (env_libraries env) config rid req waiting t"
proof -
  define a where "a = serve env (attempt_no s) (client s) (request s)"
  obtain events outcome where run:
      "run_one_attempt env a (client s) rid idle (armed_policy config s) = (events, outcome)" by fastforce
  let ?s = "s\<lparr>attempt_no := Suc (attempt_no s), sent := sent s @ events\<rparr>"
  have sound: "sound_attempt rid (armed_policy config s) (events, outcome)"
    unfolding run [symmetric] by (rule attempt_sound)
  have "undecided rid req waiting ?s" using after_attempt [OF assms(1) sound] .
  moreover have "good_response (armed_policy config ?s) r" if "outcome = OutcomeCompleted r m" for r m
    using sound that by (simp add: armed_policy_def)
  ultimately show ?thesis using assms run
    by (auto simp: one_round_def Let_def simp flip: a_def armed_policy_def
        intro: retry_concluded concluded_accepted concluded_cancelled split: if_splits attempt_outcome.splits)
qed

interpretation request_rounds: rounds "one_round env rp config rid max_retries idle"
    "under_way config rid req waiting" "concluded (env_libraries env) config rid req waiting"
  by unfold_locales (rule round_goes_on, assumption+, rule round_stops)

subsection \<open>The loop ends\<close>

text \<open>
  What the client guarantees: it never refuses a request with the error that only the loop itself
  makes.  And the budget is not the very last number of 32 bits, after which the counter would wrap.
\<close>

definition honest_client :: "sampler_env \<Rightarrow> 32 word \<Rightarrow> bool" where
  "honest_client env max_retries =
     (unat max_retries < 2 ^ 32 - 1
      \<and> (\<forall>n c r e. connects (serve env n c r) = Refused e \<longrightarrow> \<not> is_doom_loop e))"

text \<open>
  The counters count attempts, each within its budget; the one retry that no budget limits is the one
  after removing images, of which there is none afterwards.
\<close>

definition within_budgets :: "sampler_config \<Rightarrow> 32 word \<Rightarrow> task \<Rightarrow> bool" where
  "within_budgets config max_retries s =
     (attempt_no s = unat (retry_count s) + unat (doom_retry_count s)
      \<and> unat (doom_retry_count s) \<le> unat (doom_max_retries config)
      \<and> unat (retry_count s) \<le> max (unat max_retries) 1
      \<and> (request_images (request s) \<noteq> 0 \<longrightarrow> unat (retry_count s) < max (unat max_retries) 1))"

lemma word_succ: "unat (n::32 word) < 2 ^ 32 - 1 \<Longrightarrow> unat (n + 1) = unat n + 1"
  by (simp add: unat_word_ariths)

lemma drive_no_init: "snd (drive_l2 l check cell n es) \<noteq> OutcomeInitFailed e"
proof (induction es arbitrary: n)
  case (Cons f es)
  then show ?case
    using judge_outcomes by (cases f) (auto split: prod.splits, (metis snd_conv)+)
qed simp

lemma init_failed_refused:
  assumes "run_one_attempt env a c rid idle check = (es, OutcomeInitFailed e)"
  shows "connects a = Refused e"
proof (cases "connects a")
  case (Streaming md frames)
  have "drive_l2 l used cell n evs \<noteq> (es, OutcomeInitFailed e)" for l used cell n evs
    using drive_no_init [of l used cell n evs e] by (metis snd_conv)
  then show ?thesis using assms
    by (auto simp: run_one_attempt_def Let_def Streaming split: api_backend.splits)
qed (use assms in \<open>simp add: run_one_attempt_def Let_def\<close>)

lemma retry_within_budgets:
  assumes "honest_client env max_retries" "within_budgets config max_retries s" "\<not> is_doom_loop err"
    "apply_retry_decision env rp config' rid max_retries h err (s\<lparr>attempt_no := Suc (attempt_no s), sent := es\<rparr>) = Inr t"
  shows "within_budgets config max_retries t \<and> unat (retry_count t) = unat (retry_count s) + 1
    \<and> doom_retry_count t = doom_retry_count s"
proof -
  let ?n = "retry_count s" and ?M = "max (unat max_retries) 1"
  have M: "?M < 2 ^ 32 - 1" using assms(1) by (simp add: honest_client_def)
  have n: "unat ?n \<le> ?M" using assms(2) by (simp add: within_budgets_def)
  then have succ: "unat (?n + 1) = unat ?n + 1" using M by (intro word_succ) linarith
  note t = retry_goes_on [OF assms(4), simplified]
  have "unat ?n + 1 < ?M \<or> request_images (request s) \<noteq> 0 \<and> request_images (request t) = 0"
    using t succ assms(3) by (auto simp: classify_retries within_budget_def word_less_nat_alt)
  then have "unat (retry_count t) \<le> ?M \<and> (request_images (request t) \<noteq> 0 \<longrightarrow> unat (retry_count t) < ?M)"
    using t succ assms(2) by (auto simp: within_budgets_def)
  then show ?thesis using t succ assms(2) by (auto simp: within_budgets_def)
qed

lemma resample_within_budgets:
  assumes "within_budgets config max_retries s" "armed_policy config s \<noteq> None"
    "t = resample env config rid h err (s\<lparr>attempt_no := Suc (attempt_no s), sent := es\<rparr>)"
  shows "within_budgets config max_retries t \<and> retry_count t = retry_count s
    \<and> unat (doom_retry_count t) = unat (doom_retry_count s) + 1"
proof -
  have less: "doom_retry_count s < doom_max_retries config"
    using assms(2) by (auto simp: armed_policy_def filter_option_def split: option.splits if_splits)
  then have "unat (doom_retry_count s) < 2 ^ 32 - 1"
  proof -
    have "unat (doom_max_retries config) < 2 ^ LENGTH(32)" by (rule unsigned_less)
    then show ?thesis using less by (simp add: word_less_nat_alt)
  qed
  then have "unat (doom_retry_count s + 1) = unat (doom_retry_count s) + 1" by (rule word_succ)
  then show ?thesis using assms(1) less
    by (auto simp: assms(3) resample_def emit_retrying_def Let_def within_budgets_def word_less_nat_alt)
qed

definition budget_left :: "sampler_config \<Rightarrow> 32 word \<Rightarrow> task \<Rightarrow> nat" where
  "budget_left config max_retries s =
     (unat (doom_max_retries config) - unat (doom_retry_count s))
       + (max (unat max_retries) 1 - unat (retry_count s))"

lemma round_within_budgets:
  assumes "honest_client env max_retries" "within_budgets config max_retries s"
    "one_round env rp config rid max_retries idle s = Inr t"
  shows "within_budgets config max_retries t \<and> budget_left config max_retries t < budget_left config max_retries s"
proof -
  define a where "a = serve env (attempt_no s) (client s) (request s)"
  obtain events outcome where run:
      "run_one_attempt env a (client s) rid idle (armed_policy config s) = (events, outcome)" by fastforce
  have sound: "sound_attempt rid (armed_policy config s) (events, outcome)"
    unfolding run [symmetric] by (rule attempt_sound)
  let ?s = "s\<lparr>attempt_no := Suc (attempt_no s), sent := sent s @ events\<rparr>"
  consider err where "\<not> is_doom_loop err"
      "apply_retry_decision env rp config rid max_retries (attempt_hash a) err ?s = Inr t"
    | err where "armed_policy config s \<noteq> None" "t = resample env config rid (attempt_hash a) err ?s"
  proof (cases outcome)
    case (OutcomeEmpty ctx)
    then show ?thesis using that(1) [of "EmptyResponse ctx"] assms(3) run
      by (auto simp: one_round_def Let_def is_doom_loop_def simp flip: a_def armed_policy_def split: if_splits)
  next
    case (OutcomeFailed e)
    then show ?thesis using that(1) [of e] that(2) [of e] assms(3) run sound
      by (auto simp: one_round_def Let_def simp flip: a_def armed_policy_def split: if_splits)
  next
    case (OutcomeInitFailed e)
    then have "\<not> is_doom_loop e"
      using assms(1) init_failed_refused run unfolding honest_client_def a_def by blast
    then show ?thesis using that(1) [of e] assms(3) run OutcomeInitFailed
      by (auto simp: one_round_def Let_def simp flip: a_def armed_policy_def split: if_splits)
  next
    case OutcomeCancelled
    then show ?thesis using assms(3) run
      by (auto simp: one_round_def Let_def simp flip: a_def armed_policy_def split: if_splits)
  next
    case (OutcomeCompleted r m)
    then show ?thesis using assms(3) run
      by (auto simp: one_round_def Let_def simp flip: a_def armed_policy_def split: if_splits)
  qed
  then show ?thesis
  proof cases
    case 1
    have "within_budgets config max_retries t \<and> unat (retry_count t) = unat (retry_count s) + 1
        \<and> doom_retry_count t = doom_retry_count s"
      using assms(1,2) 1 by (rule retry_within_budgets)
    then show ?thesis by (auto simp: budget_left_def within_budgets_def)
  next
    case 2
    have "within_budgets config max_retries t \<and> retry_count t = retry_count s
        \<and> unat (doom_retry_count t) = unat (doom_retry_count s) + 1"
      using assms(2) 2 by (rule resample_within_budgets)
    then show ?thesis by (auto simp: budget_left_def within_budgets_def)
  qed
qed

lemma round_counts: "one_round env rp config rid max_retries idle s = Inl t \<Longrightarrow> attempt_no t \<le> Suc (attempt_no s)"
proof -
  assume r: "one_round env rp config rid max_retries idle s = Inl t"
  have stop: "attempt_no u = attempt_no s'"
    if "apply_retry_decision env rp config rid max_retries h err s' = Inl u" for h err s' u
    using that by (elim retry_stops) (auto simp: fail_with_def emit_failed_def)
  show ?thesis using r
    by (auto simp: one_round_def Let_def handle_cancellation_def accept_response_def dest!: stop
        split: if_splits prod.splits attempt_outcome.splits)
qed

interpretation bounded_rounds: ranked_rounds "one_round env rp config rid max_retries idle"
    "\<lambda>s. honest_client env max_retries \<and> under_way config rid req waiting s
       \<and> within_budgets config max_retries s"
    "\<lambda>t. concluded (env_libraries env) config rid req waiting t
       \<and> attempt_no t \<le> max (unat max_retries) 1 + unat (doom_max_retries config) + 1"
    "budget_left config max_retries"
proof
  fix s s' t
  assume keeps: "honest_client env max_retries \<and> under_way config rid req waiting s
      \<and> within_budgets config max_retries s"
  show "honest_client env max_retries \<and> under_way config rid req waiting s'
      \<and> within_budgets config max_retries s'"
    and "budget_left config max_retries s' < budget_left config max_retries s"
    if "one_round env rp config rid max_retries idle s = Inr s'"
    using keeps round_goes_on [OF _ that] round_within_budgets [OF _ _ that] by blast+
  show "concluded (env_libraries env) config rid req waiting t
      \<and> attempt_no t \<le> max (unat max_retries) 1 + unat (doom_max_retries config) + 1"
    if "one_round env rp config rid max_retries idle s = Inl t"
  proof
    show "concluded (env_libraries env) config rid req waiting t"
      using keeps round_stops [OF _ that] by blast
    have "attempt_no s \<le> max (unat max_retries) 1 + unat (doom_max_retries config)"
      using keeps by (auto simp: within_budgets_def)
    with round_counts [OF that] show
      "attempt_no t \<le> max (unat max_retries) 1 + unat (doom_max_retries config) + 1" by linarith
  qed
qed

lemma initial_under_way: "under_way config rid req waiting (initial_task config req waiting)"
  by (simp add: under_way_def initial_task_def)

lemma initial_within_budgets: "within_budgets config max_retries (initial_task config req waiting)"
  by (simp add: within_budgets_def initial_task_def less_max_iff_disj)

lemma request_task_concluded:
  assumes "run_request_task env rp config rid req waiting = Some t"
  shows "concluded (env_libraries env) config rid req waiting t"
proof (cases "build_client env config")
  case None
  then have "iterate (one_round env rp config rid (task_max_retries env rp config)
      (1000000000 * (case idle_timeout_secs config of Some n \<Rightarrow> n | None \<Rightarrow> default_idle_timeout_secs)))
      (initial_task config req waiting) = Some t"
    using assms by (simp add: run_request_task_def Let_def)
  then show ?thesis using initial_under_way by (rule request_rounds.iterate_ends)
next
  case (Some err)
  then have t: "t = fail_with (env_libraries env) rid err err (initial_task config req waiting)"
    using assms by (simp add: run_request_task_def Let_def)
  show ?thesis unfolding t
  proof (rule concludedI [OF disjI1 [OF initial_under_way]])
    show "verdict (env_libraries env) config rid
        (fail_with (env_libraries env) rid err err (initial_task config req waiting))
        (Failed rid (info_of (env_libraries env) err)) (Inl err)"
      by (rule verdict.failed) simp
  qed (simp_all add: fail_with_def emit_failed_def initial_task_def)
qed

lemma request_task_returns:
  assumes "honest_client env (task_max_retries env rp config)"
  shows "\<exists>t. run_request_task env rp config rid req waiting = Some t
    \<and> attempt_no t \<le> max (unat (task_max_retries env rp config)) 1 + unat (doom_max_retries config) + 1"
proof (cases "build_client env config")
  case None
  let ?s = "initial_task config req waiting"
  let ?loop = "iterate (one_round env rp config rid (task_max_retries env rp config)
      (1000000000 * (case idle_timeout_secs config of Some n \<Rightarrow> n | None \<Rightarrow> default_idle_timeout_secs)))"
  have keeps: "honest_client env (task_max_retries env rp config) \<and> under_way config rid req waiting ?s
      \<and> within_budgets config (task_max_retries env rp config) ?s"
    using assms initial_under_way initial_within_budgets by blast
  obtain t where t: "?loop ?s = Some t" using bounded_rounds.iterate_returns [OF keeps] by blast
  from bounded_rounds.iterate_ends [OF t keeps] t None show ?thesis
    by (simp add: run_request_task_def Let_def)
next
  case (Some err)
  then show ?thesis
    by (simp add: run_request_task_def Let_def fail_with_def emit_failed_def initial_task_def)
qed

subsection \<open>Properties of a request\<close>


text \<open>
  C5. A request is answered exactly once: its last event is its only terminal one, every event names it,
  and the receiver of the completion, if there is one, gets one result that agrees with that event: the
  same response, or an error of the same kind, except that a cancellation is shown as an API error and
  returned as an authentication error.
\<close>

theorem request_is_answered_once:
  assumes "run_request_task env rp config rid req waiting = Some t"
  shows "\<exists>pre e result. sent t = pre @ [e] \<and> list_all (\<lambda>e. \<not> terminal e \<and> event_request e = rid) pre
    \<and> terminal e \<and> event_request e = rid \<and> completion t = (if waiting then Some result else None)
    \<and> ((\<exists>r m. result = Inr (r, m) \<and> e = Completed rid r m)
       \<or> (\<exists>err info. result = Inl err \<and> e = Failed rid info \<and> info_kind info = kind_of_error err)
       \<or> result = Inl (Auth ''request cancelled'') \<and> e = Failed rid cancelled_info)"
proof -
  from request_task_concluded [OF assms] obtain pre e result where c:
      "sent t = pre @ [e]" "list_all (\<lambda>e. \<not> terminal e \<and> event_request e = rid) pre"
      "verdict (env_libraries env) config rid t e result" "completion t = (if waiting then Some result else None)"
    unfolding concluded_def by blast
  from c(3) have "terminal e \<and> event_request e = rid
    \<and> ((\<exists>r m. result = Inr (r, m) \<and> e = Completed rid r m)
       \<or> (\<exists>err info. result = Inl err \<and> e = Failed rid info \<and> info_kind info = kind_of_error err)
       \<or> result = Inl (Auth ''request cancelled'') \<and> e = Failed rid cancelled_info)"
  proof cases
    case (failed returned shown)
    then show ?thesis using clone_keeps_class [of "env_libraries env" shown] by (auto simp: info_of_def)
  qed auto
  with c show ?thesis by blast
qed


text \<open>A server that drops the first connection and answers the second one.\<close>

definition example_formats :: wire_formats where
  "example_formats =
     \<lparr>error_response = (\<lambda>_. None), flat_error_response = (\<lambda>_. None),
      chat_chunk_of = (\<lambda>data. Inr \<lparr>chunk_model = ''m'',
          chunk_choices = [\<lparr>choice_delta = \<lparr>delta_content = Some data, delta_reasoning = None,
                                             delta_tool_calls = []\<rparr>, choice_finish = Some FinStop\<rparr>],
          chunk_usage = None, system_fingerprint = None\<rparr>),
      message_event_of = (\<lambda>_. Inr Ping), response_event_of = (\<lambda>_. Inr ResponseCreated),
      response_event_of_value = (\<lambda>_. None), tool_parses = (\<lambda>_. True)\<rparr>"

definition example_env :: sampler_env where
  "example_env =
     \<lparr>env_libraries = example_libraries, env_formats = example_formats, env_world = example_world,
      env_max_retries = None, build_client = (\<lambda>_. None),
      serve = (\<lambda>n c r. \<lparr>cancelled_before = False,
        connects = (if n = 0 then Refused (EventStreamError ''reset'')
                    else Streaming None [Frame [] ''hi'', Frame [] ''[DONE]'']),
        cancelled_at = None, attempt_clock = (\<lambda>_. 0), attempt_utc = 0, attempt_hash = 0\<rparr>)\<rparr>"

definition example_config :: sampler_config where
  "example_config =
     \<lparr>backend = ChatCompletions, config_max_retries = Some 3, idle_timeout_secs = None,
      doom_loop_recovery = None, force_http1 = False\<rparr>"

definition example_retries :: retry_settings where
  "example_retries = \<lparr>policy_max_retries = 15, rate_limit_retry_threshold = 2\<rparr>"


lemma example_completes:
  "\<exists>t r m. run_request_task example_env example_retries example_config ''r'' \<lparr>items = []\<rparr> True = Some t
     \<and> List.last (sent t) = Completed ''r'' r m"
  by (simp add: run_request_task_def Let_def example_env_def example_retries_def example_config_def
      task_max_retries_def resolve_max_retries_with_env_def or_else_def initial_task_def iterate.simps
      one_round_def run_one_attempt_def apply_retry_decision_def effective_threshold_def classify_error_def
      is_doom_loop_def count_retry_def emit_retrying_def send_def sleep_def
      retryable_statuses_def default_idle_timeout_secs_def example_formats_def done_marker_def
      try_parse_stream_error_def try_parse_error_def
      stream_chat_completions_def chat_run_def close_stream_def chunk_step_def note_chunk_def chat_start_def
      choice_step_def text_step_def reasoning_step_def idle_check_def tick_def filter_option_def
      text_token_eq chat_completed_def judge_response_def chat_response_def response_empty_reason_def
      assistant_def calls_of_def accept_response_def send_completion_def prelude_events_def word_le_nat_alt)

lemma request_is_answered_once_witness:
  "\<exists>t r m. run_request_task example_env example_retries example_config ''r'' \<lparr>items = []\<rparr> True = Some t
     \<and> List.last (sent t) = Completed ''r'' r m \<and> completion t = Some (Inr (r, m))"
proof -
  obtain t r m where t: "run_request_task example_env example_retries example_config ''r'' \<lparr>items = []\<rparr> True = Some t"
    "List.last (sent t) = Completed ''r'' r m" using example_completes by blast
  from request_is_answered_once [OF t(1)] t show ?thesis by auto
qed


end
