(* ===== verification/Sampler_Actor.thy ===== *)
theory Sampler_Actor
  imports Sampler_Task
begin

text \<open>
  The sampler actor (\<^verbatim>\<open>xai-grok-sampler/src/actor/mod.rs\<close>, \<^verbatim>\<open>actor/state.rs\<close>, \<^verbatim>\<open>commands.rs\<close>, \<^verbatim>\<open>handle.rs\<close>):
  it owns the table of active requests and runs one task per submission.  The tasks run beside the
  actor, so the system is a step relation: a handle sends a command, a task ends or panics, the actor
  joins an ended task or, when there is none, takes the next command.  A cancellation token is the number
  of its submission; the field \<open>spawned\<close> is the history of the submissions and \<open>answers\<close> of their
  results.
\<close>

subsection \<open>State and commands\<close>

record submission =
  sub_id :: str
  sub_request :: conversation_request
  sub_config :: sampler_config
  sub_waits :: bool

datatype sampler_command =
  Submit str conversation_request "sampler_config option" bool
| Cancel str
| UpdateConfig sampler_config
| IsActive str
| ActiveCount

datatype query_reply = RequestActive str bool | RequestCount nat

record sampler =
  inbox :: "sampler_command list"
  handles_open :: bool
  active_requests :: "str \<rightharpoonup> nat"
  default_config :: sampler_config
  settings :: retry_settings
  spawned :: "submission list"
  running_tasks :: "nat list"
  ended_tasks :: "(nat \<times> bool) list"
  cancelled_tokens :: "nat set"
  answers :: "(nat \<times> task) list"
  replies :: "query_reply list"
  stopped :: bool

definition spawn_sampler :: "sampler_config \<Rightarrow> retry_settings \<Rightarrow> sampler" where
  "spawn_sampler config rp =
     \<lparr>inbox = [], handles_open = True, active_requests = Map.empty, default_config = config, settings = rp,
      spawned = [], running_tasks = [], ended_tasks = [], cancelled_tokens = {}, answers = [], replies = [],
      stopped = False\<rparr>"

subsection \<open>Operations of the state\<close>

definition register :: "str \<Rightarrow> nat \<Rightarrow> sampler \<Rightarrow> nat option \<times> sampler" where
  "register rid k s = (active_requests s rid, s\<lparr>active_requests := (active_requests s)(rid \<mapsto> k)\<rparr>)"

definition remove_request :: "str \<Rightarrow> sampler \<Rightarrow> sampler" where
  "remove_request rid s = s\<lparr>active_requests := (active_requests s)(rid := None)\<rparr>"

definition cancel_token :: "nat \<Rightarrow> sampler \<Rightarrow> sampler" where
  "cancel_token k s = s\<lparr>cancelled_tokens := insert k (cancelled_tokens s)\<rparr>"

definition cancel_request :: "str \<Rightarrow> sampler \<Rightarrow> bool \<times> sampler" where
  "cancel_request rid s =
     (case active_requests s rid of
        Some k \<Rightarrow> (True, cancel_token k (remove_request rid s))
      | None \<Rightarrow> (False, s))"

definition update_config :: "sampler_config \<Rightarrow> sampler \<Rightarrow> sampler" where
  "update_config config s = s\<lparr>default_config := config\<rparr>"

definition spawn_task :: "submission \<Rightarrow> sampler \<Rightarrow> sampler" where
  "spawn_task u s =
     s\<lparr>spawned := spawned s @ [u], running_tasks := running_tasks s @ [length (spawned s)]\<rparr>"

fun handle_command :: "sampler_command \<Rightarrow> sampler \<Rightarrow> sampler" where
  "handle_command (Submit rid req config waits) s =
     (case register rid (length (spawned s)) s of
        (previous, s) \<Rightarrow>
          (let s = (case previous of Some k \<Rightarrow> cancel_token k s | None \<Rightarrow> s);
               effective = (case config of Some c \<Rightarrow> c | None \<Rightarrow> default_config s)
           in spawn_task \<lparr>sub_id = rid, sub_request = req, sub_config = effective, sub_waits = waits\<rparr> s))"
| "handle_command (Cancel rid) s = snd (cancel_request rid s)"
| "handle_command (UpdateConfig config) s = update_config config s"
| "handle_command (IsActive rid) s =
     s\<lparr>replies := replies s @ [RequestActive rid (active_requests s rid \<noteq> None)]\<rparr>"
| "handle_command ActiveCount s =
     s\<lparr>replies := replies s @ [RequestCount (card (dom (active_requests s)))]\<rparr>"

text \<open>What the methods of a handle send.\<close>

definition submit :: "str \<Rightarrow> conversation_request \<Rightarrow> sampler_command" where
  "submit rid req = Submit rid req None False"

definition submit_with_config :: "str \<Rightarrow> conversation_request \<Rightarrow> sampler_config \<Rightarrow> sampler_command" where
  "submit_with_config rid req config = Submit rid req (Some config) False"

definition submit_and_collect :: "str \<Rightarrow> conversation_request \<Rightarrow> sampler_command" where
  "submit_and_collect rid req = Submit rid req None True"

definition cancel_on_drop :: "str \<Rightarrow> sampler_command" where
  "cancel_on_drop rid = Cancel rid"

subsection \<open>The steps of the system\<close>

text \<open>
  What joining an ended task does: one that returned is removed from the table under its id, one that
  panicked is only logged.
\<close>

definition join_task :: "nat \<Rightarrow> bool \<Rightarrow> sampler \<Rightarrow> sampler" where
  "join_task k ok s =
     (let s = s\<lparr>ended_tasks := remove1 (k, ok) (ended_tasks s)\<rparr>
      in if ok then remove_request (sub_id (spawned s ! k)) s else s)"

definition end_task :: "nat \<Rightarrow> task \<Rightarrow> sampler \<Rightarrow> sampler" where
  "end_task k t s =
     s\<lparr>running_tasks := remove1 k (running_tasks s), ended_tasks := ended_tasks s @ [(k, True)],
       answers := answers s @ [(k, t)]\<rparr>"

definition panic_task :: "nat \<Rightarrow> sampler \<Rightarrow> sampler" where
  "panic_task k s =
     s\<lparr>running_tasks := remove1 k (running_tasks s), ended_tasks := ended_tasks s @ [(k, False)]\<rparr>"

definition shut_down :: "sampler \<Rightarrow> sampler" where
  "shut_down s =
     s\<lparr>stopped := True, cancelled_tokens := cancelled_tokens s \<union> ran (active_requests s),
       active_requests := Map.empty, running_tasks := []\<rparr>"

text \<open>The task of a submission returns a result in some surroundings.\<close>

definition returns :: "sampler \<Rightarrow> nat \<Rightarrow> task \<Rightarrow> bool" where
  "returns s k t =
     (\<exists>env::sampler_env. run_request_task env (settings s) (sub_config (spawned s ! k)) (sub_id (spawned s ! k))
              (sub_request (spawned s ! k)) (sub_waits (spawned s ! k)) = Some t)"

inductive sampler_step :: "sampler \<Rightarrow> sampler \<Rightarrow> bool" where
  sends: "handles_open s \<Longrightarrow> sampler_step s (s\<lparr>inbox := inbox s @ [c]\<rparr>)"
| drops: "sampler_step s (s\<lparr>handles_open := False\<rparr>)"
| ends: "k \<in> set (running_tasks s) \<Longrightarrow> returns s k t \<Longrightarrow> sampler_step s (end_task k t s)"
| panics: "k \<in> set (running_tasks s) \<Longrightarrow> sampler_step s (panic_task k s)"
| joins: "\<not> stopped s \<Longrightarrow> (k, ok) \<in> set (ended_tasks s) \<Longrightarrow> sampler_step s (join_task k ok s)"
| takes: "\<not> stopped s \<Longrightarrow> ended_tasks s = [] \<Longrightarrow> inbox s = c # cs
    \<Longrightarrow> sampler_step s (handle_command c (s\<lparr>inbox := cs\<rparr>))"
| stops: "\<not> stopped s \<Longrightarrow> ended_tasks s = [] \<Longrightarrow> inbox s = [] \<Longrightarrow> \<not> handles_open s
    \<Longrightarrow> sampler_step s (shut_down s)"

inductive_cases sampler_stepE: "sampler_step s s'"

subsection \<open>What the steps keep\<close>

text \<open>The tasks that the actor has not joined, and the ones that were answered.\<close>

definition unjoined :: "sampler \<Rightarrow> nat list" where
  "unjoined s = running_tasks s @ map fst (ended_tasks s)"

definition answered :: "sampler \<Rightarrow> nat list" where
  "answered s = map fst (answers s)"

text \<open>
  Every task is one of the submissions, runs or ends once, and is answered at most once, by a result in
  which the request concluded; every entry of the table is a submission under its id that was not
  cancelled, and that was not answered unless its end waits to be joined.
\<close>

definition tasks_ok :: "sampler \<Rightarrow> bool" where
  "tasks_ok s =
     (distinct (unjoined s) \<and> (\<forall>k\<in>set (unjoined s). k < length (spawned s))
      \<and> distinct (answered s) \<and> (\<forall>k\<in>set (answered s). k < length (spawned s) \<and> k \<notin> set (running_tasks s))
      \<and> (\<forall>(k, ok)\<in>set (ended_tasks s). ok \<longleftrightarrow> k \<in> set (answered s))
      \<and> (\<forall>k\<in>cancelled_tokens s. k < length (spawned s)))"

definition entries_ok :: "sampler \<Rightarrow> bool" where
  "entries_ok s =
     (\<forall>rid k. active_requests s rid = Some k \<longrightarrow>
        k < length (spawned s) \<and> sub_id (spawned s ! k) = rid \<and> k \<notin> cancelled_tokens s
        \<and> (k \<in> set (answered s) \<longrightarrow> (k, True) \<in> set (ended_tasks s)))"

definition answers_ok :: "sampler \<Rightarrow> bool" where
  "answers_ok s =
     (\<forall>(k, t)\<in>set (answers s). \<exists>env::sampler_env. concluded (env_libraries env) (sub_config (spawned s ! k))
        (sub_id (spawned s ! k)) (sub_request (spawned s ! k)) (sub_waits (spawned s ! k)) t)"

text \<open>With ids of their own all running tasks are in the table until they are cancelled.\<close>

definition listed :: "sampler \<Rightarrow> bool" where
  "listed s =
     (distinct (map sub_id (spawned s)) \<longrightarrow>
        (\<forall>k\<in>set (running_tasks s). k \<notin> cancelled_tokens s
           \<longrightarrow> active_requests s (sub_id (spawned s ! k)) = Some k))"

definition sampler_inv :: "sampler \<Rightarrow> bool" where
  "sampler_inv s = (tasks_ok s \<and> entries_ok s \<and> answers_ok s \<and> listed s)"

lemmas sampler_inv_defs =
  sampler_inv_def tasks_ok_def entries_ok_def answers_ok_def listed_def unjoined_def answered_def

lemma inv_spawn: "sampler_inv (spawn_sampler config rp)"
  by (simp add: sampler_inv_defs spawn_sampler_def)

lemma inv_inbox: "sampler_inv (s\<lparr>inbox := q\<rparr>) = sampler_inv s" "sampler_inv (s\<lparr>handles_open := b\<rparr>) = sampler_inv s"
  by (simp_all add: sampler_inv_defs)

lemma inv_replies: "sampler_inv (s\<lparr>replies := r\<rparr>) = sampler_inv s" "sampler_inv (s\<lparr>default_config := c\<rparr>) = sampler_inv s"
  by (simp_all add: sampler_inv_defs)

lemma entriesD:
  assumes "entries_ok s" "active_requests s rid = Some k"
  shows "k < length (spawned s)" "sub_id (spawned s ! k) = rid" "k \<notin> cancelled_tokens s"
    "k \<in> set (answered s) \<Longrightarrow> (k, True) \<in> set (ended_tasks s)"
  using assms by (simp_all add: entries_ok_def)

lemma entriesI:
  assumes "\<And>rid k. active_requests s rid = Some k \<Longrightarrow>
    k < length (spawned s) \<and> sub_id (spawned s ! k) = rid \<and> k \<notin> cancelled_tokens s
    \<and> (k \<in> set (answered s) \<longrightarrow> (k, True) \<in> set (ended_tasks s))"
  shows "entries_ok s"
  using assms by (simp add: entries_ok_def)

lemma listedI:
  assumes "\<And>k. distinct (map sub_id (spawned s)) \<Longrightarrow> k \<in> set (running_tasks s) \<Longrightarrow> k \<notin> cancelled_tokens s
    \<Longrightarrow> active_requests s (sub_id (spawned s ! k)) = Some k"
  shows "listed s"
  using assms by (simp add: listed_def)

lemma listedD:
  "listed s \<Longrightarrow> distinct (map sub_id (spawned s)) \<Longrightarrow> k \<in> set (running_tasks s) \<Longrightarrow> k \<notin> cancelled_tokens s
     \<Longrightarrow> active_requests s (sub_id (spawned s ! k)) = Some k"
  by (simp add: listed_def)

lemma inv_cancel:
  assumes "sampler_inv s"
  shows "sampler_inv (snd (cancel_request rid s))"
proof (cases "active_requests s rid")
  case (Some k)
  let ?t = "s\<lparr>active_requests := (active_requests s)(rid := None), cancelled_tokens := insert k (cancelled_tokens s)\<rparr>"
  have t: "snd (cancel_request rid s) = ?t"
    using Some by (simp add: cancel_request_def cancel_token_def remove_request_def)
  have e: "entries_ok s" and l: "listed s" using assms by (simp_all add: sampler_inv_def)
  note k = entriesD [OF e Some]
  have "entries_ok ?t"
  proof (rule entriesI)
    fix rid' k'
    assume "active_requests ?t rid' = Some k'"
    then have "rid' \<noteq> rid" and a: "active_requests s rid' = Some k'" by (auto split: if_splits)
    with entriesD [OF e a] k(2) show "k' < length (spawned ?t) \<and> sub_id (spawned ?t ! k') = rid'
        \<and> k' \<notin> cancelled_tokens ?t \<and> (k' \<in> set (answered ?t) \<longrightarrow> (k', True) \<in> set (ended_tasks ?t))"
      by (auto simp: answered_def)
  qed
  moreover have "listed ?t"
  proof (rule listedI)
    fix k'
    assume "distinct (map sub_id (spawned ?t))" "k' \<in> set (running_tasks ?t)" "k' \<notin> cancelled_tokens ?t"
    then have "active_requests s (sub_id (spawned s ! k')) = Some k'" "k' \<noteq> k"
      using listedD [OF l, of k'] by auto
    with Some show "active_requests ?t (sub_id (spawned ?t ! k')) = Some k'" by auto
  qed
  moreover have "tasks_ok ?t" "answers_ok ?t"
    using assms k(1) by (auto simp: sampler_inv_def tasks_ok_def answers_ok_def unjoined_def answered_def)
  ultimately show ?thesis by (simp add: t sampler_inv_def)
qed (use assms in \<open>simp add: cancel_request_def\<close>)

text \<open>A submission takes the next token, and the one it replaces under its id is cancelled.\<close>

lemma submit_fields:
  "spawned (handle_command (Submit rid req c wt) s)
     = spawned s @ [\<lparr>sub_id = rid, sub_request = req,
         sub_config = (case c of Some x \<Rightarrow> x | None \<Rightarrow> default_config s), sub_waits = wt\<rparr>]"
  "active_requests (handle_command (Submit rid req c wt) s) = (active_requests s)(rid \<mapsto> length (spawned s))"
  "running_tasks (handle_command (Submit rid req c wt) s) = running_tasks s @ [length (spawned s)]"
  "cancelled_tokens (handle_command (Submit rid req c wt) s)
     = (case active_requests s rid of Some k \<Rightarrow> insert k (cancelled_tokens s) | None \<Rightarrow> cancelled_tokens s)"
  "ended_tasks (handle_command (Submit rid req c wt) s) = ended_tasks s"
  "answers (handle_command (Submit rid req c wt) s) = answers s"
  by (simp_all add: register_def cancel_token_def spawn_task_def Let_def split: option.splits)

lemma inv_submit:
  assumes "sampler_inv s"
  shows "sampler_inv (handle_command (Submit rid req c wt) s)" (is "sampler_inv ?t")
proof -
  have e: "entries_ok s" and l: "listed s" and ta: "tasks_ok s" and an: "answers_ok s"
    using assms by (simp_all add: sampler_inv_def)
  note [simp] = submit_fields
  have small: "k < length (spawned s)" if "k \<in> set (unjoined s) \<union> set (answered s) \<union> cancelled_tokens s" for k
    using ta that by (auto simp: tasks_ok_def)
  have "(length (spawned s), b) \<notin> set (answers s)" for b
    using small [of "length (spawned s)"] by (force simp: answered_def)
  then have "tasks_ok ?t"
    using ta small entriesD(1) [OF e, of rid]
    by (auto simp: tasks_ok_def unjoined_def answered_def less_Suc_eq simp del: handle_command.simps
        split: option.splits)
  moreover have "entries_ok ?t"
  proof (rule entriesI)
    fix rid' k'
    assume a: "active_requests ?t rid' = Some k'"
    show "k' < length (spawned ?t) \<and> sub_id (spawned ?t ! k') = rid'
        \<and> k' \<notin> cancelled_tokens ?t \<and> (k' \<in> set (answered ?t) \<longrightarrow> (k', True) \<in> set (ended_tasks ?t))"
    proof (cases "rid' = rid")
      case True
      then show ?thesis using a small entriesD(1) [OF e, of rid]
        by (auto simp: answered_def simp del: handle_command.simps split: option.splits)
    next
      case False
      then have a': "active_requests s rid' = Some k'" using a by (simp del: handle_command.simps)
      from entriesD [OF e a'] False show ?thesis using entriesD(2) [OF e, of rid]
        by (auto simp: answered_def nth_append simp del: handle_command.simps split: option.splits)
    qed
  qed
  moreover have "answers_ok ?t"
    using an small
    by (fastforce simp: answers_ok_def answered_def nth_append simp del: handle_command.simps)
  moreover have "listed ?t"
  proof (rule listedI)
    fix k'
    assume d: "distinct (map sub_id (spawned ?t))" and r: "k' \<in> set (running_tasks ?t)"
      and "k' \<notin> cancelled_tokens ?t"
    then have c: "k' \<notin> cancelled_tokens s" by (auto simp del: handle_command.simps split: option.splits)
    show "active_requests ?t (sub_id (spawned ?t ! k')) = Some k'"
    proof (cases "k' = length (spawned s)")
      case False
      then have r': "k' \<in> set (running_tasks s)" using r by (simp del: handle_command.simps)
      then have "k' < length (spawned s)" using small by (auto simp: unjoined_def)
      moreover from this have "sub_id (spawned s ! k') \<noteq> rid"
        using d nth_mem [of k' "spawned s"] by (auto simp del: handle_command.simps)
      moreover have "active_requests s (sub_id (spawned s ! k')) = Some k'"
        using listedD [OF l _ r' c] d by (simp del: handle_command.simps)
      ultimately show ?thesis by (simp add: nth_append del: handle_command.simps)
    qed (simp del: handle_command.simps)
  qed
  ultimately show ?thesis by (simp add: sampler_inv_def)
qed

lemma inv_command: "sampler_inv s \<Longrightarrow> sampler_inv (handle_command c s)"
  using inv_submit inv_cancel by (cases c) (auto simp: inv_replies update_config_def simp del: handle_command.simps(1))

lemma tasksD:
  assumes "tasks_ok s"
  shows "distinct (unjoined s)" "k \<in> set (unjoined s) \<Longrightarrow> k < length (spawned s)" "distinct (answered s)"
    "k \<in> set (answered s) \<Longrightarrow> k < length (spawned s) \<and> k \<notin> set (running_tasks s)"
    "(k, ok) \<in> set (ended_tasks s) \<Longrightarrow> ok \<longleftrightarrow> k \<in> set (answered s)"
    "k \<in> cancelled_tokens s \<Longrightarrow> k < length (spawned s)"
  using assms by (auto simp: tasks_ok_def)

lemma tasksI:
  assumes "distinct (unjoined s)" "\<And>k. k \<in> set (unjoined s) \<Longrightarrow> k < length (spawned s)" "distinct (answered s)"
    "\<And>k. k \<in> set (answered s) \<Longrightarrow> k < length (spawned s) \<and> k \<notin> set (running_tasks s)"
    "\<And>k ok. (k, ok) \<in> set (ended_tasks s) \<Longrightarrow> ok \<longleftrightarrow> k \<in> set (answered s)"
    "\<And>k. k \<in> cancelled_tokens s \<Longrightarrow> k < length (spawned s)"
  shows "tasks_ok s"
  using assms by (auto simp: tasks_ok_def)

text \<open>A task that stops running changes from one list to the other.\<close>

lemma unjoined_moves:
  assumes "distinct (unjoined s)" "k \<in> set (running_tasks s)"
    "running_tasks t = remove1 k (running_tasks s)" "ended_tasks t = ended_tasks s @ [(k, ok)]"
  shows "distinct (unjoined t) \<and> set (unjoined t) = set (unjoined s) \<and> k \<notin> set (running_tasks t)
    \<and> set (running_tasks t) \<subseteq> set (running_tasks s) \<and> (k, b) \<notin> set (ended_tasks s)"
  using assms by (auto simp: unjoined_def set_remove1_eq image_iff) force+

lemma inv_end:
  assumes "sampler_inv s" "k \<in> set (running_tasks s)" "returns s k t"
  shows "sampler_inv (end_task k t s)" (is "sampler_inv ?t")
proof -
  have e: "entries_ok s" and l: "listed s" and ta: "tasks_ok s" and an: "answers_ok s"
    using assms(1) by (simp_all add: sampler_inv_def)
  have fields: "spawned ?t = spawned s" "running_tasks ?t = remove1 k (running_tasks s)"
    "ended_tasks ?t = ended_tasks s @ [(k, True)]" "answered ?t = answered s @ [k]"
    "cancelled_tokens ?t = cancelled_tokens s" "active_requests ?t = active_requests s"
    by (simp_all add: end_task_def answered_def)
  note m = unjoined_moves [OF tasksD(1) [OF ta] assms(2) fields(2,3)]
  have k: "k < length (spawned s)" "k \<notin> set (answered s)"
    using assms(2) tasksD(2,4) [OF ta, of k] by (auto simp: unjoined_def)
  have "tasks_ok ?t"
  proof (rule tasksI)
    show "distinct (unjoined ?t)" "distinct (answered ?t)" using m tasksD(3) [OF ta] k by (simp_all add: fields)
    show "j < length (spawned ?t)" if "j \<in> set (unjoined ?t)" for j using m that tasksD(2) [OF ta] by (simp add: fields)
    show "j < length (spawned ?t) \<and> j \<notin> set (running_tasks ?t)" if "j \<in> set (answered ?t)" for j
      using m that tasksD(4) [OF ta, of j] k by (auto simp: fields)
    show "ok \<longleftrightarrow> j \<in> set (answered ?t)" if "(j, ok) \<in> set (ended_tasks ?t)" for j ok
      using that tasksD(5) [OF ta, of j ok] m by (auto simp: fields)
    show "j < length (spawned ?t)" if "j \<in> cancelled_tokens ?t" for j
      using that tasksD(6) [OF ta] by (simp add: fields)
  qed
  moreover have "entries_ok ?t"
    using entriesD [OF e] by (intro entriesI) (auto simp: fields)
  moreover have "answers_ok ?t"
    using an assms(3) request_task_concluded by (auto simp: answers_ok_def end_task_def returns_def) blast
  moreover have "listed ?t" using m l by (auto simp: listed_def fields)
  ultimately show ?thesis by (simp add: sampler_inv_def)
qed

lemma inv_panic:
  assumes "sampler_inv s" "k \<in> set (running_tasks s)"
  shows "sampler_inv (panic_task k s)" (is "sampler_inv ?t")
proof -
  have e: "entries_ok s" and l: "listed s" and ta: "tasks_ok s" and an: "answers_ok s"
    using assms(1) by (simp_all add: sampler_inv_def)
  have fields: "spawned ?t = spawned s" "running_tasks ?t = remove1 k (running_tasks s)"
    "ended_tasks ?t = ended_tasks s @ [(k, False)]" "answered ?t = answered s"
    "cancelled_tokens ?t = cancelled_tokens s" "active_requests ?t = active_requests s"
    by (simp_all add: panic_task_def answered_def)
  note m = unjoined_moves [OF tasksD(1) [OF ta] assms(2) fields(2,3)]
  have "tasks_ok ?t"
  proof (rule tasksI)
    show "distinct (unjoined ?t)" "distinct (answered ?t)" using m tasksD(3) [OF ta] by (simp_all add: fields)
    show "j < length (spawned ?t)" if "j \<in> set (unjoined ?t)" for j using m that tasksD(2) [OF ta] by (simp add: fields)
    show "j < length (spawned ?t) \<and> j \<notin> set (running_tasks ?t)" if "j \<in> set (answered ?t)" for j
      using m that tasksD(4) [OF ta, of j] by (auto simp: fields)
    show "ok \<longleftrightarrow> j \<in> set (answered ?t)" if "(j, ok) \<in> set (ended_tasks ?t)" for j ok
      using that tasksD(5) [OF ta, of j ok] tasksD(4) [OF ta, of k] assms(2) by (auto simp: fields)
    show "j < length (spawned ?t)" if "j \<in> cancelled_tokens ?t" for j
      using that tasksD(6) [OF ta] by (simp add: fields)
  qed
  moreover have "entries_ok ?t"
    using entriesD [OF e] by (intro entriesI) (auto simp: fields)
  moreover have "answers_ok ?t" using an by (simp add: answers_ok_def panic_task_def)
  moreover have "listed ?t" using m l by (auto simp: listed_def fields)
  ultimately show ?thesis by (simp add: sampler_inv_def)
qed

lemma inv_join:
  assumes "sampler_inv s" "(k, ok) \<in> set (ended_tasks s)"
  shows "sampler_inv (join_task k ok s)" (is "sampler_inv ?t")
proof -
  have e: "entries_ok s" and l: "listed s" and ta: "tasks_ok s" and an: "answers_ok s"
    using assms(1) by (simp_all add: sampler_inv_def)
  have fields: "spawned ?t = spawned s" "running_tasks ?t = running_tasks s" "answers ?t = answers s"
    "cancelled_tokens ?t = cancelled_tokens s" "ended_tasks ?t = remove1 (k, ok) (ended_tasks s)"
    "active_requests ?t = (if ok then (active_requests s)(sub_id (spawned s ! k) := None) else active_requests s)"
    by (simp_all add: join_task_def remove_request_def Let_def)
  have du: "distinct (map fst (ended_tasks s))" using tasksD(1) [OF ta] by (simp add: unjoined_def)
  then have d: "distinct (ended_tasks s)" by (simp add: distinct_map)
  then have ended: "set (ended_tasks ?t) = set (ended_tasks s) - {(k, ok)}" by (simp add: fields)
  have "tasks_ok ?t"
  proof (rule tasksI)
    have "distinct (map fst (ended_tasks ?t))"
      using du d by (auto simp: fields distinct_map intro: inj_on_subset)
    then show "distinct (unjoined ?t)"
      using tasksD(1) [OF ta] by (auto simp: unjoined_def fields(2) ended)
    show "distinct (answered ?t)" using tasksD(3) [OF ta] by (simp add: answered_def fields)
    show "j < length (spawned ?t)" if "j \<in> set (unjoined ?t)" for j
      using that tasksD(2) [OF ta, of j] by (auto simp: unjoined_def ended fields(1,2))
    show "j < length (spawned ?t) \<and> j \<notin> set (running_tasks ?t)" if "j \<in> set (answered ?t)" for j
      using that tasksD(4) [OF ta, of j] by (simp add: answered_def fields)
    show "b \<longleftrightarrow> j \<in> set (answered ?t)" if "(j, b) \<in> set (ended_tasks ?t)" for j b
      using that tasksD(5) [OF ta, of j b] by (simp add: answered_def fields(3) ended)
    show "j < length (spawned ?t)" if "j \<in> cancelled_tokens ?t" for j
      using that tasksD(6) [OF ta] by (simp add: fields)
  qed
  moreover have "entries_ok ?t"
  proof (rule entriesI)
    fix rid k'
    assume a: "active_requests ?t rid = Some k'"
    then have a': "active_requests s rid = Some k'" by (auto simp: fields split: if_splits)
    have "(k', True) \<noteq> (k, ok)" using a entriesD(2) [OF e a'] by (auto simp: fields split: if_splits)
    with entriesD [OF e a'] show "k' < length (spawned ?t) \<and> sub_id (spawned ?t ! k') = rid
        \<and> k' \<notin> cancelled_tokens ?t \<and> (k' \<in> set (answered ?t) \<longrightarrow> (k', True) \<in> set (ended_tasks ?t))"
      using d by (auto simp: fields answered_def)
  qed
  moreover have "answers_ok ?t" using an by (simp add: answers_ok_def fields)
  moreover have "listed ?t"
  proof (rule listedI)
    fix k'
    assume k': "distinct (map sub_id (spawned ?t))" "k' \<in> set (running_tasks ?t)" "k' \<notin> cancelled_tokens ?t"
    have "k' \<noteq> k" "k < length (spawned s)" "k' < length (spawned s)"
      using k'(2) assms(2) tasksD(1) [OF ta] tasksD(2) [OF ta, of k] tasksD(2) [OF ta, of k']
      by (force simp: fields unjoined_def)+
    then have "sub_id (spawned s ! k') \<noteq> sub_id (spawned s ! k)"
      using k'(1) by (auto simp: fields distinct_conv_nth)
    then show "active_requests ?t (sub_id (spawned ?t ! k')) = Some k'"
      using listedD [OF l, of k'] k' by (simp add: fields)
  qed
  ultimately show ?thesis by (simp add: sampler_inv_def)
qed

lemma inv_shut_down: "sampler_inv s \<Longrightarrow> sampler_inv (shut_down s)"
  by (auto simp: sampler_inv_defs shut_down_def ran_def)

lemma inv_sampler_step: "sampler_inv s \<Longrightarrow> sampler_step s s' \<Longrightarrow> sampler_inv s'"
  by (erule sampler_stepE)
    (simp_all add: inv_inbox inv_end inv_panic inv_join inv_command inv_shut_down del: handle_command.simps)

interpretation sampling: invariant_of "spawn_sampler config rp" sampler_step sampler_inv for config rp
  by unfold_locales (rule inv_spawn, rule inv_sampler_step)

definition sampler_reachable :: "sampler_config \<Rightarrow> retry_settings \<Rightarrow> sampler \<Rightarrow> bool" where
  "sampler_reachable config rp = sampler_step\<^sup>*\<^sup>* (spawn_sampler config rp)"

lemma sampler_reachable_inv:
  assumes "sampler_reachable config rp s"
  shows "tasks_ok s" "entries_ok s" "answers_ok s" "listed s"
  using sampling.inv_reachable assms by (simp_all add: sampler_reachable_def sampler_inv_def)

lemma sampler_reaches: "sampler_reachable config rp s \<Longrightarrow> sampler_step s s' \<Longrightarrow> sampler_reachable config rp s'"
  by (simp add: sampler_reachable_def)

text \<open>A command sent to an actor that waits is the next one it handles.\<close>

definition waiting_actor :: "sampler \<Rightarrow> bool" where
  "waiting_actor s = (handles_open s \<and> inbox s = [] \<and> ended_tasks s = [] \<and> \<not> stopped s)"

lemma command_reaches:
  assumes "sampler_reachable config rp s" "waiting_actor s"
  shows "sampler_reachable config rp (handle_command c s)"
proof -
  have "sampler_reachable config rp (s\<lparr>inbox := [c]\<rparr>)"
    using sampler_reaches [OF assms(1) sends [of s c]] assms(2) by (simp add: waiting_actor_def)
  moreover have "s\<lparr>inbox := []\<rparr> = s" using assms(2) by (cases s) (simp add: waiting_actor_def)
  ultimately show ?thesis
    using sampler_reaches [OF _ takes [of "s\<lparr>inbox := [c]\<rparr>" c "[]"]] assms(2)
    by (simp add: waiting_actor_def del: handle_command.simps)
qed

text \<open>The actor after one submission, and after a second one under the same id.\<close>

definition one_submitted :: "str \<Rightarrow> conversation_request \<Rightarrow> sampler" where
  "one_submitted rid req = handle_command (submit_and_collect rid req) (spawn_sampler example_config example_retries)"

definition two_submitted :: "str \<Rightarrow> conversation_request \<Rightarrow> conversation_request \<Rightarrow> sampler" where
  "two_submitted rid req req' = handle_command (submit rid req') (one_submitted rid req)"

lemmas submitted_defs =
  one_submitted_def two_submitted_def submit_def submit_and_collect_def spawn_sampler_def waiting_actor_def

lemma one_submitted_reachable: "sampler_reachable example_config example_retries (one_submitted rid req)"
  unfolding one_submitted_def
  by (rule command_reaches) (simp_all add: sampler_reachable_def spawn_sampler_def waiting_actor_def)

lemma two_submitted_reachable: "sampler_reachable example_config example_retries (two_submitted rid req req')"
  unfolding two_submitted_def
  by (rule command_reaches [OF one_submitted_reachable])
    (simp add: submitted_defs register_def spawn_task_def)

lemma example_returns:
  assumes "sub_config (spawned s ! k) = example_config" "settings s = example_retries"
  shows "\<exists>t. returns s k t"
proof -
  have M: "task_max_retries example_env example_retries example_config = 3"
    by (simp add: task_max_retries_def example_env_def example_config_def resolve_max_retries_with_env_def or_else_def)
  have "honest_client example_env 3"
    by (simp add: honest_client_def example_env_def is_doom_loop_def)
  then show ?thesis
    using request_task_returns [of example_env example_retries example_config, unfolded M] assms
    unfolding returns_def by metis
qed

text \<open>
  C8. The table of the sampler is sound at every moment: an entry names a submission made under its id
  that was not cancelled, and one whose result is out only until the actor has joined its task; no
  submission is answered twice; and each answer closes with one terminal event for the id of its
  submission, delivered to the receiver of the completion if there is one.
\<close>

theorem sampler_table_is_sound:
  assumes "sampler_reachable config rp s"
  shows "(\<forall>rid k. active_requests s rid = Some k \<longrightarrow>
        k < length (spawned s) \<and> sub_id (spawned s ! k) = rid \<and> k \<notin> cancelled_tokens s
        \<and> (k \<in> set (answered s) \<longrightarrow> (k, True) \<in> set (ended_tasks s)))
    \<and> distinct (answered s)
    \<and> (\<forall>(k, t)\<in>set (answers s). k \<notin> set (running_tasks s) \<and> (completion t \<noteq> None \<longleftrightarrow> sub_waits (spawned s ! k))
        \<and> (\<exists>pre e. sent t = pre @ [e] \<and> terminal e \<and> list_all (\<lambda>e. \<not> terminal e) pre
             \<and> list_all (\<lambda>e. event_request e = sub_id (spawned s ! k)) (sent t)))"
proof (intro conjI allI impI ballI)
  note inv = sampler_reachable_inv [OF assms]
  show "distinct (answered s)" using tasksD(3) [OF inv(1)] .
  show "k < length (spawned s)" "sub_id (spawned s ! k) = rid" "k \<notin> cancelled_tokens s"
    if "active_requests s rid = Some k" for rid k
    using entriesD [OF inv(2) that] by simp_all
  show "(k, True) \<in> set (ended_tasks s)" if "active_requests s rid = Some k" "k \<in> set (answered s)" for rid k
    using entriesD(4) [OF inv(2) that] .
  fix x
  assume x: "x \<in> set (answers s)"
  obtain k t where kt: "x = (k, t)" by (cases x)
  have "k \<notin> set (running_tasks s)"
    using tasksD(4) [OF inv(1), of k] x by (force simp: answered_def kt)
  moreover from inv(3) x obtain env :: sampler_env where
    "concluded (env_libraries env) (sub_config (spawned s ! k)) (sub_id (spawned s ! k))
        (sub_request (spawned s ! k)) (sub_waits (spawned s ! k)) t"
    by (auto simp: answers_ok_def kt)
  then have "(completion t \<noteq> None \<longleftrightarrow> sub_waits (spawned s ! k))
    \<and> (\<exists>pre e. sent t = pre @ [e] \<and> terminal e \<and> list_all (\<lambda>e. \<not> terminal e) pre
         \<and> list_all (\<lambda>e. event_request e = sub_id (spawned s ! k)) (sent t))"
    unfolding concluded_def by (elim exE conjE verdict.cases) (auto simp: list_all_iff)
  ultimately show "case x of (k, t) \<Rightarrow> k \<notin> set (running_tasks s)
        \<and> (completion t \<noteq> None \<longleftrightarrow> sub_waits (spawned s ! k))
        \<and> (\<exists>pre e. sent t = pre @ [e] \<and> terminal e \<and> list_all (\<lambda>e. \<not> terminal e) pre
             \<and> list_all (\<lambda>e. event_request e = sub_id (spawned s ! k)) (sent t))"
    by (simp add: kt)
qed

lemma sampler_table_is_sound_witness:
  "active_requests (one_submitted ''a'' \<lparr>items = []\<rparr>) ''a'' = Some 0
   \<and> sub_id (spawned (one_submitted ''a'' \<lparr>items = []\<rparr>) ! 0) = ''a''
   \<and> 0 \<notin> cancelled_tokens (one_submitted ''a'' \<lparr>items = []\<rparr>)"
proof -
  have "active_requests (one_submitted ''a'' \<lparr>items = []\<rparr>) ''a'' = Some 0"
    by (simp add: submitted_defs register_def spawn_task_def)
  with sampler_table_is_sound [OF one_submitted_reachable, of "''a''" "\<lparr>items = []\<rparr>"] show ?thesis by blast
qed

text \<open>
  C16. Cancelling reaches the request: as long as no id has been submitted twice, a running task that has
  not been cancelled is found under its id, and the cancellation of that id cancels it, nothing else, and
  frees the id.
\<close>

theorem cancel_reaches_running_request:
  assumes "sampler_reachable config rp s" "distinct (map sub_id (spawned s))"
    "k \<in> set (running_tasks s)" "k \<notin> cancelled_tokens s"
  shows "fst (cancel_request (sub_id (spawned s ! k)) s)
    \<and> cancelled_tokens (handle_command (cancel_on_drop (sub_id (spawned s ! k))) s) = insert k (cancelled_tokens s)
    \<and> active_requests (handle_command (cancel_on_drop (sub_id (spawned s ! k))) s)
        = (active_requests s)(sub_id (spawned s ! k) := None)"
  using listedD [OF sampler_reachable_inv(4) [OF assms(1)] assms(2-4)]
  by (simp add: cancel_on_drop_def cancel_request_def cancel_token_def remove_request_def)

lemma cancel_reaches_running_request_witness:
  "0 \<in> cancelled_tokens (handle_command (cancel_on_drop ''a'') (one_submitted ''a'' \<lparr>items = []\<rparr>))"
proof -
  let ?s = "one_submitted ''a'' \<lparr>items = []\<rparr>"
  have "distinct (map sub_id (spawned ?s))" "0 \<in> set (running_tasks ?s)" "0 \<notin> cancelled_tokens ?s"
    and id: "sub_id (spawned ?s ! 0) = ''a''"
    by (simp_all add: submitted_defs register_def spawn_task_def)
  from cancel_reaches_running_request [OF one_submitted_reachable this(1-3)] show ?thesis
    unfolding id by simp
qed

text \<open>
  C18. An id submitted a second time loses its entry: the first task, cancelled by the second submission,
  ends and is joined, and joining it removes the entry of the second request by its id.  That request
  runs on, is not cancelled, is reported inactive, and can no longer be cancelled under its id.
\<close>

theorem duplicate_id_hides_running_request:
  "\<exists>s. sampler_reachable example_config example_retries s \<and> map sub_id (spawned s) = [rid, rid]
     \<and> running_tasks s = [1] \<and> 1 \<notin> cancelled_tokens s \<and> active_requests s rid = None
     \<and> cancel_request rid s = (False, s)
     \<and> replies (handle_command (IsActive rid) s) = replies s @ [RequestActive rid False]"
proof -
  let ?s = "two_submitted rid req req'"
  have fields: "spawned ?s = [\<lparr>sub_id = rid, sub_request = req, sub_config = example_config, sub_waits = True\<rparr>,
      \<lparr>sub_id = rid, sub_request = req', sub_config = example_config, sub_waits = False\<rparr>]"
    "running_tasks ?s = [0, 1]" "cancelled_tokens ?s = {0}" "ended_tasks ?s = []" "settings ?s = example_retries"
    "\<not> stopped ?s"
    by (simp_all add: submitted_defs register_def spawn_task_def cancel_token_def)
  then obtain t where "returns ?s 0 t" using example_returns [of ?s 0] by auto
  then have "sampler_reachable example_config example_retries (end_task 0 t ?s)"
    using sampler_reaches [OF two_submitted_reachable ends] by (simp add: fields)
  then have "sampler_reachable example_config example_retries (join_task 0 True (end_task 0 t ?s))"
    by (rule sampler_reaches) (rule joins, simp_all add: end_task_def fields)
  then show ?thesis
    by (intro exI [where x = "join_task 0 True (end_task 0 t ?s)"])
      (simp add: join_task_def end_task_def fields remove_request_def cancel_request_def)
qed

end
