(* ===== verification/Turn_Selection.thy ===== *)
theory Turn_Selection
  imports History_Repair Machine_Words Complex_Main
begin

text \<open>
  When a conversation is compacted and where it is cut (\<^verbatim>\<open>common/xai-grok-compaction/src\<close>:
  \<^verbatim>\<open>select.rs\<close>, \<^verbatim>\<open>intra_compaction/trigger.rs\<close>, \<^verbatim>\<open>intra_compaction/config.rs\<close>).  The crate is generic in
  the items of a conversation; of the trait \<^verbatim>\<open>CompactionItem\<close> the selection uses only the test for a tool
  result, which is an argument of the definitions here.
\<close>

subsection \<open>The trigger\<close>

datatype compaction_mode = FullReplace | StepsOnly | HistoryOnly | HistoryThenSteps

datatype summarizer = SharedSummarizer | LegacySummarizer

text \<open>The ratios are doubles, of which every value is a rational number; \<^verbatim>\<open>0.8\<close> and \<^verbatim>\<open>0.3\<close> stand for the nearest ones.\<close>

record compaction_policy =
  enabled :: bool
  mode :: compaction_mode
  trigger_threshold_percent :: "8 word"
  min_steps_before_compact :: "32 word"
  min_compactable_tokens :: "32 word"
  max_reduction_ratio :: rat
  compaction_model_name :: "string option"
  sampling_timeout_secs :: nat
  max_attempts :: "32 word"
  retry_delay_secs :: nat
  compaction_version :: string
  summarizer :: summarizer
  target_threshold_percent :: "8 word"
  steps_trigger_ratio :: rat
  user_message_truncate_chars :: "32 word"

text \<open>The last resort for the name of the model, and the values of absent fields (\<^verbatim>\<open>Default\<close>).\<close>

definition default_compaction_model_name :: string where
  "default_compaction_model_name = ''grok-4.20''"

definition effective_compaction_model_name :: "compaction_policy \<Rightarrow> string" where
  "effective_compaction_model_name policy =
     (case compaction_model_name policy of
        None \<Rightarrow> default_compaction_model_name
      | Some name \<Rightarrow> (if trim name = [] then default_compaction_model_name else trim name))"

definition default_compaction_policy :: compaction_policy where
  "default_compaction_policy = \<lparr>enabled = False, mode = FullReplace, trigger_threshold_percent = 85,
     min_steps_before_compact = 3, min_compactable_tokens = 5000, max_reduction_ratio = 8 / 10,
     compaction_model_name = Some default_compaction_model_name, sampling_timeout_secs = 120,
     max_attempts = 2, retry_delay_secs = 3, compaction_version = ''intra-v1'',
     summarizer = SharedSummarizer, target_threshold_percent = 50, steps_trigger_ratio = 3 / 10,
     user_message_truncate_chars = 3000\<rparr>"

record compaction_trigger =
  last_prompt_tokens :: "32 word"
  context_window :: "32 word"
  trigger_percent :: "8 word"
  trigger_step :: "32 word"

text \<open>\<^verbatim>\<open>(window as u64 * percent as u64 / 100) as u32\<close>: the product fits in 64 bits, the cast wraps.\<close>

definition percent_of :: "32 word \<Rightarrow> 8 word \<Rightarrow> 32 word" where
  "percent_of window percent = of_nat (unat window * unat percent div 100)"

definition should_compact ::
    "compaction_policy \<Rightarrow> 32 word \<Rightarrow> 32 word \<Rightarrow> 32 word \<Rightarrow> compaction_trigger option" where
  "should_compact policy tokens window step =
     (if \<not> enabled policy then None
      else if window = 0 then None
      else if mode policy \<noteq> FullReplace \<and> step < min_steps_before_compact policy then None
      else if tokens \<le> percent_of window (trigger_threshold_percent policy) then None
      else Some \<lparr>last_prompt_tokens = tokens, context_window = window,
                 trigger_percent = of_nat (min (unat tokens * 100 div unat window) 100),
                 trigger_step = step\<rparr>)"

subsection \<open>The split\<close>

record split_plan =
  split_idx :: nat
  tokens_to_compact :: "32 word"

text \<open>
  The walk from the newest item to the oldest: the counts in that order, the tokens kept so far and the
  split so far.
\<close>

fun walk_back :: "32 word \<Rightarrow> 32 word list \<Rightarrow> 32 word \<Rightarrow> nat \<Rightarrow> nat" where
  "walk_back target [] kept split = split"
| "walk_back target (w # older) kept split =
     (if target < saturating_add_u32 kept w then split
      else walk_back target older (saturating_add_u32 kept w) (split - 1))"

fun skip_results :: "('i \<Rightarrow> bool) \<Rightarrow> 'i list \<Rightarrow> nat \<Rightarrow> nat" where
  "skip_results is_result [] idx = idx"
| "skip_results is_result (x # xs) idx =
     (if is_result x then skip_results is_result xs (Suc idx) else idx)"

definition snap_to_safe_boundary :: "('i \<Rightarrow> bool) \<Rightarrow> 'i list \<Rightarrow> nat \<Rightarrow> nat" where
  "snap_to_safe_boundary is_result xs candidate =
     (if length xs \<le> candidate then length xs
      else if \<not> is_result (xs ! candidate) then candidate
      else skip_results is_result (drop candidate xs) candidate)"

definition select_turns_to_compact ::
    "('i \<Rightarrow> bool) \<Rightarrow> 32 word list \<Rightarrow> 'i list \<Rightarrow> 32 word \<Rightarrow> 32 word \<Rightarrow> split_plan option" where
  "select_turns_to_compact is_result counts xs target min_compactable =
     (if xs = [] then None
      else (let split = walk_back target (rev counts) 0 (length xs)
            in if split = 0 then None
               else (let safe = snap_to_safe_boundary is_result xs split
                     in if length xs \<le> safe then None
                        else (let tokens = saturating_sum_u32 (take safe counts)
                              in if tokens < min_compactable then None
                                 else Some \<lparr>split_idx = safe, tokens_to_compact = tokens\<rparr>))))"

subsection \<open>What the walk and the snap compute\<close>

text \<open>The tokens of the items from an index on, as the code counts them.\<close>

definition tokens_from :: "32 word list \<Rightarrow> nat \<Rightarrow> nat" where
  "tokens_from counts k = min (sum_list (map unat (drop k counts))) (2 ^ 32 - 1)"

lemma tokens_from_mono: "j \<le> k \<Longrightarrow> tokens_from counts k \<le> tokens_from counts j"
proof -
  assume "j \<le> k"
  then have "drop k counts = drop (k - j) (drop j counts)" by simp
  moreover have "sum_list (map unat (drop n ws)) \<le> sum_list (map unat ws)" for n and ws :: "32 word list"
    by (metis append_take_drop_id le_add2 map_append sum_list_append)
  ultimately show ?thesis unfolding tokens_from_def by (metis min.mono order_refl)
qed

lemma walk_back_spec:
  assumes "k = length counts" "kept = saturating_sum_u32 (rev newer)" "unat kept \<le> unat target"
  shows "walk_back target (rev counts) kept k \<le> k
    \<and> tokens_from (counts @ newer) (walk_back target (rev counts) kept k) \<le> unat target
    \<and> (\<forall>j < walk_back target (rev counts) kept k. unat target < tokens_from (counts @ newer) j)"
  using assms
proof (induction counts arbitrary: k kept newer rule: rev_induct)
  case Nil
  then show ?case by (simp add: tokens_from_def saturating_sum_min rev_map [symmetric])
next
  case (snoc c cs)
  let ?kept = "saturating_add_u32 kept c"
  have kept: "?kept = saturating_sum_u32 (rev (c # newer))"
    using snoc.prems(2) by (simp add: saturating_sum_u32_def)
  then have n: "unat ?kept = tokens_from (cs @ c # newer) (length cs)"
    by (simp add: saturating_sum_min tokens_from_def rev_map [symmetric])
  show ?case
  proof (cases "target < ?kept")
    case True
    moreover have "tokens_from (cs @ c # newer) j \<ge> tokens_from (cs @ c # newer) (length cs)"
      if "j \<le> length cs" for j using tokens_from_mono [OF that] .
    moreover have "tokens_from (cs @ c # newer) (Suc (length cs)) = unat kept"
      using snoc.prems(2) by (simp add: saturating_sum_min tokens_from_def rev_map [symmetric])
    ultimately show ?thesis
      using snoc.prems n by (auto simp: word_less_nat_alt less_Suc_eq_le intro: less_le_trans)
  next
    case False
    then have "unat ?kept \<le> unat target" by (simp add: word_less_nat_alt)
    note IH = snoc.IH [OF refl kept this]
    have "walk_back target (rev (cs @ [c])) kept k = walk_back target (rev cs) ?kept (length cs)"
      by (simp only: snoc.prems(1) rev.simps rev_append append.simps walk_back.simps if_not_P [OF False]
          length_append list.size add_Suc_right add_0_right diff_Suc_1)
    moreover have "(cs @ [c]) @ newer = cs @ c # newer" "length cs \<le> k" using snoc.prems(1) by simp_all
    ultimately show ?thesis using IH by (metis order.trans)
  qed
qed

lemma skip_results_eq: "skip_results is_result xs idx = idx + length (takeWhile is_result xs)"
  by (induction is_result xs idx rule: skip_results.induct) auto

lemma snap_eq:
  assumes "candidate \<le> length xs"
  shows "snap_to_safe_boundary is_result xs candidate
    = candidate + length (takeWhile is_result (drop candidate xs))"
proof (cases "candidate < length xs")
  case True
  then have "drop candidate xs = xs ! candidate # drop (Suc candidate) xs" by (simp add: Cons_nth_drop_Suc)
  with True show ?thesis by (simp add: snap_to_safe_boundary_def skip_results_eq)
next
  case False
  with assms show ?thesis by (simp add: snap_to_safe_boundary_def)
qed

text \<open>The first index from a candidate on that does not hold a tool result, or the length.\<close>

lemma snap_spec:
  assumes "candidate \<le> length xs" "snap_to_safe_boundary is_result xs candidate = safe"
  shows "candidate \<le> safe \<and> safe \<le> length xs \<and> (safe < length xs \<longrightarrow> \<not> is_result (xs ! safe))
    \<and> (\<forall>j. candidate \<le> j \<and> j < safe \<longrightarrow> is_result (xs ! j))"
proof -
  let ?run = "takeWhile is_result (drop candidate xs)"
  have safe: "safe = candidate + length ?run" using assms snap_eq by blast
  have short: "length ?run \<le> length xs - candidate"
    using length_takeWhile_le [of is_result "drop candidate xs"] by simp
  have "\<not> is_result (xs ! safe)" if "safe < length xs"
    using nth_length_takeWhile [of is_result "drop candidate xs"] that safe by simp
  moreover have "is_result (xs ! j)" if "candidate \<le> j" "j < safe" for j
  proof -
    from that safe have j: "j - candidate < length ?run" by simp
    then have "is_result (?run ! (j - candidate))" by (metis nth_mem set_takeWhileD)
    with j that short show ?thesis by (simp add: takeWhile_nth)
  qed
  ultimately show ?thesis using safe short assms(1) by auto
qed

subsection \<open>What a selection promises\<close>

text \<open>A split may be made where the items behind it fit and the first of them is not a tool result.\<close>

definition may_split :: "('i \<Rightarrow> bool) \<Rightarrow> 32 word list \<Rightarrow> 'i list \<Rightarrow> 32 word \<Rightarrow> nat \<Rightarrow> bool" where
  "may_split is_result counts xs target k =
     (k < length xs \<and> \<not> is_result (xs ! k) \<and> tokens_from counts k \<le> unat target)"

lemma walk_back_start:
  assumes "length counts = length xs" "walk_back target (rev counts) 0 (length xs) = split"
  shows "split \<le> length xs \<and> tokens_from counts split \<le> unat target
    \<and> (\<forall>j < split. unat target < tokens_from counts j)"
  using walk_back_spec [of "length xs" counts 0 "[]" target] assms by (simp add: saturating_sum_u32_def)

lemma selection_iff:
  assumes "length counts = length xs"
  shows "select_turns_to_compact is_result counts xs target m = Some p \<longleftrightarrow>
    may_split is_result counts xs target (split_idx p)
    \<and> (\<forall>j < split_idx p. \<not> may_split is_result counts xs target j)
    \<and> unat target < tokens_from counts 0 \<and> m \<le> tokens_to_compact p
    \<and> tokens_to_compact p = saturating_sum_u32 (take (split_idx p) counts)"
proof -
  define split where "split = walk_back target (rev counts) 0 (length xs)"
  note w = walk_back_start [OF assms split_def [symmetric]]
  define safe where "safe = snap_to_safe_boundary is_result xs split"
  note s = snap_spec [OF conjunct1 [OF w] safe_def [symmetric]]
  have some: "0 < split \<longleftrightarrow> unat target < tokens_from counts 0" using w by (cases "split = 0") auto
  have first: "may_split is_result counts xs target k \<Longrightarrow> safe \<le> k" for k
    using w s unfolding may_split_def by (metis leI le_less_trans not_le)
  have at: "safe < length xs \<Longrightarrow> may_split is_result counts xs target safe"
    using w s tokens_from_mono [of split safe counts] by (auto simp: may_split_def)
  have unique: "may_split is_result counts xs target k \<and> (\<forall>j < k. \<not> may_split is_result counts xs target j)
      \<longleftrightarrow> k = safe \<and> safe < length xs" for k
  proof
    assume k: "may_split is_result counts xs target k \<and> (\<forall>j < k. \<not> may_split is_result counts xs target j)"
    then have "safe \<le> k" "k < length xs" using first by (auto simp: may_split_def)
    moreover from this have "may_split is_result counts xs target safe" by (intro at) simp
    ultimately show "k = safe \<and> safe < length xs" using k by (metis le_neq_implies_less)
  next
    assume "k = safe \<and> safe < length xs"
    then show "may_split is_result counts xs target k \<and> (\<forall>j < k. \<not> may_split is_result counts xs target j)"
      using at first by (metis not_le)
  qed
  have "select_turns_to_compact is_result counts xs target m = Some p \<longleftrightarrow>
      0 < split \<and> safe < length xs \<and> m \<le> saturating_sum_u32 (take safe counts)
      \<and> split_idx p = safe \<and> tokens_to_compact p = saturating_sum_u32 (take safe counts)"
    unfolding select_turns_to_compact_def Let_def split_def [symmetric] safe_def [symmetric]
    by (cases p) (auto simp: not_less)
  then show ?thesis using some unique [of "split_idx p"] by auto
qed

text \<open>A cut that is not before a tool result leaves the calls and results on either side paired.\<close>

lemma run_take: "run ys = [] \<Longrightarrow> run (take n ys) = []"
  by (cases ys; cases n) (auto split: if_splits)

lemma paired_split:
  assumes "paired xs" "k < length xs" "\<not> is_tool_result (xs ! k)"
  shows "paired (take k xs) \<and> paired (drop k xs)"
  using assms
proof (induction xs arbitrary: k rule: paired.induct)
  case (2 x xs)
  show ?case
  proof (cases k)
    case (Suc j)
    show ?thesis
    proof (cases "calls_of x = []")
      case True
      with 2 Suc show ?thesis by simp
    next
      case False
      let ?n = "length (run xs)"
      have j: "j < length xs" "\<not> is_tool_result (xs ! j)" using 2 Suc by simp_all
      have n: "?n \<le> j"
        using j by (metis leI nth_mem set_takeWhileD takeWhile_nth)
      have xs: "xs = run xs @ after_run xs" by simp
      have at: "after_run xs ! (j - ?n) = xs ! j" "j - ?n < length (after_run xs)"
        using n j by (metis xs nth_append not_le, metis xs add_diff_inverse_nat length_append nat_add_left_cancel_less not_le)
      from 2(1) [OF False _ at(2)] 2(3) False at(1) j
      have IH: "paired (take (j - ?n) (after_run xs)) \<and> paired (drop (j - ?n) (after_run xs))" by simp
      have "take j xs = run xs @ take (j - ?n) (after_run xs)" "drop j xs = drop (j - ?n) (after_run xs)"
        using n by (metis xs take_append take_all, metis xs append_Nil drop_append drop_all)
      moreover have "run (take (j - ?n) (after_run xs)) = []"
        using run_after_run by (rule run_take)
      ultimately have "run (take j xs) = run xs" "after_run (take j xs) = take (j - ?n) (after_run xs)"
        using run_append [OF run_results [of xs]] after_run_append [OF run_results [of xs]]
        by (simp, metis append_Nil takeWhile_dropWhile_id)
      with IH 2(3) False Suc \<open>drop j xs = drop (j - ?n) (after_run xs)\<close> show ?thesis by simp
    qed
  qed (use 2 in simp)
qed simp

text \<open>A threshold is exact as long as the percentage is one, and the step matters only to the partial modes.\<close>

lemma percent_of_exact: "unat percent \<le> 100 \<Longrightarrow> unat (percent_of window percent) = unat window * unat percent div 100"
proof -
  assume p: "unat percent \<le> 100"
  have "unat window * unat percent div 100 \<le> unat window * 100 div 100"
    by (rule div_le_mono) (use p in simp)
  also have "\<dots> < 2 ^ 32" using unsigned_less [of window] by simp
  finally show ?thesis by (simp add: percent_of_def unat_of_nat take_bit_eq_mod)
qed

lemma should_compact_iff:
  assumes "unat (trigger_threshold_percent policy) \<le> 100"
  shows "should_compact policy tokens window step \<noteq> None \<longleftrightarrow>
    enabled policy \<and> window \<noteq> 0 \<and> (mode policy = FullReplace \<or> min_steps_before_compact policy \<le> step)
    \<and> unat window * unat (trigger_threshold_percent policy) div 100 < unat tokens"
  using percent_of_exact [OF assms, of window] by (auto simp: should_compact_def word_le_nat_alt word_less_nat_alt not_less)

text \<open>
  C36. Selection never tears a call from its results: where it cuts a conversation whose calls and
  results are paired, both sides are paired.  It keeps at least one item and removes at least one; what
  it keeps fits the target; no earlier cut before an item that is not a result would fit; and what it
  removes has the count it reports, which reaches the minimum.
\<close>

theorem selection_keeps_pairs:
  assumes "length counts = length xs" "paired xs"
    "select_turns_to_compact is_tool_result counts xs target m = Some p"
  shows "0 < split_idx p \<and> split_idx p < length xs
    \<and> paired (take (split_idx p) xs) \<and> paired (drop (split_idx p) xs)
    \<and> tokens_from counts (split_idx p) \<le> unat target
    \<and> (\<forall>j < split_idx p. is_tool_result (xs ! j) \<or> unat target < tokens_from counts j)
    \<and> unat (tokens_to_compact p) = min (sum_list (map unat (take (split_idx p) counts))) (2 ^ 32 - 1)
    \<and> m \<le> tokens_to_compact p"
proof -
  from selection_iff [OF assms(1)] assms(3) have s: "may_split is_tool_result counts xs target (split_idx p)"
    "\<forall>j < split_idx p. \<not> may_split is_tool_result counts xs target j" "unat target < tokens_from counts 0"
    "m \<le> tokens_to_compact p" "tokens_to_compact p = saturating_sum_u32 (take (split_idx p) counts)"
    by metis+
  from s(1) paired_split [OF assms(2)]
  have "paired (take (split_idx p) xs) \<and> paired (drop (split_idx p) xs)" by (simp add: may_split_def)
  moreover have "0 < split_idx p" using s(1,3) by (cases "split_idx p = 0") (auto simp: may_split_def)
  moreover have "is_tool_result (xs ! j) \<or> unat target < tokens_from counts j" if "j < split_idx p" for j
    using s(1,2) that by (auto simp: may_split_def not_le)
  ultimately show ?thesis using s saturating_sum_min [of "take (split_idx p) counts"]
    by (auto simp: may_split_def)
qed

text \<open>A question, a call with its result, and an answer, of which the answer and the result would fit.\<close>

definition example_turns :: "conversation_item list" where
  "example_turns = [user ''q'', assistant_tool_calls [\<lparr>call_id = ''c'', call_name = ''f'', arguments = []\<rparr>],
     tool_result ''c'' ''r'', assistant_message ''a'']"

lemmas example_turns_defs =
  example_turns_def user_def user_of_def assistant_tool_calls_def tool_result_def assistant_message_def

lemma selection_keeps_pairs_witness:
  "\<exists>p. select_turns_to_compact is_tool_result [10, 10, 50, 10] example_turns 60 5 = Some p
     \<and> split_idx p = 3 \<and> paired (take 3 example_turns) \<and> paired (drop 3 example_turns)"
proof -
  have run: "select_turns_to_compact is_tool_result [10, 10, 50, 10] example_turns 60 5
      = Some \<lparr>split_idx = 3, tokens_to_compact = 70\<rparr>"
    by (simp add: select_turns_to_compact_def snap_to_safe_boundary_def example_turns_defs Let_def
        saturating_add_u32_def saturating_sum_u32_def)
  have "length [10, 10, 50, 10 :: 32 word] = length example_turns" "paired example_turns"
    by (simp_all add: example_turns_defs calls_of_def result_id_def)
  from selection_keeps_pairs [OF this run] run show ?thesis by simp
qed

end
