(* ===== verification/Text_Search.thy ===== *)
theory Text_Search
  imports Prelude
begin

text \<open>
  More of the string search of the Rust standard library (\<^verbatim>\<open>str::rfind\<close>), and how replacing and
  trimming change what a string contains: a replacement that starts like its pattern creates no
  occurrence of a word of another shape, and trimming keeps a piece of the string.
\<close>

fun rfind_sub :: "str \<Rightarrow> str \<Rightarrow> nat option" where
  "rfind_sub [] p = (if p = [] then Some 0 else None)"
| "rfind_sub (c # s) p =
     (case rfind_sub s p of
        Some i \<Rightarrow> Some (Suc i)
      | None \<Rightarrow> (if starts_with (c # s) p then Some 0 else None))"

lemma rfind_sub_bound: "rfind_sub s p = Some i \<Longrightarrow> i + length p \<le> length s"
proof (induction s p arbitrary: i rule: rfind_sub.induct)
  case (2 c s p)
  then show ?case
    by (auto split: option.splits if_splits dest!: starts_withD) (metis le_add1 length_Cons length_append)
qed (simp split: if_splits)

lemma rfind_sub_None: "rfind_sub s p = None \<longleftrightarrow> \<not> contains s p"
  by (induction s p rule: rfind_sub.induct) (auto simp: contains_def split: option.splits)

subsection \<open>Containing a word\<close>

lemma contains_Nil [simp]: "contains [] u \<longleftrightarrow> u = []"
  by (simp add: contains_def)

lemma contains_Cons: "contains (c # s) u \<longleftrightarrow> starts_with (c # s) u \<or> contains s u"
  by (auto simp: contains_def)

lemma contains_append_right: "contains t u \<Longrightarrow> contains (s @ t) u"
  by (metis append_assoc contains_iff)

lemma contains_piece: "contains s u \<Longrightarrow> contains (a @ s @ b) u"
  by (metis append_assoc contains_iff)

lemma starts_with_contains: "starts_with s u \<Longrightarrow> contains s u"
  by (metis append_Nil contains_iff starts_withD)

text \<open>A word that nowhere in \<open>r\<close> can begin occurs in \<open>r @ t\<close> only behind \<open>r\<close>.\<close>

lemma contains_behind:
  "contains (r @ t) (m # v) \<Longrightarrow> m \<notin> set r \<Longrightarrow> contains t (m # v)"
  by (induction r) (auto simp: contains_Cons)

lemma find_sub_behind:
  "m \<notin> set r \<Longrightarrow> find_sub (r @ t) (m # v) = map_option (\<lambda>i. length r + i) (find_sub t (m # v))"
  by (induction r; cases "find_sub t (m # v)") auto

subsection \<open>Replacing\<close>

text \<open>A replacement changes nothing of a prefix without the letter both strings start with.\<close>

lemma starts_with_replace_plain:
  "m \<notin> set v \<Longrightarrow> starts_with (replace s (m # p) (m # r)) v = starts_with s v"
proof (induction s "m # p" "m # r" arbitrary: v rule: replace.induct)
  case (2 c s)
  then show ?case by (cases v) auto
qed simp

lemma starts_with_replace:
  assumes "m \<notin> set (d # v)" "d \<noteq> z" "starts_with (replace s (m # p) (m # z # r)) (m # d # v)"
  shows "starts_with s (m # d # v) \<and> \<not> starts_with s (m # p)"
proof (cases s)
  case Nil
  with assms(3) show ?thesis by simp
next
  case (Cons c t)
  show ?thesis
  proof (cases "starts_with s (m # p)")
    case True
    with Cons assms(2,3) show ?thesis by simp
  next
    case False
    with Cons have "replace s (m # p) (m # z # r) = c # replace t (m # p) (m # z # r)" by auto
    with assms(3) have "c = m" "starts_with (replace t (m # p) (m # z # r)) (d # v)" by simp_all
    with starts_with_replace_plain [OF assms(1), of t p "z # r"] Cons False show ?thesis by simp
  qed
qed

text \<open>Escaping behind the first letter removes the word and brings in no other word of its shape.\<close>

lemma contains_escaped:
  assumes "m \<notin> set (d # v)" "d \<noteq> z" "m \<notin> set (z # r)" "contains (replace s (m # p) (m # z # r)) (m # d # v)"
  shows "contains s (m # d # v) \<and> p \<noteq> d # v"
  using assms(4)
proof (induction s "m # p" "m # z # r" rule: replace.induct)
  case (2 c s)
  show ?case
  proof (cases "starts_with (c # s) (m # p)")
    case True
    let ?rest = "drop (length (m # p)) (c # s)"
    from 2(3) True have "contains ((m # z # r) @ replace ?rest (m # p) (m # z # r)) (m # d # v)" by simp
    then have "contains ((z # r) @ replace ?rest (m # p) (m # z # r)) (m # d # v)"
      using assms(2) by (simp only: append.simps contains_Cons starts_with.simps) auto
    from contains_behind [OF this assms(3)] 2(1) True
    have "contains ?rest (m # d # v) \<and> p \<noteq> d # v" by simp
    then show ?thesis using contains_append_right [of ?rest _ "take (length (m # p)) (c # s)"] by simp
  next
    case False
    let ?t = "replace s (m # p) (m # z # r)"
    have t: "replace (c # s) (m # p) (m # z # r) = c # ?t" using False by auto
    from 2(3) have "starts_with (c # ?t) (m # d # v) \<or> contains ?t (m # d # v)"
      unfolding t contains_Cons .
    then show ?thesis
    proof
      assume "starts_with (c # ?t) (m # d # v)"
      then have "starts_with (c # s) (m # d # v) \<and> \<not> starts_with (c # s) (m # p)"
        using starts_with_replace [OF assms(1,2), of "c # s" p r] t by simp
      then show ?thesis by (auto simp: contains_Cons)
    next
      assume "contains ?t (m # d # v)"
      with 2(2) False show ?thesis by (auto simp: contains_Cons)
    qed
  qed
qed simp

text \<open>Shortening runs of a letter brings in no word without it.\<close>

lemma contains_shortened:
  assumes "m \<notin> set u" "set r \<subseteq> {m}" "contains (replace s (m # p) (m # r)) u"
  shows "contains s u"
proof (cases u)
  case Nil
  then show ?thesis by (metis append_Nil contains_iff)
next
  case (Cons d v)
  from assms(3) show ?thesis
  proof (induction s "m # p" "m # r" rule: replace.induct)
    case (2 c s)
    show ?case
    proof (cases "starts_with (c # s) (m # p)")
      case True
      let ?rest = "drop (length (m # p)) (c # s)"
      from 2(3) True have "contains ((m # r) @ replace ?rest (m # p) (m # r)) (d # v)"
        using Cons by simp
      moreover have "d \<notin> set (m # r)" using assms(1,2) Cons by auto
      ultimately have "contains (replace ?rest (m # p) (m # r)) (d # v)" by (rule contains_behind)
      with 2(1) True Cons have "contains ?rest u" by simp
      then show ?thesis using contains_append_right [of ?rest _ "take (length (m # p)) (c # s)"] by simp
    next
      case False
      let ?t = "replace s (m # p) (m # r)"
      have t: "replace (c # s) (m # p) (m # r) = c # ?t" using False by auto
      from 2(3) have "starts_with (c # ?t) u \<or> contains ?t u" unfolding t contains_Cons .
      then show ?thesis
      proof
        assume "starts_with (c # ?t) u"
        then have "starts_with (c # s) u"
          using starts_with_replace_plain [OF assms(1), of "c # s" p r] t by simp
        then show ?thesis by (simp add: contains_Cons)
      next
        assume "contains ?t u"
        with 2(2) False show ?thesis by (simp add: contains_Cons)
      qed
    qed
  qed simp
qed

lemma replace_absent: "\<not> contains s p \<Longrightarrow> replace s p r = s"
  by (induction s p r rule: replace.induct) (auto simp: contains_Cons)

lemma length_replace_le: "length r \<le> length p \<Longrightarrow> length (replace s p r) \<le> length s"
proof (induction s p r rule: replace.induct)
  case (2 c s p r)
  show ?case
  proof (cases "p \<noteq> [] \<and> starts_with (c # s) p")
    case True
    then have "length p \<le> length (c # s)" by (metis length_append le_add1 starts_withD)
    with True 2(1,3) show ?thesis by simp
  next
    case False
    with 2(2,3) show ?thesis by (simp only: replace.simps if_False list.size) simp
  qed
qed simp

lemma length_replace_less:
  "contains s p \<Longrightarrow> length r < length p \<Longrightarrow> length (replace s p r) < length s"
proof (induction s p r rule: replace.induct)
  case (2 c s p r)
  show ?case
  proof (cases "starts_with (c # s) p")
    case True
    then have "length p \<le> length (c # s)" by (metis length_append le_add1 starts_withD)
    moreover have "length (replace (drop (length p) (c # s)) p r) \<le> length (drop (length p) (c # s))"
      using 2(4) by (intro length_replace_le) simp
    ultimately show ?thesis using True 2(4) by (cases "p = []") auto
  next
    case False
    with 2 show ?thesis by (simp add: contains_Cons)
  qed
qed simp

subsection \<open>Trimming\<close>

lemma ws_prefix_Nil [simp]: "ws_prefix ws_encodings [] = 0" "ws_prefix (map rev ws_encodings) [] = 0"
  by (simp_all add: ws_prefix_def ws_encodings_def)

lemma trim_ws_fix: "ws_prefix encs s = 0 \<Longrightarrow> trim_ws n encs s = s"
  by (cases n) simp_all

lemma trim_ws_idem: "ws_prefix encs [] = 0 \<Longrightarrow> length s \<le> n \<Longrightarrow> trim_ws k encs (trim_ws n encs s) = trim_ws n encs s"
  using trim_ws_done [of s n encs] trim_ws_fix by metis

lemma trim_start_idem [simp]: "trim_start (trim_start s) = trim_start s"
  by (simp add: trim_start_def trim_ws_idem)

lemma trim_end_idem [simp]: "trim_end (trim_end s) = trim_end s"
  by (simp add: trim_end_def trim_ws_idem)

lemma trim_start_suffix: "suffix (trim_start s) s"
  by (simp add: trim_start_def trim_ws_suffix)

lemma trim_end_prefix: "prefix (trim_end s) s"
  using trim_ws_suffix [of "length s" "map rev ws_encodings" "rev s"]
  by (simp add: trim_end_def suffix_to_prefix)

lemma ws_prefix_zero_iff: "\<forall>w\<in>set encs. w \<noteq> [] \<Longrightarrow> ws_prefix encs s = 0 \<longleftrightarrow> (\<forall>w\<in>set encs. \<not> starts_with s w)"
  by (auto simp: ws_prefix_def find_None_iff find_Some_iff split: option.splits)

lemma ws_encodings_ne: "\<forall>w\<in>set ws_encodings. w \<noteq> []" "\<forall>w\<in>set (map rev ws_encodings). w \<noteq> []"
  by (simp_all add: ws_encodings_def)

lemma trim_start_prefix_fix:
  assumes "prefix t (trim_start s)" shows "trim_start t = t"
proof (cases "trim_start s = []")
  case True
  with assms show ?thesis by (simp add: trim_start_def)
next
  case False
  then have "ws_prefix ws_encodings (trim_start s) = 0"
    using trim_ws_done [of s "length s" ws_encodings] by (simp add: trim_start_def)
  then have "ws_prefix ws_encodings t = 0"
    using assms unfolding ws_prefix_zero_iff [OF ws_encodings_ne(1)] starts_with_iff_prefix
    by (meson prefix_order.trans)
  then show ?thesis by (simp add: trim_start_def trim_ws_fix)
qed

lemma trim_idem [simp]: "trim (trim s) = trim s"
  using trim_start_prefix_fix [OF trim_end_prefix [of "trim_start s"]] by (simp add: trim_def)

lemma trim_piece: "\<exists>a b. s = a @ trim s @ b"
proof -
  obtain a where "s = a @ trim_start s" using trim_start_suffix by (auto simp: suffix_def)
  moreover obtain b where "trim_start s = trim s @ b"
    using trim_end_prefix [of "trim_start s"] by (auto simp: trim_def prefix_def)
  ultimately show ?thesis by metis
qed

lemma contains_trim: "contains (trim s) u \<Longrightarrow> contains s u"
  using trim_piece [of s] contains_piece by metis

text \<open>Trimming takes away bytes of white space only.\<close>

lemma trim_ws_cut: "\<exists>a. s = a @ trim_ws n encs s \<and> set a \<subseteq> \<Union> (set ` set encs)"
proof (induction n arbitrary: s)
  case (Suc n)
  show ?case
  proof (cases "find (starts_with s) encs")
    case None
    then show ?thesis by (intro exI [of _ "[]"]) (simp add: ws_prefix_def)
  next
    case (Some w)
    then have w: "w \<in> set encs" "starts_with s w" by (auto simp: find_Some_iff)
    from starts_withD [OF w(2)] obtain r where r: "s = w @ r" by blast
    from Suc [of r] obtain a where a: "r = a @ trim_ws n encs r" "set a \<subseteq> \<Union> (set ` set encs)" by blast
    have t: "trim_ws (Suc n) encs s = (if w = [] then s else trim_ws n encs r)"
      using Some r by (simp add: ws_prefix_def)
    show ?thesis
    proof (cases "w = []")
      case True
      with t show ?thesis by (intro exI [of _ "[]"]) simp
    next
      case False
      have "s = (w @ a) @ trim_ws (Suc n) encs s" using t False r a(1) by simp
      moreover have "set (w @ a) \<subseteq> \<Union> (set ` set encs)" using w(1) a(2) by auto
      ultimately show ?thesis by blast
    qed
  qed
qed simp

definition ws_bytes :: "char set" where
  "ws_bytes = \<Union> (set ` set ws_encodings)"

lemma trim_start_cut: "\<exists>a. s = a @ trim_start s \<and> set a \<subseteq> ws_bytes"
  unfolding trim_start_def ws_bytes_def by (rule trim_ws_cut)

lemma trim_end_cut: "\<exists>b. s = trim_end s @ b \<and> set b \<subseteq> ws_bytes"
proof -
  obtain a where a: "rev s = a @ trim_ws (length s) (map rev ws_encodings) (rev s)"
    "set a \<subseteq> \<Union> (set ` set (map rev ws_encodings))"
    using trim_ws_cut [of "rev s" "length s" "map rev ws_encodings"] by blast
  from arg_cong [OF a(1), of rev] have "s = trim_end s @ rev a" by (simp add: trim_end_def)
  moreover have "set (rev a) \<subseteq> ws_bytes" using a(2) by (simp add: ws_bytes_def)
  ultimately show ?thesis by blast
qed

lemma trim_cut: "\<exists>a b. s = a @ trim s @ b \<and> set a \<subseteq> ws_bytes \<and> set b \<subseteq> ws_bytes"
  using trim_start_cut [of s] trim_end_cut [of "trim_start s"] unfolding trim_def by (metis append_assoc)

lemma trim_Nil_ws: "trim s = [] \<Longrightarrow> set s \<subseteq> ws_bytes"
  using trim_cut [of s] by auto

lemma rfind_sub_last: "p \<noteq> [] \<Longrightarrow> rfind_sub (s @ p) p = Some (length s)"
proof (induction s)
  case Nil
  then obtain c q where p: "p = c # q" by (cases p) auto
  then have "rfind_sub q p = None" using rfind_sub_bound [of q p] by (cases "rfind_sub q p") auto
  with p show ?case by simp
qed simp

end
