(* ===== verification/Summary_Cleaning.thy ===== *)
theory Summary_Cleaning
  imports Text_Search
begin

text \<open>
  What becomes of the text a model returns as the summary of a conversation
  (\<^verbatim>\<open>common/xai-grok-compaction/src/code_compaction/summary.rs\<close>): its drafts are cut away, its wrapper
  is removed, and the control tags it still quotes are defused before it seeds the next turn.
\<close>

subsection \<open>Tags\<close>

definition analysis_open :: str where "analysis_open = ''<analysis>''"
definition analysis_close :: str where "analysis_close = ''</analysis>''"
definition summary_open :: str where "summary_open = ''<summary>''"
definition summary_close :: str where "summary_close = ''</summary>''"

lemmas tag_defs = analysis_open_def analysis_close_def summary_open_def summary_close_def

subsection \<open>Leading drafts\<close>

text \<open>A slice \<^verbatim>\<open>s[a..b]\<close>.\<close>

abbreviation slice :: "str \<Rightarrow> nat \<Rightarrow> nat \<Rightarrow> str" where
  "slice s a b \<equiv> drop a (take b s)"

definition is_leading :: "str \<Rightarrow> nat \<Rightarrow> bool" where
  "is_leading s start =
     (case find_sub s summary_open of
        Some sp \<Rightarrow> start < sp \<or> trim (slice s (sp + length summary_open) start) = []
      | None \<Rightarrow> trim (take start s) = [])"

function peel_analysis :: "str \<Rightarrow> str" where
  "peel_analysis s =
     (case find_sub s analysis_open of
        None \<Rightarrow> s
      | Some start \<Rightarrow>
          if \<not> is_leading s start then s
          else (case find_sub (drop start s) analysis_close of
                  Some rel \<Rightarrow> peel_analysis (take start s @ drop (start + rel + length analysis_close) s)
                | None \<Rightarrow>
                    (let drop_to = (case find_sub (drop start s) summary_open of
                                      None \<Rightarrow> length s | Some rel \<Rightarrow> start + rel)
                     in take start s @ drop drop_to s)))"
  by pat_completeness auto
termination
proof (relation "measure length", simp)
  fix s start rel
  assume "find_sub s analysis_open = Some start"
  from find_sub_Some_split [OF this] have "start + length analysis_open \<le> length s" by blast
  then show "(take start s @ drop (start + rel + length analysis_close) s, s) \<in> measure length"
    by (simp add: tag_defs)
qed

declare peel_analysis.simps [simp del]

definition strip_leading_scratchpad :: "str \<Rightarrow> str" where
  "strip_leading_scratchpad inner =
     (let s = trim inner;
          lead = trim_start_by (\<lambda>c. c \<in> set ''#*-> '' \<or> c = CHR 0x09) s;
          s = (if \<not> (lead \<noteq> [] \<and> is_ascii_digit (hd lead))
               then (case rfind_sub s analysis_close of
                       Some pos \<Rightarrow> trim_start (drop (pos + length analysis_close) s)
                     | None \<Rightarrow> s)
               else s)
      in (case strip_prefix s summary_open of Some rest \<Rightarrow> trim_start rest | None \<Rightarrow> s))"

definition unwrap_summary :: "str \<Rightarrow> str" where
  "unwrap_summary s =
     (case (find_sub s summary_open, rfind_sub s summary_close) of
        (Some start, Some end) \<Rightarrow>
          if start < end
          then take start s @ ''Summary:'' @ [CHR 0x0A]
               @ strip_leading_scratchpad (trim (slice s (start + length summary_open) end))
               @ drop (end + length summary_close) s
          else s
      | _ \<Rightarrow> s)"

subsection \<open>Defusing what is left\<close>

text \<open>The zero-width space U+200B, behind the opening bracket of a tag.\<close>

definition zero_width_space :: str where
  "zero_width_space = [CHR 0xE2, CHR 0x80, CHR 0x8B]"

definition defuse :: "str \<Rightarrow> str \<Rightarrow> str" where
  "defuse tag s = replace s (CHR ''<'' # tag) (CHR ''<'' # zero_width_space @ tag)"

text \<open>In the order of the chained calls of \<^verbatim>\<open>replace\<close>, the last outermost.\<close>

definition neutralize_compaction_control_tokens :: "str \<Rightarrow> str" where
  "neutralize_compaction_control_tokens s =
     defuse ''summary_request>'' (defuse ''/summary_request>'' (defuse ''analysis>''
       (defuse ''/analysis>'' (defuse ''summary>'' (defuse ''/summary>'' s)))))"

abbreviation newlines :: "nat \<Rightarrow> str" where
  "newlines n \<equiv> List.replicate n (CHR 0x0A)"

function collapse_blank_lines :: "str \<Rightarrow> str" where
  "collapse_blank_lines s =
     (if contains s (newlines 3) then collapse_blank_lines (replace s (newlines 3) (newlines 2)) else s)"
  by pat_completeness auto
termination
  by (relation "measure length") (auto intro: length_replace_less)

declare collapse_blank_lines.simps [simp del]

definition format_compact_summary :: "str \<Rightarrow> str" where
  "format_compact_summary s =
     trim (collapse_blank_lines (neutralize_compaction_control_tokens (unwrap_summary (peel_analysis s))))"

definition min_summary_seed_chars :: nat where
  "min_summary_seed_chars = 500"

definition is_degenerate_summary :: "str \<Rightarrow> bool" where
  "is_degenerate_summary s = (length (chars (format_compact_summary s)) < min_summary_seed_chars)"

definition format_compact_summary_content :: "str \<Rightarrow> str" where
  "format_compact_summary_content s =
     ''This session is being continued from a previous conversation that ran out of context. '' @
     ''The summary below covers the earlier portion of the conversation.'' @ newlines 2 @
     format_compact_summary s"

definition wrap_user_query :: "str \<Rightarrow> str" where
  "wrap_user_query s = ''<user_query>'' @ newlines 1 @ s @ newlines 1 @ ''</user_query>''"

subsection \<open>What the cleaning removes\<close>

text \<open>The tags that would make the next turn write a summary again, without their bracket.\<close>

definition control_tags :: "str list" where
  "control_tags = [''/summary>'', ''summary>'', ''/analysis>'', ''analysis>'', ''/summary_request>'',
     ''summary_request>'']"

definition defused :: "str \<Rightarrow> bool" where
  "defused s = (\<forall>tag\<in>set control_tags. \<not> contains s (CHR ''<'' # tag))"

lemma control_tag_shape: "tag \<in> set control_tags \<Longrightarrow> tag \<noteq> [] \<and> hd tag \<noteq> CHR 0xE2 \<and> CHR ''<'' \<notin> set tag"
  by (auto simp: control_tags_def)

lemma defuse_removes:
  assumes "tag \<in> set control_tags" "u \<in> set control_tags" "contains (defuse tag s) (CHR ''<'' # u)"
  shows "contains s (CHR ''<'' # u) \<and> u \<noteq> tag"
proof -
  obtain d v where u: "u = d # v" using control_tag_shape [OF assms(2)] by (cases u) auto
  have "CHR ''<'' \<notin> set (d # v)" "d \<noteq> CHR 0xE2" using control_tag_shape [OF assms(2)] u by simp_all
  moreover have "CHR ''<'' \<notin> set (CHR 0xE2 # [CHR 0x80, CHR 0x8B] @ tag)"
    using control_tag_shape [OF assms(1)] by simp
  moreover have "contains (replace s (CHR ''<'' # tag) (CHR ''<'' # CHR 0xE2 # [CHR 0x80, CHR 0x8B] @ tag)) (CHR ''<'' # d # v)"
    using assms(3) u by (simp add: defuse_def zero_width_space_def)
  ultimately have "contains s (CHR ''<'' # d # v) \<and> tag \<noteq> d # v" by (rule contains_escaped)
  then show ?thesis using u by auto
qed

text \<open>The tags a text still has; each step of the neutralisation takes one away.\<close>

definition live_tags :: "str \<Rightarrow> str set" where
  "live_tags s = {tag \<in> set control_tags. contains s (CHR ''<'' # tag)}"

lemma live_tags_defuse: "tag \<in> set control_tags \<Longrightarrow> live_tags (defuse tag s) \<subseteq> live_tags s - {tag}"
  using defuse_removes by (auto simp: live_tags_def)

lemma live_tags_foldl:
  "set tags \<subseteq> set control_tags \<Longrightarrow> live_tags (foldl (\<lambda>s tag. defuse tag s) s tags) \<subseteq> live_tags s - set tags"
proof (induction tags arbitrary: s)
  case (Cons tag tags)
  then show ?case using live_tags_defuse [of tag s] Cons.IH [of "defuse tag s"] by auto
qed simp

lemma neutralize_foldl: "neutralize_compaction_control_tokens s = foldl (\<lambda>s tag. defuse tag s) s control_tags"
  by (simp add: neutralize_compaction_control_tokens_def control_tags_def)

lemma neutralized: "defused (neutralize_compaction_control_tokens s)"
  using live_tags_foldl [of control_tags s] by (auto simp: neutralize_foldl live_tags_def defused_def)

lemma collapsed:
  "\<not> contains (collapse_blank_lines s) (newlines 3)
   \<and> (CHR 0x0A \<notin> set u \<longrightarrow> contains (collapse_blank_lines s) u \<longrightarrow> contains s u)"
proof (induction s rule: collapse_blank_lines.induct)
  case (1 s)
  show ?case
  proof (cases "contains s (newlines 3)")
    case True
    then have "collapse_blank_lines s = collapse_blank_lines (replace s (newlines 3) (newlines 2))"
      by (subst collapse_blank_lines.simps) simp
    moreover have "contains s u" if "CHR 0x0A \<notin> set u" "contains (replace s (newlines 3) (newlines 2)) u"
      using contains_shortened [OF that(1), of "newlines 1" s "newlines 2"] that(2)
      by (simp add: numeral_eq_Suc)
    ultimately show ?thesis using 1 [OF True] by auto
  next
    case False
    then have "collapse_blank_lines s = s" by (subst collapse_blank_lines.simps) simp
    with False show ?thesis by simp
  qed
qed

lemma cleaned: "defused (format_compact_summary s) \<and> \<not> contains (format_compact_summary s) (newlines 3)"
proof -
  let ?s = "collapse_blank_lines (neutralize_compaction_control_tokens (unwrap_summary (peel_analysis s)))"
  have nl: "CHR 0x0A \<notin> set (CHR ''<'' # tag)" if "tag \<in> set control_tags" for tag
    using that by (auto simp: control_tags_def)
  have "\<not> contains ?s (newlines 3)" using collapsed by blast
  moreover have "\<not> contains ?s (CHR ''<'' # tag)" if "tag \<in> set control_tags" for tag
    using collapsed nl [OF that] neutralized that unfolding defused_def by blast
  ultimately show ?thesis using contains_trim unfolding format_compact_summary_def defused_def by blast
qed

text \<open>A text without the tags passes through the first three steps as it is.\<close>

lemma defuse_absent: "\<not> contains s (CHR ''<'' # tag) \<Longrightarrow> defuse tag s = s"
  by (simp add: defuse_def replace_absent)

lemma defused_tags:
  assumes "defused s"
  shows "find_sub s analysis_open = None" "find_sub s summary_open = None"
  using assms by (simp_all add: defused_def control_tags_def tag_defs contains_def)

lemma neutralize_defused: "defused s \<Longrightarrow> neutralize_compaction_control_tokens s = s"
  by (simp add: neutralize_compaction_control_tokens_def defuse_absent defused_def control_tags_def)

lemma format_defused: "defused s \<Longrightarrow> format_compact_summary s = trim (collapse_blank_lines s)"
  by (simp add: format_compact_summary_def peel_analysis.simps defused_tags unwrap_summary_def neutralize_defused)

lemma format_compact_summary_idem: "format_compact_summary (format_compact_summary s) = format_compact_summary s"
proof -
  have "collapse_blank_lines (format_compact_summary s) = format_compact_summary s"
    using cleaned by (subst collapse_blank_lines.simps) simp
  moreover have "trim (format_compact_summary s) = format_compact_summary s"
    by (simp add: format_compact_summary_def)
  ultimately show ?thesis using format_defused cleaned by metis
qed

subsection \<open>What the cleaning keeps\<close>

text \<open>The decoration of a heading, then a digit: the form of a first section.\<close>

definition numbered :: "str \<Rightarrow> bool" where
  "numbered s = (\<exists>dec d rest. s = dec @ d # rest \<and> set dec \<subseteq> insert (CHR 0x09) (set ''#*-> '') \<and> is_ascii_digit d)"

lemma numbered_iff: "numbered s \<longleftrightarrow> (let lead = trim_start_by (\<lambda>c. c \<in> set ''#*-> '' \<or> c = CHR 0x09) s
  in lead \<noteq> [] \<and> is_ascii_digit (hd lead))"
proof -
  let ?P = "\<lambda>c. c \<in> set ''#*-> '' \<or> c = CHR 0x09"
  have digits: "is_ascii_digit d \<Longrightarrow> \<not> ?P d" for d by (auto simp: is_ascii_digit_def digit_letters_def)
  have "numbered s \<longleftrightarrow> dropWhile ?P s \<noteq> [] \<and> is_ascii_digit (hd (dropWhile ?P s))"
  proof
    assume "numbered s"
    then obtain dec d rest where s: "s = dec @ d # rest" "\<forall>c\<in>set dec. ?P c" "is_ascii_digit d"
      unfolding numbered_def by auto
    then have "dropWhile ?P s = d # rest" using digits by (simp add: dropWhile_append2)
    with s(3) show "dropWhile ?P s \<noteq> [] \<and> is_ascii_digit (hd (dropWhile ?P s))" by simp
  next
    assume d: "dropWhile ?P s \<noteq> [] \<and> is_ascii_digit (hd (dropWhile ?P s))"
    then have "s = takeWhile ?P s @ hd (dropWhile ?P s) # tl (dropWhile ?P s)" by simp
    moreover have "set (takeWhile ?P s) \<subseteq> insert (CHR 0x09) (set ''#*-> '')" by (auto dest: set_takeWhileD)
    ultimately show "numbered s" using d unfolding numbered_def by blast
  qed
  then show ?thesis by (simp add: trim_start_by_dropWhile Let_def)
qed

lemma strip_leading_scratchpad_numbered: "numbered (trim s) \<Longrightarrow> strip_leading_scratchpad (trim s) = trim s"
proof -
  assume n: "numbered (trim s)"
  then obtain dec d rest where "trim s = dec @ d # rest" "set dec \<subseteq> insert (CHR 0x09) (set ''#*-> '')" "is_ascii_digit d"
    unfolding numbered_def by blast
  then have "\<not> starts_with (trim s) summary_open"
    by (cases dec) (auto simp: tag_defs is_ascii_digit_def digit_letters_def)
  then have "strip_prefix (trim s) summary_open = None" by (simp add: strip_prefix_None)
  with n show ?thesis unfolding numbered_iff strip_leading_scratchpad_def by (simp add: Let_def)
qed

lemma bracket_not_ws: "CHR ''<'' \<notin> ws_bytes"
  by (simp add: ws_bytes_def ws_encodings_def)

lemma digit_not_ws: "is_ascii_digit d \<Longrightarrow> d \<notin> ws_bytes"
  by (auto simp: ws_bytes_def ws_encodings_def is_ascii_digit_def digit_letters_def)

text \<open>The draft in front goes; a quotation of its tag behind the number is not a draft.\<close>

lemma numbered_front:
  assumes "numbered (trim body)"
  shows "\<exists>front d rest. body = front @ d # rest \<and> CHR ''<'' \<notin> set (front @ [d]) \<and> d \<notin> ws_bytes"
proof -
  obtain a b where ab: "body = a @ trim body @ b" "set a \<subseteq> ws_bytes" using trim_cut by blast
  obtain dec d rest where d: "trim body = dec @ d # rest" "set dec \<subseteq> insert (CHR 0x09) (set ''#*-> '')" "is_ascii_digit d"
    using assms unfolding numbered_def by blast
  have "body = (a @ dec) @ d # rest @ b" using ab(1) d(1) by simp
  moreover have "CHR ''<'' \<notin> set ((a @ dec) @ [d])"
    using ab(2) d(2,3) bracket_not_ws by (auto simp: is_ascii_digit_def digit_letters_def)
  ultimately show ?thesis using digit_not_ws [OF d(3)] by blast
qed

lemma peel_numbered:
  assumes "numbered (trim body)" "CHR ''<'' \<notin> set gap"
  shows "peel_analysis (gap @ summary_open @ body @ t) = gap @ summary_open @ body @ t"
proof -
  let ?s = "gap @ summary_open @ body @ t"
  obtain front d rest where b: "body = front @ d # rest" "CHR ''<'' \<notin> set (front @ [d])" "d \<notin> ws_bytes"
    using numbered_front [OF assms(1)] by blast
  have sp: "find_sub ?s summary_open = Some (length gap)"
    using find_sub_behind [OF assms(2), of "summary_open @ body @ t" "tl summary_open"] by (simp add: tag_defs)
  have "\<not> is_leading ?s start" if "find_sub ?s analysis_open = Some start" for start
  proof -
    let ?inside = "''summary>'' @ front @ [d]"
    note behind = find_sub_behind [of "CHR ''<''" _ _ "''analysis>''", folded analysis_open_def]
    have "find_sub ?s analysis_open = map_option (\<lambda>i. length gap + i)
        (find_sub (CHR ''<'' # ?inside @ rest @ t) analysis_open)"
      using behind [OF assms(2), of "CHR ''<'' # ?inside @ rest @ t"] b(1) by (simp add: summary_open_def)
    also have "find_sub (CHR ''<'' # ?inside @ rest @ t) analysis_open
        = map_option Suc (find_sub (?inside @ rest @ t) analysis_open)"
      by (subst find_sub.simps(2), rule if_not_P) (simp add: analysis_open_def)
    also have "find_sub (?inside @ rest @ t) analysis_open
        = map_option (\<lambda>i. length ?inside + i) (find_sub (rest @ t) analysis_open)"
      using b(2) by (intro behind) simp
    finally have start: "length gap + 10 + length front \<le> start"
      unfolding that by (cases "find_sub (rest @ t) analysis_open") simp_all
    have nine: "length summary_open = 9" by (simp add: tag_defs)
    have "slice ?s (length gap + length summary_open) start = take (start - (length gap + 9)) (body @ t)"
      using start by (simp add: nine)
    moreover have "d \<in> set (take (start - (length gap + 9)) (body @ t))"
      using b(1) start by (simp add: take_Cons')
    ultimately have "trim (slice ?s (length gap + length summary_open) start) \<noteq> []"
      using trim_Nil_ws b(3) by (metis subsetD)
    with sp start show ?thesis by (simp add: is_leading_def)
  qed
  then show ?thesis by (subst peel_analysis.simps) (simp split: option.splits)
qed

lemma unwrap_numbered:
  assumes "numbered (trim body)" "CHR ''<'' \<notin> set gap"
  shows "unwrap_summary (gap @ summary_open @ body @ summary_close) = gap @ ''Summary:'' @ [CHR 0x0A] @ trim body"
proof -
  have "find_sub (gap @ summary_open @ body @ summary_close) summary_open = Some (length gap)"
    using find_sub_behind [OF assms(2), of "summary_open @ body @ summary_close" "tl summary_open"]
    by (simp add: tag_defs)
  moreover have "summary_close \<noteq> []" "0 < length summary_open" by (simp_all add: tag_defs)
  moreover from this have "rfind_sub (gap @ summary_open @ body @ summary_close) summary_close
      = Some (length gap + length summary_open + length body)"
    using rfind_sub_last [of summary_close "gap @ summary_open @ body"] by simp
  ultimately show ?thesis using strip_leading_scratchpad_numbered [OF assms(1)]
    by (simp add: unwrap_summary_def)
qed

lemma peel_draft:
  assumes "CHR ''<'' \<notin> set draft" "CHR ''<'' \<notin> set gap"
  shows "peel_analysis (analysis_open @ draft @ analysis_close @ gap @ summary_open @ t)
    = peel_analysis (gap @ summary_open @ t)"
proof -
  let ?s = "analysis_open @ draft @ analysis_close @ gap @ summary_open @ t"
  have start: "find_sub ?s analysis_open = Some 0" by (rule find_sub_prefix) simp
  have "find_sub ?s summary_open \<noteq> Some 0" by (simp add: tag_defs)
  then have leading: "is_leading ?s 0" by (auto simp: is_leading_def trim_def trim_start_def trim_end_def split: option.splits)
  have "find_sub (drop 0 ?s) analysis_close = Some (length analysis_open + length draft)"
  proof -
    have "CHR ''<'' \<notin> set (''analysis>'' @ draft)" using assms(1) by simp
    from find_sub_behind [OF this, of "analysis_close @ gap @ summary_open @ t" "tl analysis_close"]
    show ?thesis by (simp add: tag_defs)
  qed
  with start leading show ?thesis by (subst peel_analysis.simps) simp
qed

text \<open>
  C34. A cleaned summary cannot make the next turn summarise again: whatever the model returned, the
  seed contains none of the control tags, complete and live, and no two blank lines in a row; and
  cleaning it again changes nothing, so the length that is tested is the length that is used.
\<close>

theorem cleaned_summary_is_inert:
  "(\<forall>tag\<in>set [''<summary>'', ''</summary>'', ''<analysis>'', ''</analysis>'', ''<summary_request>'',
        ''</summary_request>'', newlines 3]. \<not> contains (format_compact_summary s) tag)
   \<and> format_compact_summary (format_compact_summary s) = format_compact_summary s
   \<and> is_degenerate_summary (format_compact_summary s) = is_degenerate_summary s"
  using cleaned [of s] format_compact_summary_idem [of s]
  by (simp add: defused_def control_tags_def is_degenerate_summary_def)

lemma cleaned_summary_is_inert_witness:
  "\<not> contains (format_compact_summary ''a<summary>b'') ''<summary>''"
  using cleaned_summary_is_inert [of "''a<summary>b''"] by simp



text \<open>The seed of such a summary, evaluated.\<close>

lemma defused_echo:
  "format_compact_summary ''<analysis>x</analysis><summary>1. </analysis>q</summary>''
    = ''Summary:'' @ [CHR 0x0A] @ ''1. <'' @ zero_width_space @ ''/analysis>q''"
  by code_simp

end
