(* ===== verification/Summary_Sampling.thy ===== *)
theory Summary_Sampling
  imports Summary_Cleaning History_Repair Sampling_Errors Machine_Words
begin

text \<open>
  Asking a model for the summary of a conversation and building the shorter conversation from it
  (\<^verbatim>\<open>common/xai-grok-compaction/src\<close>: \<^verbatim>\<open>sampler.rs\<close>, \<^verbatim>\<open>code_compaction/failure.rs\<close>,
  \<^verbatim>\<open>code_compaction/sample.rs\<close>, \<^verbatim>\<open>code_compaction/compact.rs\<close>, \<^verbatim>\<open>code_compaction/assemble.rs\<close>,
  \<^verbatim>\<open>code_compaction/prompt.rs\<close>).  The model is the trait object \<^verbatim>\<open>CompactionSampler\<close>: here a function that
  gets the number of the call, the turns, the prompt and the timeout.  What the observer is told and the
  pauses are the trace of a pass.
\<close>

subsection \<open>Errors of a call\<close>

datatype compaction_sample_error =
  SampleTimeout nat nat
| SampleBuild str
| SampleStart str
| SampleEmptyResponse
| SampleOther str

fun sample_error_text :: "compaction_sample_error \<Rightarrow> str" where
  "sample_error_text (SampleTimeout secs bytes) =
     ''Compaction sampling timed out after '' @ digits secs @ ''s (collected '' @ digits bytes @ '' bytes so far)''"
| "sample_error_text (SampleBuild msg) = ''Compaction sampler build failed: '' @ msg"
| "sample_error_text (SampleStart msg) = ''Compaction sampler start failed: '' @ msg"
| "sample_error_text SampleEmptyResponse = ''Compaction sampler returned no response channel content''"
| "sample_error_text (SampleOther msg) = msg"

fun is_deterministic :: "compaction_sample_error \<Rightarrow> bool" where
  "is_deterministic (SampleTimeout _ _) = False"
| "is_deterministic SampleEmptyResponse = False"
| "is_deterministic (SampleBuild _) = True"
| "is_deterministic (SampleStart _) = True"
| "is_deterministic (SampleOther msg) =
     (contains msg ''Failed to build AgenticScheduler'' \<or> contains msg ''Failed to start compaction sample'')"

subsection \<open>Failures of the API\<close>

datatype failure_kind = Deterministic | Transient

definition overflow_message :: "str \<Rightarrow> bool" where
  "overflow_message message =
     (let m = to_lowercase message
      in contains m ''too long for this model'' \<or> contains m ''prompt is too long''
         \<or> contains m ''maximum prompt length'' \<or> contains m ''maximum context length''
         \<or> contains m ''context_length_exceeded'')"

definition client_error :: "16 word \<Rightarrow> bool" where
  "client_error status = (400 \<le> status \<and> status < 500 \<and> status \<noteq> 408 \<and> status \<noteq> 429)"

definition classify_http_status :: "16 word \<Rightarrow> str \<Rightarrow> failure_kind" where
  "classify_http_status status message =
     (if overflow_message message \<or> client_error status then Deterministic else Transient)"

definition classify_stream_event_error :: "str option \<Rightarrow> str \<Rightarrow> failure_kind" where
  "classify_stream_event_error code message =
     (if code = Some ''invalid_request_error'' \<or> contains message ''invalid_request_error'' then Deterministic
      else if (case Option.bind code parse_u16 of Some status \<Rightarrow> client_error status | None \<Rightarrow> False)
      then Deterministic
      else if overflow_message message then Deterministic
      else Transient)"

subsection \<open>The retry loop\<close>

record llm_output =
  response :: str
  thinking :: str

record compaction_prompt =
  prompt_system :: str
  prompt_user :: str

type_synonym 'i compaction_sampler =
  "nat \<Rightarrow> 'i list \<Rightarrow> compaction_prompt \<Rightarrow> nat \<Rightarrow> compaction_sample_error + llm_output"

datatype attempt_result =
  AttemptSuccess str
| AttemptEmpty bool
| AttemptDegenerate str bool
| AttemptFailure str bool bool bool

text \<open>
  What is observable of a pass: the attempts reported to the observer, the pauses (in seconds) between
  them, and how the pass ended.
\<close>

datatype pass_step =
  Attempted nat attempt_result
| Paused nat
| PassSucceeded nat nat
| PassFailed nat

record sampled_summary =
  sampled_text :: str
  sampled_attempts :: nat

datatype sample_retry_error =
  RetryEmpty nat
| RetryFailure str bool bool nat

fun sample_loop ::
    "(nat \<Rightarrow> compaction_sample_error + llm_output) \<Rightarrow> nat \<Rightarrow> nat \<Rightarrow> nat \<Rightarrow> nat
     \<Rightarrow> pass_step list \<times> (sample_retry_error + sampled_summary)" where
  "sample_loop reply pause bound attempt 0 = ([], Inl (RetryEmpty bound))"
| "sample_loop reply pause bound attempt (Suc left) =
     (let will_retry = attempt < bound;
          again = (\<lambda>seen. case sample_loop reply pause bound (Suc attempt) left of
                     (steps, result) \<Rightarrow> (Attempted attempt seen # Paused pause # steps, result));
          give_up = (\<lambda>seen e. ([Attempted attempt seen], Inl e))
      in case reply attempt of
           Inr output \<Rightarrow>
             (if trim (response output) \<noteq> [] then
                (if is_degenerate_summary (response output) then
                   (let seen = AttemptDegenerate (response output) will_retry
                    in if \<not> will_retry then give_up seen (RetryEmpty attempt) else again seen)
                 else ([Attempted attempt (AttemptSuccess (response output))],
                       Inr \<lparr>sampled_text = response output, sampled_attempts = attempt\<rparr>))
              else
                (let seen = AttemptEmpty will_retry
                 in if \<not> will_retry then give_up seen (RetryEmpty attempt) else again seen))
         | Inl e \<Rightarrow>
             (let message = sample_error_text e;
                  overflow = overflow_message message;
                  deterministic = is_deterministic e \<or> overflow;
                  seen = AttemptFailure message deterministic overflow (will_retry \<and> \<not> deterministic)
              in if deterministic then give_up seen (RetryFailure message True overflow attempt)
                 else if \<not> will_retry then give_up seen (RetryFailure message False False attempt)
                 else again seen))"

definition sample_summary_with_retries ::
    "'i compaction_sampler \<Rightarrow> 'i list \<Rightarrow> compaction_prompt \<Rightarrow> 32 word \<Rightarrow> nat \<Rightarrow> nat
     \<Rightarrow> pass_step list \<times> (sample_retry_error + sampled_summary)" where
  "sample_summary_with_retries sampler turns prompt max_attempts pause timeout =
     (let bound = unat (max max_attempts 1)
      in sample_loop (\<lambda>n. sampler n turns prompt timeout) pause bound 1 bound)"

subsection \<open>Prompts\<close>

text \<open>The text file \<^verbatim>\<open>templates/full_replace_summary_prompt.txt\<close> is the argument \<open>template\<close>.\<close>

definition build_summary_prompt :: "str \<Rightarrow> str option \<Rightarrow> str" where
  "build_summary_prompt template user_context =
     replace template ''{user_context_section}''
       (case user_context of
          None \<Rightarrow> []
        | Some text \<Rightarrow>
            newlines 2 @ ''**User-provided context for this compaction:**'' @ newlines 1 @ text @ newlines 2 @
            ''Please incorporate this context into your summary, ensuring it is prominently addressed in the relevant sections.''
            @ newlines 2)"

datatype summary_prompt_kind = StructuredPrompt | SelfSummaryPrompt

text \<open>The constant \<^verbatim>\<open>SELF_SUMMARIZATION_PROMPT\<close> is the argument \<open>self_prompt\<close>.\<close>

definition build_summary_prompt_kind :: "str \<Rightarrow> str \<Rightarrow> summary_prompt_kind \<Rightarrow> str option \<Rightarrow> str" where
  "build_summary_prompt_kind template self_prompt prompt_kind user_context =
     (case prompt_kind of
        StructuredPrompt \<Rightarrow> build_summary_prompt template user_context
      | SelfSummaryPrompt \<Rightarrow>
          (case user_context of
             Some text \<Rightarrow>
               self_prompt @ newlines 2 @ ''<user_provided_context>'' @ newlines 1 @ text @ newlines 1 @
               ''</user_provided_context>'' @ newlines 2 @
               ''Incorporate the user-provided context above into your summary.''
           | None \<Rightarrow> self_prompt))"

subsection \<open>Assembly\<close>

text \<open>The trait \<^verbatim>\<open>CompactionItemFactory\<close>, and its implementation for the items of a conversation.\<close>

record 'i item_factory =
  new_user :: "str \<Rightarrow> 'i"
  new_user_meta :: "str \<Rightarrow> 'i"
  new_project_instructions :: "str \<Rightarrow> 'i"
  new_system_reminder :: "str \<Rightarrow> 'i"

definition conversation_factory :: "conversation_item item_factory" where
  "conversation_factory = \<lparr>new_user = user, new_user_meta = user_meta,
     new_project_instructions = project_instructions, new_system_reminder = system_reminder\<rparr>"

record 'i compacted_history_parts =
  system_message :: 'i
  user_message_prefix :: str
  agents_md_reminder :: "str option"
  last_user_query :: "str option"
  recent_messages :: "'i list"
  compaction_summary :: str
  reminder_block :: "str option"
  transcript_hint :: "str option"

abbreviation pushed :: "'a option \<Rightarrow> 'a list" where
  "pushed r \<equiv> (case r of Some x \<Rightarrow> [x] | None \<Rightarrow> [])"

definition assemble_compacted_history :: "'i item_factory \<Rightarrow> 'i compacted_history_parts \<Rightarrow> 'i list" where
  "assemble_compacted_history f p =
     [system_message p, new_user_meta f (user_message_prefix p)]
     @ pushed (map_option (new_project_instructions f) (agents_md_reminder p))
     @ pushed (map_option (\<lambda>q. new_user f (wrap_user_query q)) (last_user_query p))
     @ recent_messages p
     @ [new_user_meta f (format_compact_summary_content (compaction_summary p)
          @ (case transcript_hint p of Some hint \<Rightarrow> hint | None \<Rightarrow> []))]
     @ pushed (map_option (new_system_reminder f) (reminder_block p))"

subsection \<open>The pass\<close>

record full_replace_config =
  pass_max_attempts :: "32 word"
  pass_retry_delay_secs :: nat
  pass_timeout_secs :: nat

definition default_full_replace_config :: full_replace_config where
  "default_full_replace_config = \<lparr>pass_max_attempts = 3, pass_retry_delay_secs = 3, pass_timeout_secs = 120\<rparr>"

text \<open>The context of a pass has the fields of the parts but for the summary.\<close>

record 'i full_replace_context =
  ctx_system_message :: 'i
  ctx_user_message_prefix :: str
  ctx_agents_md_reminder :: "str option"
  ctx_last_user_query :: "str option"
  ctx_recent_messages :: "'i list"
  ctx_reminder_block :: "str option"
  ctx_transcript_hint :: "str option"

datatype full_replace_error =
  NothingToCompact
| EmptySummary
| SamplerFailed str bool bool

record full_replace_summary =
  pass_summary :: str
  pass_attempts :: nat

record 'i full_replace_output =
  pass_history :: "'i list"
  output_summary :: str
  output_attempts :: nat

definition sample_full_replace_summary ::
    "str \<Rightarrow> 'i compaction_sampler \<Rightarrow> 'i list \<Rightarrow> str option \<Rightarrow> full_replace_config
     \<Rightarrow> pass_step list \<times> (full_replace_error + full_replace_summary)" where
  "sample_full_replace_summary template sampler turns user_context cfg =
     (if turns = [] then ([], Inl NothingToCompact)
      else (let prompt = \<lparr>prompt_system = [], prompt_user = build_summary_prompt template user_context\<rparr>
            in case sample_summary_with_retries sampler turns prompt (pass_max_attempts cfg)
                      (pass_retry_delay_secs cfg) (pass_timeout_secs cfg) of
                 (steps, Inr s) \<Rightarrow>
                   (steps @ [PassSucceeded (sampled_attempts s) (length (chars (sampled_text s)))],
                    Inr \<lparr>pass_summary = sampled_text s, pass_attempts = sampled_attempts s\<rparr>)
               | (steps, Inl (RetryEmpty n)) \<Rightarrow> (steps @ [PassFailed n], Inl EmptySummary)
               | (steps, Inl (RetryFailure message deterministic overflow n)) \<Rightarrow>
                   (steps @ [PassFailed n], Inl (SamplerFailed message deterministic overflow))))"

definition apply_full_replace_compaction ::
    "str \<Rightarrow> 'i item_factory \<Rightarrow> 'i compaction_sampler \<Rightarrow> 'i list \<Rightarrow> str option
     \<Rightarrow> 'i full_replace_context \<Rightarrow> full_replace_config
     \<Rightarrow> pass_step list \<times> (full_replace_error + 'i full_replace_output)" where
  "apply_full_replace_compaction template f sampler turns user_context ctx cfg =
     (case sample_full_replace_summary template sampler turns user_context cfg of
        (steps, Inl e) \<Rightarrow> (steps, Inl e)
      | (steps, Inr s) \<Rightarrow>
          (steps, Inr \<lparr>pass_history = assemble_compacted_history f
                         \<lparr>system_message = ctx_system_message ctx,
                          user_message_prefix = ctx_user_message_prefix ctx,
                          agents_md_reminder = ctx_agents_md_reminder ctx,
                          last_user_query = ctx_last_user_query ctx,
                          recent_messages = ctx_recent_messages ctx,
                          compaction_summary = pass_summary s,
                          reminder_block = ctx_reminder_block ctx,
                          transcript_hint = ctx_transcript_hint ctx\<rparr>,
                       output_summary = pass_summary s,
                       output_attempts = pass_attempts s\<rparr>))"

subsection \<open>What the retry loop does\<close>

text \<open>The two crates that look for an overflow in a message look for the same texts.\<close>

lemma overflow_message_agrees: "overflow_message m = context_length_message m"
  by (simp add: overflow_message_def context_length_message_def)

text \<open>A status that comes as the code of a stream event is judged like the status of a reply.\<close>

lemma stream_code_is_status:
  "\<not> contains message ''invalid_request_error'' \<Longrightarrow>
     classify_stream_event_error (Some (digits (unat status))) message = classify_http_status status message"
proof -
  have "list_all is_ascii_digit (digits (unat status))" using digits_digits by blast
  moreover have "\<not> list_all is_ascii_digit ''invalid_request_error''"
    by (simp add: is_ascii_digit_def digit_letters_def)
  ultimately have "digits (unat status) \<noteq> ''invalid_request_error''" by metis
  then show "\<not> contains message ''invalid_request_error'' \<Longrightarrow> ?thesis"
    by (simp add: classify_stream_event_error_def classify_http_status_def parse_u16_digits)
qed

type_synonym sample_reply = "compaction_sample_error + llm_output"

text \<open>The replies that are worth another try, what is reported of a reply, and what the last one decides.\<close>

fun transient_reply :: "sample_reply \<Rightarrow> bool" where
  "transient_reply (Inr output) = (trim (response output) = [] \<or> is_degenerate_summary (response output))"
| "transient_reply (Inl e) = (\<not> is_deterministic e \<and> \<not> overflow_message (sample_error_text e))"

fun seen_as :: "sample_reply \<Rightarrow> bool \<Rightarrow> attempt_result" where
  "seen_as (Inr output) will_retry =
     (if trim (response output) = [] then AttemptEmpty will_retry
      else if is_degenerate_summary (response output) then AttemptDegenerate (response output) will_retry
      else AttemptSuccess (response output))"
| "seen_as (Inl e) will_retry =
     (let overflow = overflow_message (sample_error_text e); deterministic = is_deterministic e \<or> overflow
      in AttemptFailure (sample_error_text e) deterministic overflow (will_retry \<and> \<not> deterministic))"

fun decided_by :: "sample_reply \<Rightarrow> nat \<Rightarrow> sample_retry_error + sampled_summary" where
  "decided_by (Inr output) n =
     (if transient_reply (Inr output) then Inl (RetryEmpty n)
      else Inr \<lparr>sampled_text = response output, sampled_attempts = n\<rparr>)"
| "decided_by (Inl e) n =
     Inl (RetryFailure (sample_error_text e) (\<not> transient_reply (Inl e)) (overflow_message (sample_error_text e)) n)"

definition loop_trace :: "(nat \<Rightarrow> sample_reply) \<Rightarrow> nat \<Rightarrow> nat \<Rightarrow> nat \<Rightarrow> nat \<Rightarrow> pass_step list" where
  "loop_trace reply pause bound start final =
     concat (map (\<lambda>j. [Attempted j (seen_as (reply j) True), Paused pause]) [start..<final])
     @ [Attempted final (seen_as (reply final) (final < bound))]"

lemma sample_loop_step:
  "sample_loop reply pause bound n (Suc left) =
     (if transient_reply (reply n) \<and> n < bound
      then (let (steps, result) = sample_loop reply pause bound (Suc n) left
            in (Attempted n (seen_as (reply n) True) # Paused pause # steps, result))
      else ([Attempted n (seen_as (reply n) (n < bound))], decided_by (reply n) n))"
  by (cases "reply n") (auto simp: Let_def case_prod_unfold)

declare sample_loop.simps (2) [simp del]

lemma sample_loop_spec:
  "n + left = bound \<Longrightarrow>
   \<exists>final. n \<le> final \<and> final \<le> bound \<and> (\<forall>j. n \<le> j \<and> j < final \<longrightarrow> transient_reply (reply j))
     \<and> (final < bound \<longrightarrow> \<not> transient_reply (reply final))
     \<and> sample_loop reply pause bound n (Suc left) = (loop_trace reply pause bound n final, decided_by (reply final) final)"
proof (induction left arbitrary: n)
  case 0
  then show ?case
    by (intro exI [of _ bound]) (auto simp: sample_loop_step loop_trace_def)
next
  case (Suc left)
  show ?case
  proof (cases "transient_reply (reply n)")
    case True
    from Suc.prems have "Suc n + left = bound" by simp
    from Suc.IH [OF this] obtain final where final: "Suc n \<le> final" "final \<le> bound"
      "\<forall>j. Suc n \<le> j \<and> j < final \<longrightarrow> transient_reply (reply j)" "final < bound \<longrightarrow> \<not> transient_reply (reply final)"
      "sample_loop reply pause bound (Suc n) (Suc left)
         = (loop_trace reply pause bound (Suc n) final, decided_by (reply final) final)" by blast
    have "sample_loop reply pause bound n (Suc (Suc left))
        = (loop_trace reply pause bound n final, decided_by (reply final) final)"
      using True Suc.prems final(1,5) sample_loop_step [of reply pause bound n "Suc left"]
      by (simp add: loop_trace_def upt_rec [of n])
    moreover have "\<forall>j. n \<le> j \<and> j < final \<longrightarrow> transient_reply (reply j)"
      using final(3) True by (metis Suc_leI le_neq_implies_less)
    ultimately show ?thesis using final(1,2,4) by (intro exI [of _ final]) simp
  next
    case False
    with Suc.prems show ?thesis
      by (intro exI [of _ n]) (auto simp: sample_loop_step [of _ _ _ _ "Suc left"] loop_trace_def)
  qed
qed

fun attempts_made :: "sample_retry_error + sampled_summary \<Rightarrow> nat" where
  "attempts_made (Inr s) = sampled_attempts s"
| "attempts_made (Inl (RetryEmpty n)) = n"
| "attempts_made (Inl (RetryFailure _ _ _ n)) = n"

lemma attempts_decided [simp]: "attempts_made (decided_by r n) = n"
  by (cases r) auto

definition attempt_limit :: "32 word \<Rightarrow> nat" where
  "attempt_limit m = max 1 (unat m)"

lemma unat_max_one: "unat (max m (1 :: 32 word)) = max 1 (unat m)"
  by (simp add: max_def word_le_nat_alt)

lemma retries_spec:
  "\<exists>final. 1 \<le> final \<and> final \<le> attempt_limit m
     \<and> (\<forall>j. 1 \<le> j \<and> j < final \<longrightarrow> transient_reply (sampler j turns prompt timeout))
     \<and> (final < attempt_limit m \<longrightarrow> \<not> transient_reply (sampler final turns prompt timeout))
     \<and> sample_summary_with_retries sampler turns prompt m pause timeout
        = (loop_trace (\<lambda>n. sampler n turns prompt timeout) pause (attempt_limit m) 1 final,
           decided_by (sampler final turns prompt timeout) final)"
proof -
  have "1 + (attempt_limit m - 1) = attempt_limit m" "attempt_limit m = Suc (attempt_limit m - 1)"
    by (simp_all add: attempt_limit_def)
  with sample_loop_spec [of 1 "attempt_limit m - 1" "attempt_limit m" "\<lambda>n. sampler n turns prompt timeout" pause]
  show ?thesis unfolding sample_summary_with_retries_def Let_def unat_max_one attempt_limit_def [symmetric]
    by metis
qed

lemma attempts_of_trace:
  "[n. Attempted n _ \<leftarrow> loop_trace reply pause bound start final] = [start..<final] @ [final]"
  "[p. Paused p \<leftarrow> loop_trace reply pause bound start final] = replicate (final - start) pause"
proof -
  have "concat (map (\<lambda>s. case s of Attempted n _ \<Rightarrow> [n] | _ \<Rightarrow> [])
      (concat (map (\<lambda>j. [Attempted j (seen_as (reply j) True), Paused pause]) js))) = js"
    and "concat (map (\<lambda>s. case s of Paused p \<Rightarrow> [p] | _ \<Rightarrow> [])
      (concat (map (\<lambda>j. [Attempted j (seen_as (reply j) True), Paused pause]) js))) = replicate (length js) pause"
    for js by (induction js) simp_all
  then show "[n. Attempted n _ \<leftarrow> loop_trace reply pause bound start final] = [start..<final] @ [final]"
    "[p. Paused p \<leftarrow> loop_trace reply pause bound start final] = replicate (final - start) pause"
    by (simp_all add: loop_trace_def)
qed

text \<open>
  C33. Sampling makes as many attempts as it reports, at least one and at most the configured number
  (one, if that is zero), with the configured pause between two of them.  It goes on exactly as long as
  the replies are worth another try; the last one decides: a usable summary is returned as it came, a
  failure says whether it was deterministic and whether the context overflowed.
\<close>

theorem sampling_retries_transient_replies:
  fixes sampler turns prompt timeout
  defines "reply \<equiv> \<lambda>n. sampler n turns prompt timeout"
  assumes "sample_summary_with_retries sampler turns prompt m pause timeout = (steps, result)"
  shows "1 \<le> attempts_made result \<and> attempts_made result \<le> max 1 (unat m)
    \<and> list_all (\<lambda>n. transient_reply (reply n)) [1..<attempts_made result]
    \<and> (transient_reply (reply (attempts_made result)) \<longrightarrow> attempts_made result = max 1 (unat m))
    \<and> result = decided_by (reply (attempts_made result)) (attempts_made result)
    \<and> [n. Attempted n _ \<leftarrow> steps] = [1..<Suc (attempts_made result)]
    \<and> [p. Paused p \<leftarrow> steps] = replicate (attempts_made result - 1) pause"
proof -
  obtain final where f: "1 \<le> final" "final \<le> attempt_limit m" "\<forall>j. 1 \<le> j \<and> j < final \<longrightarrow> transient_reply (reply j)"
      "final < attempt_limit m \<longrightarrow> \<not> transient_reply (reply final)"
      "steps = loop_trace reply pause (attempt_limit m) 1 final" "result = decided_by (reply final) final"
    using retries_spec [of m sampler turns prompt timeout pause] assms(2) unfolding reply_def by auto
  then have made: "attempts_made result = final" by simp
  have "transient_reply (reply final) \<longrightarrow> final = attempt_limit m" using f(2,4) by auto
  with f(1,2,3,5,6) show ?thesis unfolding made f(5) attempts_of_trace
    by (simp add: attempt_limit_def list_all_iff)
qed

lemma sampling_retries_transient_replies_witness:
  "attempts_made (snd (sample_summary_with_retries (\<lambda>n _ _ _. Inl (SampleTimeout 120 n)) [()]
     \<lparr>prompt_system = [], prompt_user = []\<rparr> 1 3 120)) \<le> max 1 (unat (1 :: 32 word))"
  using sampling_retries_transient_replies [OF prod.collapse [symmetric],
    of "\<lambda>n _ _ _. Inl (SampleTimeout 120 n)" "[()]" "\<lparr>prompt_system = [], prompt_user = []\<rparr>" 1 3 120]
  by blast

subsection \<open>What a compacted history is\<close>

text \<open>Items without calls and results may be put behind a paired conversation, and in front of it.\<close>

definition plain_item :: "conversation_item \<Rightarrow> bool" where
  "plain_item x = (calls_of x = [] \<and> \<not> is_tool_result x)"

lemma plain_user [simp]: "plain_item (user_of r t)" "plain_item (System t)"
  by (simp_all add: plain_item_def user_of_def calls_of_def)

lemma run_plain: "plain_item y \<Longrightarrow> run (xs @ y # ys) = run xs \<and> after_run (xs @ y # ys) = after_run xs @ y # ys"
  by (induction xs) (auto simp: plain_item_def)

lemma paired_plain_append: "plain_item y \<Longrightarrow> paired (xs @ y # ys) \<longleftrightarrow> paired xs \<and> paired (y # ys)"
proof (induction xs rule: history_induct)
  case (Calls x xs)
  then show ?case using run_plain [OF Calls.prems, of xs ys] by simp
qed (simp_all add: plain_item_def)

lemma paired_plain_front: "list_all plain_item ys \<Longrightarrow> paired (ys @ xs) \<longleftrightarrow> paired xs"
  by (induction ys) (simp_all add: plain_item_def)

lemma paired_plain_around:
  assumes "list_all plain_item (front @ behind)" "plain_item y"
  shows "paired (front @ xs @ y # behind) \<longleftrightarrow> paired xs"
  using assms paired_plain_front [of front "xs @ y # behind"] paired_plain_append [of y xs behind]
    paired_plain_front [of "y # behind" "[]"] by (simp del: paired.simps(2))


text \<open>A model that answers with five hundred letters.\<close>

definition long_summary :: str where
  "long_summary = replicate 500 (CHR ''y'')"

lemma not_contains_set: "c \<in> set u \<Longrightarrow> c \<notin> set s \<Longrightarrow> \<not> contains s u"
  by (auto simp: contains_iff)

lemma chars_replicate_y: "chars (replicate n (CHR ''y'')) = replicate n [CHR ''y'']"
  by (induction n) (simp_all add: utf8_len_def)

lemma long_summary_usable: "trim long_summary = long_summary" "format_compact_summary long_summary = long_summary"
  "length (chars long_summary) = 500"
proof -
  have rep: "long_summary = CHR ''y'' # replicate 499 (CHR ''y'')" "rev long_summary = CHR ''y'' # replicate 499 (CHR ''y'')"
    by (simp_all only: long_summary_def rev_replicate replicate_Suc [symmetric], simp_all)
  have encs: "list_all (\<lambda>w. w \<noteq> [] \<and> hd w \<noteq> CHR ''y'') ws_encodings"
    "list_all (\<lambda>w. w \<noteq> [] \<and> hd w \<noteq> CHR ''y'') (map rev ws_encodings)" by (simp_all add: ws_encodings_def)
  have "ws_prefix ws_encodings long_summary = 0" unfolding rep(1) by (rule ws_prefix_none [OF encs(1)])
  moreover have "ws_prefix (map rev ws_encodings) (rev long_summary) = 0"
    unfolding rep(2) by (rule ws_prefix_none [OF encs(2)])
  ultimately show t: "trim long_summary = long_summary" by (simp add: trim_def trim_start_def trim_end_def trim_ws_none)
  have plain: "c \<noteq> CHR ''y'' \<Longrightarrow> c \<in> set u \<Longrightarrow> \<not> contains long_summary u" for c u
    by (rule not_contains_set) (auto simp: long_summary_def)
  have "defused long_summary" unfolding defused_def by (intro ballI plain [of "CHR ''<''"]) simp_all
  moreover have "collapse_blank_lines long_summary = long_summary"
    using plain [of "CHR 0x0A" "newlines 3"] by (subst collapse_blank_lines.simps) simp
  ultimately show "format_compact_summary long_summary = long_summary" by (simp add: format_defused t)
  show "length (chars long_summary) = 500" by (simp add: long_summary_def chars_replicate_y)
qed

lemma sampled_at_once:
  "sample_summary_with_retries (\<lambda>_ _ _ _. Inr \<lparr>response = long_summary, thinking = []\<rparr>) turns prompt m pause timeout
    = ([Attempted 1 (AttemptSuccess long_summary)], Inr \<lparr>sampled_text = long_summary, sampled_attempts = 1\<rparr>)"
proof -
  let ?reply = "Inr \<lparr>response = long_summary, thinking = []\<rparr> :: sample_reply"
  have "long_summary \<noteq> []" by (simp add: long_summary_def)
  then have usable: "\<not> transient_reply ?reply" "\<And>b. seen_as ?reply b = AttemptSuccess long_summary"
    using long_summary_usable by (simp_all add: is_degenerate_summary_def min_summary_seed_chars_def)
  obtain final where f: "1 \<le> final" "\<forall>j. 1 \<le> j \<and> j < final \<longrightarrow> transient_reply ?reply"
    "sample_summary_with_retries (\<lambda>_ _ _ _. ?reply) turns prompt m pause timeout
      = (loop_trace (\<lambda>_. ?reply) pause (attempt_limit m) 1 final, decided_by ?reply final)"
    using retries_spec [of m "\<lambda>_ _ _ _. ?reply" turns prompt timeout pause] by blast
  then have "final = 1" using usable(1) by (metis le_neq_implies_less order_refl)
  with f(3) usable show ?thesis by (simp add: loop_trace_def)
qed


end
