(* ===== verification/Compaction_Input.thy ===== *)
theory Compaction_Input
  imports Summary_Sampling Turn_Selection
begin

text \<open>
  What a compaction reads from a conversation and writes back
  (\<^verbatim>\<open>xai-chat-state/src/compaction_utils.rs\<close>, with the token estimate of \<^verbatim>\<open>actor/state.rs\<close> and
  \<^verbatim>\<open>xai-token-estimation\<close>): the conversation prepared for the summarising call and cut to its budget,
  the user's queries found in it, and the history that replaces it.  Token counts are \<^verbatim>\<open>u64\<close> in the code;
  a sum of byte counts of a conversation in memory does not reach that bound, and they are numbers here.
\<close>

subsection \<open>Preparing a conversation for the summary\<close>

definition flatten_calls :: "assistant_item \<Rightarrow> assistant_item" where
  "flatten_calls a =
     (if tool_calls a = [] then a
      else (let info = newlines 1 @ ''[Called tools: '' @ join '', '' (map call_name (tool_calls a)) @ '']''
            in a\<lparr>assistant_content := (if assistant_content a = [] then info else assistant_content a @ info),
                 tool_calls := []\<rparr>))"

fun strip_tool_message :: "conversation_item \<Rightarrow> conversation_item option" where
  "strip_tool_message (ToolResult _) = None"
| "strip_tool_message (Assistant a) = Some (Assistant (flatten_calls a))"
| "strip_tool_message x = Some x"

definition strip_tool_messages_for_conversation_item :: "conversation_item list \<Rightarrow> conversation_item list" where
  "strip_tool_messages_for_conversation_item xs = List.map_filter strip_tool_message xs"

fun is_reasoning_item :: "conversation_item \<Rightarrow> bool" where
  "is_reasoning_item (Reasoning _) = True"
| "is_reasoning_item _ = False"

definition strip_reasoning_blocks :: "conversation_item list \<Rightarrow> conversation_item list" where
  "strip_reasoning_blocks xs = filter (\<lambda>x. \<not> is_reasoning_item x) xs"

fun blank_part :: "content_part \<Rightarrow> content_part" where
  "blank_part (ImagePart _) = TextPart ''[image]''"
| "blank_part (TextPart t) = TextPart t"

fun blank_images :: "conversation_item \<Rightarrow> conversation_item" where
  "blank_images (User u) = User (u\<lparr>user_content := map blank_part (user_content u)\<rparr>)"
| "blank_images x = x"

definition strip_images_for_summary :: "conversation_item list \<Rightarrow> conversation_item list" where
  "strip_images_for_summary xs = map blank_images xs"

definition prepare_conversation_for_summarization :: "conversation_item list \<Rightarrow> conversation_item list" where
  "prepare_conversation_for_summarization xs =
     strip_images_for_summary (strip_reasoning_blocks (strip_tool_messages_for_conversation_item xs))"

definition prepare_conversation_for_segment :: "conversation_item list \<Rightarrow> conversation_item list" where
  "prepare_conversation_for_segment xs = strip_images_for_summary (strip_reasoning_blocks xs)"

text \<open>The loop that pops from the end of the vector takes from the front of the reversed list.\<close>

fun pop_calls :: "conversation_item list \<Rightarrow> conversation_item list" where
  "pop_calls (Assistant a # rest) = (if tool_calls a \<noteq> [] then pop_calls rest else Assistant a # rest)"
| "pop_calls xs = xs"

definition truncate_trailing_incomplete_tool_call :: "conversation_item list \<Rightarrow> conversation_item list" where
  "truncate_trailing_incomplete_tool_call xs = rev (pop_calls (rev xs))"

definition prepare_conversation_for_verbatim_summarization ::
    "conversation_item list \<Rightarrow> bool \<Rightarrow> conversation_item list" where
  "prepare_conversation_for_verbatim_summarization xs strip_reasoning =
     truncate_trailing_incomplete_tool_call (if strip_reasoning then strip_reasoning_blocks xs else xs)"

subsection \<open>The estimate\<close>

definition bytes_per_token :: nat where "bytes_per_token = 4"

definition image_token_estimate :: nat where "image_token_estimate = 765"

definition estimate_tokens :: "str \<Rightarrow> nat" where
  "estimate_tokens s = length s div bytes_per_token"

definition reasoning_item_text :: "reasoning_item \<Rightarrow> str" where
  "reasoning_item_text r =
     join (newlines 1) (summary r @ (case reasoning_text r of Some ts \<Rightarrow> ts | None \<Rightarrow> []))"

fun part_bytes :: "content_part \<Rightarrow> nat" where
  "part_bytes (TextPart t) = length t"
| "part_bytes (ImagePart _) = 0"

fun part_images :: "content_part \<Rightarrow> nat" where
  "part_images (TextPart _) = 0"
| "part_images (ImagePart _) = 1"

text \<open>
  The text of a call the server ran itself is put together from fields of the API's types; it is the
  argument \<open>hosted\<close>.
\<close>

fun estimate_item_tokens :: "(backend_tool_kind \<Rightarrow> str) \<Rightarrow> conversation_item \<Rightarrow> nat" where
  "estimate_item_tokens hosted (System s) = estimate_tokens s"
| "estimate_item_tokens hosted (User u) =
     sum_list (map part_bytes (user_content u)) div bytes_per_token
     + sum_list (map part_images (user_content u)) * image_token_estimate"
| "estimate_item_tokens hosted (Assistant a) =
     (length (assistant_content a) + sum_list (map (\<lambda>tc. length (arguments tc)) (tool_calls a))) div bytes_per_token"
| "estimate_item_tokens hosted (ToolResult t) = estimate_tokens (result_content t)"
| "estimate_item_tokens hosted (BackendToolCall b) = estimate_tokens (hosted b)"
| "estimate_item_tokens hosted (Reasoning r) =
     (length (reasoning_item_text r) + (case encrypted_content r of Some e \<Rightarrow> length e | None \<Rightarrow> 0))
     div bytes_per_token"

definition estimate_conversation_tokens :: "(backend_tool_kind \<Rightarrow> str) \<Rightarrow> conversation_item list \<Rightarrow> nat" where
  "estimate_conversation_tokens hosted xs = sum_list (map (estimate_item_tokens hosted) xs)"

subsection \<open>Cutting to a budget\<close>

text \<open>The largest character boundary up to a byte position.\<close>

fun boundary_before :: "str \<Rightarrow> nat \<Rightarrow> nat" where
  "boundary_before s 0 = 0"
| "boundary_before s (Suc n) = (if is_char_boundary s (Suc n) then Suc n else boundary_before s n)"

definition truncate_text_to_bytes :: "str \<Rightarrow> nat \<Rightarrow> str option" where
  "truncate_text_to_bytes s max_bytes =
     (if length s \<le> max_bytes then None
      else (let keep = boundary_before s (min (max_bytes - 64) (length s))
            in Some (take keep s @ newlines 1 @ ''[... truncated '' @ digits (length s - keep) @
                     '' bytes to fit the compaction window ...]'')))"

abbreviation fitted_text :: "nat \<Rightarrow> str \<Rightarrow> str" where
  "fitted_text max_bytes s \<equiv> (case truncate_text_to_bytes s max_bytes of Some t \<Rightarrow> t | None \<Rightarrow> s)"

fun fitted_part :: "nat \<Rightarrow> content_part \<Rightarrow> content_part" where
  "fitted_part max_bytes (TextPart t) = TextPart (fitted_text max_bytes t)"
| "fitted_part max_bytes (ImagePart u) = ImagePart u"

definition truncate_item_to_tokens :: "conversation_item \<Rightarrow> nat \<Rightarrow> conversation_item" where
  "truncate_item_to_tokens x max_tokens =
     (let max_bytes = min (max_tokens * 4) (2 ^ 64 - 1)
      in case x of
           ToolResult t \<Rightarrow> ToolResult (t\<lparr>result_content := fitted_text max_bytes (result_content t)\<rparr>)
         | Assistant a \<Rightarrow> Assistant (a\<lparr>assistant_content := fitted_text max_bytes (assistant_content a)\<rparr>)
         | User u \<Rightarrow> User (u\<lparr>user_content := map (fitted_part max_bytes) (user_content u)\<rparr>)
         | other \<Rightarrow> other)"

text \<open>
  The last turn: the results at the end with the message that asked for them, or the last item.  The
  reversed conversation is split where the code pops from the end.
\<close>

definition recover_truncated_tail_unit ::
    "(backend_tool_kind \<Rightarrow> str) \<Rightarrow> conversation_item list \<Rightarrow> nat \<Rightarrow> conversation_item list" where
  "recover_truncated_tail_unit hosted body budget =
     (let results = rev (takeWhile is_tool_result (rev body));
          before = dropWhile is_tool_result (rev body)
      in if results = [] then
           (case before of item # _ \<Rightarrow> [truncate_item_to_tokens item budget] | [] \<Rightarrow> [])
         else
           (let owner = (case before of
                           Assistant a # _ \<Rightarrow> (if tool_calls a \<noteq> [] then Some (Assistant a) else None)
                         | _ \<Rightarrow> None);
                owner_cost = (case owner of Some o' \<Rightarrow> estimate_item_tokens hosted o' | None \<Rightarrow> 0);
                per = max ((budget - owner_cost) div length results) 1
            in pushed owner @ map (\<lambda>r. truncate_item_to_tokens r per) results))"

text \<open>The walk from the newest item: the costs in that order, what is left, the start so far.\<close>

fun fit_back :: "nat list \<Rightarrow> nat \<Rightarrow> nat \<Rightarrow> nat" where
  "fit_back [] remaining start = start"
| "fit_back (cost # older) remaining start =
     (if remaining < cost then start else fit_back older (remaining - cost) (start - 1))"

fun past_results :: "conversation_item list \<Rightarrow> nat \<Rightarrow> nat" where
  "past_results [] start = start"
| "past_results (x # xs) start = (if is_tool_result x then past_results xs (Suc start) else start)"

definition split_system :: "conversation_item list \<Rightarrow> conversation_item list \<times> conversation_item list" where
  "split_system xs = (case xs of System s # body \<Rightarrow> ([System s], body) | _ \<Rightarrow> ([], xs))"

definition fit_conversation_to_budget ::
    "(backend_tool_kind \<Rightarrow> str) \<Rightarrow> conversation_item list \<Rightarrow> nat \<Rightarrow> conversation_item list" where
  "fit_conversation_to_budget hosted xs max_tokens =
     (if estimate_conversation_tokens hosted xs \<le> max_tokens then xs
      else (let (head, body) = split_system xs;
                budget = max_tokens - estimate_conversation_tokens hosted head;
                start = fit_back (map (estimate_item_tokens hosted) (rev body)) budget (length body);
                start = past_results (drop start body) start
            in if start < length body then head @ drop start body
               else head @ recover_truncated_tail_unit hosted body budget))"

subsection \<open>The queries of the user\<close>

definition system_tags :: "str list" where
  "system_tags = [''user_info'', ''project_layout'', ''git_status'', ''fork-context'', ''system-reminder'',
     ''agent-memory'', ''system_reminder'', ''background_context'', ''command-name'', ''command-message'',
     ''command-args'']"

function strip_tag :: "str \<Rightarrow> str \<Rightarrow> str" where
  "strip_tag tag s =
     (case find_sub s (''<'' @ tag @ ''>'') of
        None \<Rightarrow> s
      | Some start \<Rightarrow>
          (case find_sub (drop start s) (''</'' @ tag @ ''>'') of
             None \<Rightarrow> s
           | Some rel \<Rightarrow> strip_tag tag (take start s @ drop (start + rel + length (''</'' @ tag @ ''>'')) s)))"
  by pat_completeness auto
termination
proof (relation "measure (\<lambda>(tag, s). length s)", simp)
  fix tag s start rel
  assume "find_sub s (''<'' @ tag @ ''>'') = Some start"
  from find_sub_Some_split [OF this] have "start + length (''<'' @ tag @ ''>'') \<le> length s" by blast
  then show "((tag, take start s @ drop (start + rel + length (''</'' @ tag @ ''>'')) s), (tag, s))
      \<in> measure (\<lambda>(tag, s). length s)" by simp
qed

declare strip_tag.simps [simp del]

definition strip_system_tags :: "str \<Rightarrow> str" where
  "strip_system_tags s = trim (foldl (\<lambda>s tag. strip_tag tag s) s system_tags)"

definition user_query_open :: str where "user_query_open = ''<user_query>''"
definition user_query_close :: str where "user_query_close = ''</user_query>''"

definition extract_user_query :: "str \<Rightarrow> str" where
  "extract_user_query s =
     (case find_sub s user_query_open of
        Some start \<Rightarrow>
          (let rest = drop (start + length user_query_open) s
           in case find_sub rest user_query_close of
                Some end \<Rightarrow> strip_system_tags (trim (take end rest))
              | None \<Rightarrow> strip_system_tags s)
      | None \<Rightarrow> strip_system_tags s)"

fun text_content :: "(backend_tool_kind \<Rightarrow> str) \<Rightarrow> conversation_item \<Rightarrow> str" where
  "text_content hosted (System s) = s"
| "text_content hosted (User u) =
     join (newlines 1) (List.map_filter (\<lambda>p. case p of TextPart t \<Rightarrow> Some t | ImagePart _ \<Rightarrow> None) (user_content u))"
| "text_content hosted (Assistant a) = assistant_content a"
| "text_content hosted (ToolResult t) = result_content t"
| "text_content hosted (BackendToolCall b) = hosted b"
| "text_content hosted (Reasoning r) = reasoning_item_text r"

fun is_user :: "conversation_item \<Rightarrow> bool" where
  "is_user (User _) = True"
| "is_user _ = False"

definition extract_last_user_query :: "(backend_tool_kind \<Rightarrow> str) \<Rightarrow> conversation_item list \<Rightarrow> str option" where
  "extract_last_user_query hosted xs =
     (case find is_user (rev xs) of
        None \<Rightarrow> None
      | Some x \<Rightarrow> (let q = extract_user_query (text_content hosted x) in if q \<noteq> [] then Some q else None))"

definition auto_continue_prompt :: str where
  "auto_continue_prompt =
     ''Continue the conversation from where it left off without asking the user any further questions. '' @
     ''Resume directly - do not acknowledge the summary, do not recap what was happening, do not preface with '' @
     [CHR 0x22] @ ''I'' @ [CHR 0x27] @ ''ll continue'' @ [CHR 0x22] @ '' or similar.'' @ newlines 1 @
     ''Pick up the last task as if the break never happened.''"

definition is_synthetic_extracted_query :: "str \<Rightarrow> bool" where
  "is_synthetic_extracted_query s = (s = [] \<or> s = ''__auto_continue__'' \<or> s = auto_continue_prompt)"

fun is_real_user_turn :: "(backend_tool_kind \<Rightarrow> str) \<Rightarrow> conversation_item \<Rightarrow> bool" where
  "is_real_user_turn hosted (User u) =
     (if reason u \<noteq> None then False
      else if list_ex (\<lambda>p. part_images p \<noteq> 0) (user_content u) then True
      else \<not> is_synthetic_extracted_query (extract_user_query (text_content hosted (User u))))"
| "is_real_user_turn hosted _ = False"

definition extract_real_user_queries :: "(backend_tool_kind \<Rightarrow> str) \<Rightarrow> conversation_item list \<Rightarrow> str list" where
  "extract_real_user_queries hosted xs =
     map (\<lambda>x. extract_user_query (text_content hosted x)) (filter (is_real_user_turn hosted) xs)"

definition extract_last_real_user_query :: "(backend_tool_kind \<Rightarrow> str) \<Rightarrow> conversation_item list \<Rightarrow> str option" where
  "extract_last_real_user_query hosted xs =
     map_option (\<lambda>x. extract_user_query (text_content hosted x)) (find (is_real_user_turn hosted) (rev xs))"

fun omit_result :: "conversation_item \<Rightarrow> conversation_item option" where
  "omit_result (Assistant a) = Some (Assistant a)"
| "omit_result (ToolResult t) =
     Some (ToolResult \<lparr>tool_call_id = tool_call_id t, result_content = ''Tool call omitted...'', result_images = []\<rparr>)"
| "omit_result _ = None"

definition extract_messages_since_last_user :: "conversation_item list \<Rightarrow> conversation_item list" where
  "extract_messages_since_last_user xs =
     rev (List.map_filter omit_result (takeWhile (\<lambda>x. \<not> is_user x) (rev xs)))"

text \<open>\<^verbatim>\<open>Iterator::rposition\<close>: the tail behind the last item with a property, all of it if there is none.\<close>

definition extract_messages_since_last_real_user ::
    "(backend_tool_kind \<Rightarrow> str) \<Rightarrow> conversation_item list \<Rightarrow> conversation_item list" where
  "extract_messages_since_last_real_user hosted xs =
     List.map_filter omit_result (rev (takeWhile (\<lambda>x. \<not> is_real_user_turn hosted x) (rev xs)))"

subsection \<open>The history that replaces a conversation\<close>

text \<open>Of the state kept across a compaction, what the new history is built from.\<close>

record compaction_state_context =
  kept_messages :: "conversation_item list"
  kept_query :: "str option"

definition state_context_of :: "(backend_tool_kind \<Rightarrow> str) \<Rightarrow> conversation_item list \<Rightarrow> compaction_state_context" where
  "state_context_of hosted xs =
     \<lparr>kept_messages = extract_messages_since_last_real_user hosted xs,
      kept_query = extract_last_real_user_query hosted xs\<rparr>"

definition for_compaction :: "compaction_state_context \<Rightarrow> compaction_state_context" where
  "for_compaction c = c\<lparr>kept_messages := []\<rparr>"

record compacted_history_input =
  input_system_message :: conversation_item
  input_user_message_prefix :: str
  input_agents_md_reminder :: "str option"
  input_state_context :: compaction_state_context
  input_compaction_summary :: str
  input_system_reminder :: "str option"
  input_transcript_hint :: "str option"

text \<open>The alternative carrier is not compiled in, so the summary always follows the kept messages.\<close>

definition build_compacted_history :: "compacted_history_input \<Rightarrow> conversation_item list" where
  "build_compacted_history inp =
     (let carrier = user_meta (format_compact_summary_content (input_compaction_summary inp)
            @ (case input_transcript_hint inp of Some hint \<Rightarrow> hint | None \<Rightarrow> []))
      in [input_system_message inp, user_meta (input_user_message_prefix inp)]
         @ pushed (map_option project_instructions (input_agents_md_reminder inp))
         @ pushed (map_option (\<lambda>q. user (wrap_user_query q)) (kept_query (input_state_context inp)))
         @ kept_messages (input_state_context inp)
         @ [carrier]
         @ pushed (map_option system_reminder (input_system_reminder inp)))"

definition format_transcript_location :: "str \<Rightarrow> str" where
  "format_transcript_location path =
     newlines 2 @ ''<transcript_location>'' @ newlines 1 @
     ''The full, unsummarized transcript of this conversation is saved at:'' @ newlines 1 @ path @ newlines 1 @
     ''If you need details that were dropped from the summary above (exact code, '' @
     ''error text, file contents, or earlier tool output), read this file to '' @
     ''recover them.'' @ newlines 1 @ ''</transcript_location>''"

definition bound_captured_output :: "str \<Rightarrow> nat \<Rightarrow> str" where
  "bound_captured_output s max_chars =
     (let cs = chars s; total = length cs
      in if total \<le> max_chars then s
         else (let head = max_chars div 2; tail = max_chars - head
               in concat (take head cs) @ newlines 2 @ [CHR 0xE2, CHR 0x80, CHR 0xA6] @ ''['' @
                  digits (total - head - tail) @ '' chars elided]'' @ [CHR 0xE2, CHR 0x80, CHR 0xA6] @ newlines 2 @
                  concat (drop (total - tail) cs)))"

subsection \<open>Calls and results stay together\<close>

lemma paired_run_Nil: "paired xs \<Longrightarrow> run xs = []"
  by (cases xs) (auto split: if_splits dest: calls_not_result)

lemma paired_Cons_plain: "calls_of x = [] \<Longrightarrow> paired (x # xs) \<Longrightarrow> paired xs"
  by simp

lemma map_filter_parts: "List.map_filter f (xs @ ys) = List.map_filter f xs @ List.map_filter f ys"
  by (induction xs) (simp_all add: map_filter_simps split: option.splits)

text \<open>An operation on items that removes plain ones only and keeps calls and the ids of results.\<close>

definition keeps_pairs :: "(conversation_item \<Rightarrow> conversation_item option) \<Rightarrow> bool" where
  "keeps_pairs f = (\<forall>x. (f x = None \<longrightarrow> plain_item x) \<and>
     (\<forall>y. f x = Some y \<longrightarrow> calls_of y = calls_of x \<and> is_tool_result y = is_tool_result x
        \<and> (is_tool_result x \<longrightarrow> result_id y = result_id x)))"

lemma keeps_pairs_results:
  assumes "keeps_pairs f" "list_all is_tool_result rs"
  shows "list_all is_tool_result (List.map_filter f rs) \<and> map result_id (List.map_filter f rs) = map result_id rs"
  using assms(2)
proof (induction rs)
  case (Cons r rs)
  then have "\<not> plain_item r" by (simp add: plain_item_def)
  then obtain y where y: "f r = Some y" using assms(1) unfolding keeps_pairs_def by (cases "f r") auto
  then have "is_tool_result y" "result_id y = result_id r"
    using assms(1) Cons.prems unfolding keeps_pairs_def by auto
  with Cons y show ?case by (simp add: map_filter_simps)
qed (simp add: map_filter_simps)

lemma keeps_pairs_paired: "keeps_pairs f \<Longrightarrow> paired xs \<Longrightarrow> paired (List.map_filter f xs)"
proof (induction xs rule: history_induct)
  case (Calls x xs)
  then have "\<not> plain_item x" by (simp add: plain_item_def)
  then obtain y where y: "f x = Some y" using Calls.prems(1) unfolding keeps_pairs_def by (cases "f x") auto
  then have calls: "calls_of y = calls_of x" using Calls.prems(1) unfolding keeps_pairs_def by blast
  note rs = keeps_pairs_results [OF Calls.prems(1) run_results [of xs]]
  have rest: "paired (List.map_filter f (after_run xs))" using Calls by simp
  have "xs = run xs @ after_run xs" by simp
  then have split: "List.map_filter f xs = List.map_filter f (run xs) @ List.map_filter f (after_run xs)"
    by (metis map_filter_parts)
  have "run (List.map_filter f xs) = List.map_filter f (run xs)"
    "after_run (List.map_filter f xs) = List.map_filter f (after_run xs)"
    unfolding split using run_append [OF conjunct1 [OF rs]] after_run_append [OF conjunct1 [OF rs]]
      paired_run_Nil [OF rest] by (simp, metis append_Nil takeWhile_dropWhile_id)
  moreover have "mset (map result_id (run xs)) = mset (map call_id (calls_of x))" using Calls by simp
  ultimately show ?case using y calls Calls.hyps rs rest by (simp add: map_filter_simps del: mset_map)
next
  case (Other x xs)
  then have x: "\<not> is_tool_result x" "paired (List.map_filter f xs)" by simp_all
  show ?case
  proof (cases "f x")
    case None
    with x show ?thesis by (simp add: map_filter_simps)
  next
    case (Some y)
    then have "calls_of y = []" "\<not> is_tool_result y"
      using Other.hyps Other.prems(1) x(1) unfolding keeps_pairs_def by auto
    with Some x(2) show ?thesis by (simp add: map_filter_simps)
  qed
qed (simp add: map_filter_simps)

lemma keeps_pairs_omit: "keeps_pairs omit_result"
  unfolding keeps_pairs_def
proof (intro allI conjI impI)
  fix x show "omit_result x = None \<Longrightarrow> plain_item x" by (cases x) (simp_all add: plain_item_def calls_of_def)
  fix y assume "omit_result x = Some y"
  then show "calls_of y = calls_of x" "is_tool_result y = is_tool_result x"
    "is_tool_result x \<Longrightarrow> result_id y = result_id x"
    by (cases x; auto simp: calls_of_def result_id_def)+
qed

lemma strip_reasoning_map_filter:
  "strip_reasoning_blocks xs = List.map_filter (\<lambda>x. if is_reasoning_item x then None else Some x) xs"
  unfolding strip_reasoning_blocks_def by (induction xs) (simp_all add: map_filter_simps)

lemma reasoning_plain: "is_reasoning_item x \<Longrightarrow> plain_item x"
  by (cases x) (simp_all add: plain_item_def calls_of_def)

lemma paired_strip_reasoning: "paired xs \<Longrightarrow> paired (strip_reasoning_blocks xs)"
  unfolding strip_reasoning_map_filter
  by (rule keeps_pairs_paired) (auto simp: keeps_pairs_def reasoning_plain split: if_splits)

text \<open>Calls that nothing answers yet stand at the end and are dropped; the rest is left alone.\<close>

lemma pop_calls_append: "list_all (\<lambda>x. calls_of x \<noteq> []) ys \<Longrightarrow> pop_calls (ys @ xs) = pop_calls xs"
proof (induction ys)
  case (Cons y ys)
  then show ?case by (cases y) (simp_all add: calls_of_def)
qed simp

lemma paired_last: "paired (xs @ [x]) \<Longrightarrow> calls_of x = []"
proof (induction xs rule: history_induct)
  case Nil
  then show ?case by (simp split: if_splits)
next
  case (Calls y xs)
  show ?case
  proof (cases "is_tool_result x")
    case True
    then show ?thesis using calls_not_result by blast
  next
    case False
    then have "after_run (xs @ [x]) = after_run xs @ [x]" by (induction xs) auto
    with Calls show ?thesis by simp
  qed
qed simp

lemma truncate_dangling:
  assumes "paired xs" "list_all (\<lambda>x. calls_of x \<noteq> []) ys"
  shows "truncate_trailing_incomplete_tool_call (xs @ ys) = xs"
proof -
  have "pop_calls (rev ys @ rev xs) = pop_calls (rev xs)"
    using assms(2) by (intro pop_calls_append) (simp add: list_all_iff)
  also have "pop_calls (rev xs) = rev xs"
  proof (cases xs rule: rev_exhaust)
    case (snoc zs z)
    with paired_last [of zs z] assms(1) have "calls_of z = []" by simp
    with snoc show ?thesis by (cases z) (simp_all add: calls_of_def)
  qed simp
  finally show ?thesis by (simp add: truncate_trailing_incomplete_tool_call_def)
qed

lemma calls_not_reasoning: "list_all (\<lambda>x. calls_of x \<noteq> []) ys \<Longrightarrow> strip_reasoning_blocks ys = ys"
  unfolding strip_reasoning_blocks_def
  by (induction ys) (auto dest: reasoning_plain simp: plain_item_def)

lemma prepared_verbatim:
  assumes "paired xs" "list_all (\<lambda>x. calls_of x \<noteq> []) ys"
  shows "prepare_conversation_for_verbatim_summarization (xs @ ys) strip
    = (if strip then strip_reasoning_blocks xs else xs)"
  using truncate_dangling [OF paired_strip_reasoning [OF assms(1)] assms(2)] truncate_dangling [OF assms]
    calls_not_reasoning [OF assms(2)]
  by (simp add: prepare_conversation_for_verbatim_summarization_def strip_reasoning_blocks_def)

text \<open>The lossy form has no calls, no results, no reasoning and no images of the user.\<close>

lemma map_filter_all: "(\<And>x y. f x = Some y \<Longrightarrow> P y) \<Longrightarrow> list_all P (List.map_filter f xs)"
  by (induction xs) (simp_all add: map_filter_simps split: option.splits)

lemma prepared_lossy:
  "list_all (\<lambda>x. plain_item x \<and> \<not> is_reasoning_item x \<and> image_count x = 0)
     (prepare_conversation_for_summarization xs)"
proof -
  have "list_all plain_item (strip_tool_messages_for_conversation_item xs)"
    unfolding strip_tool_messages_for_conversation_item_def
  proof (rule map_filter_all)
    fix x y assume "strip_tool_message x = Some y"
    then show "plain_item y" by (cases x) (auto simp: plain_item_def calls_of_def flatten_calls_def Let_def)
  qed
  moreover have "plain_item (blank_images x) = plain_item x" "is_reasoning_item (blank_images x) = is_reasoning_item x" for x
    by (cases x; simp add: plain_item_def calls_of_def)+
  moreover have "image_count (blank_images x) = 0" if "plain_item x" for x
  proof -
    have "filter (\<lambda>p. case p of ImagePart _ \<Rightarrow> True | TextPart _ \<Rightarrow> False) (map blank_part ps) = []" for ps
    proof -
      have "\<not> (case blank_part p of ImagePart _ \<Rightarrow> True | TextPart _ \<Rightarrow> False)" for p by (cases p) simp_all
      then show ?thesis by (induction ps) simp_all
    qed
    then show ?thesis using that by (cases x) (simp_all add: plain_item_def)
  qed
  ultimately show ?thesis
    by (auto simp: prepare_conversation_for_summarization_def strip_images_for_summary_def
        strip_reasoning_blocks_def list_all_iff)
qed

subsection \<open>What the cut to a budget promises\<close>

lemma calls_truncated [simp]:
  "calls_of (truncate_item_to_tokens x n) = calls_of x" "is_tool_result (truncate_item_to_tokens x n) = is_tool_result x"
  "is_tool_result x \<Longrightarrow> result_id (truncate_item_to_tokens x n) = result_id x"
  by (cases x; simp add: truncate_item_to_tokens_def calls_of_def result_id_def Let_def)+

lemma past_results_eq: "past_results xs start = start + length (run xs)"
  by (induction xs start rule: past_results.induct) auto

lemma past_results_snap:
  "start \<le> length xs \<Longrightarrow> past_results (drop start xs) start = snap_to_safe_boundary is_tool_result xs start"
  by (simp add: past_results_eq snap_eq)

lemma fit_back_spec:
  assumes "s = fit_back (rev costs) (budget - sum_list newer) (length costs)" "sum_list newer \<le> budget"
  shows "s \<le> length costs \<and> sum_list (drop s (costs @ newer)) \<le> budget
    \<and> (\<forall>j < s. budget < sum_list (drop j (costs @ newer)))"
  using assms
proof (induction costs arbitrary: newer rule: rev_induct)
  case (snoc c cs)
  let ?all = "cs @ c # newer"
  show ?case
  proof (cases "budget - sum_list newer < c")
    case True
    then have s: "s = Suc (length cs)" using snoc.prems(1) by simp
    have "budget < sum_list (drop j ?all)" if "j \<le> length cs" for j
      using that True snoc.prems(2) by simp
    with s snoc.prems(2) show ?thesis by (simp add: less_Suc_eq_le)
  next
    case False
    then have "sum_list (c # newer) \<le> budget" "s = fit_back (rev cs) (budget - sum_list (c # newer)) (length cs)"
      using snoc.prems by (simp_all add: add.commute)
    from snoc.IH [OF this(2,1)] show ?thesis by auto
  qed
qed simp

lemma estimate_append [simp]:
  "estimate_conversation_tokens h (xs @ ys) = estimate_conversation_tokens h xs + estimate_conversation_tokens h ys"
  by (simp add: estimate_conversation_tokens_def)

text \<open>A cut keeps the items from an index on; they fit, and the first is not a result.\<close>

definition may_keep_from :: "(backend_tool_kind \<Rightarrow> str) \<Rightarrow> conversation_item list \<Rightarrow> nat \<Rightarrow> nat \<Rightarrow> bool" where
  "may_keep_from h body budget k =
     (k < length body \<and> \<not> is_tool_result (body ! k) \<and> estimate_conversation_tokens h (drop k body) \<le> budget)"

lemma fit_start_spec:
  assumes "s = past_results (drop s0 body) s0" "s0 = fit_back (map (estimate_item_tokens h) (rev body)) budget (length body)"
  shows "s \<le> length body \<and> (s < length body \<longrightarrow> may_keep_from h body budget s)
    \<and> (\<forall>j < s. \<not> may_keep_from h body budget j)"
proof -
  let ?costs = "map (estimate_item_tokens h) body"
  have s0: "s0 \<le> length body" "estimate_conversation_tokens h (drop s0 body) \<le> budget"
    "\<forall>j < s0. budget < estimate_conversation_tokens h (drop j body)"
    using fit_back_spec [of s0 ?costs budget "[]"] assms(2)
    by (simp_all add: rev_map estimate_conversation_tokens_def drop_map)
  have s: "s0 \<le> s" "s \<le> length body" "s < length body \<longrightarrow> \<not> is_tool_result (body ! s)"
    "\<forall>j. s0 \<le> j \<and> j < s \<longrightarrow> is_tool_result (body ! j)"
    using snap_spec [OF s0(1) refl, of is_tool_result] assms(1) past_results_snap [OF s0(1)] by metis+
  have "drop s0 body = take (s - s0) (drop s0 body) @ drop s body"
    using s(1) by (metis append_take_drop_id drop_drop le_add_diff_inverse2)
  then have "estimate_conversation_tokens h (drop s body) \<le> budget"
    using s0(2) by (metis add_leD2 estimate_append)
  moreover have "\<not> may_keep_from h body budget j" if "j < s" for j
    using that s(4) s0(3) unfolding may_keep_from_def by (metis leI not_le)
  ultimately show ?thesis using s(2,3) by (simp add: may_keep_from_def)
qed

lemma fit_cases:
  fixes h xs max_tokens
  defines "head \<equiv> fst (split_system xs)" and "body \<equiv> snd (split_system xs)"
  defines "budget \<equiv> max_tokens - estimate_conversation_tokens h (fst (split_system xs))"
  assumes "max_tokens < estimate_conversation_tokens h xs"
  shows "(\<exists>k. may_keep_from h body budget k \<and> (\<forall>j < k. \<not> may_keep_from h body budget j)
      \<and> fit_conversation_to_budget h xs max_tokens = head @ drop k body)
    \<or> ((\<forall>k. \<not> may_keep_from h body budget k)
      \<and> fit_conversation_to_budget h xs max_tokens = head @ recover_truncated_tail_unit h body budget)"
proof -
  define s0 where "s0 = fit_back (map (estimate_item_tokens h) (rev body)) budget (length body)"
  define s where "s = past_results (drop s0 body) s0"
  note spec = fit_start_spec [OF s_def s0_def]
  have fit: "fit_conversation_to_budget h xs max_tokens
      = (if s < length body then head @ drop s body else head @ recover_truncated_tail_unit h body budget)"
    using assms(4) unfolding fit_conversation_to_budget_def head_def body_def budget_def s_def s0_def
    by (simp add: case_prod_unfold Let_def)
  show ?thesis
  proof (cases "s < length body")
    case True
    with spec fit show ?thesis by auto
  next
    case False
    with spec have "\<not> may_keep_from h body budget k" for k
      by (metis may_keep_from_def le_neq_implies_less)
    with False fit show ?thesis by simp
  qed
qed

text \<open>The last turn that is kept when nothing fits: a call with all its results, or one item.\<close>

lemma paired_drop:
  "paired xs \<Longrightarrow> k \<le> length xs \<Longrightarrow> (k < length xs \<longrightarrow> \<not> is_tool_result (xs ! k)) \<Longrightarrow> paired (drop k xs)"
  using paired_split by (cases "k < length xs") auto

lemma paired_trailing:
  assumes "paired (pre @ rs)" "list_all is_tool_result rs" "rs \<noteq> []" "pre = [] \<or> \<not> is_tool_result (last pre)"
  shows "pre \<noteq> [] \<and> calls_of (last pre) \<noteq> [] \<and> mset (map result_id rs) = mset (map call_id (calls_of (last pre)))"
proof -
  have run: "run rs = rs" using assms(2) by (simp add: list_all_iff)
  have pre: "pre \<noteq> []"
  proof
    assume "pre = []"
    with assms(1) have "run rs = []" using paired_run_Nil by simp
    with run assms(3) show False by simp
  qed
  then obtain ps p where p: "pre = ps @ [p]" by (cases pre rule: rev_exhaust) auto
  then have "\<not> is_tool_result p" using assms(4) by simp
  then have "paired (drop (length ps) (pre @ rs))"
    using assms(1) p by (intro paired_drop) (simp_all add: nth_append)
  then have "paired (p # rs)" using p by simp
  moreover have "calls_of p \<noteq> []"
  proof
    assume "calls_of p = []"
    with \<open>paired (p # rs)\<close> have "paired rs" by simp
    with run assms(3) show False using paired_run_Nil by metis
  qed
  ultimately show ?thesis using p run by (simp del: mset_map)
qed

lemma recovered_paired:
  assumes "paired body" shows "paired (recover_truncated_tail_unit h body budget)"
proof -
  define rs where "rs = rev (takeWhile is_tool_result (rev body))"
  define before where "before = dropWhile is_tool_result (rev body)"
  have body: "body = rev before @ rs" by (metis before_def rs_def rev_append rev_rev_ident takeWhile_dropWhile_id)
  have results: "list_all is_tool_result rs" by (auto simp: rs_def list_all_iff dest: set_takeWhileD)
  have hd: "before \<noteq> [] \<Longrightarrow> \<not> is_tool_result (hd before)" using hd_dropWhile before_def by metis
  show ?thesis
  proof (cases "rs = []")
    case True
    then have unit: "recover_truncated_tail_unit h body budget
        = (case before of item # _ \<Rightarrow> [truncate_item_to_tokens item budget] | [] \<Rightarrow> [])"
      by (simp add: recover_truncated_tail_unit_def rs_def before_def)
    show ?thesis
    proof (cases before)
      case (Cons x ys)
      with body True assms have "calls_of x = []" using paired_last [of "rev ys" x] by simp
      with hd Cons unit show ?thesis by simp
    qed (simp add: unit)
  next
    case False
    have "paired (rev before @ rs)" using assms body by simp
    from paired_trailing [OF this results False] hd
    have b: "before \<noteq> []" "calls_of (hd before) \<noteq> []"
      "mset (map result_id rs) = mset (map call_id (calls_of (hd before)))"
      by (auto simp: last_rev)
    then obtain a ys where a: "before = Assistant a # ys" "tool_calls a \<noteq> []"
      by (cases before; cases "hd before") (auto simp: calls_of_def)
    define unit where "unit = (\<lambda>n. map (\<lambda>r. truncate_item_to_tokens r n) rs)"
    have u: "list_all is_tool_result (unit n)" "map result_id (unit n) = map result_id rs" for n
      using results by (auto simp: unit_def list_all_iff)
    have "\<exists>n. recover_truncated_tail_unit h body budget = Assistant a # unit n"
      using False a unfolding recover_truncated_tail_unit_def rs_def [symmetric] before_def [symmetric] unit_def
      by (simp add: Let_def) blast
    then obtain n where n: "recover_truncated_tail_unit h body budget = Assistant a # unit n" by blast
    have run: "run (unit n) = unit n" "after_run (unit n) = []" using u(1) by (simp_all add: list_all_iff)
    show ?thesis unfolding n paired.simps(2) run u(2) using a b(3) by (simp add: calls_of_def del: mset_map)
  qed
qed

lemma split_system_parts: "xs = fst (split_system xs) @ snd (split_system xs)" "list_all plain_item (fst (split_system xs))"
  by (auto simp: split_system_def split: list.splits conversation_item.splits)

lemma split_system_paired: "paired xs \<longleftrightarrow> paired (snd (split_system xs))"
  using paired_plain_front [OF split_system_parts(2)] split_system_parts(1) by metis

lemma fit_paired: "paired xs \<Longrightarrow> paired (fit_conversation_to_budget h xs max_tokens)"
proof -
  assume p: "paired xs"
  let ?body = "snd (split_system xs)"
  have body: "paired ?body" using p split_system_paired by blast
  note front = paired_plain_front [OF split_system_parts(2)]
  show ?thesis
  proof (cases "max_tokens < estimate_conversation_tokens h xs")
    case True
    from fit_cases [OF this] show ?thesis
    proof (elim disjE exE conjE)
      fix k assume k: "may_keep_from h ?body (max_tokens - estimate_conversation_tokens h (fst (split_system xs))) k"
        "fit_conversation_to_budget h xs max_tokens = fst (split_system xs) @ drop k ?body"
      then have "paired (drop k ?body)" using body by (intro paired_drop) (simp_all add: may_keep_from_def)
      with k(2) front show ?thesis by simp
    qed (simp add: front recovered_paired [OF body])
  qed (simp add: fit_conversation_to_budget_def p)
qed

lemma fit_within:
  fixes h xs m
  defines "head \<equiv> fst (split_system xs)" and "body \<equiv> snd (split_system xs)"
  assumes "may_keep_from h body (m - estimate_conversation_tokens h head) k" "estimate_conversation_tokens h head \<le> m"
  shows "estimate_conversation_tokens h (fit_conversation_to_budget h xs m) \<le> m
    \<and> suffix (drop k body) (fit_conversation_to_budget h xs m)"
proof (cases "m < estimate_conversation_tokens h xs")
  case True
  from fit_cases [OF True] assms(3) obtain j where j: "may_keep_from h body (m - estimate_conversation_tokens h head) j"
    "\<forall>i < j. \<not> may_keep_from h body (m - estimate_conversation_tokens h head) i"
    "fit_conversation_to_budget h xs m = head @ drop j body"
    unfolding head_def body_def by blast
  then have "j \<le> k" using assms(3) by (metis not_le)
  then have "suffix (drop k body) (drop j body)" by (metis suffix_drop drop_drop le_add_diff_inverse2)
  then have "suffix (drop k body) (head @ drop j body)" by (auto simp: suffix_def)
  moreover have "estimate_conversation_tokens h (drop j body) \<le> m - estimate_conversation_tokens h head"
    using j(1) by (simp add: may_keep_from_def)
  ultimately show ?thesis using assms(4) j(3) by simp
next
  case False
  then have "fit_conversation_to_budget h xs m = head @ body"
    unfolding head_def body_def using split_system_parts(1) by (simp add: fit_conversation_to_budget_def)
  moreover have "suffix (drop k body) (head @ body)" by (metis suffix_drop suffix_append suffix_def)
  ultimately show ?thesis using False split_system_parts(1) [of xs]
    unfolding head_def body_def by (metis not_less)
qed

text \<open>
  C30. What is sent to be summarised is acceptable: if the calls and results of the conversation pair
  up, but for calls at its end that nothing answers yet, those are dropped and the rest pairs up; cut to
  a budget it still does.  Whenever a tail that starts at a turn fits into what the system message
  leaves, the cut fits the budget and contains that tail.  The lossy form has no calls and results at
  all.
\<close>

theorem summary_input_is_sendable:
  fixes h m xs ys strip
  defines "prepared \<equiv> prepare_conversation_for_verbatim_summarization (xs @ ys) strip"
  assumes "paired xs" "list_all (\<lambda>x. calls_of x \<noteq> []) ys"
  shows "prepared = (if strip then strip_reasoning_blocks xs else xs)
    \<and> paired prepared \<and> paired (fit_conversation_to_budget h prepared m)
    \<and> (case split_system prepared of (head, body) \<Rightarrow>
         \<forall>k. may_keep_from h body (m - estimate_conversation_tokens h head) k
           \<longrightarrow> estimate_conversation_tokens h head \<le> m
           \<longrightarrow> estimate_conversation_tokens h (fit_conversation_to_budget h prepared m) \<le> m
             \<and> suffix (drop k body) (fit_conversation_to_budget h prepared m))
    \<and> list_all plain_item (prepare_conversation_for_summarization (xs @ ys))"
proof -
  have p: "prepared = (if strip then strip_reasoning_blocks xs else xs)"
    unfolding prepared_def by (rule prepared_verbatim [OF assms(2,3)])
  then have "paired prepared" using assms(2) paired_strip_reasoning by simp
  moreover have "list_all plain_item (prepare_conversation_for_summarization (xs @ ys))"
    using prepared_lossy [of "xs @ ys"] by (simp add: list_all_iff)
  ultimately show ?thesis using p fit_paired fit_within [of h prepared] by (auto simp: case_prod_unfold)
qed

lemma summary_input_is_sendable_witness:
  "paired (fit_conversation_to_budget (\<lambda>_. []) (prepare_conversation_for_verbatim_summarization
       (example_turns @ [assistant_tool_calls [\<lparr>call_id = ''d'', call_name = ''f'', arguments = []\<rparr>]]) True) 0)"
proof -
  have "paired example_turns" by (simp add: example_turns_defs calls_of_def result_id_def)
  moreover have "list_all (\<lambda>x. calls_of x \<noteq> []) [assistant_tool_calls [\<lparr>call_id = ''d'', call_name = ''f'', arguments = []\<rparr>]]"
    by (simp add: assistant_tool_calls_def calls_of_def)
  ultimately show ?thesis using summary_input_is_sendable by blast
qed

subsection \<open>The size of a truncated text\<close>

lemma boundary_before_le: "boundary_before s n \<le> n"
  by (induction n) auto

lemma length_digits: "n < 10 ^ k \<Longrightarrow> 0 < k \<Longrightarrow> length (digits n) \<le> k"
proof (induction n arbitrary: k rule: digits.induct)
  case (1 n)
  show ?case
  proof (cases "n < 10")
    case True
    then show ?thesis using 1(3) by (subst digits.simps) simp
  next
    case False
    then obtain j where j: "k = Suc j" "0 < j" using 1(2) by (cases k; cases "k - 1") auto
    then have "n div 10 < 10 ^ j" using 1(2) by (simp add: less_mult_imp_div_less mult.commute)
    with 1(1) [OF False] j have "length (digits (n div 10)) \<le> j" by simp
    with False j show ?thesis by (subst digits.simps) simp
  qed
qed

text \<open>
  The reserve of 64 bytes covers the marker of a text below a hundred million bytes, if there are 64
  bytes; a smaller limit is not kept, and the text may even grow.
\<close>

lemma fitted_text_bound:
  assumes "64 \<le> max_bytes" "length s < 10 ^ 8"
  shows "length (fitted_text max_bytes s) \<le> max_bytes"
proof (cases "length s \<le> max_bytes")
  case True
  then show ?thesis by (simp add: truncate_text_to_bytes_def)
next
  case False
  define keep where "keep = boundary_before s (min (max_bytes - 64) (length s))"
  have fitted: "length (fitted_text max_bytes s) = min (length s) keep + length (digits (length s - keep)) + 56"
    using False unfolding truncate_text_to_bytes_def keep_def by (simp only: if_False Let_def option.case) simp
  have "keep \<le> max_bytes - 64" using boundary_before_le [of s "min (max_bytes - 64) (length s)"] by (simp add: keep_def)
  moreover have "length s - keep < 10 ^ 8" using assms(2) by linarith
  then have "length (digits (length s - keep)) \<le> 8" by (rule length_digits) simp
  ultimately show ?thesis unfolding fitted using assms(1) by linarith
qed

lemma tiny_budget_lengthens: "length (fitted_text 4 ''hello'') = 57"
  by code_simp

subsection \<open>Finding the query again\<close>

lemma contains_before: "contains (s @ [c]) u \<Longrightarrow> c \<notin> set u \<Longrightarrow> contains s u"
proof -
  assume "contains (s @ [c]) u" and c: "c \<notin> set u"
  then obtain a b where ab: "s @ [c] = a @ u @ b" unfolding contains_iff by blast
  show "contains s u"
  proof (cases b rule: rev_exhaust)
    case Nil
    show ?thesis
    proof (cases u rule: rev_exhaust)
      case (snoc v d)
      with ab Nil c show ?thesis by simp
    qed (metis append_Nil contains_iff)
  next
    case (snoc b' d)
    with ab have "s = a @ u @ b'" by simp
    then show ?thesis using contains_iff by blast
  qed
qed

text \<open>A word with one bracket is found at the end of a text without it.\<close>

lemma find_sub_fresh:
  assumes "m \<notin> set v" "\<not> contains s (m # v)"
  shows "find_sub (s @ m # v) (m # v) = Some (length s)"
  using assms(2)
proof (induction s)
  case Nil
  then show ?case using find_sub_prefix [of "m # v" "m # v"] by simp
next
  case (Cons c s)
  have "\<not> starts_with ((c # s) @ m # v) (m # v)"
  proof
    assume "starts_with ((c # s) @ m # v) (m # v)"
    then obtain r where r: "(c # s) @ m # v = (m # v) @ r" using starts_withD by blast
    have "take (length (m # v)) ((c # s) @ m # v) = m # v" unfolding r by simp
    then have c: "c = m" "take (length v) (s @ m # v) = v" by simp_all
    show False
    proof (cases "length v \<le> length s")
      case True
      with c have "starts_with (c # s) (m # v)" by (simp add: starts_with_iff_prefix) (metis take_is_prefix)
      with Cons.prems show False by (simp add: contains_Cons)
    next
      case False
      then have "m \<in> set (take (length v) (s @ m # v))" by (cases "length v - length s") auto
      with c(2) assms(1) show False by metis
    qed
  qed
  with Cons show ?case by (simp add: contains_Cons)
qed

lemma trimmed_start: "trim q = q \<Longrightarrow> trim_start q = q \<and> trim_end q = q"
proof -
  assume q: "trim q = q"
  obtain a where a: "q = a @ trim_start q" using trim_start_suffix by (auto simp: suffix_def)
  obtain b where b: "trim_start q = trim q @ b" using trim_end_prefix [of "trim_start q"] by (auto simp: trim_def prefix_def)
  from a b q have "length a + length b = 0" by (metis add_diff_cancel_left' diff_self_eq_0 length_append add.commute add.assoc)
  then have "trim_start q = q" using a by simp
  with q show ?thesis by (simp add: trim_def)
qed

text \<open>A line break at either end of a trimmed text is all that trimming removes.\<close>

lemma starts_with_snoc_newline:
  assumes "w \<in> set ws_encodings \<union> set (map rev ws_encodings)" "q \<noteq> []" "starts_with (q @ [CHR 0x0A]) w"
  shows "starts_with q w"
proof -
  have w: "w \<noteq> []" "CHR 0x0A \<in> set w \<Longrightarrow> length w = 1" using assms(1) by (auto simp: ws_encodings_def)
  from assms(3) consider "prefix w q" | "w = q @ [CHR 0x0A]"
    unfolding starts_with_iff_prefix by (auto simp: prefix_snoc)
  then show ?thesis
  proof cases
    case 2
    with w(2) assms(2) show ?thesis by simp
  qed (simp add: starts_with_iff_prefix)
qed

lemma ws_prefix_snoc_newline:
  "ws_prefix ws_encodings q = 0 \<Longrightarrow> q \<noteq> [] \<Longrightarrow> ws_prefix ws_encodings (q @ [CHR 0x0A]) = 0"
  "ws_prefix (map rev ws_encodings) q = 0 \<Longrightarrow> q \<noteq> [] \<Longrightarrow> ws_prefix (map rev ws_encodings) (q @ [CHR 0x0A]) = 0"
  using starts_with_snoc_newline unfolding ws_prefix_zero_iff [OF ws_encodings_ne(1)] ws_prefix_zero_iff [OF ws_encodings_ne(2)]
  by blast+

lemma ws_prefix_newline: "ws_prefix ws_encodings (CHR 0x0A # s) = 1" "ws_prefix (map rev ws_encodings) (CHR 0x0A # s) = 1"
  by (simp_all add: ws_prefix_def ws_encodings_def)

lemma trim_fix_prefix: "trim_start q = q \<Longrightarrow> ws_prefix ws_encodings q = 0"
  using trim_ws_done [of q "length q" ws_encodings] by (auto simp: trim_start_def)

lemma trim_fix_suffix: "trim_end q = q \<Longrightarrow> ws_prefix (map rev ws_encodings) (rev q) = 0"
proof -
  assume "trim_end q = q"
  then have "trim_ws (length (rev q)) (map rev ws_encodings) (rev q) = rev q"
    unfolding trim_end_def by (metis length_rev rev_rev_ident)
  then show ?thesis using trim_ws_done [of "rev q" "length (rev q)" "map rev ws_encodings"] by auto
qed

lemma trim_newlines:
  assumes "trim q = q"
  shows "trim (CHR 0x0A # q @ [CHR 0x0A]) = q"
proof (cases "q = []")
  case True
  have "trim [CHR 0x0A, CHR 0x0A] = []" by code_simp
  with True show ?thesis by simp
next
  case False
  note ends = trimmed_start [OF assms]
  have start: "ws_prefix ws_encodings (q @ [CHR 0x0A]) = 0"
    using False ends trim_fix_prefix by (intro ws_prefix_snoc_newline) blast+
  have "trim_start (CHR 0x0A # q @ [CHR 0x0A]) = q @ [CHR 0x0A]"
    by (simp add: trim_start_def ws_prefix_newline trim_ws_none start)
  moreover have "trim_end (q @ [CHR 0x0A]) = q"
    using ends trim_fix_suffix [of q] by (simp add: trim_end_def ws_prefix_newline trim_ws_none)
  ultimately show ?thesis by (simp add: trim_def)
qed

text \<open>The queries that come out of the wrapper as they went in.\<close>

definition plain_query :: "str \<Rightarrow> bool" where
  "plain_query q = (trim q = q \<and> \<not> contains q user_query_close
     \<and> (\<forall>tag\<in>set system_tags. \<not> contains q (''<'' @ tag @ ''>'')))"

lemma strip_tag_absent: "\<not> contains s (''<'' @ tag @ ''>'') \<Longrightarrow> strip_tag tag s = s"
  by (subst strip_tag.simps) (simp add: contains_def)

lemma strip_tags_absent:
  "\<forall>tag\<in>set tags. \<not> contains s (''<'' @ tag @ ''>'') \<Longrightarrow> foldl (\<lambda>s tag. strip_tag tag s) s tags = s"
  by (induction tags) (simp_all add: strip_tag_absent)

lemma extract_wrapped:
  assumes "plain_query q" shows "extract_user_query (wrap_user_query q) = q"
proof -
  let ?rest = "CHR 0x0A # q @ CHR 0x0A # user_query_close"
  have wrap: "wrap_user_query q = user_query_open @ ?rest"
    by (simp add: wrap_user_query_def user_query_open_def user_query_close_def)
  have "\<not> contains ([CHR 0x0A] @ q @ [CHR 0x0A]) user_query_close"
  proof
    assume "contains ([CHR 0x0A] @ q @ [CHR 0x0A]) user_query_close"
    then have "contains (q @ [CHR 0x0A]) user_query_close"
      using contains_behind [of "[CHR 0x0A]" "q @ [CHR 0x0A]" "CHR ''<''" "''/user_query>''"]
      by (simp add: user_query_close_def)
    then have "contains q user_query_close" by (rule contains_before) (simp add: user_query_close_def)
    with assms show False by (simp add: plain_query_def)
  qed
  then have "find_sub (([CHR 0x0A] @ q @ [CHR 0x0A]) @ CHR ''<'' # ''/user_query>'') (CHR ''<'' # ''/user_query>'')
      = Some (length ([CHR 0x0A] @ q @ [CHR 0x0A]))"
    by (intro find_sub_fresh) (simp_all add: user_query_close_def)
  then have close: "find_sub ?rest user_query_close = Some (length q + 2)" by (simp add: user_query_close_def)
  have "find_sub (user_query_open @ ?rest) user_query_open = Some 0" by (rule find_sub_prefix) simp
  then have "extract_user_query (wrap_user_query q) = strip_system_tags (trim (CHR 0x0A # q @ [CHR 0x0A]))"
    by (simp add: extract_user_query_def wrap close Let_def del: find_sub.simps)
  also have "\<dots> = strip_system_tags q" using assms by (simp add: trim_newlines plain_query_def)
  also have "\<dots> = q" using assms strip_tags_absent [of system_tags q] by (simp add: strip_system_tags_def plain_query_def)
  finally show ?thesis .
qed

subsection \<open>A second compaction\<close>

text \<open>What is kept of the messages: the answers since the last real query, still paired.\<close>

lemma kept_tail_eq:
  "rev (takeWhile (\<lambda>x. \<not> P x) (rev xs)) = drop (length xs - length (takeWhile (\<lambda>x. \<not> P x) (rev xs))) xs"
  by (metis rev_rev_ident takeWhile_eq_take rev_take length_rev length_takeWhile_le diff_diff_cancel)

lemma paired_kept:
  assumes "paired xs"
  shows "paired (extract_messages_since_last_real_user h xs)"
proof -
  let ?n = "length (takeWhile (\<lambda>x. \<not> is_real_user_turn h x) (rev xs))"
  have n: "?n \<le> length xs" by (metis length_rev length_takeWhile_le)
  have "paired (drop (length xs - ?n) xs)"
  proof (cases "?n = length xs")
    case True
    with assms show ?thesis by simp
  next
    case False
    then have less: "?n < length (rev xs)" using n by simp
    let ?k = "length xs - Suc ?n"
    have "rev xs ! ?n = xs ! ?k" using less by (simp add: rev_nth)
    then have real: "is_real_user_turn h (xs ! ?k)"
      using nth_length_takeWhile [OF less] by simp
    then have user: "calls_of (xs ! ?k) = [] \<and> \<not> is_tool_result (xs ! ?k)"
      by (cases "xs ! ?k") (simp_all add: calls_of_def)
    have "paired (drop ?k xs)" using assms user less by (intro paired_drop) auto
    moreover have "drop ?k xs = xs ! ?k # drop (length xs - ?n) xs"
      using less Cons_nth_drop_Suc [of ?k xs] by (simp add: Suc_diff_Suc)
    ultimately show ?thesis using user by simp
  qed
  then show ?thesis unfolding extract_messages_since_last_real_user_def kept_tail_eq
    by (rule keeps_pairs_paired [OF keeps_pairs_omit])
qed

lemma omitted_not_real: "list_all (\<lambda>x. \<not> is_real_user_turn h x) (List.map_filter omit_result xs)"
proof (rule map_filter_all)
  fix x y assume "omit_result x = Some y"
  then show "\<not> is_real_user_turn h y" by (cases x) auto
qed

lemma synthetic_not_real: "\<not> is_real_user_turn h (user_of (Some r) t)"
  by (simp add: user_of_def)

lemma text_content_user: "text_content h (user_of r t) = t"
  by (simp add: user_of_def map_filter_simps)

lemma wrapped_real:
  assumes "plain_query q" "\<not> is_synthetic_extracted_query q"
  shows "is_real_user_turn h (user (wrap_user_query q))"
    "extract_user_query (text_content h (user (wrap_user_query q))) = q"
  using assms extract_wrapped by (simp_all add: user_def user_of_def map_filter_simps)

lemma find_in_parts: "find P (xs @ ys) = (case find P xs of None \<Rightarrow> find P ys | Some x \<Rightarrow> Some x)"
  by (induction xs) simp_all

lemma find_none: "list_all (\<lambda>x. \<not> P x) ys \<Longrightarrow> find P (rev ys) = None"
  by (simp add: find_None_iff list_all_iff)

lemma find_between:
  "list_all (\<lambda>x. \<not> P x) front \<Longrightarrow> list_all (\<lambda>x. \<not> P x) behind
     \<Longrightarrow> find P (rev (front @ qs @ behind)) = find P (rev qs)"
  by (simp add: find_in_parts find_none split: option.splits)

lemma rebuilt_query:
  assumes "input_system_message inp = System t" "kept_messages (input_state_context inp) = List.map_filter omit_result ys"
    "\<And>q. kept_query (input_state_context inp) = Some q \<Longrightarrow> plain_query q \<and> \<not> is_synthetic_extracted_query q"
  shows "extract_last_real_user_query h (build_compacted_history inp) = kept_query (input_state_context inp)"
proof -
  let ?P = "is_real_user_turn h"
  let ?front = "[System t, user_meta (input_user_message_prefix inp)]
     @ pushed (map_option project_instructions (input_agents_md_reminder inp))"
  let ?queries = "pushed (map_option (\<lambda>q. user (wrap_user_query q)) (kept_query (input_state_context inp)))"
  let ?behind = "kept_messages (input_state_context inp)
     @ [user_meta (format_compact_summary_content (input_compaction_summary inp)
          @ (case input_transcript_hint inp of Some hint \<Rightarrow> hint | None \<Rightarrow> []))]
     @ pushed (map_option system_reminder (input_system_reminder inp))"
  have built: "build_compacted_history inp = ?front @ ?queries @ ?behind"
    using assms(1) by (simp add: build_compacted_history_def Let_def)
  have behind: "list_all (\<lambda>x. \<not> ?P x) ?behind"
    using omitted_not_real [of h ys] synthetic_not_real assms(2)
    by (auto simp: user_meta_def system_reminder_def split: option.splits)
  have front: "list_all (\<lambda>x. \<not> ?P x) ?front"
    using synthetic_not_real by (auto simp: user_meta_def project_instructions_def split: option.splits)
  have found: "extract_last_real_user_query h (build_compacted_history inp)
      = map_option (\<lambda>x. extract_user_query (text_content h x)) (find ?P (rev ?queries))"
    unfolding extract_last_real_user_query_def built find_between [OF front behind] ..
  show ?thesis
  proof (cases "kept_query (input_state_context inp)")
    case None
    with found show ?thesis by simp
  next
    case (Some q)
    note real = wrapped_real [OF conjunct1 [OF assms(3) [OF Some]] conjunct2 [OF assms(3) [OF Some]]]
    from Some real found show ?thesis by simp
  qed
qed

text \<open>
  C29. A compaction loses neither the question nor an answer to a call: the history built from a
  conversation whose calls and results pair up pairs up too, and the last real query found in it is the
  one found in the conversation, so any number of compactions in a row keep it - as long as the query
  contains neither the end of its own wrapper nor the start of a system tag and is not empty.
\<close>

theorem compaction_keeps_query_and_pairs:
  assumes "paired xs" "input_system_message inp = System t" "input_state_context inp = state_context_of h xs"
    "\<And>q. extract_last_real_user_query h xs = Some q \<Longrightarrow> plain_query q \<and> \<not> is_synthetic_extracted_query q"
  shows "paired (build_compacted_history inp)
    \<and> extract_last_real_user_query h (build_compacted_history inp) = extract_last_real_user_query h xs"
proof -
  have kept: "kept_messages (input_state_context inp)
      = List.map_filter omit_result (rev (takeWhile (\<lambda>x. \<not> is_real_user_turn h x) (rev xs)))"
    "kept_query (input_state_context inp) = extract_last_real_user_query h xs"
    using assms(3) by (simp_all add: state_context_of_def extract_messages_since_last_real_user_def)
  let ?front = "[System t, user_meta (input_user_message_prefix inp)]
     @ pushed (map_option project_instructions (input_agents_md_reminder inp))
     @ pushed (map_option (\<lambda>q. user (wrap_user_query q)) (kept_query (input_state_context inp)))"
  let ?behind = "pushed (map_option system_reminder (input_system_reminder inp))"
  have "build_compacted_history inp = ?front @ kept_messages (input_state_context inp)
     @ user_meta (format_compact_summary_content (input_compaction_summary inp)
          @ (case input_transcript_hint inp of Some hint \<Rightarrow> hint | None \<Rightarrow> [])) # ?behind"
    using assms(2) by (simp add: build_compacted_history_def Let_def)
  moreover have "list_all plain_item (?front @ ?behind)"
    by (auto simp: user_meta_def project_instructions_def user_def system_reminder_def split: option.splits)
  moreover have "paired (kept_messages (input_state_context inp))"
    using paired_kept [OF assms(1)] assms(3) by (simp add: state_context_of_def)
  ultimately have "paired (build_compacted_history inp)"
    using paired_plain_around plain_user(1) unfolding user_meta_def by metis
  moreover have "extract_last_real_user_query h (build_compacted_history inp) = extract_last_real_user_query h xs"
    using rebuilt_query [OF assms(2) kept(1)] kept(2) assms(4) by simp
  ultimately show ?thesis ..
qed

lemma compaction_keeps_query_and_pairs_witness:
  "extract_last_real_user_query (\<lambda>_. []) (build_compacted_history
     \<lparr>input_system_message = System ''s'', input_user_message_prefix = ''p'', input_agents_md_reminder = None,
      input_state_context = state_context_of (\<lambda>_. []) example_turns, input_compaction_summary = ''t'',
      input_system_reminder = None, input_transcript_hint = None\<rparr>) = Some ''q''"
proof -
  let ?inp = "\<lparr>input_system_message = System ''s'', input_user_message_prefix = ''p'', input_agents_md_reminder = None,
      input_state_context = state_context_of (\<lambda>_. []) example_turns, input_compaction_summary = ''t'',
      input_system_reminder = None, input_transcript_hint = None\<rparr>"
  have q: "extract_last_real_user_query (\<lambda>_. []) example_turns = Some ''q''" by code_simp
  have plain: "plain_query ''q'' \<and> \<not> is_synthetic_extracted_query ''q''" by code_simp
  have "paired example_turns" by (simp add: example_turns_defs calls_of_def result_id_def)
  then have "paired (build_compacted_history ?inp)
      \<and> extract_last_real_user_query (\<lambda>_. []) (build_compacted_history ?inp)
        = extract_last_real_user_query (\<lambda>_. []) example_turns"
    by (rule compaction_keeps_query_and_pairs [where t = "''s''"]) (use q plain in simp_all)
  with q show ?thesis by simp
qed

text \<open>
  The exceptions.  A question that is only an image counts as a real turn, but what is kept of it is an
  empty query, which the next compaction does not find; and a query ends at the first end of a wrapper in
  it.
\<close>

definition image_question :: conversation_item where
  "image_question = User \<lparr>user_content = [ImagePart ''u''], reason = None, prior_interrupt = None, prompt_index = None\<rparr>"

lemma image_question_is_lost:
  "extract_last_real_user_query (\<lambda>_. []) [System ''s'', image_question] = Some []"
  "extract_last_real_user_query (\<lambda>_. []) [System ''s'', user (wrap_user_query [])] = None"
  by code_simp+

lemma query_ends_at_close_tag: "extract_user_query (wrap_user_query ''a</user_query>b'') = ''a''"
  by code_simp

end
