(* ===== verification/Spec2Isabelle.thy ===== *)
theory Spec2Isabelle
  imports Manager_Safety Permission_Resolution Breaker_Config Breaker_Threads History_Repair Rewind
    Sampler_Actor Turn_Selection Summary_Cleaning Summary_Sampling Compaction_Input
begin

text \<open>
  A verification development for five subsystems of the terminal coding agent under \<^verbatim>\<open>src/crates\<close>: the
  permission system (\<^verbatim>\<open>codegen/xai-grok-workspace/src/permission\<close>), which decides whether a tool call
  of the model (a shell command, a file edit, a web fetch, an MCP tool) runs, is refused or is put to
  the user; the sampler (\<^verbatim>\<open>codegen/xai-grok-sampler\<close>), which turns the model's streams into events
  and a response and decides what to do about errors; the conversation
  (\<^verbatim>\<open>codegen/xai-grok-sampling-types\<close>, \<^verbatim>\<open>codegen/xai-chat-state\<close>), whose history is repaired before it
  is sent and cut when the user rewinds; the compaction of a long conversation
  (\<^verbatim>\<open>common/xai-grok-compaction\<close>, \<^verbatim>\<open>compaction_utils.rs\<close> of \<^verbatim>\<open>xai-chat-state\<close>), which replaces its
  history by a summary of the model; and the circuit breaker (\<^verbatim>\<open>common/xai-circuit-breaker\<close>), which
  decides whether a request to a service is worth sending.

  The parts and how they interact.  A tool call becomes an access
  (\<^verbatim>\<open>xai-grok-workspace/src/permission/types.rs\<close>) and is sent to one actor
  (\<^verbatim>\<open>manager.rs\<close>, \<^verbatim>\<open>spawn_permission_manager_with_pin\<close>), which answers the requests one by one.  For
  each it consults, in this order: the compiled policy on the access itself (\<^verbatim>\<open>policy.rs\<close>), on every
  command inside a shell script (\<^verbatim>\<open>policy.rs\<close>) and on every file the script touches
  (\<^verbatim>\<open>shell_access.rs\<close>); the always-approve mode; the grants of the session; the auto mode with its
  fast path, heuristic and model reply (\<^verbatim>\<open>auto_mode.rs\<close>); the sandbox; the policy's allow; the late
  pre-decisions (safe commands, persisted grants, static allowlists); the prompt policy; and at last
  the user, through the ACP client or over the hub (\<^verbatim>\<open>prompter.rs\<close>, \<^verbatim>\<open>hub_permission.rs\<close>), whose
  answer may leave a standing grant.  The rules come from several sources of different trust, merged
  by \<^verbatim>\<open>resolution.rs\<close> after \<^verbatim>\<open>rules.rs\<close> parsed them.  Shell scripts are decomposed by
  \<^verbatim>\<open>bash_command_splitting.rs\<close>, web addresses by the matcher in \<^verbatim>\<open>web_fetch/domain.rs\<close>; texts shown or
  recorded are bounded by \<^verbatim>\<open>util/truncate.rs\<close>.

  The circuit breaker is independent of it.  A caller asks \<^verbatim>\<open>check\<close> before a request and reports the
  outcome with \<^verbatim>\<open>record\<close>; the breaker trips when a sliding window holds enough failures, sheds traffic
  for a cool-down, then admits a few probes, whose outcome closes or trips it again.  A probe that
  never reports back holds its slot for a lease at most.  Breakers are kept by key in a registry;
  callers share one breaker through atomic cells and a mutex around its window.

  The sampler.  A request holds the conversation, a list of items (\<^verbatim>\<open>conversation.rs\<close>): what the system,
  the user and the assistant said, the tool calls of the assistant and their results, reasoning.  A
  provider refuses a history whose tool calls and results do not pair up, so \<^verbatim>\<open>repair_history\<close>
  (\<^verbatim>\<open>compaction_utils.rs\<close>) removes duplicate and displaced results and answers dangling calls.  The
  reply is a stream of frames that \<^verbatim>\<open>client.rs\<close> decodes; a transformer per API
  (\<^verbatim>\<open>stream/chat_completions.rs\<close>, \<^verbatim>\<open>stream/messages.rs\<close>,
  \<^verbatim>\<open>stream/responses.rs\<close>) turns it into the events of \<^verbatim>\<open>events.rs\<close>, the last of which carries the
  response with its latency figures (\<^verbatim>\<open>metrics.rs\<close>) or the mirror of an error (\<^verbatim>\<open>error.rs\<close>).  What
  becomes of an error is decided by \<^verbatim>\<open>retry.rs\<close>; a model caught in a loop is reported in band and
  gathered by \<^verbatim>\<open>doom_loop.rs\<close>.  A request is driven by a task (\<^verbatim>\<open>actor/request_task.rs\<close>): it repeats
  attempts until one is accepted, an error is fatal or the request is cancelled, on one budget for
  transport errors and one for loops, and answers with one terminal event.  The actor
  (\<^verbatim>\<open>actor/mod.rs\<close>, \<^verbatim>\<open>actor/state.rs\<close>) starts a task per submission, keeps the table of active requests
  and takes the commands of its handles (\<^verbatim>\<open>handle.rs\<close>, \<^verbatim>\<open>commands.rs\<close>).

  The compaction.  When the history fills the window of the model (\<^verbatim>\<open>intra_compaction/trigger.rs\<close>), its
  turns are compacted up to a split that never parts a call from its result (\<^verbatim>\<open>select.rs\<close>), or all of
  it is replaced.  The conversation is turned into an input that every server accepts and cut to a
  budget of tokens (\<^verbatim>\<open>compaction_utils.rs\<close>); the summary is sampled, with a retry for what is transient
  (\<^verbatim>\<open>code_compaction/sample.rs\<close>); its text is stripped of drafts and of everything that could be read as
  a control tag (\<^verbatim>\<open>summary.rs\<close>); and the new history is put together from the system prompt, the state
  worth keeping, the last query of the user and the summary (\<^verbatim>\<open>assemble.rs\<close>, \<^verbatim>\<open>compaction_utils.rs\<close>).

  Theories, in the order of their dependencies.

  \<^item> \<^verbatim>\<open>Prelude\<close>: byte strings (a \<^verbatim>\<open>String\<close> of the code is the list of its UTF-8 bytes), the string
    operations of the Rust standard library the code uses, options, and the locale of invariants.
  \<^item> \<^verbatim>\<open>Externals\<close>: what the code obtains from outside its own crates, as the fields of the record
    \<^verbatim>\<open>world\<close>: the tree-sitter parser, glob compilation and matching, URL parsing, JSON parsing and
    printing, the file system (symbolic links, canonicalisation).  Syntax trees, paths, JSON values
    are datatypes; nothing is assumed of the fields unless a theorem names the assumption.
  \<^item> \<^verbatim>\<open>Permission_Types\<close>: \<^verbatim>\<open>types.rs\<close>, \<^verbatim>\<open>state.rs\<close> and \<^verbatim>\<open>combine_decisions\<close>; the locales of outcome
    combiners and of gates that only tighten.
  \<^item> \<^verbatim>\<open>Permission_Rules\<close>: \<^verbatim>\<open>rules.rs\<close>.  \<^verbatim>\<open>Bash_Splitting\<close>: \<^verbatim>\<open>bash_command_splitting.rs\<close>.
    \<^verbatim>\<open>Domain_Matcher\<close>: \<^verbatim>\<open>domain.rs\<close>.  \<^verbatim>\<open>Truncation\<close>: \<^verbatim>\<open>truncate.rs\<close>.
  \<^item> \<^verbatim>\<open>Permission_Policy\<close>: \<^verbatim>\<open>policy.rs\<close>; a compiled policy is the record of its configuration, its
    compiled patterns and the two restriction flags.
  \<^item> \<^verbatim>\<open>Shell_Access\<close>: \<^verbatim>\<open>shell_access.rs\<close>, the file gate and the write model of the auto mode.
  \<^item> \<^verbatim>\<open>Bash_Grants\<close>: the pure half of \<^verbatim>\<open>manager.rs\<close> (lines 27 to 822): safe and dangerous commands,
    segment evaluation, stored grants.
  \<^item> \<^verbatim>\<open>Auto_Classifier\<close>: \<^verbatim>\<open>auto_mode.rs\<close>.  \<^verbatim>\<open>Permission_Prompter\<close>: \<^verbatim>\<open>prompter.rs\<close> and
    \<^verbatim>\<open>hub_permission.rs\<close>.
  \<^item> \<^verbatim>\<open>Permission_Manager\<close>: the actor.  Its state is the record \<^verbatim>\<open>actor\<close> (the local variables of the
    task), its fixed inputs the record \<^verbatim>\<open>actor_config\<close>; \<^verbatim>\<open>handle_request\<close> is the whole arm of a request
    and returns the next state, the uploaded event and the answer; \<^verbatim>\<open>handle_command\<close> is one turn of
    the loop.  \<^verbatim>\<open>manager_step\<close> interleaves the operations of the handle, which set shared flags at
    once and queue a command, with the turns of the actor.  What a request meets while it is being
    served (a requester that goes away, the user's answer, the model's reply) is the record
    \<^verbatim>\<open>request_env\<close>.
  \<^item> \<^verbatim>\<open>Manager_Safety\<close>: the properties of the actor.  \<^verbatim>\<open>Permission_Resolution\<close>: \<^verbatim>\<open>resolution.rs\<close>.
  \<^item> \<^verbatim>\<open>Sliding_Window\<close>: \<^verbatim>\<open>window.rs\<close> of \<^verbatim>\<open>common/xai-circuit-breaker/src\<close>, and the locale of counted
    windows.  \<^verbatim>\<open>Circuit_Breaker\<close>: \<^verbatim>\<open>state.rs\<close>, \<^verbatim>\<open>breaker.rs\<close> and \<^verbatim>\<open>observer.rs\<close>; the record \<^verbatim>\<open>breaker\<close> has a
    field for every cell of \<^verbatim>\<open>CircuitBreakerInner\<close> at its width, an operation gets its readings of the
    clock as arguments, and \<^verbatim>\<open>breaker_step\<close> is one operation of a run.  \<^verbatim>\<open>phase\<close> is the plain machine it
    implements.  \<^verbatim>\<open>Breaker_Config\<close>: \<^verbatim>\<open>config.rs\<close>, \<^verbatim>\<open>retry_policy.rs\<close>, \<^verbatim>\<open>registry.rs\<close>.
    \<^verbatim>\<open>Breaker_Threads\<close>: the same operations as threads whose steps are single accesses to the cells,
    interleaved in any order.

  \<^item> \<^verbatim>\<open>Numerals\<close>: decimal numbers as the standard library prints and parses them.  \<^verbatim>\<open>Conversation\<close>: the data
    model of \<^verbatim>\<open>conversation.rs\<close>.  \<^verbatim>\<open>History_Repair\<close>: the repairs of \<^verbatim>\<open>conversation.rs\<close> and
    \<^verbatim>\<open>compaction_utils.rs\<close>; loops over an index become recursion on the rest of the list.  \<^verbatim>\<open>Rewind\<close>:
    \<^verbatim>\<open>conversation_truncate_for_prompt\<close> and its three forms.
  \<^item> \<^verbatim>\<open>Sampling_Errors\<close>: \<^verbatim>\<open>error.rs\<close>, \<^verbatim>\<open>SamplingErrorInfo\<close> of \<^verbatim>\<open>events.rs\<close>, \<^verbatim>\<open>clone_error\<close> of \<^verbatim>\<open>retry.rs\<close>
    and \<^verbatim>\<open>synthesize_from_info\<close> of \<^verbatim>\<open>request_task.rs\<close>; the texts of the HTTP and JSON libraries are the
    record \<^verbatim>\<open>libraries\<close>.  \<^verbatim>\<open>Sampling_Events\<close>: \<^verbatim>\<open>events.rs\<close>, \<^verbatim>\<open>metrics.rs\<close>, \<^verbatim>\<open>collect.rs\<close>.
    \<^verbatim>\<open>Sampler_Retry\<close>: \<^verbatim>\<open>retry.rs\<close>.  \<^verbatim>\<open>Doom_Loop\<close>: the two \<^verbatim>\<open>doom_loop.rs\<close>.
  \<^item> \<^verbatim>\<open>Stream_Common\<close>: the loop all transformers share.  A stream is the list of what its polls yield (an
    item, an error, a silence longer than the idle timeout); the clock is a function from the number
    of readings; the state of a transformer extends the record \<^verbatim>\<open>emitter\<close>, whose field \<^verbatim>\<open>out\<close> is the
    list of the events sent so far.  \<^verbatim>\<open>Chat_Stream\<close> and \<^verbatim>\<open>Messages_Stream\<close>: the transformers.
    \<^verbatim>\<open>Responses_Model\<close>: the wire types of the Responses API and their conversion to items
    (\<^verbatim>\<open>conversation.rs\<close>).  \<^verbatim>\<open>Sse_Decoding\<close>: the decoders of \<^verbatim>\<open>client.rs\<close>; the parsers that serde
    derives are the record \<^verbatim>\<open>wire_formats\<close>.  \<^verbatim>\<open>Responses_Stream\<close>: the transformer together with its
    decoder, since the two share the doom-loop collector.
  \<^item> \<^verbatim>\<open>Sampler_Task\<close>: \<^verbatim>\<open>request_task.rs\<close>.  The record \<^verbatim>\<open>task\<close> has the variables of the loop and what was
    sent, \<^verbatim>\<open>one_round\<close> is its body and \<^verbatim>\<open>iterate\<close> the loop, a partial function; what an attempt meets
    (the connection, its frames, the clock, a cancellation) is the record \<^verbatim>\<open>attempt_env\<close>.
    \<^verbatim>\<open>Sampler_Actor\<close>: the actor, its tasks and its handles as the step relation \<^verbatim>\<open>sampler_step\<close>; a
    cancellation token is the number of its submission.

  \<^item> \<^verbatim>\<open>Machine_Words\<close>: saturating arithmetic and the parser of small numbers.  \<^verbatim>\<open>Text_Search\<close>: the searches,
    replacements and trims of strings, with the laws the compaction rests on.
  \<^item> \<^verbatim>\<open>Turn_Selection\<close>: \<^verbatim>\<open>select.rs\<close>, \<^verbatim>\<open>trigger.rs\<close>, \<^verbatim>\<open>config.rs\<close>.  \<^verbatim>\<open>Summary_Cleaning\<close>: \<^verbatim>\<open>summary.rs\<close>.
    \<^verbatim>\<open>Summary_Sampling\<close>: \<^verbatim>\<open>failure.rs\<close>, \<^verbatim>\<open>sample.rs\<close>, \<^verbatim>\<open>compact.rs\<close>, \<^verbatim>\<open>assemble.rs\<close>, \<^verbatim>\<open>prompt.rs\<close>; the
    sampler is a function from the number of the call, and the template of the prompt is a parameter.
    \<^verbatim>\<open>Compaction_Input\<close>: \<^verbatim>\<open>compaction_utils.rs\<close> with the estimates of tokens it cuts by; the text
    shown for a tool that runs at the server is a parameter.

  What the lemmas show.  The policy: deny beats ask beats allow, restrictions only tighten, the two
  shell gates reject exactly the scripts with a denied command or a denied file, at any nesting.  The
  grants: a dangerous command is never waved through, an "always allow" covers the command it was
  given for.  The auto mode: an allowance of the heuristic accounts for every command, every assigned
  variable and every written file.  The actor: denials are final in every mode, ask rules are a floor,
  every unprompted allowance names a reason that holds, every request is answered, answers grant only
  what was asked, the invariants hold in every reachable state and the shared flags agree with the
  modes whenever the queue is drained.  The resolution: the managed pin removes every catch-all of
  lesser trust, MCP denials beat allowances however an address is written.  The rest: round trips of
  the rule syntax, of soft breaks and of soft wrapping.  The repair: every call is answered by exactly
  one result behind it, nothing else is touched, and a second run changes nothing, unless one message
  makes two calls with one id.  The rewind: exactly the earlier prompts stay.  The streams: one
  terminal event at the end, the first token announced once, tokens numbered without a gap; a
  completed response is what was streamed, in order; a cut-off reply of the Messages API never
  completes.  A completed Responses
  stream keeps every item and call of the server's response.  The errors: the mirror keeps kind and
  retryability; the decision table of retries, its budget and its backoff.  The task: it ends whatever
  the server does, within its two budgets; it answers once, event and completion agreeing; what it
  accepts is neither cut off nor empty.  The actor: its table is sound in every reachable state, and a
  cancellation reaches its request, unless an id is used twice.  The compaction: a split parts no call from its
  result and the selected turns are a prefix; a cleaned summary holds no control
  tag, and one that begins with a numbered section is kept, its tags defused; transient failures are
  retried within the budget, others end at once; the input pairs up and, wherever a tail that starts at
  a turn fits, keeps its budget; the new history holds the query, its pairs and its order.  The breaker: the invariant of its cells, the
  refinement of the plain machine, recovery within a cool-down whatever was lost, the exact number of
  probes, the trip rule of the presets; a thread alone is the sequential operation, racing checks
  share the slots, and two races the code loses: a trip whose cool-down is skipped and a slot that is
  used twice.

  Bounds and fuel.  The code's own bounds are kept: 8 levels of nested \<^verbatim>\<open>bash -c\<close> (beyond them the
  gate asks), 8 rounds of wrapper peeling, 40 symbolic links, 12 recorded decisions, 10000 window
  samples.  The walk over a syntax tree (a loop over a stack in the code) recurses on the number of
  nodes left; every other loop is structural recursion or has its measure, but for the retry loop of a request:
  it is a partial function, and it is proved to end from the rank that its budgets give it.  No theorem
  is restricted to runs with enough fuel.

  Numbers.  Byte positions and lengths are natural numbers: they are indices into strings that fit in
  memory, and the code only adds small constants to them.  The breaker's cells are machine words with
  their wrap-around; a duration or an instant is a number of nanoseconds, cut to 64 bits of
  milliseconds where the code does it.  The error rate of the window is the exact IEEE rounding of the
  quotient of two counters, and a threshold from the environment is the rounded decimal.  Threads
  interleave sequentially consistently.  Log output, metrics and time stamps of events are left out.

  Not modelled: reading the settings files and the state file, the text of the classifier's prompt,
  display texts of prompts that only the client renders; the HTTP client behind a connection, the
  requests it builds, and the span fields of the sampler's logs; of the compaction, the passes inside
  and between turns, which are asynchronous orchestration over a host's callbacks, the filter of the
  history they read, their reminders and prompts; and the rest of the agent (the turn loop, the tools
  themselves, hooks, MCP transport, configuration, the terminal interface), which calls the permission system only through the handle modelled here.
\<close>

end
